(* ===== verification/Prelude.thy ===== *)
theory Prelude
  imports Main "HOL-Library.Word" "HOL-Library.Char_ord" "HOL-Library.List_Lexorder"
begin

text \<open>
  Shared vocabulary of the development: instants and durations, Go's 64-bit
  integers, lookup tables with primary keys, and the generic list lemmas the
  components use.

  \<^item> An instant (\<open>time.Time\<close>) is an integer number of nanoseconds since Go's zero
    time, so \<open>IsZero\<close> is equality with 0 and \<open>After\<close> is \<open>>\<close>. \<open>UTC()\<close> changes only
    the location of an instant and is the identity here.
  \<^item> A duration (\<open>time.Duration\<close>) is an integer number of nanoseconds; where the
    source multiplies or adds durations the 64-bit wrap-around \<open>int64\<close> is written out.
  \<^item> A SQL table is an association list from primary keys to rows.
\<close>

section \<open>Simplification collections\<close>

named_theorems sql_simps \<open>fault-free execution of the transaction primitives\<close>
named_theorems atomic_intros \<open>composition rules for all-or-nothing operations\<close>
named_theorems table_simps \<open>lookups after table updates\<close>

section \<open>Instants, durations and 64-bit integers\<close>

type_synonym instant = int
type_synonym duration = int

definition IsZeroTime :: "instant \<Rightarrow> bool" where
  [simp]: "IsZeroTime t \<longleftrightarrow> t = 0"

definition int64 :: "int \<Rightarrow> int" where
  "int64 x = signed_take_bit 63 x"

definition max_int64 :: int where
  "max_int64 = 9223372036854775807"

definition fits_int64 :: "int \<Rightarrow> bool" where
  "fits_int64 x \<longleftrightarrow> - max_int64 - 1 \<le> x \<and> x \<le> max_int64"

lemma int64_fits [simp]: "fits_int64 x \<Longrightarrow> int64 x = x"
  by (simp add: int64_def fits_int64_def max_int64_def signed_take_bit_int_eq_self)

lemma fits_int64_nonneg: "0 \<le> x \<Longrightarrow> x \<le> max_int64 \<Longrightarrow> fits_int64 x"
  by (simp add: fits_int64_def max_int64_def)

text \<open>Go's integer division truncates towards zero.\<close>

definition go_div :: "int \<Rightarrow> int \<Rightarrow> int" where
  "go_div a b = sgn a * sgn b * (\<bar>a\<bar> div \<bar>b\<bar>)"

lemma go_div_nonneg [simp]: "0 \<le> a \<Longrightarrow> 0 < b \<Longrightarrow> go_div a b = a div b"
  by (cases "a = 0") (simp_all add: go_div_def)

section \<open>Tables with primary keys\<close>

type_synonym ('k, 'v) table = "('k \<times> 'v) list"

definition wf_table :: "('k, 'v) table \<Rightarrow> bool" where
  "wf_table t \<longleftrightarrow> distinct (map fst t)"

definition tb_has :: "('k, 'v) table \<Rightarrow> 'k \<Rightarrow> bool" where
  "tb_has t k \<longleftrightarrow> map_of t k \<noteq> None"

definition tb_add :: "'k \<Rightarrow> 'v \<Rightarrow> ('k, 'v) table \<Rightarrow> ('k, 'v) table" where
  "tb_add k v t = t @ [(k, v)]"

definition tb_update :: "('k \<Rightarrow> bool) \<Rightarrow> ('v \<Rightarrow> 'v) \<Rightarrow> ('k, 'v) table \<Rightarrow> ('k, 'v) table" where
  "tb_update P f t = map (\<lambda>(k, v). (k, if P k then f v else v)) t"

definition tb_delete :: "('k \<Rightarrow> 'v \<Rightarrow> bool) \<Rightarrow> ('k, 'v) table \<Rightarrow> ('k, 'v) table" where
  "tb_delete P t = filter (\<lambda>(k, v). \<not> P k v) t"

lemma map_of_tb_add [table_simps]:
  "map_of (tb_add k v t) x = (case map_of t x of Some w \<Rightarrow> Some w | None \<Rightarrow> if x = k then Some v else None)"
  by (auto simp: tb_add_def map_add_def split: option.split)

lemma map_of_tb_update [table_simps]:
  "map_of (tb_update P f t) x = (if P x then map_option f (map_of t x) else map_of t x)"
  by (induction t) (auto simp: tb_update_def)

lemma fst_tb_update [simp]: "map fst (tb_update P f t) = map fst t"
  by (induction t) (auto simp: tb_update_def)

lemma map_of_tb_delete [table_simps]:
  assumes "wf_table t"
  shows "map_of (tb_delete P t) x =
    (case map_of t x of None \<Rightarrow> None | Some v \<Rightarrow> if P x v then None else Some v)"
  using assms
proof (induction t)
  case Nil
  then show ?case by (simp add: tb_delete_def)
next
  case (Cons kv t)
  obtain k v where kv: "kv = (k, v)" by force
  from Cons.prems kv have notin: "map_of t k = None" and wf: "wf_table t"
    by (auto simp: wf_table_def map_of_eq_None_iff)
  have IH: "map_of (tb_delete P t) x =
    (case map_of t x of None \<Rightarrow> None | Some v \<Rightarrow> if P x v then None else Some v)"
    by (rule Cons.IH [OF wf])
  show ?case
  proof (cases "x = k")
    case True
    with IH kv notin show ?thesis by (auto simp: tb_delete_def)
  next
    case False
    with IH kv show ?thesis by (auto simp: tb_delete_def)
  qed
qed

lemma wf_tb_add: "wf_table t \<Longrightarrow> \<not> tb_has t k \<Longrightarrow> wf_table (tb_add k v t)"
  by (auto simp: wf_table_def tb_has_def tb_add_def map_of_eq_None_iff)

lemma wf_tb_update [simp]: "wf_table (tb_update P f t) = wf_table t"
  by (simp add: wf_table_def)

lemma wf_tb_delete [simp]: "wf_table t \<Longrightarrow> wf_table (tb_delete P t)"
  by (induction t) (auto simp: wf_table_def tb_delete_def)

lemma wf_table_Nil [simp]: "wf_table []"
  by (simp add: wf_table_def)

lemma tb_has_Some: "map_of t k = Some v \<Longrightarrow> tb_has t k"
  by (simp add: tb_has_def)

lemma map_of_tb_deleteD:
  assumes "wf_table t" and "map_of (tb_delete P t) x = Some v"
  shows "map_of t x = Some v" and "\<not> P x v"
  using assms by (auto simp: map_of_tb_delete split: option.splits if_splits)

section \<open>Results\<close>

text \<open>Sequencing of fallible steps, as the nested case expressions of the model write it.\<close>

lemma case_sum_Inr_iff:
  "(case m of Inl e \<Rightarrow> Inl (f e) | Inr x \<Rightarrow> g x) = Inr y \<longleftrightarrow> (\<exists>x. m = Inr x \<and> g x = Inr y)"
  by (cases m) auto

lemma case_option_Inr_iff:
  "(case m of None \<Rightarrow> Inl e | Some x \<Rightarrow> g x) = Inr y \<longleftrightarrow> (\<exists>x. m = Some x \<and> g x = Inr y)"
  by (cases m) auto

section \<open>Lists\<close>

lemma in_set_map_of: "distinct (map fst t) \<Longrightarrow> (k, v) \<in> set t \<longleftrightarrow> map_of t k = Some v"
  by (simp add: map_of_eq_Some_iff)

lemma append_inject_unique_separator:
  assumes "x \<notin> set as" and "x \<notin> set as'" and "as @ x # bs = as' @ x # bs'"
  shows "as = as' \<and> bs = bs'"
  using assms
proof (induction as arbitrary: as')
  case Nil
  then show ?case by (cases as') auto
next
  case (Cons a as)
  then show ?case by (cases as') auto
qed

end
