(* ===== verification/GoStrings.thy ===== *)
theory GoStrings
  imports Prelude
begin

text \<open>
  The parts of Go's \<open>strings\<close>, \<open>strconv\<close> and \<open>unicode/utf8\<close> packages the program
  uses. A Go string is a byte sequence, here a \<open>string\<close> whose characters are the
  bytes 0 to 255; text literals of the program are ASCII. The UTF-8 functions follow
  the table of accepted byte ranges of \<open>unicode/utf8\<close>.
\<close>

section \<open>UTF-8\<close>

definition byte :: "nat \<Rightarrow> char" where
  "byte n = char_of n"

definition inR :: "nat \<Rightarrow> nat \<Rightarrow> char \<Rightarrow> bool" where
  "inR lo hi c \<longleftrightarrow> lo \<le> of_char c \<and> of_char c \<le> hi"

abbreviation contb :: "char \<Rightarrow> bool" where
  "contb c \<equiv> inR 128 191 c"

text \<open>\<open>utf8.RuneStart\<close>: every byte that is not a continuation byte.\<close>

definition RuneStart :: "char \<Rightarrow> bool" where
  "RuneStart c \<longleftrightarrow> \<not> contb c"

text \<open>
  The number of bytes of the well-formed sequence at the head of a non-empty string,
  0 when the head is not well-formed (\<open>utf8.DecodeRune\<close> then reports \<open>RuneError\<close> with
  width 1).
\<close>

definition seq2 :: "char \<Rightarrow> char \<Rightarrow> bool" where
  "seq2 a b \<longleftrightarrow> inR 194 223 a \<and> contb b"

definition seq3 :: "char \<Rightarrow> char \<Rightarrow> char \<Rightarrow> bool" where
  "seq3 a b c \<longleftrightarrow> inR 224 239 a \<and> contb c \<and> contb b \<and>
     (inR 224 224 a \<longrightarrow> inR 160 191 b) \<and> (inR 237 237 a \<longrightarrow> inR 128 159 b)"

definition seq4 :: "char \<Rightarrow> char \<Rightarrow> char \<Rightarrow> char \<Rightarrow> bool" where
  "seq4 a b c d \<longleftrightarrow> inR 240 244 a \<and> contb c \<and> contb d \<and> contb b \<and>
     (inR 240 240 a \<longrightarrow> inR 144 191 b) \<and> (inR 244 244 a \<longrightarrow> inR 128 143 b)"

fun rune_len :: "string \<Rightarrow> nat" where
  "rune_len [] = 0"
| "rune_len (a # s) =
    (if inR 0 127 a then 1
     else case s of [] \<Rightarrow> 0
     | b # s \<Rightarrow> if seq2 a b then 2
     else case s of [] \<Rightarrow> 0
     | c # s \<Rightarrow> if seq3 a b c then 3
     else case s of [] \<Rightarrow> 0
     | d # s \<Rightarrow> if seq4 a b c d then 4 else 0)"

function ValidString :: "string \<Rightarrow> bool" where
  "ValidString s =
    (if s = [] then True else if rune_len s = 0 then False else ValidString (drop (rune_len s) s))"
  by auto
termination
  by (relation "measure length") (auto simp: neq_Nil_conv)

declare ValidString.simps [simp del]

text \<open>\<open>strings.ToValidUTF8\<close>: every maximal run of invalid bytes becomes one replacement.\<close>

function to_valid_utf8 :: "string \<Rightarrow> bool \<Rightarrow> string \<Rightarrow> string" where
  "to_valid_utf8 rep bad s =
    (if s = [] then []
     else if rune_len s = 0 then (if bad then [] else rep) @ to_valid_utf8 rep True (drop 1 s)
     else take (rune_len s) s @ to_valid_utf8 rep False (drop (rune_len s) s))"
  by auto
termination
  by (relation "measure (\<lambda>(_, _, s). length s)") (auto simp: neq_Nil_conv)

declare to_valid_utf8.simps [simp del]

definition ToValidUTF8 :: "string \<Rightarrow> string \<Rightarrow> string" where
  "ToValidUTF8 s rep = to_valid_utf8 rep False s"

definition replacement_rune :: string where
  "replacement_rune = map byte [239, 191, 189]"

section \<open>White space\<close>

text \<open>
  The UTF-8 encodings of the runes for which \<open>unicode.IsSpace\<close> holds. None of them is
  a proper prefix or suffix of another and each starts with a rune start byte, so
  decoding the first or the last rune of a string and testing it for white space is
  the same as testing for one of these encodings at that end.
\<close>

definition space_encodings :: "string list" where
  "space_encodings = map (map byte)
    ([[9], [10], [11], [12], [13], [32], [194, 133], [194, 160], [225, 154, 128]] @
     map (\<lambda>b. [226, 128, b]) [128, 129, 130, 131, 132, 133, 134, 135, 136, 137, 138, 168, 169, 175] @
     [[226, 129, 159], [227, 128, 128]])"

fun strip_with :: "nat \<Rightarrow> string list \<Rightarrow> string \<Rightarrow> string" where
  "strip_with 0 ps s = s"
| "strip_with (Suc n) ps s =
    (case find (\<lambda>p. take (length p) s = p) ps of
       None \<Rightarrow> s
     | Some p \<Rightarrow> strip_with n ps (drop (length p) s))"

definition TrimLeftSpace :: "string \<Rightarrow> string" where
  "TrimLeftSpace s = strip_with (length s) space_encodings s"

definition TrimRightSpace :: "string \<Rightarrow> string" where
  "TrimRightSpace s = rev (strip_with (length s) (map rev space_encodings) (rev s))"

definition TrimSpace :: "string \<Rightarrow> string" where
  "TrimSpace s = TrimRightSpace (TrimLeftSpace s)"

section \<open>Decimal integers\<close>

definition digit :: "nat \<Rightarrow> char" where
  "digit d = char_of (48 + d)"

fun decimal :: "nat \<Rightarrow> string" where
  "decimal n = (if n < 10 then [digit n] else decimal (n div 10) @ [digit (n mod 10)])"

declare decimal.simps [simp del]

definition is_digit :: "char \<Rightarrow> bool" where
  "is_digit c = inR 48 57 c"

definition undecimal :: "string \<Rightarrow> nat" where
  "undecimal s = foldl (\<lambda>n c. 10 * n + (of_char c - 48)) 0 s"

section \<open>Facts\<close>

lemma of_char_less [simp]: "(of_char c :: nat) < 256"
  by simp

lemma rune_len_le: "rune_len s \<le> length s"
  by (cases s) (auto split: list.split)

text \<open>The shape of a string by the length of its first rune.\<close>

lemma rune_len_2: "rune_len s = 2 \<Longrightarrow> \<exists>a b t. s = a # b # t \<and> seq2 a b"
  by (cases s) (auto split: list.splits if_splits)

lemma rune_len_3: "rune_len s = 3 \<Longrightarrow> \<exists>a b c t. s = a # b # c # t \<and> seq3 a b c"
  by (cases s) (auto split: list.splits if_splits)

lemma rune_len_4: "rune_len s = 4 \<Longrightarrow> \<exists>a b c d t. s = a # b # c # d # t \<and> seq4 a b c d"
  by (cases s) (auto split: list.splits if_splits)

lemma rune_len_range: "rune_len s \<in> {0, 1, 2, 3, 4}"
  by (cases s) (auto split: list.splits)

text \<open>Inside a well-formed sequence every byte after the first is a continuation byte.\<close>

lemma rune_len_inner:
  assumes "0 < k" and "k < rune_len s"
  shows "contb (s ! k)"
proof -
  consider "rune_len s = 0" | "rune_len s = 1" | "rune_len s = 2" | "rune_len s = 3" | "rune_len s = 4"
    using rune_len_range [of s] by auto
  then show ?thesis
  proof cases
    case 3
    with assms have "k = 1" by simp
    with rune_len_2 [OF 3] show ?thesis by (auto simp: seq2_def)
  next
    case 4
    with assms have "k = 1 \<or> k = 2" by auto
    with rune_len_3 [OF 4] show ?thesis by (auto simp: seq3_def)
  next
    case 5
    with assms have "k = 1 \<or> k = 2 \<or> k = 3" by auto
    with rune_len_4 [OF 5] show ?thesis by (auto simp: seq4_def eval_nat_numeral)
  qed (use assms in auto)
qed

text \<open>The length of the first rune depends on its own bytes only.\<close>

lemma rune_len_prefix:
  assumes "rune_len s > 0"
  shows "rune_len (take (rune_len s) s @ t) = rune_len s"
proof -
  consider "rune_len s = 1" | "rune_len s = 2" | "rune_len s = 3" | "rune_len s = 4"
    using rune_len_range [of s] assms by auto
  then show ?thesis
  proof cases
    case 1
    then obtain a u where s: "s = a # u" by (cases s) auto
    with 1 show ?thesis by (auto split: list.splits if_split_asm)
  next
    case 2
    with rune_len_2 obtain a b u where s: "s = a # b # u" by blast
    with 2 show ?thesis by (auto split: list.splits if_split_asm)
  next
    case 3
    with rune_len_3 obtain a b c u where s: "s = a # b # c # u" by blast
    with 3 have t: "take (rune_len s) s = [a, b, c]" by simp
    from 3 s show ?thesis unfolding t by (auto split: list.splits if_split_asm)
  next
    case 4
    with rune_len_4 obtain a b c d u where s: "s = a # b # c # d # u" by blast
    with 4 have t: "take (rune_len s) s = [a, b, c, d]" by simp
    from 4 s show ?thesis unfolding t by (auto split: list.splits if_split_asm)
  qed
qed

lemma rune_len_take:
  assumes "rune_len s > 0" and "rune_len s \<le> n"
  shows "rune_len (take n s) = rune_len s"
proof -
  have "take n s = take (rune_len s) s @ take (n - rune_len s) (drop (rune_len s) s)"
    using assms(2) by (metis append_take_drop_id drop_take min.absorb1 take_take)
  then show ?thesis using rune_len_prefix [OF assms(1)] by simp
qed

text \<open>Cutting a valid string at a rune start leaves a valid string.\<close>

lemma ValidString_take:
  "ValidString s \<Longrightarrow> k < length s \<Longrightarrow> RuneStart (s ! k) \<Longrightarrow> ValidString (take k s)"
proof (induction s arbitrary: k rule: ValidString.induct)
  case (1 s)
  show ?case
  proof (cases "k = 0")
    case True
    then show ?thesis by (simp add: ValidString.simps)
  next
    case False
    let ?w = "rune_len s"
    from "1.prems" have ne: "s \<noteq> []" by auto
    with "1.prems"(1) have w: "?w > 0" and v: "ValidString (drop ?w s)"
      by (auto simp: ValidString.simps [of s] split: if_splits)
    have "\<not> k < ?w" using rune_len_inner [of k s] False "1.prems"(3) by (auto simp: RuneStart_def)
    then have le: "?w \<le> k" by simp
    have "ValidString (take (k - ?w) (drop ?w s))"
      using "1.IH" [OF ne _ v, of "k - ?w"] w "1.prems" le by simp
    then have "ValidString (drop ?w (take k s))" by (simp add: drop_take)
    moreover have "rune_len (take k s) = ?w" using w le by (rule rune_len_take)
    moreover have "take k s \<noteq> []" using ne False by simp
    ultimately show ?thesis using w by (simp add: ValidString.simps [of "take k s"])
  qed
qed

lemma ValidString_append_rune:
  assumes "rune_len s > 0" and "ValidString t"
  shows "ValidString (take (rune_len s) s @ t)"
proof -
  let ?u = "take (rune_len s) s @ t"
  have "rune_len ?u = rune_len s" using assms(1) by (rule rune_len_prefix)
  moreover have "drop (rune_len s) ?u = t" using rune_len_le [of s] by simp
  moreover have "?u \<noteq> []" using assms(1) by (cases s) auto
  ultimately show ?thesis using assms by (simp add: ValidString.simps [of ?u])
qed

lemma ValidString_replacement: "ValidString t \<Longrightarrow> ValidString (replacement_rune @ t)"
  using ValidString_append_rune [of replacement_rune t]
  by (simp add: replacement_rune_def byte_def seq2_def seq3_def inR_def)

lemma ValidString_to_valid_utf8: "ValidString (to_valid_utf8 replacement_rune bad s)"
proof (induction replacement_rune bad s rule: to_valid_utf8.induct)
  case (1 bad s)
  show ?case
  proof (cases "s = []")
    case True
    then show ?thesis by (simp add: to_valid_utf8.simps ValidString.simps)
  next
    case False
    then show ?thesis
      using 1 by (subst to_valid_utf8.simps)
        (auto intro: ValidString_append_rune ValidString_replacement)
  qed
qed

lemma ValidString_ToValidUTF8: "ValidString (ToValidUTF8 s replacement_rune)"
  by (simp add: ToValidUTF8_def ValidString_to_valid_utf8)

text \<open>ASCII text is valid and is left unchanged by \<open>ToValidUTF8\<close>.\<close>

lemma rune_len_ascii: "inR 0 127 a \<Longrightarrow> rune_len (a # s) = 1"
  by simp

lemma ToValidUTF8_ascii: "list_all (inR 0 127) s \<Longrightarrow> ToValidUTF8 s rep = s"
proof -
  have "list_all (inR 0 127) s \<Longrightarrow> to_valid_utf8 rep b s = s" for b
    by (induction s arbitrary: b) (simp_all add: to_valid_utf8.simps)
  then show "list_all (inR 0 127) s \<Longrightarrow> ToValidUTF8 s rep = s" by (simp add: ToValidUTF8_def)
qed

subsection \<open>Decimal round trip\<close>

lemma of_char_digit: "d < 10 \<Longrightarrow> (of_char (digit d) :: nat) = 48 + d"
  by (simp add: digit_def)

lemma undecimal_snoc: "undecimal (s @ [c]) = 10 * undecimal s + (of_char c - 48)"
  by (simp add: undecimal_def)

lemma undecimal_decimal [simp]: "undecimal (decimal n) = n"
proof (induction n rule: decimal.induct)
  case (1 n)
  show ?case
  proof (cases "n < 10")
    case True
    then show ?thesis by (simp add: decimal.simps undecimal_def of_char_digit)
  next
    case False
    then show ?thesis
      using 1 by (subst decimal.simps) (simp add: undecimal_snoc of_char_digit)
  qed
qed

lemma decimal_inject [simp]: "decimal m = decimal n \<longleftrightarrow> m = n"
  by (metis undecimal_decimal)

lemma decimal_digits: "list_all is_digit (decimal n)"
proof (induction n rule: decimal.induct)
  case (1 n)
  then show ?case
    using mod_less_divisor [of 10 n]
    by (subst decimal.simps) (auto simp: is_digit_def [of "digit _"] inR_def of_char_digit)
qed

lemma decimal_nonempty [simp]: "decimal n \<noteq> []"
  by (subst decimal.simps) simp

text \<open>Trimming leaves a string alone that starts and ends with a printable ASCII character.\<close>

abbreviation graphic :: "char \<Rightarrow> bool" where
  "graphic c \<equiv> inR 33 126 c"

lemma space_encodings_ends: "p \<in> set space_encodings \<Longrightarrow> p \<noteq> [] \<and> \<not> graphic (hd p) \<and> \<not> graphic (last p)"
  by (auto simp: space_encodings_def byte_def inR_def)

lemma strip_with_none:
  assumes "\<And>p. p \<in> set ps \<Longrightarrow> p \<noteq> [] \<and> \<not> P (hd p)" and "s \<noteq> []" and "P (hd s)"
  shows "strip_with n ps s = s"
proof (cases n)
  case (Suc m)
  have "find (\<lambda>p. take (length p) s = p) ps = None"
    unfolding find_None_iff
  proof
    assume "\<exists>p. p \<in> set ps \<and> take (length p) s = p"
    then obtain p where p: "p \<in> set ps" "take (length p) s = p" by blast
    then have "hd s = hd p" using assms(1) [of p] assms(2) by (metis hd_take length_greater_0_conv)
    with assms(1) [of p] assms(3) p(1) show False by simp
  qed
  with Suc show ?thesis by simp
qed simp

lemma TrimSpace_graphic:
  assumes "s \<noteq> []" and "graphic (hd s)" and "graphic (last s)"
  shows "TrimSpace s = s"
proof -
  have "TrimLeftSpace s = s"
    unfolding TrimLeftSpace_def using space_encodings_ends assms(1,2) by (intro strip_with_none [where P = graphic]) auto
  moreover have "TrimRightSpace s = s"
    unfolding TrimRightSpace_def
    using space_encodings_ends assms by (subst strip_with_none [where P = graphic]) (auto simp: hd_rev)
  ultimately show ?thesis by (simp add: TrimSpace_def)
qed

lemma TrimSpace_Nil [simp]: "TrimSpace [] = []"
  by (simp add: TrimSpace_def TrimLeftSpace_def TrimRightSpace_def)

end
