(* ===== verification/Failure.thy ===== *)
theory Failure
  imports GoStrings
begin

text \<open>
  Errors and failure classification: \<open>errors.go\<close>, \<open>failure.go\<close> and the delay markers
  of \<open>batch.go\<close>. A Go error is a finite tree: a sentinel, an opaque application error, or a
  wrapper around one or several causes (\<open>fmt.Errorf\<close> with one or several \<open>%w\<close>, \<open>errors.Join\<close>,
  and the marker types of this program). The text carried by \<open>Wrap\<close> is the fixed part of the
  message. A nil error is \<open>None\<close>. \<open>errors.Is\<close> and \<open>errors.As\<close> walk the tree depth first,
  the node before its causes.
\<close>

section \<open>Error values\<close>

datatype sentinel =
    ErrInvalidDescriptor | ErrInvalidMessage | ErrDescriptorConflict | ErrHandlerConflict
  | ErrHandlerNotFound | ErrQueryResultMissing | ErrRouteConflict | ErrRouteNotFound
  | ErrUnsupportedCapability | ErrMessageExpired | ErrMessageNotReady | ErrServiceConflict
  | ErrRuntimeNotRunning | ErrRuntimeRunning | ErrRuntimeClosed | ErrEnvelopeTooLarge
  | ErrInvalidBatchResult
  | ErrFingerprintConflict | ErrInvalidKey | ErrAttemptsExhausted | ErrAttemptTerminal
  | ErrAttemptConflict | ErrAttemptTrackingUnsupported | ErrBatchAttemptTrackingUnsupported
  | ErrTerminalRetentionUnsupported | ErrTerminalStateMissing
  | NatsErrInvalidConfig | NatsErrConsumerClosed | NatsErrMessageNotReady | NatsErrMessageExpired
  | KafkaErrInvalidConfig | KafkaErrTransportClosed | KafkaErrConsumerClosed
  | KafkaErrMessageExpired | KafkaErrMessageNotReady
  | KafkaErrTopologyDrift | NatsErrTopologyDrift
  | KafkaErrTransactionNotCommitted | KafkaErrRewindNotConfirmed | NatsErrQuarantineReplay
  | ContextCanceled | ContextDeadlineExceeded | SqlErrNoRows

datatype err =
    Sentinel sentinel
  | Plain string
  | Wrap string "err list"
  | PermanentError err
  | RetryAfterError err duration
  | DeferAfterError err duration
  | PanicError string
  | SanitizedError err string

text \<open>A context that is nil, or one whose \<open>Err()\<close> is the given value.\<close>

datatype ctx = NilCtx | Ctx "err option"

section \<open>\<open>errors.Is\<close>, \<open>errors.As\<close> and \<open>errors.Join\<close>\<close>

fun err_nodes :: "err \<Rightarrow> err list" where
  "err_nodes (Sentinel s) = [Sentinel s]"
| "err_nodes (Plain t) = [Plain t]"
| "err_nodes (Wrap t es) = Wrap t es # concat (map err_nodes es)"
| "err_nodes (PermanentError e) = PermanentError e # err_nodes e"
| "err_nodes (RetryAfterError e d) = RetryAfterError e d # err_nodes e"
| "err_nodes (DeferAfterError e d) = DeferAfterError e d # err_nodes e"
| "err_nodes (PanicError h) = [PanicError h]"
| "err_nodes (SanitizedError e t) = SanitizedError e t # err_nodes e"

definition errors_Is :: "err \<Rightarrow> sentinel \<Rightarrow> bool" where
  "errors_Is e s \<longleftrightarrow> Sentinel s \<in> set (err_nodes e)"

definition errors_Is_opt :: "err option \<Rightarrow> sentinel \<Rightarrow> bool" where
  "errors_Is_opt e s = (case e of None \<Rightarrow> False | Some x \<Rightarrow> errors_Is x s)"

fun err_first :: "(err \<Rightarrow> 'a option) \<Rightarrow> err list \<Rightarrow> 'a option" where
  "err_first f [] = None"
| "err_first f (e # es) = (case f e of Some x \<Rightarrow> Some x | None \<Rightarrow> err_first f es)"

definition errors_As :: "(err \<Rightarrow> 'a option) \<Rightarrow> err \<Rightarrow> 'a option" where
  "errors_As f e = err_first f (err_nodes e)"

definition errors_Join :: "err option list \<Rightarrow> err option" where
  "errors_Join es =
    (case List.map_filter id es of [] \<Rightarrow> None | x # xs \<Rightarrow> Some (Wrap ''join'' (x # xs)))"

section \<open>Failure markers\<close>

definition Permanent :: "err option \<Rightarrow> err option" where
  "Permanent e = map_option PermanentError e"

definition RetryAfter :: "err option \<Rightarrow> duration \<Rightarrow> err option" where
  "RetryAfter e delay =
    (case e of
       None \<Rightarrow> None
     | Some x \<Rightarrow>
         if delay \<le> 0 then Some (Wrap ''retry delay must be positive'' [Sentinel ErrInvalidMessage, x])
         else Some (RetryAfterError x delay))"

definition DeferAfter :: "err option \<Rightarrow> duration \<Rightarrow> err option" where
  "DeferAfter e delay =
    (case e of
       None \<Rightarrow> None
     | Some x \<Rightarrow>
         if delay \<le> 0 then Some (Wrap ''defer delay must be positive'' [Sentinel ErrInvalidMessage, x])
         else Some (DeferAfterError x delay))"

fun as_permanent :: "err \<Rightarrow> err option" where
  "as_permanent (PermanentError e) = Some e"
| "as_permanent _ = None"

fun as_retry_after :: "err \<Rightarrow> duration option" where
  "as_retry_after (RetryAfterError _ d) = Some d"
| "as_retry_after _ = None"

fun as_defer_after :: "err \<Rightarrow> duration option" where
  "as_defer_after (DeferAfterError _ d) = Some d"
| "as_defer_after _ = None"

fun as_panic :: "err \<Rightarrow> string option" where
  "as_panic (PanicError h) = Some h"
| "as_panic _ = None"

definition IsPermanent :: "err \<Rightarrow> bool" where
  "IsPermanent e \<longleftrightarrow> errors_As as_permanent e \<noteq> None"

definition RetryDelay :: "err \<Rightarrow> duration option" where
  "RetryDelay e = errors_As as_retry_after e"

definition DeferDelay :: "err \<Rightarrow> duration option" where
  "DeferDelay e = errors_As as_defer_after e"

definition HandlerCompletionError :: "ctx \<Rightarrow> err option \<Rightarrow> err option" where
  "HandlerCompletionError ctx handlerErr =
    (case handlerErr of
       Some e \<Rightarrow> Some e
     | None \<Rightarrow>
         (case ctx of
            NilCtx \<Rightarrow> Some (Wrap ''nil handler context'' [Sentinel ErrInvalidMessage])
          | Ctx e \<Rightarrow> e))"

section \<open>Safe failure text\<close>

definition handlerPanicText :: "string \<Rightarrow> string" where
  "handlerPanicText handlerID =
    (if handlerID = [] then ''messenger: handler panicked''
     else ''messenger: handler '' @ handlerID @ '' panicked'')"

text \<open>
  A sanitizer is nil (\<open>None\<close>) or a function that returns a text or panics (\<open>None\<close>).
\<close>

type_synonym sanitizer = "(err \<Rightarrow> string option) option"

definition operation_failed :: string where
  "operation_failed = ''messenger: operation failed''"

definition defaultFailureSanitizer :: "err \<Rightarrow> string" where
  "defaultFailureSanitizer e =
    (case errors_As as_panic e of
       Some h \<Rightarrow> handlerPanicText h
     | None \<Rightarrow>
        if errors_Is e ContextCanceled then ''context canceled''
        else if errors_Is e ContextDeadlineExceeded then ''context deadline exceeded''
        else if errors_Is e ErrEnvelopeTooLarge then ''messenger: envelope too large''
        else if errors_Is e ErrDescriptorConflict then ''messenger: descriptor conflict''
        else if errors_Is e ErrUnsupportedCapability then ''messenger: unsupported route capability''
        else if errors_Is e ErrMessageExpired then ''messenger: message expired''
        else if errors_Is e ErrMessageNotReady then ''messenger: message not ready''
        else if errors_Is e ErrInvalidMessage then ''messenger: invalid message''
        else if errors_Is e ErrInvalidBatchResult then ''messenger: invalid batch result''
        else operation_failed)"

definition callFailureSanitizer :: "(err \<Rightarrow> string option) \<Rightarrow> err \<Rightarrow> string" where
  "callFailureSanitizer sanitizer e = (case sanitizer e of Some t \<Rightarrow> t | None \<Rightarrow> [])"

definition SanitizeFailure :: "sanitizer \<Rightarrow> err option \<Rightarrow> string" where
  "SanitizeFailure sanitizer e =
    (case e of
       None \<Rightarrow> []
     | Some x \<Rightarrow>
        let chosen = (case sanitizer of None \<Rightarrow> (\<lambda>y. Some (defaultFailureSanitizer y)) | Some f \<Rightarrow> f);
            text = TrimSpace (callFailureSanitizer chosen x)
        in if text = [] then operation_failed else ToValidUTF8 text replacement_rune)"

definition SanitizeError :: "sanitizer \<Rightarrow> err option \<Rightarrow> err option" where
  "SanitizeError sanitizer e =
    (case e of None \<Rightarrow> None | Some x \<Rightarrow> Some (SanitizedError x (SanitizeFailure sanitizer e)))"

fun rune_boundary :: "string \<Rightarrow> nat \<Rightarrow> nat" where
  "rune_boundary text 0 = 0"
| "rune_boundary text (Suc n) = (if RuneStart (text ! Suc n) then Suc n else rune_boundary text n)"

definition BoundedFailureText :: "sanitizer \<Rightarrow> err option \<Rightarrow> int \<Rightarrow> string" where
  "BoundedFailureText sanitizer e limit =
    (if limit \<le> 0 then []
     else let text = SanitizeFailure sanitizer e in
       if int (length text) \<le> limit then text
       else take (rune_boundary text (nat limit)) text)"

section \<open>Facts\<close>

lemma err_first_append:
  "err_first f (xs @ ys) = (case err_first f xs of Some x \<Rightarrow> Some x | None \<Rightarrow> err_first f ys)"
  by (induction xs) (auto split: option.split)

lemma errors_Is_simps [simp]:
  "errors_Is (Sentinel s') s \<longleftrightarrow> s = s'"
  "\<not> errors_Is (Plain t) s"
  "errors_Is (Wrap t es) s \<longleftrightarrow> (\<exists>e\<in>set es. errors_Is e s)"
  "errors_Is (PermanentError e) s = errors_Is e s"
  "errors_Is (RetryAfterError e d) s = errors_Is e s"
  "errors_Is (DeferAfterError e d) s = errors_Is e s"
  "errors_Is (SanitizedError e t) s = errors_Is e s"
  "\<not> errors_Is (PanicError h) s"
  by (auto simp: errors_Is_def)

lemma errors_As_wrap1 [simp]: "f (Wrap t [e]) = None \<Longrightarrow> errors_As f (Wrap t [e]) = errors_As f e"
  by (simp add: errors_As_def)

lemma IsPermanent_simps [simp]:
  "IsPermanent (PermanentError e)"
  "IsPermanent (Wrap t [e]) = IsPermanent e"
  "IsPermanent (SanitizedError e t) = IsPermanent e"
  "IsPermanent (DeferAfterError e d) = IsPermanent e"
  "IsPermanent (RetryAfterError e d) = IsPermanent e"
  "\<not> IsPermanent (Sentinel s)"
  "\<not> IsPermanent (Plain u)"
  by (simp_all add: IsPermanent_def errors_As_def)

lemma DeferDelay_simps [simp]:
  "DeferDelay (PermanentError e) = DeferDelay e"
  "DeferDelay (Wrap t [e]) = DeferDelay e"
  "DeferDelay (SanitizedError e t) = DeferDelay e"
  "DeferDelay (DeferAfterError e d) = Some d"
  "DeferDelay (RetryAfterError e d) = DeferDelay e"
  "DeferDelay (Sentinel s) = None"
  "DeferDelay (Plain u) = None"
  by (simp_all add: DeferDelay_def errors_As_def)

lemma RetryDelay_simps [simp]:
  "RetryDelay (PermanentError e) = RetryDelay e"
  "RetryDelay (Wrap t [e]) = RetryDelay e"
  "RetryDelay (SanitizedError e t) = RetryDelay e"
  "RetryDelay (DeferAfterError e d) = RetryDelay e"
  "RetryDelay (RetryAfterError e d) = Some d"
  "RetryDelay (Sentinel s) = None"
  "RetryDelay (Plain u) = None"
  by (simp_all add: RetryDelay_def errors_As_def)

lemma err_first_Some: "err_first f es = Some d \<Longrightarrow> \<exists>e\<in>set es. f e = Some d"
  by (induction es) (auto split: option.splits)

lemma rune_boundary_le: "rune_boundary text n \<le> n"
  by (induction n) auto

lemma rune_boundary_start: "rune_boundary text n > 0 \<Longrightarrow> RuneStart (text ! rune_boundary text n)"
  by (induction n) (auto split: if_splits)

lemma operation_failed_ascii: "list_all (inR 0 127) operation_failed"
  by (simp add: operation_failed_def inR_def)

lemma ValidString_ascii: "list_all (inR 0 127) s \<Longrightarrow> ValidString s"
  by (induction s) (auto simp: ValidString.simps)

lemma ValidString_SanitizeFailure: "ValidString (SanitizeFailure sanitizer e)"
  by (auto simp: SanitizeFailure_def Let_def ValidString_ToValidUTF8 operation_failed_ascii
      ValidString_ascii split: option.split)

lemma ValidString_cut:
  assumes "ValidString text" and "n < length text"
  shows "ValidString (take (rune_boundary text n) text)"
proof (cases "rune_boundary text n = 0")
  case True
  then show ?thesis by (simp add: ValidString_ascii)
next
  case False
  then show ?thesis
    using assms rune_boundary_le [of "text" n] rune_boundary_start [of "text" n]
    by (intro ValidString_take) auto
qed

end
