(* ===== verification/Identity.thy ===== *)
theory Identity
  imports Failure
begin

text \<open>
  Message identity and message metadata: \<open>kind.go\<close>, \<open>message_id.go\<close>, \<open>descriptor.go\<close>, the
  encodings of \<open>codec.go\<close> and the metadata record of \<open>message.go\<close>. A message id is a 128-bit
  word, its text is the canonical lowercase UUID form. Kinds are Go strings, so unknown
  kinds are values too. A codec is reduced to the two methods a descriptor reads.
\<close>

section \<open>Kinds and encodings\<close>

type_synonym kind = string

definition KindCommand :: kind where "KindCommand = ''command''"
definition KindEvent :: kind where "KindEvent = ''event''"
definition KindQuery :: kind where "KindQuery = ''query''"

definition kind_valid :: "kind \<Rightarrow> bool" where
  "kind_valid k \<longleftrightarrow> k = KindCommand \<or> k = KindEvent \<or> k = KindQuery"

definition kind_validWire :: "kind \<Rightarrow> bool" where
  "kind_validWire k \<longleftrightarrow> k = KindCommand \<or> k = KindEvent"

type_synonym dataEncoding = "8 word"

definition DataJSON :: dataEncoding where "DataJSON = 1"
definition DataText :: dataEncoding where "DataText = 2"
definition DataBinary :: dataEncoding where "DataBinary = 3"

definition encoding_valid :: "dataEncoding \<Rightarrow> bool" where
  "encoding_valid e \<longleftrightarrow> e = DataJSON \<or> e = DataText \<or> e = DataBinary"

section \<open>Message identifiers\<close>

type_synonym messageID = "128 word"

definition mid_IsZero :: "messageID \<Rightarrow> bool" where
  "mid_IsZero i \<longleftrightarrow> i = 0"

definition dash :: char where
  "dash = CHR ''-''"

definition hexdigit :: "nat \<Rightarrow> char" where
  "hexdigit d = (if d < 10 then char_of (48 + d) else char_of (87 + d))"

fun hexs :: "nat \<Rightarrow> nat \<Rightarrow> string" where
  "hexs 0 n = []"
| "hexs (Suc k) n = hexs k (n div 16) @ [hexdigit (n mod 16)]"

definition fromHexChar :: "char \<Rightarrow> nat option" where
  "fromHexChar c =
    (if inR 48 57 c then Some (of_char c - 48)
     else if inR 97 102 c then Some (of_char c - 87)
     else if inR 65 70 c then Some (of_char c - 55)
     else None)"

fun unhex :: "nat \<Rightarrow> string \<Rightarrow> nat option" where
  "unhex acc [] = Some acc"
| "unhex acc (c # cs) = (case fromHexChar c of None \<Rightarrow> None | Some d \<Rightarrow> unhex (16 * acc + d) cs)"

definition insert_dashes :: "string \<Rightarrow> string" where
  "insert_dashes h =
    take 8 h @ dash # take 4 (drop 8 h) @ dash # take 4 (drop 12 h) @ dash #
    take 4 (drop 16 h) @ dash # drop 20 h"

definition remove_dashes :: "string \<Rightarrow> string" where
  "remove_dashes v =
    take 8 v @ take 4 (drop 9 v) @ take 4 (drop 14 v) @ take 4 (drop 19 v) @ drop 24 v"

definition mid_String :: "messageID \<Rightarrow> string" where
  "mid_String i = insert_dashes (hexs 32 (unat i))"

definition ParseMessageID :: "string \<Rightarrow> err + messageID" where
  "ParseMessageID value =
    (if length value \<noteq> 36 \<or> value ! 8 \<noteq> dash \<or> value ! 13 \<noteq> dash \<or> value ! 18 \<noteq> dash \<or> value ! 23 \<noteq> dash
     then Inl (Wrap ''malformed message id'' [Sentinel ErrInvalidMessage])
     else case unhex 0 (remove_dashes value) of
       None \<Rightarrow> Inl (Wrap ''malformed message id'' [Sentinel ErrInvalidMessage, Plain ''uuid''])
     | Some n \<Rightarrow>
        let parsed = of_nat n in
        if mid_String parsed \<noteq> value
        then Inl (Wrap ''message id is not canonical'' [Sentinel ErrInvalidMessage])
        else Inr parsed)"

section \<open>Descriptors\<close>

definition maxDescriptorNameLength :: nat where
  "maxDescriptorNameLength = 200"

definition is_lower :: "char \<Rightarrow> bool" where
  "is_lower c = inR 97 122 c"

definition is_alnum :: "char \<Rightarrow> bool" where
  "is_alnum c \<longleftrightarrow> is_lower c \<or> is_digit c"

definition is_separator :: "char \<Rightarrow> bool" where
  "is_separator c \<longleftrightarrow> c = CHR ''.'' \<or> c = CHR ''_'' \<or> c = dash"

text \<open>
  The pattern \<open>^[a-z][a-z0-9]*(?:[._-][a-z0-9]+)*$\<close> as its deterministic automaton: after the first
  letter, every separator must be followed by a letter or digit.
\<close>

fun name_tail :: "string \<Rightarrow> bool" where
  "name_tail [] = True"
| "name_tail (c # cs) =
    (if is_alnum c then name_tail cs
     else is_separator c \<and> (case cs of [] \<Rightarrow> False | d # ds \<Rightarrow> is_alnum d \<and> name_tail ds))"

fun descriptorNamePattern :: "string \<Rightarrow> bool" where
  "descriptorNamePattern [] = False"
| "descriptorNamePattern (c # cs) = (is_lower c \<and> name_tail cs)"

record codec =
  codec_ContentType :: string
  codec_Encoding :: dataEncoding

record descriptorInfo =
  di_Kind :: kind
  di_Name :: string
  di_SchemaVersion :: int
  di_ContentType :: string
  di_DataEncoding :: dataEncoding
  di_Schema :: string

definition newDescriptor :: "kind \<Rightarrow> string \<Rightarrow> int \<Rightarrow> string \<Rightarrow> codec option \<Rightarrow> err + descriptorInfo" where
  "newDescriptor k name schemaVersion schema codec =
    (if \<not> kind_valid k \<or> length name = 0 \<or> length name > maxDescriptorNameLength \<or>
        \<not> descriptorNamePattern name \<or> schemaVersion \<le> 0
     then Inl (Wrap ''descriptor'' [Sentinel ErrInvalidDescriptor])
     else case codec of
       None \<Rightarrow> Inl (Wrap ''descriptor'' [Sentinel ErrInvalidDescriptor])
     | Some c \<Rightarrow>
        if codec_ContentType c = [] \<or> \<not> encoding_valid (codec_Encoding c)
        then Inl (Wrap ''codec'' [Sentinel ErrInvalidDescriptor])
        else Inr \<lparr>di_Kind = k, di_Name = name, di_SchemaVersion = schemaVersion,
                  di_ContentType = codec_ContentType c, di_DataEncoding = codec_Encoding c,
                  di_Schema = schema\<rparr>)"

definition keyFor :: "descriptorInfo \<Rightarrow> kind \<times> string \<times> int" where
  "keyFor info = (di_Kind info, di_Name info, di_SchemaVersion info)"

section \<open>Metadata\<close>

record metadata =
  md_ID :: messageID
  md_Kind :: kind
  md_Name :: string
  md_SchemaVersion :: int
  md_Source :: string
  md_Subject :: string
  md_Time :: instant
  md_CorrelationID :: messageID
  md_CausationID :: messageID
  md_Key :: string
  md_ContentType :: string
  md_Schema :: string
  md_Headers :: "(string \<times> string) list"
  md_NotBefore :: instant
  md_ExpiresAt :: instant

section \<open>Facts\<close>

lemma length_hexs [simp]: "length (hexs k n) = k"
  by (induction k arbitrary: n) auto

lemma fromHexChar_hexdigit: "d < 16 \<Longrightarrow> fromHexChar (hexdigit d) = Some d"
  by (auto simp: fromHexChar_def hexdigit_def inR_def)

lemma unhex_append:
  "unhex acc (xs @ ys) = (case unhex acc xs of None \<Rightarrow> None | Some a \<Rightarrow> unhex a ys)"
  by (induction xs arbitrary: acc) (auto split: option.split)

lemma unhex_hexs: "unhex acc (hexs k n) = Some (acc * 16 ^ k + n mod 16 ^ k)"
proof (induction k arbitrary: n)
  case 0
  then show ?case by simp
next
  case (Suc k)
  have "n mod 16 ^ Suc k = 16 * (n div 16 mod 16 ^ k) + n mod 16"
    by (metis add.commute mod_mult2_eq mult.commute power_Suc)
  with Suc show ?case by (simp add: unhex_append fromHexChar_hexdigit algebra_simps)
qed

lemma length_insert_dashes: "length h = 32 \<Longrightarrow> length (insert_dashes h) = 36"
  by (simp add: insert_dashes_def)

lemma nth_insert_dashes:
  assumes "length h = 32"
  shows "insert_dashes h ! 8 = dash" "insert_dashes h ! 13 = dash"
    "insert_dashes h ! 18 = dash" "insert_dashes h ! 23 = dash"
  using assms by (simp_all add: insert_dashes_def nth_append)

lemma remove_insert_dashes: "length h = 32 \<Longrightarrow> remove_dashes (insert_dashes h) = h"
proof -
  assume len: "length h = 32"
  have "h = take 8 h @ take 4 (drop 8 h) @ take 4 (drop 12 h) @ take 4 (drop 16 h) @ drop 20 h"
    using append_take_drop_id [of 8 h] append_take_drop_id [of 4 "drop 8 h"]
      append_take_drop_id [of 4 "drop 12 h"] append_take_drop_id [of 4 "drop 16 h"]
    by simp
  with len show ?thesis by (simp add: remove_dashes_def insert_dashes_def)
qed

lemma unhex_mid_String [simp]: "unhex 0 (remove_dashes (mid_String i)) = Some (unat i)"
proof -
  have "unat i < 16 ^ 32" using unsigned_less [of i, where ?'a = nat] by simp
  then show ?thesis by (simp add: mid_String_def remove_insert_dashes unhex_hexs)
qed

lemma mid_String_inject [simp]: "mid_String i = mid_String j \<longleftrightarrow> i = j"
  by (metis option.inject word_eq_iff_unsigned unhex_mid_String)

lemma ParseMessageID_String: "ParseMessageID (mid_String i) = Inr i"
proof -
  have "length (mid_String i) = 36" "mid_String i ! 8 = dash" "mid_String i ! 13 = dash"
    "mid_String i ! 18 = dash" "mid_String i ! 23 = dash"
    by (simp_all add: mid_String_def length_insert_dashes nth_insert_dashes)
  then show ?thesis by (simp add: ParseMessageID_def)
qed

lemma ParseMessageID_canonical: "ParseMessageID v = Inr i \<Longrightarrow> v = mid_String i"
  by (auto simp: ParseMessageID_def Let_def split: if_splits option.splits)

lemma name_tail_chars: "name_tail s \<Longrightarrow> c \<in> set s \<Longrightarrow> is_alnum c \<or> is_separator c"
  by (induction s rule: name_tail.induct) (auto split: if_splits list.splits)

lemma descriptorNamePattern_chars:
  "descriptorNamePattern s \<Longrightarrow> c \<in> set s \<Longrightarrow> is_alnum c \<or> is_separator c"
  by (cases s) (auto simp: is_alnum_def dest: name_tail_chars)

end
