(* ===== verification/Batch.thy ===== *)
theory Batch
  imports Identity
begin

text \<open>
  Batch results and batch limits: \<open>batch.go\<close> and the result contract of
  \<open>internal/batchruntime/batchruntime.go\<close>. A Go map whose iteration the code observes is
  a table; a set of keys is a list of the keys seen so far. A nil \<open>*BatchResultBuilder\<close> is
  \<open>None\<close>, and so is the nil map of its zero value.
\<close>

section \<open>Keys, results and the result builder\<close>

record batchItemKey =
  bik_Source :: string
  bik_MessageID :: messageID

record batchItemResult =
  bir_Key :: batchItemKey
  bir_Err :: "err option"

type_synonym batchResult = "batchItemResult list"

record 'p message =
  msg_Metadata :: metadata
  msg_Payload :: 'p

record batchResultBuilder =
  brb_keys :: "batchItemKey list"
  brb_results :: "(batchItemKey, err option) table option"
  brb_validationErr :: "err option"

definition tb_put :: "'k \<Rightarrow> 'v \<Rightarrow> ('k, 'v) table \<Rightarrow> ('k, 'v) table" where
  "tb_put k v t = (if tb_has t k then tb_update (\<lambda>k'. k' = k) (\<lambda>_. v) t else tb_add k v t)"

definition batch_key :: "'p message \<Rightarrow> batchItemKey" where
  "batch_key m = \<lparr>bik_Source = md_Source (msg_Metadata m), bik_MessageID = md_ID (msg_Metadata m)\<rparr>"

definition NewBatchResultBuilder :: "'p message list \<Rightarrow> batchResultBuilder option" where
  "NewBatchResultBuilder messages =
    Some \<lparr>brb_keys = map batch_key messages,
          brb_results = Some (foldl (\<lambda>t m. tb_put (batch_key m) None t) [] messages),
          brb_validationErr = None\<rparr>"

definition FailKey :: "batchItemKey \<Rightarrow> err option \<Rightarrow> batchResultBuilder option \<Rightarrow> batchResultBuilder option" where
  "FailKey key e b =
    (case b of
       None \<Rightarrow> None
     | Some r \<Rightarrow>
        (case brb_results r of
           None \<Rightarrow> b
         | Some t \<Rightarrow>
            if \<not> tb_has t key then
              (if brb_validationErr r = None
               then Some (r\<lparr>brb_validationErr := Some (Wrap ''unknown key'' [Sentinel ErrInvalidBatchResult])\<rparr>)
               else b)
            else Some (r\<lparr>brb_results := Some (tb_put key e t)\<rparr>)))"

definition OKKey :: "batchItemKey \<Rightarrow> batchResultBuilder option \<Rightarrow> batchResultBuilder option" where
  "OKKey key b = FailKey key None b"

definition Fail :: "'p message \<Rightarrow> err option \<Rightarrow> batchResultBuilder option \<Rightarrow> batchResultBuilder option" where
  "Fail m e b = FailKey (batch_key m) e b"

definition OK :: "'p message \<Rightarrow> batchResultBuilder option \<Rightarrow> batchResultBuilder option" where
  "OK m b = OKKey (batch_key m) b"

definition HasErrors :: "batchResultBuilder option \<Rightarrow> bool" where
  "HasErrors b =
    (case b of
       None \<Rightarrow> False
     | Some r \<Rightarrow> brb_validationErr r \<noteq> None \<or>
        (case brb_results r of None \<Rightarrow> False | Some t \<Rightarrow> list_ex (\<lambda>(_, e). e \<noteq> None) t))"

definition ErrorKey :: "batchItemKey \<Rightarrow> batchResultBuilder option \<Rightarrow> err option \<times> bool" where
  "ErrorKey key b =
    (case b of
       None \<Rightarrow> (None, False)
     | Some r \<Rightarrow>
        (case brb_results r of
           None \<Rightarrow> (None, False)
         | Some t \<Rightarrow> (case map_of t key of None \<Rightarrow> (None, False) | Some e \<Rightarrow> (e, True))))"

definition Build :: "batchResultBuilder option \<Rightarrow> err + batchResult" where
  "Build b =
    (case b of
       None \<Rightarrow> Inr []
     | Some r \<Rightarrow>
        (case brb_validationErr r of
           Some e \<Rightarrow> Inl e
         | None \<Rightarrow>
            if brb_keys r = [] then Inr []
            else Inr (map (\<lambda>key. \<lparr>bir_Key = key,
                     bir_Err = (case brb_results r of
                        None \<Rightarrow> None
                      | Some t \<Rightarrow> (case map_of t key of None \<Rightarrow> None | Some e \<Rightarrow> e))\<rparr>) (brb_keys r))))"

section \<open>Batch limits\<close>

definition DefaultBatchMaxMessages :: int where "DefaultBatchMaxMessages = 100"
definition DefaultBatchMaxBytes :: int where "DefaultBatchMaxBytes = 4194304"
definition DefaultBatchMaxWait :: duration where "DefaultBatchMaxWait = 25000000"
definition DefaultMaxEnvelopeBytes :: int where "DefaultMaxEnvelopeBytes = 1048576"

text \<open>The middlewares of a configuration, of an arbitrary type; a nil one is \<open>None\<close>.\<close>

record 'w batchConfig =
  bc_MaxMessages :: int
  bc_MaxBytes :: int
  bc_MaxWait :: duration
  bc_Middlewares :: "'w option list"

definition batch_defaults :: "'w batchConfig \<Rightarrow> 'w batchConfig" where
  "batch_defaults c =
    c\<lparr>bc_MaxMessages := (if bc_MaxMessages c = 0 then DefaultBatchMaxMessages else bc_MaxMessages c),
      bc_MaxBytes := (if bc_MaxBytes c = 0 then DefaultBatchMaxBytes else bc_MaxBytes c),
      bc_MaxWait := (if bc_MaxWait c = 0 then DefaultBatchMaxWait else bc_MaxWait c)\<rparr>"

definition Normalize :: "'w batchConfig \<Rightarrow> int \<Rightarrow> err + 'w batchConfig" where
  "Normalize c concurrency =
    (if concurrency \<le> 0 then Inl (Wrap ''batch concurrency must be positive'' [Sentinel ErrInvalidMessage])
     else if bc_MaxMessages c < 0 \<or> bc_MaxBytes c < 0 \<or> bc_MaxWait c < 0
       then Inl (Wrap ''negative batch limit'' [Sentinel ErrInvalidMessage])
     else
       let d = batch_defaults c;
           effectiveBytes = max (bc_MaxBytes d) DefaultMaxEnvelopeBytes
       in if list_ex (\<lambda>w. w = None) (bc_Middlewares d)
          then Inl (Wrap ''nil batch middleware'' [Sentinel ErrInvalidMessage])
          else if bc_MaxMessages d > go_div max_int64 concurrency
          then Inl (Wrap ''batch delivery bound overflows int'' [Sentinel ErrInvalidMessage])
          else if effectiveBytes > go_div max_int64 concurrency
          then Inl (Wrap ''batch byte bound overflows int'' [Sentinel ErrInvalidMessage])
          else Inr d)"

section \<open>Classification and result validation\<close>

datatype failureKind = FailureSuccess | FailurePermanent | FailureDefer | FailureRetryAfter | FailureOrdinary

definition Classify :: "err option \<Rightarrow> failureKind \<times> duration" where
  "Classify e =
    (case e of
       None \<Rightarrow> (FailureSuccess, 0)
     | Some x \<Rightarrow>
        if IsPermanent x then (FailurePermanent, 0)
        else case DeferDelay x of
          Some d \<Rightarrow> (FailureDefer, d)
        | None \<Rightarrow>
           (case RetryDelay x of Some d \<Rightarrow> (FailureRetryAfter, d) | None \<Rightarrow> (FailureOrdinary, 0)))"

definition IsFailClosed :: "err \<Rightarrow> bool" where
  "IsFailClosed e \<longleftrightarrow> errors_Is e ErrInvalidBatchResult \<or> IsPermanent e"

definition invalid_batch :: "string \<Rightarrow> err" where
  "invalid_batch t = Wrap t [Sentinel ErrInvalidBatchResult]"

fun collect_expected :: "batchItemKey list \<Rightarrow> batchItemKey list \<Rightarrow> err + batchItemKey list" where
  "collect_expected seen [] = Inr seen"
| "collect_expected seen (key # keys) =
    (if bik_Source key = [] \<or> mid_IsZero (bik_MessageID key) then Inl (invalid_batch ''incomplete expected key'')
     else if key \<in> set seen then Inl (invalid_batch ''duplicate expected key'')
     else collect_expected (key # seen) keys)"

fun collect_items ::
  "batchItemKey list \<Rightarrow> (batchItemKey, err option) table \<Rightarrow> batchItemResult list \<Rightarrow>
   err + (batchItemKey, err option) table" where
  "collect_items expectedSet byKey [] = Inr byKey"
| "collect_items expectedSet byKey (item # items) =
    (if bir_Key item \<notin> set expectedSet then Inl (invalid_batch ''unknown key'')
     else if tb_has byKey (bir_Key item) then Inl (invalid_batch ''duplicate key'')
     else collect_items expectedSet (tb_add (bir_Key item) (bir_Err item) byKey) items)"

fun order_items ::
  "(batchItemKey, err option) table \<Rightarrow> batchItemKey list \<Rightarrow> err + err option list" where
  "order_items byKey [] = Inr []"
| "order_items byKey (key # keys) =
    (case map_of byKey key of
       None \<Rightarrow> Inl (invalid_batch ''missing key'')
     | Some e \<Rightarrow> (case order_items byKey keys of Inl x \<Rightarrow> Inl x | Inr es \<Rightarrow> Inr (e # es)))"

definition ValidateResult :: "batchItemKey list \<Rightarrow> batchResult \<Rightarrow> err + err option list" where
  "ValidateResult expected result =
    (if length result \<noteq> length expected then Inl (invalid_batch ''item count'')
     else case collect_expected [] expected of
       Inl e \<Rightarrow> Inl e
     | Inr expectedSet \<Rightarrow>
        (case collect_items expectedSet [] result of
           Inl e \<Rightarrow> Inl e
         | Inr byKey \<Rightarrow> order_items byKey expected))"

section \<open>The result contract\<close>

definition complete_key :: "batchItemKey \<Rightarrow> bool" where
  "complete_key k \<longleftrightarrow> bik_Source k \<noteq> [] \<and> \<not> mid_IsZero (bik_MessageID k)"

definition item_table :: "batchResult \<Rightarrow> (batchItemKey, err option) table" where
  "item_table items = map (\<lambda>i. (bir_Key i, bir_Err i)) items"

lemma fst_item_table [simp]: "map fst (item_table items) = map bir_Key items"
  by (simp add: item_table_def)

lemma collect_expected_iff:
  "collect_expected seen keys = Inr s \<longleftrightarrow>
    list_all complete_key keys \<and> distinct keys \<and> set keys \<inter> set seen = {} \<and> s = rev keys @ seen"
  by (induction keys arbitrary: seen) (auto simp: complete_key_def)

lemma collect_items_iff:
  "collect_items expectedSet byKey items = Inr t \<longleftrightarrow>
    set (map bir_Key items) \<subseteq> set expectedSet \<and> distinct (map bir_Key items) \<and>
    (\<forall>i\<in>set items. map_of byKey (bir_Key i) = None) \<and> t = byKey @ item_table items"
  by (induction items arbitrary: byKey)
    (auto simp: tb_has_def tb_add_def item_table_def map_add_def image_iff split: option.splits if_splits)

lemma order_items_iff:
  "order_items byKey keys = Inr es \<longleftrightarrow>
    (\<forall>k\<in>set keys. map_of byKey k \<noteq> None) \<and> es = map (\<lambda>k. the (map_of byKey k)) keys"
  by (induction keys arbitrary: es) (auto simp: case_sum_Inr_iff case_option_Inr_iff)

text \<open>
  A result is accepted exactly when it covers the expected keys once each; the errors come
  back in the expected order.
\<close>

lemma item_table_dom: "map_of (item_table result) k \<noteq> None \<longleftrightarrow> k \<in> set (map bir_Key result)"
  by (metis fst_item_table map_of_eq_None_iff set_map)

lemma same_length_cover:
  assumes "length xs = length ys" and "distinct xs" and "set xs \<subseteq> set ys"
  shows "set xs = set ys"
proof (rule card_subset_eq)
  have "card (set ys) \<le> card (set xs)"
    using assms card_length [of ys] by (simp add: distinct_card)
  then show "card (set xs) = card (set ys)"
    using card_mono [OF _ assms(3)] by simp
qed (use assms in auto)

lemma ValidateResult_iff:
  "ValidateResult expected result = Inr es \<longleftrightarrow>
    list_all complete_key expected \<and> distinct expected \<and> distinct (map bir_Key result) \<and>
    set (map bir_Key result) = set expected \<and>
    es = map (\<lambda>k. the (map_of (item_table result) k)) expected"
    (is "?L \<longleftrightarrow> ?R")
proof
  assume ?L
  then have len: "length result = length expected"
    and "\<exists>s t. collect_expected [] expected = Inr s \<and> collect_items s [] result = Inr t \<and>
      order_items t expected = Inr es"
    by (auto simp: ValidateResult_def case_sum_Inr_iff split: if_split_asm)
  then obtain s t where st: "collect_expected [] expected = Inr s" "collect_items s [] result = Inr t"
    "order_items t expected = Inr es" by blast
  from st(1) have 1: "list_all complete_key expected" "distinct expected" "set s = set expected"
    by (auto simp: collect_expected_iff)
  from st(2) 1 have 2: "set (map bir_Key result) \<subseteq> set expected" "distinct (map bir_Key result)"
    "t = item_table result" by (auto simp: collect_items_iff)
  from same_length_cover [of "map bir_Key result" expected] len 2
  have 3: "set (map bir_Key result) = set expected" by simp
  from st(3) 2 have "es = map (\<lambda>k. the (map_of (item_table result) k)) expected"
    by (simp add: order_items_iff)
  with 1 2 3 show ?R by simp
next
  assume R: ?R
  then have len: "length result = length expected"
    by (metis distinct_card length_map)
  from R have "collect_expected [] expected = Inr (rev expected)"
    by (simp add: collect_expected_iff)
  moreover from R have "collect_items (rev expected) [] result = Inr (item_table result)"
    by (simp add: collect_items_iff)
  moreover from R have "order_items (item_table result) expected = Inr es"
    by (simp add: order_items_iff item_table_dom del: not_None_eq)
  ultimately show ?L using len by (simp add: ValidateResult_def)
qed

section \<open>The result builder\<close>

definition brb_wf :: "batchItemKey list \<Rightarrow> batchResultBuilder \<Rightarrow> bool" where
  "brb_wf keys r \<longleftrightarrow> brb_keys r = keys \<and>
    (\<exists>t. brb_results r = Some t \<and> (\<forall>k. map_of t k \<noteq> None \<longleftrightarrow> k \<in> set keys))"

text \<open>The status the builder holds for a key after a sequence of reports.\<close>

fun reported :: "(batchItemKey \<times> err option) list \<Rightarrow> err option \<Rightarrow> batchItemKey \<Rightarrow> err option" where
  "reported [] d k = d"
| "reported ((k', e) # ops) d k = reported ops (if k' = k then e else d) k"

definition report_all ::
  "(batchItemKey \<times> err option) list \<Rightarrow> batchResultBuilder option \<Rightarrow> batchResultBuilder option" where
  "report_all ops b = foldl (\<lambda>b (k, e). FailKey k e b) b ops"

lemma map_of_tb_put [table_simps]: "map_of (tb_put k v t) x = (if x = k then Some v else map_of t x)"
  by (auto simp: tb_put_def tb_has_def table_simps split: option.split)

lemma map_of_new_results:
  "map_of (foldl (\<lambda>t m. tb_put (batch_key m) None t) t ms) k =
    (if k \<in> set (map batch_key ms) then Some None else map_of t k)"
  by (induction ms arbitrary: t) (auto simp: table_simps)

lemma report_all_known:
  assumes "brb_wf keys r" and "brb_validationErr r = None" and "brb_results r = Some t"
    and "\<forall>(k, e) \<in> set ops. k \<in> set keys"
  shows "\<exists>r' t'. report_all ops (Some r) = Some r' \<and> brb_wf keys r' \<and> brb_validationErr r' = None \<and>
    brb_results r' = Some t' \<and> (\<forall>k\<in>set keys. map_of t' k = Some (reported ops (the (map_of t k)) k))"
  using assms
proof (induction ops arbitrary: r t)
  case Nil
  then show ?case by (fastforce simp: report_all_def brb_wf_def)
next
  case (Cons op ops)
  obtain k e where op: "op = (k, e)" by force
  with Cons.prems have has: "tb_has t k" by (auto simp: brb_wf_def tb_has_def)
  let ?r = "r\<lparr>brb_results := Some (tb_put k e t)\<rparr>"
  have step: "report_all (op # ops) (Some r) = report_all ops (Some ?r)"
    using has Cons.prems(3) by (simp add: report_all_def op FailKey_def)
  have wf: "brb_wf keys ?r"
    using Cons.prems op has by (auto simp: brb_wf_def table_simps tb_has_def)
  from Cons.IH [of ?r "tb_put k e t"] wf Cons.prems op
  obtain r' t' where r': "report_all ops (Some ?r) = Some r'" "brb_wf keys r'"
    "brb_validationErr r' = None" "brb_results r' = Some t'"
    "\<forall>x\<in>set keys. map_of t' x = Some (reported ops (the (map_of (tb_put k e t) x)) x)"
    by auto
  then show ?case unfolding step by (auto simp: op table_simps)
qed

lemma Build_report_all:
  assumes "\<forall>(k, e) \<in> set ops. k \<in> set (map batch_key ms)"
  shows "Build (report_all ops (NewBatchResultBuilder ms)) =
    Inr (map (\<lambda>m. \<lparr>bir_Key = batch_key m, bir_Err = reported ops None (batch_key m)\<rparr>) ms)"
proof -
  let ?r = "\<lparr>brb_keys = map batch_key ms,
    brb_results = Some (foldl (\<lambda>t m. tb_put (batch_key m) None t) [] ms), brb_validationErr = None\<rparr>"
  have "brb_wf (map batch_key ms) ?r" by (auto simp: brb_wf_def map_of_new_results)
  from report_all_known [OF this _ _ assms]
  obtain r' t' where r': "report_all ops (Some ?r) = Some r'" "brb_wf (map batch_key ms) r'"
    "brb_validationErr r' = None" "brb_results r' = Some t'"
    "\<forall>k\<in>set (map batch_key ms). map_of t' k = Some (reported ops None k)"
    by (auto simp: map_of_new_results)
  then show ?thesis
    by (auto simp: NewBatchResultBuilder_def Build_def brb_wf_def)
qed

lemma report_all_validationErr:
  assumes "brb_validationErr r = Some e"
  shows "\<exists>r'. report_all ops (Some r) = Some r' \<and> brb_validationErr r' = Some e"
  using assms
proof (induction ops arbitrary: r)
  case (Cons op ops)
  obtain k x where op: "op = (k, x)" by force
  have "\<exists>r1. FailKey k x (Some r) = Some r1 \<and> brb_validationErr r1 = Some e"
    using Cons.prems by (auto simp: FailKey_def split: option.split)
  with Cons.IH show ?case by (fastforce simp: report_all_def op)
qed (simp add: report_all_def)

lemma Build_unknown:
  assumes "(k, e) \<in> set ops" and "k \<notin> set (map batch_key ms)"
  shows "\<exists>x. Build (report_all ops (NewBatchResultBuilder ms)) = Inl x \<and> errors_Is x ErrInvalidBatchResult"
proof -
  have *: "brb_wf (map batch_key ms) r \<Longrightarrow> brb_validationErr r = None \<Longrightarrow> (k, e) \<in> set ops \<Longrightarrow>
    \<exists>r' x. report_all ops (Some r) = Some r' \<and> brb_validationErr r' = Some x \<and>
      errors_Is x ErrInvalidBatchResult" for r
  proof (induction ops arbitrary: r)
    case (Cons op ops)
    obtain k' e' where op: "op = (k', e')" by force
    obtain t where t: "brb_results r = Some t" "\<forall>k. map_of t k \<noteq> None \<longleftrightarrow> k \<in> set (map batch_key ms)"
      using Cons.prems by (auto simp: brb_wf_def)
    show ?case
    proof (cases "k' \<in> set (map batch_key ms)")
      case True
      let ?r = "r\<lparr>brb_results := Some (tb_put k' e' t)\<rparr>"
      have "FailKey k' e' (Some r) = Some ?r"
        using t True by (auto simp: FailKey_def tb_has_def)
      moreover have "brb_wf (map batch_key ms) ?r"
        using Cons.prems t True by (auto simp: brb_wf_def table_simps)
      moreover have "(k, e) \<in> set ops" using Cons.prems op True assms(2) by auto
      ultimately show ?thesis
        using Cons.IH [of ?r] Cons.prems by (simp add: report_all_def op)
    next
      case False
      let ?x = "Wrap ''unknown key'' [Sentinel ErrInvalidBatchResult]"
      have "FailKey k' e' (Some r) = Some (r\<lparr>brb_validationErr := Some ?x\<rparr>)"
        using t False Cons.prems by (auto simp: FailKey_def tb_has_def)
      with report_all_validationErr [of "r\<lparr>brb_validationErr := Some ?x\<rparr>" ?x ops]
      show ?thesis by (auto simp: report_all_def op)
    qed
  qed simp
  let ?r = "\<lparr>brb_keys = map batch_key ms,
    brb_results = Some (foldl (\<lambda>t m. tb_put (batch_key m) None t) [] ms), brb_validationErr = None\<rparr>"
  have "brb_wf (map batch_key ms) ?r" by (auto simp: brb_wf_def map_of_new_results)
  from * [OF this _ assms(1)] show ?thesis
    by (auto simp: NewBatchResultBuilder_def Build_def)
qed

section \<open>Limits\<close>

lemma Normalize_bounds:
  assumes "Normalize c n = Inr c'"
  shows "0 < n" "0 < bc_MaxMessages c'" "0 < bc_MaxBytes c'" "0 < bc_MaxWait c'"
    "bc_MaxMessages c' * n \<le> max_int64" "max (bc_MaxBytes c') DefaultMaxEnvelopeBytes * n \<le> max_int64"
    "None \<notin> set (bc_Middlewares c')" "bc_Middlewares c' = bc_Middlewares c"
proof -
  note defaults = DefaultBatchMaxMessages_def DefaultBatchMaxBytes_def DefaultBatchMaxWait_def
  from assms have c': "c' = batch_defaults c" and n: "0 < n"
    and nonneg: "\<not> (bc_MaxMessages c < 0 \<or> bc_MaxBytes c < 0 \<or> bc_MaxWait c < 0)"
    and nil: "\<not> list_ex (\<lambda>w. w = None) (bc_Middlewares c')"
    and msgs: "bc_MaxMessages c' \<le> go_div max_int64 n"
    and bytes: "max (bc_MaxBytes c') DefaultMaxEnvelopeBytes \<le> go_div max_int64 n"
    by (simp_all add: Normalize_def Let_def not_less split: if_split_asm)
  have le: "x \<le> go_div max_int64 n \<Longrightarrow> x * n \<le> max_int64" for x
  proof -
    assume "x \<le> go_div max_int64 n"
    with n have "x \<le> max_int64 div n" by (simp add: max_int64_def)
    then have "x * n \<le> max_int64 div n * n" using n by simp
    also have "\<dots> \<le> max_int64" using n by (simp add: minus_mod_eq_div_mult [symmetric])
    finally show "x * n \<le> max_int64" .
  qed
  show "0 < n" by (rule n)
  show "bc_MaxMessages c' * n \<le> max_int64" using msgs by (rule le)
  show "max (bc_MaxBytes c') DefaultMaxEnvelopeBytes * n \<le> max_int64" using bytes by (rule le)
  show "0 < bc_MaxMessages c'" "0 < bc_MaxBytes c'" "0 < bc_MaxWait c'"
    using nonneg by (simp_all add: c' batch_defaults_def defaults)
  show "bc_Middlewares c' = bc_Middlewares c" by (simp add: c' batch_defaults_def)
  show "None \<notin> set (bc_Middlewares c')" using nil by (simp add: list_ex_iff)
qed

text \<open>Normalised limits are a fixed point of normalisation.\<close>

lemma batch_defaults_idem:
  "0 < bc_MaxMessages c \<Longrightarrow> 0 < bc_MaxBytes c \<Longrightarrow> 0 < bc_MaxWait c \<Longrightarrow> batch_defaults c = c"
  by (simp add: batch_defaults_def)

lemma Normalize_idem:
  assumes "Normalize c n = Inr c'"
  shows "Normalize c' n = Inr c'"
proof -
  note b = Normalize_bounds [OF assms]
  have "batch_defaults c' = c'" using b by (intro batch_defaults_idem)
  moreover have "c' = batch_defaults c" "\<not> bc_MaxMessages c' > go_div max_int64 n"
    "\<not> max (bc_MaxBytes c') DefaultMaxEnvelopeBytes > go_div max_int64 n"
    using assms by (simp_all add: Normalize_def Let_def split: if_split_asm)
  ultimately show ?thesis using b by (simp add: Normalize_def Let_def list_ex_iff)
qed

end
