(* ===== verification/Transaction.thy ===== *)
theory Transaction
  imports Failure
begin

text \<open>
  Database transactions as the inbox backends use them through \<open>database/sql\<close>. A connection holds
  the committed database, the database the open transaction sees, a savepoint, the clock of the
  backend, and a script of faults. Every statement, every row count and every commit consumes one
  entry of the script: it succeeds, fails with a driver error, or - for a commit - is applied by
  the server while the client only sees an error. An exhausted script means no further fault. A
  cancelled context shows up as such a driver error too.

  A database operation returns an error or a value and the connection after it. The deferred
  \<open>tx.Rollback()\<close> of the code is the end of \<open>in_tx\<close>: whatever was not committed is dropped.
\<close>

section \<open>Connections\<close>

datatype fault = NoFault | Fault | CommitLost

record 'd conn =
  cn_durable :: 'd
  cn_work :: 'd
  cn_save :: "'d option"
  cn_faults :: "fault list"
  cn_clock :: "nat \<Rightarrow> instant"
  cn_tick :: nat

type_synonym ('d, 'a) sql = "'d conn \<Rightarrow> (err + 'a) \<times> 'd conn"

definition driver_error :: err where
  "driver_error = Plain ''driver error''"

definition constraint_error :: err where
  "constraint_error = Plain ''constraint violation''"

section \<open>Operations\<close>

definition m_return :: "'a \<Rightarrow> ('d, 'a) sql" where
  "m_return x c = (Inr x, c)"

definition m_fail :: "err \<Rightarrow> ('d, 'a) sql" where
  "m_fail e c = (Inl e, c)"

definition m_bind :: "('d, 'a) sql \<Rightarrow> ('a \<Rightarrow> ('d, 'b) sql) \<Rightarrow> ('d, 'b) sql" where
  "m_bind m f c = (case m c of (Inl e, c') \<Rightarrow> (Inl e, c') | (Inr x, c') \<Rightarrow> f x c')"

definition m_when :: "bool \<Rightarrow> ('d, unit) sql \<Rightarrow> ('d, unit) sql" where
  "m_when b m = (if b then m else m_return ())"

fun m_iter :: "('a \<Rightarrow> ('d, unit) sql) \<Rightarrow> 'a list \<Rightarrow> ('d, unit) sql" where
  "m_iter f [] = m_return ()"
| "m_iter f (x # xs) = m_bind (f x) (\<lambda>_. m_iter f xs)"

fun m_map :: "('a \<Rightarrow> ('d, 'b) sql) \<Rightarrow> 'a list \<Rightarrow> ('d, 'b list) sql" where
  "m_map f [] = m_return []"
| "m_map f (x # xs) = m_bind (f x) (\<lambda>y. m_bind (m_map f xs) (\<lambda>ys. m_return (y # ys)))"

definition m_now :: "('d, instant) sql" where
  "m_now c = (Inr (cn_clock c (cn_tick c)), c\<lparr>cn_tick := Suc (cn_tick c)\<rparr>)"

definition next_fault :: "'d conn \<Rightarrow> fault" where
  "next_fault c = (case cn_faults c of [] \<Rightarrow> NoFault | f # _ \<Rightarrow> f)"

definition drop_fault :: "'d conn \<Rightarrow> 'd conn" where
  "drop_fault c = c\<lparr>cn_faults := tl (cn_faults c)\<rparr>"

text \<open>
  A statement either violates a constraint (\<open>None\<close>) or yields a value and the database after it.
\<close>

definition m_stmt :: "(err \<Rightarrow> err) \<Rightarrow> ('d \<Rightarrow> ('a \<times> 'd) option) \<Rightarrow> ('d, 'a) sql" where
  "m_stmt w f c =
    (if next_fault c \<noteq> NoFault then (Inl (w driver_error), drop_fault c)
     else case f (cn_work c) of
       None \<Rightarrow> (Inl (w constraint_error), drop_fault c)
     | Some (x, d) \<Rightarrow> (Inr x, (drop_fault c)\<lparr>cn_work := d\<rparr>))"

definition m_query :: "(err \<Rightarrow> err) \<Rightarrow> ('d \<Rightarrow> 'a) \<Rightarrow> ('d, 'a) sql" where
  "m_query w f = m_stmt w (\<lambda>d. Some (f d, d))"

definition m_exec :: "(err \<Rightarrow> err) \<Rightarrow> ('d \<Rightarrow> 'd) \<Rightarrow> ('d, unit) sql" where
  "m_exec w f = m_stmt w (\<lambda>d. Some ((), f d))"

definition m_savepoint :: "(err \<Rightarrow> err) \<Rightarrow> ('d, unit) sql" where
  "m_savepoint w c =
    (if next_fault c \<noteq> NoFault then (Inl (w driver_error), drop_fault c)
     else (Inr (), (drop_fault c)\<lparr>cn_save := Some (cn_work c)\<rparr>))"

definition m_rollback_to :: "(err \<Rightarrow> err) \<Rightarrow> ('d, unit) sql" where
  "m_rollback_to w c =
    (if next_fault c \<noteq> NoFault then (Inl (w driver_error), drop_fault c)
     else case cn_save c of
       None \<Rightarrow> (Inl (w driver_error), drop_fault c)
     | Some d \<Rightarrow> (Inr (), (drop_fault c)\<lparr>cn_work := d\<rparr>))"

text \<open>Code that runs inside the transaction without a statement of the backend itself.\<close>

definition m_run :: "('d \<Rightarrow> 'a \<times> 'd) \<Rightarrow> ('d, 'a) sql" where
  "m_run f c = (case f (cn_work c) of (x, d) \<Rightarrow> (Inr x, c\<lparr>cn_work := d\<rparr>))"

definition m_commit :: "(err \<Rightarrow> err) \<Rightarrow> ('d, unit) sql" where
  "m_commit w c =
    (case next_fault c of
       NoFault \<Rightarrow> (Inr (), (drop_fault c)\<lparr>cn_durable := cn_work c\<rparr>)
     | Fault \<Rightarrow> (Inl (w driver_error), drop_fault c)
     | CommitLost \<Rightarrow> (Inl (w driver_error), (drop_fault c)\<lparr>cn_durable := cn_work c\<rparr>))"

text \<open>\<open>BeginTx\<close>, the body, and the deferred rollback.\<close>

definition m_begin :: "(err \<Rightarrow> err) \<Rightarrow> ('d, unit) sql" where
  "m_begin w c =
    (if next_fault c \<noteq> NoFault then (Inl (w driver_error), drop_fault c)
     else (Inr (), (drop_fault c)\<lparr>cn_work := cn_durable c, cn_save := None\<rparr>))"

definition rollback :: "'d conn \<Rightarrow> 'd conn" where
  "rollback c = c\<lparr>cn_work := cn_durable c, cn_save := None\<rparr>"

definition in_tx :: "(err \<Rightarrow> err) \<Rightarrow> ('d, 'a) sql \<Rightarrow> ('d, 'a) sql" where
  "in_tx w body c = (case m_bind (m_begin w) (\<lambda>_. body) c of (r, c') \<Rightarrow> (r, rollback c'))"

text \<open>Chunks of a list, as the code bounds the rows of one statement.\<close>

function chunks :: "nat \<Rightarrow> 'a list \<Rightarrow> 'a list list" where
  "chunks n xs = (if xs = [] \<or> n = 0 then [] else take n xs # chunks n (drop n xs))"
  by auto
termination
  by (relation "measure (\<lambda>(_, xs). length xs)") (auto simp: neq_Nil_conv)

declare chunks.simps [simp del]

lemma m_bind_InrE:
  assumes "m_bind m f c = (Inr y, c')"
  obtains x c1 where "m c = (Inr x, c1)" "f x c1 = (Inr y, c')"
  using assms by (auto simp: m_bind_def split: prod.splits sum.splits)

section \<open>Fault-free execution\<close>

lemma next_fault_Nil [sql_simps]: "cn_faults c = [] \<Longrightarrow> next_fault c = NoFault"
  by (simp add: next_fault_def)

lemma drop_fault_Nil [sql_simps]: "cn_faults c = [] \<Longrightarrow> drop_fault c = c"
  by (simp add: drop_fault_def)

lemma m_bind_return [sql_simps]: "m_bind (m_return x) f c = f x c"
  by (simp add: m_bind_def m_return_def)

lemma m_bind_return_fun: "m_bind (m_return x) f = f x"
  by (simp add: fun_eq_iff sql_simps)

lemma m_bind_fail [sql_simps]: "m_bind (m_fail e) f c = (Inl e, c)"
  by (simp add: m_bind_def m_fail_def)

lemma m_bind_now [sql_simps]:
  "m_bind m_now f c = f (cn_clock c (cn_tick c)) (c\<lparr>cn_tick := Suc (cn_tick c)\<rparr>)"
  by (simp add: m_bind_def m_now_def)

lemma m_bind_stmt [sql_simps]:
  "cn_faults c = [] \<Longrightarrow> m_bind (m_stmt w f) g c =
    (case f (cn_work c) of None \<Rightarrow> (Inl (w constraint_error), c) | Some (x, d) \<Rightarrow> g x (c\<lparr>cn_work := d\<rparr>))"
  by (auto simp: m_bind_def m_stmt_def sql_simps split: option.split)

lemma m_bind_query [sql_simps]:
  "cn_faults c = [] \<Longrightarrow> m_bind (m_query w f) g c = g (f (cn_work c)) c"
  by (simp add: m_query_def sql_simps)

lemma m_bind_exec [sql_simps]:
  "cn_faults c = [] \<Longrightarrow> m_bind (m_exec w f) g c = g () (c\<lparr>cn_work := f (cn_work c)\<rparr>)"
  by (simp add: m_exec_def sql_simps)

lemma m_bind_savepoint [sql_simps]:
  "cn_faults c = [] \<Longrightarrow> m_bind (m_savepoint w) g c = g () (c\<lparr>cn_save := Some (cn_work c)\<rparr>)"
  by (simp add: m_bind_def m_savepoint_def sql_simps)

lemma m_bind_rollback_to [sql_simps]:
  "cn_faults c = [] \<Longrightarrow> cn_save c = Some d \<Longrightarrow>
    m_bind (m_rollback_to w) g c = g () (c\<lparr>cn_work := d\<rparr>)"
  by (simp add: m_bind_def m_rollback_to_def sql_simps)

lemma m_bind_run [sql_simps]:
  "m_bind (m_run f) g c = (case f (cn_work c) of (x, d) \<Rightarrow> g x (c\<lparr>cn_work := d\<rparr>))"
  by (simp add: m_bind_def m_run_def split: prod.split)

lemma m_bind_commit [sql_simps]:
  "cn_faults c = [] \<Longrightarrow> m_bind (m_commit w) g c = g () (c\<lparr>cn_durable := cn_work c\<rparr>)"
  by (simp add: m_bind_def m_commit_def sql_simps)

lemma m_bind_assoc [sql_simps]: "m_bind (m_bind m f) g = m_bind m (\<lambda>x. m_bind (f x) g)"
  by (auto simp: m_bind_def fun_eq_iff split: prod.split sum.split)

lemma m_bind_if [sql_simps]: "m_bind (if b then m else m') f = (if b then m_bind m f else m_bind m' f)"
  by simp

lemma m_bind_when [sql_simps]:
  "m_bind (m_when b m) f c = (if b then m_bind m f c else f () c)"
  by (simp add: m_when_def sql_simps)

lemma m_return_apply [sql_simps]: "m_return x c = (Inr x, c)"
  by (simp add: m_return_def)

lemma m_fail_apply [sql_simps]: "m_fail e c = (Inl e, c)"
  by (simp add: m_fail_def)

lemma in_tx_Nil [sql_simps]:
  "cn_faults c = [] \<Longrightarrow> in_tx w body c =
    (case body (rollback c) of (r, c') \<Rightarrow> (r, rollback c'))"
  by (simp add: in_tx_def m_bind_def m_begin_def sql_simps rollback_def)

lemma rollback_simps [sql_simps]:
  "cn_durable (rollback c) = cn_durable c" "cn_work (rollback c) = cn_durable c"
  "cn_save (rollback c) = None" "cn_faults (rollback c) = cn_faults c"
  "cn_clock (rollback c) = cn_clock c" "cn_tick (rollback c) = cn_tick c"
  by (simp_all add: rollback_def)

section \<open>All or nothing\<close>

text \<open>
  \<open>ff c\<close> is the connection without faults. A step before the commit is \<open>reversible\<close>: it never
  touches the committed database, and it either behaves as without faults or fails. An operation
  is \<open>atomic\<close> when it either behaves as without faults or fails having committed nothing or
  exactly what the fault-free run commits.
\<close>

definition ff :: "'d conn \<Rightarrow> 'd conn" where
  "ff c = c\<lparr>cn_faults := []\<rparr>"

definition reversible :: "('d, 'a) sql \<Rightarrow> bool" where
  "reversible m \<longleftrightarrow> (\<forall>c. cn_durable (snd (m c)) = cn_durable c \<and>
    ((fst (m c) = fst (m (ff c)) \<and> ff (snd (m c)) = snd (m (ff c))) \<or> isl (fst (m c))))"

definition atomic :: "('d, 'a) sql \<Rightarrow> bool" where
  "atomic m \<longleftrightarrow> (\<forall>c.
    (fst (m c) = fst (m (ff c)) \<and> ff (snd (m c)) = snd (m (ff c))) \<or>
    (isl (fst (m c)) \<and> cn_durable (snd (m c)) \<in> {cn_durable c, cn_durable (snd (m (ff c)))}))"

lemma ff_simps [simp]:
  "cn_durable (ff c) = cn_durable c" "cn_work (ff c) = cn_work c" "cn_save (ff c) = cn_save c"
  "cn_faults (ff c) = []" "cn_clock (ff c) = cn_clock c" "cn_tick (ff c) = cn_tick c" "ff (ff c) = ff c"
  by (simp_all add: ff_def)

lemma reversible_atomic: "reversible m \<Longrightarrow> atomic m"
  by (auto simp: reversible_def atomic_def)

lemma reversible_return [atomic_intros]: "reversible (m_return x)"
  by (simp add: reversible_def m_return_def)

lemma reversible_fail [atomic_intros]: "reversible (m_fail e)"
  by (simp add: reversible_def m_fail_def)

lemma reversible_now [atomic_intros]: "reversible m_now"
  by (simp add: reversible_def m_now_def ff_def)

lemma reversible_stmt [atomic_intros]: "reversible (m_stmt w f)"
  by (auto simp: reversible_def m_stmt_def ff_def drop_fault_def next_fault_def split: option.splits list.splits)

lemma reversible_query [atomic_intros]: "reversible (m_query w f)"
  unfolding m_query_def by (rule reversible_stmt)

lemma reversible_exec [atomic_intros]: "reversible (m_exec w f)"
  unfolding m_exec_def by (rule reversible_stmt)

lemma reversible_savepoint [atomic_intros]: "reversible (m_savepoint w)"
  by (auto simp: reversible_def m_savepoint_def ff_def drop_fault_def next_fault_def split: list.splits)

lemma reversible_rollback_to [atomic_intros]: "reversible (m_rollback_to w)"
  by (auto simp: reversible_def m_rollback_to_def ff_def drop_fault_def next_fault_def
      split: list.splits option.splits)

lemma reversible_run [atomic_intros]: "reversible (m_run f)"
  by (auto simp: reversible_def m_run_def ff_def split: prod.splits)

lemma reversible_bind [atomic_intros]:
  assumes m: "reversible m" and f: "\<And>x. reversible (f x)"
  shows "reversible (m_bind m f)"
  unfolding reversible_def
proof (intro allI)
  fix c
  obtain r c1 where mc: "m c = (r, c1)" by force
  show "cn_durable (snd (m_bind m f c)) = cn_durable c \<and>
    ((fst (m_bind m f c) = fst (m_bind m f (ff c)) \<and> ff (snd (m_bind m f c)) = snd (m_bind m f (ff c)))
      \<or> isl (fst (m_bind m f c)))"
  proof (cases r)
    case (Inl e)
    with m mc show ?thesis by (auto simp: reversible_def m_bind_def dest!: spec [of _ c])
  next
    case (Inr x)
    with m mc have d: "cn_durable c1 = cn_durable c" and e: "m (ff c) = (Inr x, ff c1)"
      by (auto simp: reversible_def prod_eq_iff dest!: spec [of _ c])
    from f [of x] d e mc Inr show ?thesis
      by (auto simp: reversible_def m_bind_def)
  qed
qed

lemma atomic_bind [atomic_intros]:
  assumes m: "reversible m" and f: "\<And>x. atomic (f x)"
  shows "atomic (m_bind m f)"
  unfolding atomic_def
proof (intro allI)
  fix c
  obtain r c1 where mc: "m c = (r, c1)" by force
  show "(fst (m_bind m f c) = fst (m_bind m f (ff c)) \<and> ff (snd (m_bind m f c)) = snd (m_bind m f (ff c))) \<or>
    (isl (fst (m_bind m f c)) \<and>
      cn_durable (snd (m_bind m f c)) \<in> {cn_durable c, cn_durable (snd (m_bind m f (ff c)))})"
  proof (cases r)
    case (Inl e)
    with m mc show ?thesis by (auto simp: reversible_def m_bind_def dest!: spec [of _ c])
  next
    case (Inr x)
    with m mc have d: "cn_durable c1 = cn_durable c" and e: "m (ff c) = (Inr x, ff c1)"
      by (auto simp: reversible_def prod_eq_iff dest!: spec [of _ c])
    from f [of x] d e mc Inr show ?thesis
      by (fastforce simp: atomic_def m_bind_def)
  qed
qed

text \<open>After the commit the code only builds its result.\<close>

lemma atomic_commit [atomic_intros]: "atomic (m_bind (m_commit w) (\<lambda>_. m_return x))"
  by (auto simp: atomic_def m_bind_def m_commit_def m_return_def ff_def drop_fault_def next_fault_def
      split: list.splits fault.splits)

lemma reversible_if [atomic_intros]:
  "reversible m \<Longrightarrow> reversible m' \<Longrightarrow> reversible (if b then m else m')"
  by simp

lemma atomic_if [atomic_intros]: "atomic m \<Longrightarrow> atomic m' \<Longrightarrow> atomic (if b then m else m')"
  by simp

lemma reversible_when [atomic_intros]: "reversible m \<Longrightarrow> reversible (m_when b m)"
  by (simp add: m_when_def reversible_return)

lemma reversible_case_option [atomic_intros]:
  "reversible m \<Longrightarrow> (\<And>x. reversible (f x)) \<Longrightarrow> reversible (case z of None \<Rightarrow> m | Some x \<Rightarrow> f x)"
  by (cases z) auto

lemma atomic_case_option [atomic_intros]:
  "atomic m \<Longrightarrow> (\<And>x. atomic (f x)) \<Longrightarrow> atomic (case z of None \<Rightarrow> m | Some x \<Rightarrow> f x)"
  by (cases z) auto

lemma reversible_case_sum [atomic_intros]:
  "(\<And>e. reversible (f e)) \<Longrightarrow> (\<And>x. reversible (g x)) \<Longrightarrow>
    reversible (case z of Inl e \<Rightarrow> f e | Inr x \<Rightarrow> g x)"
  by (cases z) auto

lemma atomic_case_sum [atomic_intros]:
  "(\<And>e. atomic (f e)) \<Longrightarrow> (\<And>x. atomic (g x)) \<Longrightarrow> atomic (case z of Inl e \<Rightarrow> f e | Inr x \<Rightarrow> g x)"
  by (cases z) auto

lemma reversible_case_prod [atomic_intros]:
  "(\<And>x y. reversible (f x y)) \<Longrightarrow> reversible (case z of (x, y) \<Rightarrow> f x y)"
  by (cases z) auto

lemma atomic_case_prod [atomic_intros]:
  "(\<And>x y. atomic (f x y)) \<Longrightarrow> atomic (case z of (x, y) \<Rightarrow> f x y)"
  by (cases z) auto

lemma reversible_iter [atomic_intros]: "(\<And>x. reversible (f x)) \<Longrightarrow> reversible (m_iter f xs)"
  by (induction xs) (auto intro!: reversible_return reversible_bind)

lemma reversible_map [atomic_intros]: "(\<And>x. reversible (f x)) \<Longrightarrow> reversible (m_map f xs)"
  by (induction xs) (auto intro!: reversible_return reversible_bind)

lemma reversible_begin [atomic_intros]: "reversible (m_begin w)"
  by (auto simp: reversible_def m_begin_def ff_def drop_fault_def next_fault_def split: list.splits)

lemma ff_rollback: "ff (rollback c) = rollback (ff c)"
  by (simp add: ff_def rollback_def)

lemma atomic_rollback:
  assumes "atomic m"
  shows "atomic (\<lambda>c. (fst (m c), rollback (snd (m c))))"
  unfolding atomic_def
proof (intro allI)
  fix c
  show "(fst (fst (m c), rollback (snd (m c))) = fst (fst (m (ff c)), rollback (snd (m (ff c)))) \<and>
      ff (snd (fst (m c), rollback (snd (m c)))) = snd (fst (m (ff c)), rollback (snd (m (ff c))))) \<or>
    (isl (fst (fst (m c), rollback (snd (m c)))) \<and> cn_durable (snd (fst (m c), rollback (snd (m c))))
      \<in> {cn_durable c, cn_durable (snd (fst (m (ff c)), rollback (snd (m (ff c)))))})"
    using assms [unfolded atomic_def, rule_format, of c] by (auto simp: ff_rollback sql_simps)
qed

lemma atomic_in_tx [atomic_intros]:
  assumes "atomic body"
  shows "atomic (in_tx w body)"
proof -
  have "atomic (m_bind (m_begin w) (\<lambda>_. body))"
    by (intro atomic_bind reversible_begin assms)
  moreover have "in_tx w body = (\<lambda>c. (fst (m_bind (m_begin w) (\<lambda>_. body) c),
      rollback (snd (m_bind (m_begin w) (\<lambda>_. body) c))))"
    by (auto simp: in_tx_def split: prod.split)
  ultimately show ?thesis by (simp only: atomic_rollback)
qed

text \<open>
  A step that may commit: when its answer satisfies \<open>Q\<close> nothing was committed and the operation goes
  on, otherwise the operation only returns the answer.
\<close>

definition semi_at :: "('a \<Rightarrow> bool) \<Rightarrow> ('d, 'a) sql \<Rightarrow> bool" where
  "semi_at Q m \<longleftrightarrow> atomic m \<and> (\<forall>c x. fst (m c) = Inr x \<longrightarrow> Q x \<longrightarrow> cn_durable (snd (m c)) = cn_durable c)"

abbreviation semi :: "('d, 'a option) sql \<Rightarrow> bool" where
  "semi \<equiv> semi_at (\<lambda>h. h = None)"

lemma semi_return [atomic_intros]: "semi_at Q (m_return x)"
  by (simp add: semi_at_def reversible_atomic reversible_return) (simp add: m_return_def)

lemma semi_fail [atomic_intros]: "semi_at Q (m_fail e)"
  by (simp add: semi_at_def reversible_atomic reversible_fail) (simp add: m_fail_def)

lemma semi_at_commit: "\<not> Q x \<Longrightarrow> semi_at Q (m_bind (m_commit w) (\<lambda>_. m_return x))"
  by (simp add: semi_at_def atomic_commit)
    (auto simp: m_bind_def m_commit_def m_return_def split: fault.splits)

lemma semi_commit [atomic_intros]: "semi (m_bind (m_commit w) (\<lambda>_. m_return (Some x)))"
  by (simp add: semi_at_commit)

lemma semi_bind [atomic_intros]:
  assumes m: "reversible m" and f: "\<And>x. semi_at Q (f x)"
  shows "semi_at Q (m_bind m f)"
  unfolding semi_at_def
proof (intro conjI allI impI)
  show "atomic (m_bind m f)" using m f by (auto simp: semi_at_def intro: atomic_bind)
  fix c y
  assume r: "fst (m_bind m f c) = Inr y" "Q y"
  obtain r1 c1 where mc: "m c = (r1, c1)" by force
  have d: "cn_durable c1 = cn_durable c" using m mc by (auto simp: reversible_def dest!: spec [of _ c])
  from r mc obtain x where x: "r1 = Inr x" by (cases r1) (auto simp: m_bind_def)
  from f [of x] r mc x d show "cn_durable (snd (m_bind m f c)) = cn_durable c"
    by (auto simp: semi_at_def m_bind_def)
qed

lemma semi_if [atomic_intros]: "semi_at Q m \<Longrightarrow> semi_at Q m' \<Longrightarrow> semi_at Q (if b then m else m')"
  by simp

lemma semi_case_option [atomic_intros]:
  "semi_at Q m \<Longrightarrow> (\<And>x. semi_at Q (f x)) \<Longrightarrow> semi_at Q (case z of None \<Rightarrow> m | Some x \<Rightarrow> f x)"
  by (cases z) auto

lemma semi_case_prod [atomic_intros]: "(\<And>x y. semi_at Q (f x y)) \<Longrightarrow> semi_at Q (case z of (x, y) \<Rightarrow> f x y)"
  by (cases z) auto

lemma atomic_bind_semi_at:
  assumes m: "semi_at Q m" and go: "\<And>x. Q x \<Longrightarrow> atomic (f x)" and stop: "\<And>x. \<not> Q x \<Longrightarrow> \<exists>y. f x = m_return y"
  shows "atomic (m_bind m f)"
  unfolding atomic_def
proof (intro allI)
  fix c
  obtain r c1 where mc: "m c = (r, c1)" by force
  obtain r0 c0 where mf: "m (ff c) = (r0, c0)" by force
  have semi: "fst (m x) = Inr y \<Longrightarrow> Q y \<Longrightarrow> cn_durable (snd (m x)) = cn_durable x" for x y
    using m by (simp add: semi_at_def)
  have keep: "r = Inr y \<Longrightarrow> Q y \<Longrightarrow> cn_durable c1 = cn_durable c"
    "r0 = Inr y \<Longrightarrow> Q y \<Longrightarrow> cn_durable c0 = cn_durable c" for y
    using semi [of c y] semi [of "ff c" y] mc mf by simp_all
  from m mc mf have "(r = r0 \<and> ff c1 = c0) \<or> (isl r \<and> cn_durable c1 \<in> {cn_durable c, cn_durable c0})"
    by (auto simp: semi_at_def atomic_def dest!: spec [of _ c])
  then show "(fst (m_bind m f c) = fst (m_bind m f (ff c)) \<and> ff (snd (m_bind m f c)) = snd (m_bind m f (ff c))) \<or>
    (isl (fst (m_bind m f c)) \<and>
      cn_durable (snd (m_bind m f c)) \<in> {cn_durable c, cn_durable (snd (m_bind m f (ff c)))})"
  proof
    assume "r = r0 \<and> ff c1 = c0"
    then have same: "r0 = r" "c0 = ff c1" by simp_all
    show ?thesis
    proof (cases r)
      case (Inl e)
      with same mc mf show ?thesis by (simp add: m_bind_def)
    next
      case (Inr h)
      show ?thesis
      proof (cases "Q h")
        case True
        with go [OF True] Inr keep(1) [OF Inr True] same mc mf show ?thesis
          by (auto simp: m_bind_def atomic_def)
      next
        case False
        then obtain y where "f h = m_return y" using stop by blast
        with Inr same mc mf show ?thesis by (simp add: m_bind_def m_return_def)
      qed
    qed
  next
    assume bad: "isl r \<and> cn_durable c1 \<in> {cn_durable c, cn_durable c0}"
    then obtain e where r: "r = Inl e" by (cases r) auto
    show ?thesis
    proof (cases r0)
      case (Inl e')
      with bad r mc mf show ?thesis by (simp add: m_bind_def)
    next
      case (Inr h)
      show ?thesis
      proof (cases "Q h")
        case True
        with bad r mc mf keep(2) [OF Inr True] show ?thesis by (auto simp: m_bind_def)
      next
        case False
        then obtain y where "f h = m_return y" using stop by blast
        with bad r mc mf Inr show ?thesis by (auto simp: m_bind_def m_return_def)
      qed
    qed
  qed
qed

lemma atomic_bind_semi [atomic_intros]:
  "semi m \<Longrightarrow> atomic body \<Longrightarrow> atomic (m_bind m (\<lambda>h. case h of None \<Rightarrow> body | Some x \<Rightarrow> m_return (g x)))"
  by (rule atomic_bind_semi_at [where Q = "\<lambda>h. h = None"]) auto

end
