(* ===== verification/InboxStore.thy ===== *)
theory InboxStore
  imports Batch Transaction "HOL-Library.Product_Lexorder"
begin

text \<open>
  The inbox contract: \<open>adapters/inbox/inbox.go\<close> and \<open>adapters/inbox/retention.go\<close>, with the tables of the
  migrations. A business database of arbitrary type \<open>'b\<close> lives beside the four inbox tables, and a
  handler is a function on it that reports an error or none. SHA-256 is the parameter \<open>H\<close> of the
  definitions that hash. A backend is a record of the operations of the Go interfaces; the optional
  interfaces it may implement are options, as the type assertions of the store see them.
\<close>

section \<open>Keys, outcomes and tables\<close>

type_synonym fingerprint = string

record key =
  k_ConsumerID :: string
  k_Source :: string
  k_MessageID :: messageID
  k_AttemptGeneration :: string

record result =
  res_Duplicate :: bool
  res_Attempt :: nat

definition zero_result :: result where
  "zero_result = \<lparr>res_Duplicate = False, res_Attempt = 0\<rparr>"

record batchItem =
  bi_Key :: key
  bi_Fingerprint :: fingerprint

datatype batchOutcome = BatchNone | BatchACK | BatchRetry | BatchDefer | BatchDLQ

definition FailureIdentityConflict :: string where
  "FailureIdentityConflict = ''identity_conflict''"
definition FailureAttemptsExhausted :: string where
  "FailureAttemptsExhausted = ''attempts_exhausted''"
definition InboxFailurePermanent :: string where
  "InboxFailurePermanent = ''permanent''"

record batchItemOutcome =
  bo_Key :: key
  bo_Fingerprint :: fingerprint
  bo_Outcome :: batchOutcome
  bo_Attempt :: nat
  bo_Duplicate :: bool
  bo_Delay :: duration
  bo_FailureKind :: string
  bo_Err :: "err option"

record batchProcessResult =
  bp_Items :: "batchItemOutcome list"
  bp_HandlerMessages :: nat

definition zero_batch :: batchProcessResult where
  "zero_batch = \<lparr>bp_Items = [], bp_HandlerMessages = 0\<rparr>"

type_synonym key3 = "string \<times> string \<times> string"
type_synonym key4 = "string \<times> string \<times> string \<times> string"

record identity_row =
  id_fingerprint :: fingerprint
  id_created_at :: instant
  id_completed_at :: "instant option"

record attempt_row =
  at_fingerprint :: fingerprint
  at_attempts :: int
  at_terminal :: bool
  at_updated_at :: instant

record terminal_row =
  tm_attempts :: int
  tm_failure_kind :: string
  tm_terminal_at :: instant
  tm_handoff_confirmed_at :: "instant option"

record 'b db =
  db_inbox :: "(key3, identity_row) table"
  db_attempts :: "(key3, attempt_row) table"
  db_generations :: "(key4, attempt_row) table"
  db_terminal :: "(key4, terminal_row) table"
  db_business :: 'b

type_synonym 'b handler = "'b \<Rightarrow> 'b \<times> err option"
type_synonym 'b batchHandler = "batchItem list \<Rightarrow> 'b \<Rightarrow> 'b \<times> batchResult \<times> err option"

definition ident :: "key \<Rightarrow> key3" where
  "ident key = (k_ConsumerID key, k_Source key, mid_String (k_MessageID key))"

definition gen_key :: "key \<Rightarrow> fingerprint \<Rightarrow> key4" where
  "gen_key key fp = (k_ConsumerID key, k_Source key, mid_String (k_MessageID key), fp)"

definition logical :: "key4 \<Rightarrow> key3" where
  "logical g = (case g of (c, s, m, f) \<Rightarrow> (c, s, m))"

definition gen_fp :: "key4 \<Rightarrow> fingerprint" where
  "gen_fp g = (case g of (c, s, m, f) \<Rightarrow> f)"

section \<open>Validation and fingerprints\<close>

definition ValidateKey :: "key \<Rightarrow> err option" where
  "ValidateKey key =
    (if TrimSpace (k_ConsumerID key) = [] \<or> TrimSpace (k_Source key) = [] \<or> mid_IsZero (k_MessageID key) \<or>
        TrimSpace (k_AttemptGeneration key) \<noteq> k_AttemptGeneration key \<or> length (k_AttemptGeneration key) > 128
     then Some (Wrap ''key'' [Sentinel ErrInvalidKey]) else None)"

definition generation_domain :: string where
  "generation_domain = ''gomessenger/inbox/attempt-generation/v1'' @ [byte 0]"

definition AttemptFingerprint :: "(string \<Rightarrow> fingerprint) \<Rightarrow> key \<Rightarrow> fingerprint \<Rightarrow> fingerprint" where
  "AttemptFingerprint H key fp =
    (if k_AttemptGeneration key = [] then fp
     else H (generation_domain @ fp @ [byte 0] @ k_AttemptGeneration key))"

definition fingerprintsEqual :: "string \<Rightarrow> fingerprint \<Rightarrow> bool" where
  "fingerprintsEqual stored fp \<longleftrightarrow> length stored = length fp \<and> stored = fp"

section \<open>The store\<close>

type_synonym ('b, 'r) op = "'b db conn \<Rightarrow> ('r \<times> err option) \<times> 'b db conn"

record 'b attemptBackend =
  ab_ProcessAttempt :: "key \<Rightarrow> fingerprint \<Rightarrow> nat \<Rightarrow> 'b handler \<Rightarrow> ('b, result) op"
  ab_ForgetAttempt :: "key \<Rightarrow> fingerprint \<Rightarrow> ('b, unit) op"

record 'b terminalBackend =
  tb_ConfirmTerminalHandoff :: "key \<Rightarrow> fingerprint \<Rightarrow> ('b, unit) op"
  tb_PruneTerminalAttempts :: "instant \<Rightarrow> nat \<Rightarrow> ('b, int) op"

record 'b backend =
  be_Process :: "key \<Rightarrow> fingerprint \<Rightarrow> 'b handler \<Rightarrow> ('b, result) op"
  be_Prune :: "instant \<Rightarrow> nat \<Rightarrow> ('b, int) op"
  be_attempts :: "'b attemptBackend option"
  be_batch :: "(batchItem list \<Rightarrow> nat \<Rightarrow> 'b batchHandler \<Rightarrow> ('b, batchProcessResult) op) option"
  be_terminal :: "'b terminalBackend option"

text \<open>Results of a backend operation: an error comes with the zero result.\<close>

definition finish :: "'r \<Rightarrow> ('b db, 'r \<times> err option) sql \<Rightarrow> ('b, 'r) op" where
  "finish z m c = (case m c of (Inl e, c') \<Rightarrow> ((z, Some e), c') | (Inr x, c') \<Rightarrow> (x, c'))"

definition refuse :: "'r \<Rightarrow> err \<Rightarrow> ('b, 'r) op" where
  "refuse z e c = ((z, Some e), c)"

definition Store_Process :: "'b backend \<Rightarrow> key \<Rightarrow> fingerprint \<Rightarrow> 'b handler option \<Rightarrow> ('b, result) op" where
  "Store_Process be key fp handler =
    (case ValidateKey key of
       Some e \<Rightarrow> refuse zero_result e
     | None \<Rightarrow>
        (case handler of
           None \<Rightarrow> refuse zero_result (Plain ''inbox: nil handler'')
         | Some h \<Rightarrow> be_Process be (key\<lparr>k_AttemptGeneration := []\<rparr>) fp h))"

definition Store_ProcessAttempt ::
  "'b backend \<Rightarrow> key \<Rightarrow> fingerprint \<Rightarrow> nat \<Rightarrow> 'b handler option \<Rightarrow> ('b, result) op" where
  "Store_ProcessAttempt be key fp maxAttempts handler =
    (case ValidateKey key of
       Some e \<Rightarrow> refuse zero_result e
     | None \<Rightarrow>
        if maxAttempts = 0 then refuse zero_result (Plain ''inbox: invalid handler attempt limit'')
        else case handler of
          None \<Rightarrow> refuse zero_result (Plain ''inbox: nil handler'')
        | Some h \<Rightarrow>
           (case be_attempts be of
              None \<Rightarrow> refuse zero_result (Sentinel ErrAttemptTrackingUnsupported)
            | Some ab \<Rightarrow> ab_ProcessAttempt ab key fp maxAttempts h))"

fun check_batch_items ::
  "string \<Rightarrow> (batchItemKey, string) table \<Rightarrow> batchItem list \<Rightarrow> err option" where
  "check_batch_items consumerID generations [] = None"
| "check_batch_items consumerID generations (item # items) =
    (let key = bi_Key item in
     case ValidateKey key of
       Some e \<Rightarrow> Some (Wrap ''inbox: batch item'' [e])
     | None \<Rightarrow>
        if k_ConsumerID key \<noteq> consumerID then Some (Wrap ''mixed consumer IDs'' [Sentinel ErrInvalidKey])
        else let bk = \<lparr>bik_Source = k_Source key, bik_MessageID = k_MessageID key\<rparr> in
          if (case map_of generations bk of None \<Rightarrow> False | Some g \<Rightarrow> g \<noteq> k_AttemptGeneration key)
          then Some (Wrap ''mixed attempt generations'' [Sentinel ErrInvalidBatchResult])
          else check_batch_items consumerID (tb_put bk (k_AttemptGeneration key) generations) items)"

definition Store_ProcessBatchAttempt ::
  "'b backend \<Rightarrow> ctx \<Rightarrow> batchItem list \<Rightarrow> nat \<Rightarrow> 'b batchHandler option \<Rightarrow> ('b, batchProcessResult) op" where
  "Store_ProcessBatchAttempt be ctx items maxAttempts handler =
    (if ctx = NilCtx then refuse zero_batch (Plain ''inbox: nil batch context'')
     else case items of
       [] \<Rightarrow> refuse zero_batch (Plain ''inbox: empty batch'')
     | item0 # _ \<Rightarrow>
        if maxAttempts = 0 then refuse zero_batch (Plain ''inbox: invalid batch handler attempt limit'')
        else case handler of
          None \<Rightarrow> refuse zero_batch (Plain ''inbox: nil batch handler'')
        | Some h \<Rightarrow>
           (case check_batch_items (k_ConsumerID (bi_Key item0)) [] items of
              Some e \<Rightarrow> refuse zero_batch e
            | None \<Rightarrow>
               (case be_batch be of
                  None \<Rightarrow> refuse zero_batch (Sentinel ErrBatchAttemptTrackingUnsupported)
                | Some f \<Rightarrow> f items maxAttempts h)))"

definition Store_ForgetAttempt :: "'b backend \<Rightarrow> key \<Rightarrow> fingerprint \<Rightarrow> ('b, unit) op" where
  "Store_ForgetAttempt be key fp =
    (case ValidateKey key of
       Some e \<Rightarrow> refuse () e
     | None \<Rightarrow>
        (case be_attempts be of
           None \<Rightarrow> refuse () (Sentinel ErrAttemptTrackingUnsupported)
         | Some ab \<Rightarrow> ab_ForgetAttempt ab key fp))"

definition Store_Prune :: "'b backend \<Rightarrow> instant \<Rightarrow> int \<Rightarrow> ('b, int) op" where
  "Store_Prune be before limit =
    (if IsZeroTime before \<or> limit \<le> 0 \<or> limit > 10000 then refuse 0 (Plain ''inbox: invalid prune bounds'')
     else be_Prune be before (nat limit))"

definition Store_ConfirmTerminalHandoff :: "'b backend \<Rightarrow> ctx \<Rightarrow> key \<Rightarrow> fingerprint \<Rightarrow> ('b, unit) op" where
  "Store_ConfirmTerminalHandoff be ctx key fp =
    (if ctx = NilCtx then refuse () (Plain ''inbox: nil confirmation context'')
     else case ValidateKey key of
       Some e \<Rightarrow> refuse () e
     | None \<Rightarrow>
        (case be_terminal be of
           None \<Rightarrow> refuse () (Sentinel ErrTerminalRetentionUnsupported)
         | Some t \<Rightarrow> tb_ConfirmTerminalHandoff t key fp))"

definition Store_PruneTerminalAttempts :: "'b backend \<Rightarrow> ctx \<Rightarrow> instant \<Rightarrow> int \<Rightarrow> ('b, int) op" where
  "Store_PruneTerminalAttempts be ctx before limit =
    (if ctx = NilCtx \<or> IsZeroTime before \<or> limit \<le> 0 \<or> limit > 10000
     then refuse 0 (Plain ''inbox: invalid terminal prune bounds'')
     else case be_terminal be of
       None \<Rightarrow> refuse 0 (Sentinel ErrTerminalRetentionUnsupported)
     | Some t \<Rightarrow> tb_PruneTerminalAttempts t before (nat limit))"

section \<open>Facts\<close>

lemma logical_gen_key [simp]: "logical (gen_key key fp) = ident key"
  by (simp add: logical_def gen_key_def ident_def)

lemma gen_fp_gen_key [simp]: "gen_fp (gen_key key fp) = fp"
  by (simp add: gen_fp_def gen_key_def)

lemma gen_key_eq_iff: "g = gen_key key fp \<longleftrightarrow> logical g = ident key \<and> gen_fp g = fp"
  by (cases g) (auto simp: gen_key_def ident_def logical_def gen_fp_def)

lemma gen_key_inject [simp]: "gen_key key fp = gen_key key' fp' \<longleftrightarrow> ident key = ident key' \<and> fp = fp'"
  by (auto simp: gen_key_def ident_def)

lemma ident_inject:
  "ident key = ident key' \<longleftrightarrow>
    k_ConsumerID key = k_ConsumerID key' \<and> k_Source key = k_Source key' \<and> k_MessageID key = k_MessageID key'"
  by (simp add: ident_def)

lemma fingerprintsEqual_iff [simp]: "fingerprintsEqual stored fp \<longleftrightarrow> stored = fp"
  by (auto simp: fingerprintsEqual_def)

lemma ident_gen [simp]: "ident (key\<lparr>k_AttemptGeneration := g\<rparr>) = ident key"
  by (simp add: ident_def)

section \<open>All or nothing, as seen by the caller\<close>

definition op_atomic :: "'r \<Rightarrow> ('b, 'r) op \<Rightarrow> bool" where
  "op_atomic z f \<longleftrightarrow> (\<forall>c.
    (fst (f c) = fst (f (ff c)) \<and> ff (snd (f c)) = snd (f (ff c))) \<or>
    (fst (fst (f c)) = z \<and> snd (fst (f c)) \<noteq> None \<and>
      cn_durable (snd (f c)) \<in> {cn_durable c, cn_durable (snd (f (ff c)))}))"

lemma op_atomic_finish:
  assumes "atomic m"
  shows "op_atomic z (finish z m)"
  unfolding op_atomic_def
proof (intro allI)
  fix c
  have "(fst (m c) = fst (m (ff c)) \<and> ff (snd (m c)) = snd (m (ff c))) \<or>
    (isl (fst (m c)) \<and> cn_durable (snd (m c)) \<in> {cn_durable c, cn_durable (snd (m (ff c)))})"
    using assms by (auto simp: atomic_def)
  then show "(fst (finish z m c) = fst (finish z m (ff c)) \<and>
      ff (snd (finish z m c)) = snd (finish z m (ff c))) \<or>
    (fst (fst (finish z m c)) = z \<and> snd (fst (finish z m c)) \<noteq> None \<and>
      cn_durable (snd (finish z m c)) \<in> {cn_durable c, cn_durable (snd (finish z m (ff c)))})"
    by (cases "m c"; cases "m (ff c)") (auto simp: finish_def split: sum.splits)
qed

lemma op_atomic_refuse: "op_atomic z (refuse z e)"
  by (simp add: op_atomic_def refuse_def)

end
