(* ===== verification/TerminalState.thy ===== *)
theory TerminalState
  imports InboxStore
begin

text \<open>
  Terminal generations, shared by both SQL backends: \<open>adapters/inbox/internal/terminalstate\<close>. Each SQL
  statement is a function on the database, wrapped by \<open>m_stmt\<close>, \<open>m_query\<close> or \<open>m_exec\<close>. The test hooks of
  \<open>retention.go\<close> are not part of the model: they are absent outside the tests.
\<close>

section \<open>Statements\<close>

definition readIdentity_sql :: "key3 \<Rightarrow> 'b db \<Rightarrow> (fingerprint \<times> instant option) option" where
  "readIdentity_sql k d = map_option (\<lambda>r. (id_fingerprint r, id_completed_at r)) (map_of (db_inbox d) k)"

text \<open>The checks of the terminal table hold for every proposed row, also for one that conflicts.\<close>

definition terminal_check :: "batchItemOutcome \<Rightarrow> bool" where
  "terminal_check o1 \<longleftrightarrow> 0 < bo_Attempt o1 \<and>
    (bo_FailureKind o1 = InboxFailurePermanent \<or> bo_FailureKind o1 = FailureAttemptsExhausted)"

definition terminal_key :: "(string \<Rightarrow> fingerprint) \<Rightarrow> batchItemOutcome \<Rightarrow> key4" where
  "terminal_key H o1 = gen_key (bo_Key o1) (AttemptFingerprint H (bo_Key o1) (bo_Fingerprint o1))"

definition upsert_terminal ::
  "(string \<Rightarrow> fingerprint) \<Rightarrow> instant \<Rightarrow> batchItemOutcome \<Rightarrow> (key4, terminal_row) table \<Rightarrow> (key4, terminal_row) table" where
  "upsert_terminal H now o1 t =
    (let k = terminal_key H o1 in
     if tb_has t k then tb_update (\<lambda>k'. k' = k) (\<lambda>r. r\<lparr>tm_handoff_confirmed_at := None\<rparr>) t
     else tb_add k \<lparr>tm_attempts = int (bo_Attempt o1), tm_failure_kind = bo_FailureKind o1,
                    tm_terminal_at = now, tm_handoff_confirmed_at = None\<rparr> t)"

definition record_sql ::
  "(string \<Rightarrow> fingerprint) \<Rightarrow> instant \<Rightarrow> batchItemOutcome list \<Rightarrow> 'b db \<Rightarrow> (unit \<times> 'b db) option" where
  "record_sql H now os d =
    (if list_all terminal_check os
     then Some ((), d\<lparr>db_terminal := fold (upsert_terminal H now) os (db_terminal d)\<rparr>)
     else None)"

definition terminal_outcome :: "batchItemOutcome \<Rightarrow> bool" where
  "terminal_outcome o1 \<longleftrightarrow> bo_Outcome o1 = BatchDLQ \<and>
    (bo_FailureKind o1 = InboxFailurePermanent \<or> bo_FailureKind o1 = FailureAttemptsExhausted)"

fun first_by :: "('a \<Rightarrow> 'k) \<Rightarrow> 'k list \<Rightarrow> 'a list \<Rightarrow> 'a list" where
  "first_by f seen [] = []"
| "first_by f seen (x # xs) =
    (if f x \<in> set seen then first_by f seen xs else x # first_by f (f x # seen) xs)"

definition deferred_outcome :: "bool \<Rightarrow> batchItemOutcome \<Rightarrow> bool" where
  "deferred_outcome replay o1 \<longleftrightarrow> bo_Outcome o1 = BatchDefer \<and> bo_Attempt o1 = 0 \<and>
    (k_AttemptGeneration (bo_Key o1) \<noteq> []) = replay"

definition insert_ignore :: "'k \<Rightarrow> 'v \<Rightarrow> ('k, 'v) table \<Rightarrow> ('k, 'v) table" where
  "insert_ignore k v t = (if tb_has t k then t else tb_add k v t)"

definition fresh_attempt :: "fingerprint \<Rightarrow> int \<Rightarrow> instant \<Rightarrow> attempt_row" where
  "fresh_attempt fp n now = \<lparr>at_fingerprint = fp, at_attempts = n, at_terminal = False, at_updated_at = now\<rparr>"

definition preserve_sql ::
  "(string \<Rightarrow> fingerprint) \<Rightarrow> bool \<Rightarrow> instant \<Rightarrow> batchItemOutcome \<Rightarrow> 'b db \<Rightarrow> 'b db" where
  "preserve_sql H replay now o1 d =
    (let fp = AttemptFingerprint H (bo_Key o1) (bo_Fingerprint o1) in
     if replay
     then d\<lparr>db_generations := insert_ignore (gen_key (bo_Key o1) fp) (fresh_attempt fp 0 now) (db_generations d)\<rparr>
     else d\<lparr>db_attempts := insert_ignore (ident (bo_Key o1)) (fresh_attempt fp 0 now) (db_attempts d)\<rparr>)"

section \<open>Recording and forgetting\<close>

definition Record ::
  "(string \<Rightarrow> fingerprint) \<Rightarrow> batchItemOutcome list \<Rightarrow> instant \<Rightarrow> ('b db, unit) sql" where
  "Record H outcomes now =
    m_iter (\<lambda>chunk. m_stmt (\<lambda>e. Wrap ''inbox: persist terminal generations'' [e]) (record_sql H now chunk))
      (chunks 100 (first_by (terminal_key H) [] (filter terminal_outcome outcomes)))"

definition Forget :: "(string \<Rightarrow> fingerprint) \<Rightarrow> key \<Rightarrow> fingerprint \<Rightarrow> ('b db, unit) sql" where
  "Forget H key fp =
    m_exec (\<lambda>e. Wrap ''inbox: reset terminal generation'' [e])
      (\<lambda>d. d\<lparr>db_terminal := tb_delete (\<lambda>k _. k = gen_key key (AttemptFingerprint H key fp)) (db_terminal d)\<rparr>)"

definition preserveDeferredChunk ::
  "(string \<Rightarrow> fingerprint) \<Rightarrow> bool \<Rightarrow> instant \<Rightarrow> batchItemOutcome list \<Rightarrow> ('b db, unit) sql" where
  "preserveDeferredChunk H replay now chunk =
    m_exec (\<lambda>e. Wrap ''inbox: preserve deferred generations'' [e])
      (\<lambda>d. fold (preserve_sql H replay now) chunk d)"

definition PreserveDeferred ::
  "(string \<Rightarrow> fingerprint) \<Rightarrow> batchItemOutcome list \<Rightarrow> instant \<Rightarrow> ('b db, unit) sql" where
  "PreserveDeferred H outcomes now =
    m_iter (\<lambda>replay. m_iter (preserveDeferredChunk H replay now)
        (chunks 100 (filter (deferred_outcome replay) outcomes)))
      [False, True]"

section \<open>Retention\<close>

text \<open>
  The completed identities older than the cutoff, oldest first, at most \<open>limit\<close> of them: the
  subquery that every prune statement repeats.
\<close>

definition completed_before :: "instant \<Rightarrow> nat \<Rightarrow> 'b db \<Rightarrow> key3 list" where
  "completed_before before limit d =
    map snd (take limit (sort
      (List.map_filter (\<lambda>(k, r). case id_completed_at r of
          None \<Rightarrow> None
        | Some t \<Rightarrow> if t < before then Some (t, k) else None) (db_inbox d))))"

definition PruneCompleted :: "instant \<Rightarrow> nat \<Rightarrow> ('b db, unit) sql" where
  "PruneCompleted before limit =
    m_exec (\<lambda>e. Wrap ''inbox: prune completed terminal markers'' [e])
      (\<lambda>d. d\<lparr>db_terminal := tb_delete (\<lambda>k _. logical k \<in> set (completed_before before limit d)) (db_terminal d)\<rparr>)"

definition later :: "instant \<Rightarrow> instant option \<Rightarrow> instant option" where
  "later now t = (case t of Some h \<Rightarrow> if h > now then Some h else Some now | None \<Rightarrow> Some now)"

definition Confirm :: "(string \<Rightarrow> fingerprint) \<Rightarrow> key \<Rightarrow> fingerprint \<Rightarrow> instant \<Rightarrow> ('b db, unit) sql" where
  "Confirm H key fp now =
    m_bind (m_query (\<lambda>e. Wrap ''inbox: lock terminal handoff'' [e]) (readIdentity_sql (ident key)))
    (\<lambda>row. case row of
       None \<Rightarrow> m_fail (Sentinel ErrTerminalStateMissing)
     | Some (stored, completed) \<Rightarrow>
        if \<not> fingerprintsEqual stored fp then m_fail (Sentinel ErrFingerprintConflict)
        else
          let k = gen_key key (AttemptFingerprint H key fp) in
          m_bind (m_stmt (\<lambda>e. Wrap ''inbox: confirm terminal handoff'' [e])
            (\<lambda>d. Some (tb_has (db_terminal d) k,
               d\<lparr>db_terminal := tb_update (\<lambda>k'. k' = k)
                   (\<lambda>r. r\<lparr>tm_handoff_confirmed_at := later now (tm_handoff_confirmed_at r)\<rparr>) (db_terminal d)\<rparr>)))
          (\<lambda>updated. m_bind (m_query (\<lambda>e. Wrap ''inbox: confirmed terminal rows'' [e]) (\<lambda>_. updated))
          (\<lambda>rows. if \<not> rows then m_fail (Sentinel ErrTerminalStateMissing) else m_return ())))"

definition confirmed_before :: "instant \<Rightarrow> nat \<Rightarrow> 'b db \<Rightarrow> key4 list" where
  "confirmed_before before limit d =
    sort (map snd (take limit (sort
      (List.map_filter (\<lambda>(k, r). case tm_handoff_confirmed_at r of
          None \<Rightarrow> None
        | Some h \<Rightarrow>
           if h < before \<and> (case map_of (db_inbox d) (logical k) of
               None \<Rightarrow> False | Some i \<Rightarrow> id_completed_at i = None)
           then Some (h, k) else None) (db_terminal d)))))"

definition candidates :: "instant \<Rightarrow> nat \<Rightarrow> ('b db, key4 list) sql" where
  "candidates before limit =
    m_query (\<lambda>e. Wrap ''inbox: select terminal retention batch'' [e]) (confirmed_before before limit)"

definition delete_confirmed :: "key4 \<Rightarrow> instant \<Rightarrow> 'b db \<Rightarrow> (nat \<times> 'b db) option" where
  "delete_confirmed item before d =
    (let eligible = (\<lambda>k r. k = item \<and>
           (case tm_handoff_confirmed_at r of None \<Rightarrow> False | Some h \<Rightarrow> h < before));
         kept = tb_delete eligible (db_terminal d)
     in Some (length (db_terminal d) - length kept, d\<lparr>db_terminal := kept\<rparr>))"

definition delete_counters :: "key4 \<Rightarrow> 'b db \<Rightarrow> 'b db" where
  "delete_counters item d =
    d\<lparr>db_attempts := tb_delete (\<lambda>k r. k = logical item \<and> at_fingerprint r = gen_fp item) (db_attempts d)\<rparr>"

definition delete_generation :: "key4 \<Rightarrow> 'b db \<Rightarrow> 'b db" where
  "delete_generation item d = d\<lparr>db_generations := tb_delete (\<lambda>k r. k = item) (db_generations d)\<rparr>"

definition has_any :: "key3 \<Rightarrow> 'b db \<Rightarrow> bool" where
  "has_any k d \<longleftrightarrow> tb_has (db_attempts d) k \<or>
    list_ex (\<lambda>(g, _). logical g = k) (db_generations d) \<or> list_ex (\<lambda>(g, _). logical g = k) (db_terminal d)"

definition delete_empty_identity :: "key3 \<Rightarrow> 'b db \<Rightarrow> 'b db" where
  "delete_empty_identity k d =
    (if has_any k d then d
     else d\<lparr>db_inbox := tb_delete (\<lambda>k' r. k' = k \<and> id_completed_at r = None) (db_inbox d)\<rparr>)"

definition pruneCandidate :: "key4 \<Rightarrow> instant \<Rightarrow> ('b db, int) sql" where
  "pruneCandidate item before =
    m_bind (m_query (\<lambda>e. Wrap ''inbox: lock terminal retention identity'' [e]) (readIdentity_sql (logical item)))
    (\<lambda>row. case row of
       None \<Rightarrow> m_return 0
     | Some (fp, completed) \<Rightarrow>
        if completed \<noteq> None then m_return 0
        else
          m_bind (m_stmt (\<lambda>e. Wrap ''inbox: prune terminal generation'' [e]) (delete_confirmed item before))
          (\<lambda>n. m_bind (m_query (\<lambda>e. Wrap ''inbox: pruned terminal rows'' [e]) (\<lambda>_. n))
          (\<lambda>removed.
            if removed = 0 then m_return 0
            else
              m_bind (m_exec (\<lambda>e. Wrap ''inbox: prune terminal counter'' [e]) (delete_counters item))
              (\<lambda>_. m_bind (m_exec (\<lambda>e. Wrap ''inbox: prune terminal counter'' [e]) (delete_generation item))
              (\<lambda>_. m_bind (m_exec (\<lambda>e. Wrap ''inbox: prune empty terminal identity'' [e])
                      (delete_empty_identity (logical item)))
              (\<lambda>_. m_return (int removed)))))))"

definition TerminalPrune :: "instant \<Rightarrow> nat \<Rightarrow> ('b db, int) sql" where
  "TerminalPrune before limit =
    m_bind (candidates before limit)
    (\<lambda>items. m_bind (m_map (\<lambda>item. pruneCandidate item before) items)
    (\<lambda>counts. m_return (sum_list counts)))"

lemma reversible_terminal [atomic_intros]:
  "reversible (Record H os now)" "reversible (Forget H key fp)" "reversible (PreserveDeferred H os now)"
  "reversible (PruneCompleted before limit)" "reversible (Confirm H key fp now)"
  "reversible (TerminalPrune before limit)"
  unfolding Record_def Forget_def PreserveDeferred_def preserveDeferredChunk_def PruneCompleted_def
    Confirm_def TerminalPrune_def candidates_def pruneCandidate_def Let_def
  by (intro atomic_intros)+

end
