(* ===== verification/InboxSql.thy ===== *)
theory InboxSql
  imports TerminalState
begin

text \<open>
  The SQL inbox backends for single deliveries: \<open>adapters/inbox/sqlite/sqlite.go\<close>, \<open>terminal.go\<close> and
  \<open>statements.go\<close>, and what \<open>adapters/inbox/pgsql\<close> has in common with them. The two packages repeat this
  code with their own error prefix, the parameter \<open>pkg\<close>; what only one of them does is in its own
  theory. Each method is one definition in the transaction monad; the statements are functions on the
  database. Attempt counters (\<open>uint64\<close>) are natural numbers and the counter
  columns integers: they are bounded by the attempt limit, so neither width is reached.
\<close>

section \<open>Statements\<close>

definition sql_err :: "string \<Rightarrow> string \<Rightarrow> err \<Rightarrow> err" where
  "sql_err pkg t e = Wrap (pkg @ '': '' @ t) [e]"

definition insertIdentity_sql :: "key3 \<Rightarrow> fingerprint \<Rightarrow> instant \<Rightarrow> 'b db \<Rightarrow> (nat \<times> 'b db) option" where
  "insertIdentity_sql k fp now d =
    (if tb_has (db_inbox d) k then Some (0, d)
     else Some (1, d\<lparr>db_inbox := tb_add k
            \<lparr>id_fingerprint = fp, id_created_at = now, id_completed_at = None\<rparr> (db_inbox d)\<rparr>))"

definition markComplete_sql :: "key3 \<Rightarrow> instant \<Rightarrow> 'b db \<Rightarrow> 'b db" where
  "markComplete_sql k now d =
    d\<lparr>db_inbox := tb_update (\<lambda>k'. k' = k) (\<lambda>r. r\<lparr>id_completed_at := Some now\<rparr>) (db_inbox d)\<rparr>"

definition closed_kind :: "'b db \<Rightarrow> key4 \<Rightarrow> string" where
  "closed_kind d g = (case map_of (db_terminal d) g of None \<Rightarrow> [] | Some t \<Rightarrow> tm_failure_kind t)"

definition join4 :: "key3 \<Rightarrow> fingerprint \<Rightarrow> key4" where
  "join4 k fp = (case k of (c, s, m) \<Rightarrow> (c, s, m, fp))"

definition readAttempt_sql :: "key3 \<Rightarrow> 'b db \<Rightarrow> (int \<times> bool \<times> string) option" where
  "readAttempt_sql k d =
    map_option (\<lambda>r. (at_attempts r, at_terminal r, closed_kind d (join4 k (at_fingerprint r))))
      (map_of (db_attempts d) k)"

definition readAttemptGeneration_sql :: "key4 \<Rightarrow> 'b db \<Rightarrow> (int \<times> bool \<times> string) option" where
  "readAttemptGeneration_sql g d =
    map_option (\<lambda>r. (at_attempts r, at_terminal r, closed_kind d g)) (map_of (db_generations d) g)"

text \<open>A plain insert violates the primary key when the row exists.\<close>

definition insertAttempt_sql :: "key3 \<Rightarrow> fingerprint \<Rightarrow> instant \<Rightarrow> 'b db \<Rightarrow> (unit \<times> 'b db) option" where
  "insertAttempt_sql k fp now d =
    (if tb_has (db_attempts d) k then None
     else Some ((), d\<lparr>db_attempts := tb_add k (fresh_attempt fp 1 now) (db_attempts d)\<rparr>))"

definition insertAttemptGeneration_sql :: "key4 \<Rightarrow> instant \<Rightarrow> 'b db \<Rightarrow> (unit \<times> 'b db) option" where
  "insertAttemptGeneration_sql g now d =
    (if tb_has (db_generations d) g then None
     else Some ((), d\<lparr>db_generations := tb_add g (fresh_attempt (gen_fp g) 1 now) (db_generations d)\<rparr>))"

definition bump :: "instant \<Rightarrow> attempt_row \<Rightarrow> attempt_row" where
  "bump now r = r\<lparr>at_attempts := at_attempts r + 1, at_updated_at := now\<rparr>"

definition close_row :: "instant \<Rightarrow> attempt_row \<Rightarrow> attempt_row" where
  "close_row now r = r\<lparr>at_terminal := True, at_updated_at := now\<rparr>"

definition update_attempt_sql :: "(attempt_row \<Rightarrow> attempt_row) \<Rightarrow> key3 \<Rightarrow> 'b db \<Rightarrow> 'b db" where
  "update_attempt_sql f k d = d\<lparr>db_attempts := tb_update (\<lambda>k'. k' = k) f (db_attempts d)\<rparr>"

definition update_generation_sql :: "(attempt_row \<Rightarrow> attempt_row) \<Rightarrow> key4 \<Rightarrow> 'b db \<Rightarrow> 'b db" where
  "update_generation_sql f g d = d\<lparr>db_generations := tb_update (\<lambda>k'. k' = g) f (db_generations d)\<rparr>"

definition deleteAttempt_sql :: "key3 \<Rightarrow> 'b db \<Rightarrow> 'b db" where
  "deleteAttempt_sql k d = d\<lparr>db_attempts := tb_delete (\<lambda>k' _. k' = k) (db_attempts d)\<rparr>"

definition hasAttempts_sql :: "key3 \<Rightarrow> 'b db \<Rightarrow> bool" where
  "hasAttempts_sql k d \<longleftrightarrow> tb_has (db_attempts d) k \<or> list_ex (\<lambda>(g, _). logical g = k) (db_generations d)"

text \<open>The largest terminal flag and the number of counters of an identity.\<close>

definition inspectAttempts_sql :: "key3 \<Rightarrow> 'b db \<Rightarrow> nat \<times> nat" where
  "inspectAttempts_sql k d =
    (let flags = map (\<lambda>(_, r). at_terminal r) (filter (\<lambda>(k', _). k' = k) (db_attempts d)) @
                 map (\<lambda>(_, r). at_terminal r) (filter (\<lambda>(g, _). logical g = k) (db_generations d))
     in (if list_ex id flags then 1 else 0, length flags))"

definition deleteIncompleteIdentity_sql :: "key3 \<Rightarrow> 'b db \<Rightarrow> 'b db" where
  "deleteIncompleteIdentity_sql k d =
    d\<lparr>db_inbox := tb_delete (\<lambda>k' r. k' = k \<and> id_completed_at r = None) (db_inbox d)\<rparr>"

definition pruneAttemptGenerations_sql :: "instant \<Rightarrow> nat \<Rightarrow> 'b db \<Rightarrow> 'b db" where
  "pruneAttemptGenerations_sql before limit d =
    d\<lparr>db_generations := tb_delete (\<lambda>g _. logical g \<in> set (completed_before before limit d)) (db_generations d)\<rparr>"

definition pruneAttempts_sql :: "instant \<Rightarrow> nat \<Rightarrow> 'b db \<Rightarrow> 'b db" where
  "pruneAttempts_sql before limit d =
    d\<lparr>db_attempts := tb_delete (\<lambda>k _. k \<in> set (completed_before before limit d)) (db_attempts d)\<rparr>"

definition pruneInbox_sql :: "instant \<Rightarrow> nat \<Rightarrow> 'b db \<Rightarrow> (nat \<times> 'b db) option" where
  "pruneInbox_sql before limit d =
    (let kept = tb_delete (\<lambda>k _. k \<in> set (completed_before before limit d)) (db_inbox d)
     in Some (length (db_inbox d) - length kept, d\<lparr>db_inbox := kept\<rparr>))"

section \<open>Counters\<close>

record attemptDecision =
  ad_attempt :: nat
  ad_terminal :: bool
  ad_exhausted :: bool
  ad_exists :: bool

record attemptState =
  as_kind :: string
  as_attempt :: nat
  as_terminal :: bool

definition sql_insertAttempt :: "key \<Rightarrow> fingerprint \<Rightarrow> (err \<Rightarrow> err) \<Rightarrow> ('b db, unit) sql" where
  "sql_insertAttempt key fp w =
    (if k_AttemptGeneration key = []
     then m_bind m_now (\<lambda>now. m_stmt w (insertAttempt_sql (ident key) fp now))
     else m_bind m_now (\<lambda>now. m_stmt w (insertAttemptGeneration_sql (gen_key key fp) now)))"

definition sql_incrementAttempt :: "key \<Rightarrow> fingerprint \<Rightarrow> (err \<Rightarrow> err) \<Rightarrow> ('b db, unit) sql" where
  "sql_incrementAttempt key fp w =
    (if k_AttemptGeneration key = []
     then m_bind m_now (\<lambda>now. m_exec w (update_attempt_sql (bump now) (ident key)))
     else m_bind m_now (\<lambda>now. m_exec w (update_generation_sql (bump now) (gen_key key fp))))"

definition sql_deleteAttempt :: "key \<Rightarrow> fingerprint \<Rightarrow> (err \<Rightarrow> err) \<Rightarrow> ('b db, unit) sql" where
  "sql_deleteAttempt key fp w =
    (if k_AttemptGeneration key = [] then m_exec w (deleteAttempt_sql (ident key))
     else m_exec w (delete_generation (gen_key key fp)))"

definition attempt_row_of :: "key \<Rightarrow> fingerprint \<Rightarrow> 'b db \<Rightarrow> (int \<times> bool \<times> string) option" where
  "attempt_row_of key fp d =
    (if k_AttemptGeneration key = [] then readAttempt_sql (ident key) d
     else readAttemptGeneration_sql (gen_key key fp) d)"

text \<open>\<open>None\<close> is \<open>sql.ErrNoRows\<close>.\<close>

definition sql_readAttempt :: "string \<Rightarrow> key \<Rightarrow> fingerprint \<Rightarrow> ('b db, attemptState option) sql" where
  "sql_readAttempt pkg key fp =
    m_bind (m_query (sql_err pkg ''read handler attempt'') (attempt_row_of key fp))
    (\<lambda>row. case row of
       None \<Rightarrow> m_return None
     | Some (attempt, terminal, kind) \<Rightarrow>
        if attempt < 0 then m_fail (Plain (pkg @ '': invalid stored handler attempt''))
        else m_return (Some \<lparr>as_kind = kind, as_attempt = nat attempt, as_terminal = terminal\<rparr>))"

definition decide :: "nat \<Rightarrow> attemptState option \<Rightarrow> attemptDecision" where
  "decide maxAttempts state =
    (case state of
       None \<Rightarrow> \<lparr>ad_attempt = 1, ad_terminal = False, ad_exhausted = False, ad_exists = False\<rparr>
     | Some st \<Rightarrow>
        if as_terminal st \<or> as_kind st = InboxFailurePermanent
        then \<lparr>ad_attempt = as_attempt st, ad_terminal = True, ad_exhausted = False, ad_exists = True\<rparr>
        else if as_attempt st \<ge> maxAttempts \<or> as_kind st = FailureAttemptsExhausted
        then \<lparr>ad_attempt = as_attempt st, ad_terminal = False, ad_exhausted = True, ad_exists = True\<rparr>
        else \<lparr>ad_attempt = as_attempt st + 1, ad_terminal = False, ad_exhausted = False, ad_exists = True\<rparr>)"

definition sql_nextAttempt ::
  "string \<Rightarrow> (string \<Rightarrow> fingerprint) \<Rightarrow> key \<Rightarrow> fingerprint \<Rightarrow> nat \<Rightarrow> ('b db, attemptDecision) sql" where
  "sql_nextAttempt pkg H key fp maxAttempts =
    m_bind (sql_readAttempt pkg key (AttemptFingerprint H key fp))
    (\<lambda>state. m_return (decide maxAttempts state))"

definition sql_consumeAttempt ::
  "string \<Rightarrow> (string \<Rightarrow> fingerprint) \<Rightarrow> key \<Rightarrow> fingerprint \<Rightarrow> attemptDecision \<Rightarrow> ('b db, unit) sql" where
  "sql_consumeAttempt pkg H key fp decision =
    (let afp = AttemptFingerprint H key fp in
     if \<not> ad_exists decision then sql_insertAttempt key afp (sql_err pkg ''insert handler attempt'')
     else sql_incrementAttempt key afp (sql_err pkg ''increment handler attempt''))"

definition sql_markAttemptTerminal ::
  "string \<Rightarrow> (string \<Rightarrow> fingerprint) \<Rightarrow> key \<Rightarrow> fingerprint \<Rightarrow> err \<Rightarrow> ('b db, unit) sql" where
  "sql_markAttemptTerminal pkg H key fp handlerErr =
    (if \<not> IsPermanent handlerErr then m_return ()
     else if k_AttemptGeneration key = []
     then m_bind m_now (\<lambda>now. m_exec (sql_err pkg ''mark handler attempt terminal'')
        (update_attempt_sql (close_row now) (ident key)))
     else m_bind m_now (\<lambda>now. m_exec (sql_err pkg ''mark handler attempt terminal'')
        (update_generation_sql (close_row now) (gen_key key (AttemptFingerprint H key fp)))))"

definition terminal_item :: "key \<Rightarrow> fingerprint \<Rightarrow> nat \<Rightarrow> bool \<Rightarrow> batchItemOutcome" where
  "terminal_item key fp attempt permanent =
    \<lparr>bo_Key = key, bo_Fingerprint = fp, bo_Outcome = BatchDLQ, bo_Attempt = attempt, bo_Duplicate = False,
     bo_Delay = 0, bo_FailureKind = (if permanent then InboxFailurePermanent else FailureAttemptsExhausted),
     bo_Err = None\<rparr>"

definition sql_recordTerminal ::
  "(string \<Rightarrow> fingerprint) \<Rightarrow> key \<Rightarrow> fingerprint \<Rightarrow> nat \<Rightarrow> bool \<Rightarrow> ('b db, unit) sql" where
  "sql_recordTerminal H key fp attempt permanent =
    m_bind m_now (\<lambda>now. Record H [terminal_item key fp attempt permanent] now)"

section \<open>Processing\<close>

text \<open>\<open>Some\<close> is the result of a delivery that was handled without running the handler.\<close>

definition sql_prepareAttemptIdentity ::
  "string \<Rightarrow> (string \<Rightarrow> fingerprint) \<Rightarrow> key \<Rightarrow> fingerprint \<Rightarrow> ('b db, result option) sql" where
  "sql_prepareAttemptIdentity pkg H key fp =
    m_bind m_now
    (\<lambda>now. m_bind (m_stmt (sql_err pkg ''insert attempt identity'') (insertIdentity_sql (ident key) fp now))
    (\<lambda>n. m_bind (m_query (sql_err pkg ''attempt identity rows'') (\<lambda>_. n))
    (\<lambda>rows.
      if rows \<noteq> 0 then m_return None
      else
        m_bind (m_query (sql_err pkg ''read attempt identity'') (readIdentity_sql (ident key)))
        (\<lambda>row. case row of
           None \<Rightarrow> m_fail (sql_err pkg ''read attempt identity'' (Sentinel SqlErrNoRows))
         | Some (stored, completedAt) \<Rightarrow>
            if \<not> fingerprintsEqual stored fp then m_fail (Sentinel ErrFingerprintConflict)
            else if completedAt = None then m_return None
            else
              m_bind (sql_readAttempt pkg key (AttemptFingerprint H key fp))
              (\<lambda>state. m_bind (m_commit (sql_err pkg ''commit attempt duplicate''))
              (\<lambda>_. m_return (Some \<lparr>res_Duplicate = True,
                 res_Attempt = (case state of None \<Rightarrow> 0 | Some st \<Rightarrow> as_attempt st)\<rparr>)))))))"

definition run_handler :: "'b handler \<Rightarrow> ('b db, err option) sql" where
  "run_handler handler =
    m_run (\<lambda>d. case handler (db_business d) of (b, e) \<Rightarrow> (e, d\<lparr>db_business := b\<rparr>))"

definition defer_item :: "key \<Rightarrow> fingerprint \<Rightarrow> nat \<Rightarrow> batchItemOutcome" where
  "defer_item key fp attempt =
    \<lparr>bo_Key = key, bo_Fingerprint = fp, bo_Outcome = BatchDefer, bo_Attempt = attempt, bo_Duplicate = False,
     bo_Delay = 0, bo_FailureKind = [], bo_Err = None\<rparr>"

definition attempt_result :: "nat \<Rightarrow> result" where
  "attempt_result n = \<lparr>res_Duplicate = False, res_Attempt = n\<rparr>"

definition sql_finishFailedAttempt ::
  "string \<Rightarrow> (string \<Rightarrow> fingerprint) \<Rightarrow> key \<Rightarrow> fingerprint \<Rightarrow> attemptDecision \<Rightarrow> nat \<Rightarrow> err \<Rightarrow>
   ('b db, result \<times> err option) sql" where
  "sql_finishFailedAttempt pkg H key fp decision maxAttempts handlerErr =
    m_bind (m_rollback_to (sql_err pkg ''rollback handler writes''))
    (\<lambda>_.
      if DeferDelay handlerErr \<noteq> None \<and> \<not> IsPermanent handlerErr then
        m_bind m_now
        (\<lambda>now. m_bind (PreserveDeferred H [defer_item key fp (ad_attempt decision - 1)] now)
        (\<lambda>_. m_bind (m_commit (sql_err pkg ''commit deferred handler attempt''))
        (\<lambda>_. m_return (attempt_result (ad_attempt decision - 1), Some handlerErr))))
      else
        m_bind (sql_consumeAttempt pkg H key fp decision)
        (\<lambda>_. m_bind (sql_markAttemptTerminal pkg H key fp handlerErr)
        (\<lambda>_. m_bind (m_when (IsPermanent handlerErr \<or> ad_attempt decision \<ge> maxAttempts)
                (sql_recordTerminal H key fp (ad_attempt decision) (IsPermanent handlerErr)))
        (\<lambda>_. m_bind (m_commit (sql_err pkg ''commit failed handler attempt''))
        (\<lambda>_. m_return (attempt_result (ad_attempt decision), Some handlerErr))))))"

definition closed_error :: "attemptDecision \<Rightarrow> err" where
  "closed_error decision =
    (if ad_terminal decision then PermanentError (Sentinel ErrAttemptTerminal) else Sentinel ErrAttemptsExhausted)"

definition sql_run_attempt ::
  "string \<Rightarrow> (string \<Rightarrow> fingerprint) \<Rightarrow> key \<Rightarrow> fingerprint \<Rightarrow> nat \<Rightarrow> 'b handler \<Rightarrow> attemptDecision \<Rightarrow>
   ('b db, result \<times> err option) sql" where
  "sql_run_attempt pkg H key fp maxAttempts handler decision =
    (if ad_terminal decision \<or> ad_exhausted decision then
       m_bind (sql_recordTerminal H key fp (ad_attempt decision) (ad_terminal decision))
       (\<lambda>_. m_bind (m_commit (sql_err pkg ''commit existing attempt state''))
       (\<lambda>_. m_return (attempt_result (ad_attempt decision), Some (closed_error decision))))
     else
       m_bind (m_savepoint (sql_err pkg ''create handler savepoint''))
       (\<lambda>_. m_bind (run_handler handler)
       (\<lambda>handlerErr. case handlerErr of
          Some e \<Rightarrow> sql_finishFailedAttempt pkg H key fp decision maxAttempts e
        | None \<Rightarrow>
           m_bind (sql_consumeAttempt pkg H key fp decision)
           (\<lambda>_. m_bind m_now
           (\<lambda>now. m_bind (m_exec (sql_err pkg ''mark attempt complete'') (markComplete_sql (ident key) now))
           (\<lambda>_. m_bind (m_commit (sql_err pkg ''commit handler attempt''))
           (\<lambda>_. m_return (attempt_result (ad_attempt decision), None))))))))"

definition sql_attempt_body ::
  "string \<Rightarrow> (string \<Rightarrow> fingerprint) \<Rightarrow> key \<Rightarrow> fingerprint \<Rightarrow> nat \<Rightarrow> 'b handler \<Rightarrow> ('b db, result \<times> err option) sql" where
  "sql_attempt_body pkg H key fp maxAttempts handler =
    m_bind (sql_nextAttempt pkg H key fp maxAttempts) (sql_run_attempt pkg H key fp maxAttempts handler)"

definition sql_ProcessAttempt ::
  "string \<Rightarrow> (string \<Rightarrow> fingerprint) \<Rightarrow> key \<Rightarrow> fingerprint \<Rightarrow> nat \<Rightarrow> 'b handler \<Rightarrow> ('b, result) op" where
  "sql_ProcessAttempt pkg H key fp maxAttempts handler =
    finish zero_result (in_tx (sql_err pkg ''begin attempt transaction'')
      (m_bind (sql_prepareAttemptIdentity pkg H key fp)
       (\<lambda>handled. case handled of
          Some duplicate \<Rightarrow> m_return (duplicate, None)
        | None \<Rightarrow> sql_attempt_body pkg H key fp maxAttempts handler)))"

definition sql_handleExisting :: "string \<Rightarrow> key \<Rightarrow> fingerprint \<Rightarrow> ('b db, result option) sql" where
  "sql_handleExisting pkg key fp =
    m_bind (m_query (sql_err pkg ''read identity'') (readIdentity_sql (ident key)))
    (\<lambda>row. case row of
       None \<Rightarrow> m_fail (sql_err pkg ''read identity'' (Sentinel SqlErrNoRows))
     | Some (stored, completedAt) \<Rightarrow>
        if \<not> fingerprintsEqual stored fp then m_fail (Sentinel ErrFingerprintConflict)
        else if completedAt \<noteq> None then
          m_bind (m_commit (sql_err pkg ''commit duplicate''))
          (\<lambda>_. m_return (Some \<lparr>res_Duplicate = True, res_Attempt = 0\<rparr>))
        else
          m_bind (m_query (sql_err pkg ''inspect attempts'') (inspectAttempts_sql (ident key)))
          (\<lambda>(maxTerminal, count).
            if count > 0 then
              (if maxTerminal > 0 then m_fail (PermanentError (Sentinel ErrAttemptTerminal))
               else m_fail (Sentinel ErrAttemptConflict))
            else m_return None))"

definition sql_process_body :: "string \<Rightarrow> key \<Rightarrow> 'b handler \<Rightarrow> ('b db, result \<times> err option) sql" where
  "sql_process_body pkg key handler =
    m_bind (run_handler handler)
    (\<lambda>handlerErr. case handlerErr of
       Some e \<Rightarrow> m_fail e
     | None \<Rightarrow>
        m_bind m_now
        (\<lambda>now. m_bind (m_exec (sql_err pkg ''mark complete'') (markComplete_sql (ident key) now))
        (\<lambda>_. m_bind (m_commit (sql_err pkg ''commit'')) (\<lambda>_. m_return (zero_result, None)))))"

definition sql_Process :: "string \<Rightarrow> key \<Rightarrow> fingerprint \<Rightarrow> 'b handler \<Rightarrow> ('b, result) op" where
  "sql_Process pkg key fp handler =
    finish zero_result (in_tx (sql_err pkg ''begin transaction'')
      (m_bind m_now
       (\<lambda>now. m_bind (m_stmt (sql_err pkg ''insert identity'') (insertIdentity_sql (ident key) fp now))
       (\<lambda>n. m_bind (m_query (sql_err pkg ''inserted rows'') (\<lambda>_. n))
       (\<lambda>rows.
         if rows = 0 then
           m_bind (sql_handleExisting pkg key fp)
           (\<lambda>handled. case handled of
              Some duplicate \<Rightarrow> m_return (duplicate, None)
            | None \<Rightarrow> sql_process_body pkg key handler)
         else sql_process_body pkg key handler)))))"

definition sql_ForgetAttempt :: "string \<Rightarrow> (string \<Rightarrow> fingerprint) \<Rightarrow> key \<Rightarrow> fingerprint \<Rightarrow> ('b, unit) op" where
  "sql_ForgetAttempt pkg H key fp =
    finish () (in_tx (sql_err pkg ''begin forget attempt'')
      (m_bind (m_query (sql_err pkg ''read forgotten attempt'') (readIdentity_sql (ident key)))
      (\<lambda>row. case row of
         None \<Rightarrow> m_bind (m_commit (sql_err pkg ''commit missing forgotten attempt'')) (\<lambda>_. m_return ((), None))
       | Some (stored, completedAt) \<Rightarrow>
          if \<not> fingerprintsEqual stored fp then m_fail (Sentinel ErrFingerprintConflict)
          else if completedAt \<noteq> None then
            m_bind (m_commit (sql_err pkg ''commit completed forgotten attempt'')) (\<lambda>_. m_return ((), None))
          else
            m_bind (Forget H key fp)
            (\<lambda>_. m_bind (sql_deleteAttempt key (AttemptFingerprint H key fp) (sql_err pkg ''delete handler attempt''))
            (\<lambda>_. m_bind (m_query (sql_err pkg ''inspect remaining handler attempts'') (hasAttempts_sql (ident key)))
            (\<lambda>hasAttempts.
              if hasAttempts then
                m_bind (m_commit (sql_err pkg ''commit forgotten attempt generation'')) (\<lambda>_. m_return ((), None))
              else
                m_bind (m_exec (sql_err pkg ''delete incomplete identity'') (deleteIncompleteIdentity_sql (ident key)))
                (\<lambda>_. m_bind (m_commit (sql_err pkg ''commit forgotten attempt'')) (\<lambda>_. m_return ((), None)))))))))"

definition sql_Prune :: "string \<Rightarrow> instant \<Rightarrow> nat \<Rightarrow> ('b, int) op" where
  "sql_Prune pkg before limit =
    finish 0 (in_tx (sql_err pkg ''begin prune'')
      (m_bind (PruneCompleted before limit)
      (\<lambda>_. m_bind (m_exec (sql_err pkg ''prune attempt generations'') (pruneAttemptGenerations_sql before limit))
      (\<lambda>_. m_bind (m_exec (sql_err pkg ''prune attempts'') (pruneAttempts_sql before limit))
      (\<lambda>_. m_bind (m_stmt (sql_err pkg ''prune'') (pruneInbox_sql before limit))
      (\<lambda>n. m_bind (m_query (sql_err pkg ''pruned rows'') (\<lambda>_. n))
      (\<lambda>rows. m_bind (m_commit (sql_err pkg ''commit prune'')) (\<lambda>_. m_return (int rows, None)))))))))"

definition sql_ConfirmTerminalHandoff :: "string \<Rightarrow> (string \<Rightarrow> fingerprint) \<Rightarrow> key \<Rightarrow> fingerprint \<Rightarrow> ('b, unit) op" where
  "sql_ConfirmTerminalHandoff pkg H key fp =
    finish () (in_tx (sql_err pkg ''begin handoff confirmation'')
      (m_bind m_now
      (\<lambda>now. m_bind (Confirm H key fp now)
      (\<lambda>_. m_bind (m_commit (sql_err pkg ''commit handoff confirmation'')) (\<lambda>_. m_return ((), None))))))"

definition sql_PruneTerminalAttempts :: "string \<Rightarrow> instant \<Rightarrow> nat \<Rightarrow> ('b, int) op" where
  "sql_PruneTerminalAttempts pkg before limit =
    finish 0 (in_tx (sql_err pkg ''begin terminal prune'')
      (m_bind (TerminalPrune before limit)
      (\<lambda>removed. m_bind (m_commit (sql_err pkg ''commit terminal prune'')) (\<lambda>_. m_return (removed, None)))))"

section \<open>Every operation is all or nothing\<close>

lemma reversible_sql [atomic_intros]:
  "reversible (sql_insertAttempt key fp w)" "reversible (sql_incrementAttempt key fp w)"
  "reversible (sql_deleteAttempt key fp w)" "reversible (sql_readAttempt pkg key fp)"
  "reversible (sql_nextAttempt pkg H key fp n)" "reversible (sql_consumeAttempt pkg H key fp dec)"
  "reversible (sql_markAttemptTerminal pkg H key fp e)" "reversible (sql_recordTerminal H key fp n p)"
  "reversible (run_handler h)"
  unfolding sql_insertAttempt_def sql_incrementAttempt_def sql_deleteAttempt_def
    sql_readAttempt_def sql_nextAttempt_def sql_consumeAttempt_def sql_markAttemptTerminal_def
    sql_recordTerminal_def run_handler_def Let_def
  by (intro atomic_intros)+

lemma semi_prepare [atomic_intros]: "semi (sql_prepareAttemptIdentity pkg H key fp)"
  unfolding sql_prepareAttemptIdentity_def by (intro atomic_intros)

lemma semi_handleExisting [atomic_intros]: "semi (sql_handleExisting pkg key fp)"
  unfolding sql_handleExisting_def by (intro atomic_intros)

lemma atomic_run_attempt [atomic_intros]: "atomic (sql_run_attempt pkg H key fp n h decision)"
  unfolding sql_run_attempt_def sql_finishFailedAttempt_def by (intro atomic_intros)

lemma atomic_attempt_body [atomic_intros]: "atomic (sql_attempt_body pkg H key fp n h)"
  unfolding sql_attempt_body_def by (intro atomic_intros)

lemma atomic_process_body [atomic_intros]: "atomic (sql_process_body pkg key h)"
  unfolding sql_process_body_def
  by (intro atomic_intros reversible_atomic [OF reversible_fail])

lemma sql_op_atomic:
  "op_atomic zero_result (sql_ProcessAttempt pkg H key fp n h)"
  "op_atomic zero_result (sql_Process pkg key fp h)"
  "op_atomic () (sql_ForgetAttempt pkg H key fp)"
  "op_atomic 0 (sql_Prune pkg before limit)"
  "op_atomic () (sql_ConfirmTerminalHandoff pkg H key fp)"
  "op_atomic 0 (sql_PruneTerminalAttempts pkg before limit)"
  unfolding sql_ProcessAttempt_def sql_Process_def sql_ForgetAttempt_def sql_Prune_def
    sql_ConfirmTerminalHandoff_def sql_PruneTerminalAttempts_def
  by (rule op_atomic_finish, intro atomic_intros reversible_atomic [OF reversible_fail])+

end
