(* ===== verification/InboxBatch.thy ===== *)
theory InboxBatch
  imports InboxSql
begin

text \<open>
  What the batch operations of both backends (\<open>adapters/inbox/sqlite/batch.go\<close> and
  \<open>adapters/inbox/pgsql/batch.go\<close>) have in common: deliveries are grouped by message identity, each group
  is compared with the stored identity, a settled group gets its outcome at once, and the others go
  to the handler. The outcome array of the code is a list indexed by delivery, updated in place.
\<close>

section \<open>Groups\<close>

record batchPreparedItem =
  pi_index :: nat
  pi_item :: batchItem

record batchGroup =
  bg_key :: batchItemKey
  bg_entries :: "batchPreparedItem list"
  bg_matching :: "batchPreparedItem list"
  bg_state :: attemptState
  bg_first :: nat

definition zero_state :: attemptState where
  "zero_state = \<lparr>as_kind = [], as_attempt = 0, as_terminal = False\<rparr>"

definition item_key :: "batchItem \<Rightarrow> batchItemKey" where
  "item_key item = \<lparr>bik_Source = k_Source (bi_Key item), bik_MessageID = k_MessageID (bi_Key item)\<rparr>"

definition new_group :: "nat \<Rightarrow> batchItem \<Rightarrow> batchGroup" where
  "new_group i item =
    \<lparr>bg_key = item_key item, bg_entries = [\<lparr>pi_index = i, pi_item = item\<rparr>], bg_matching = [],
     bg_state = zero_state, bg_first = i\<rparr>"

definition add_entry :: "nat \<Rightarrow> batchItem \<Rightarrow> batchGroup \<Rightarrow> batchGroup" where
  "add_entry i item g = g\<lparr>bg_entries := bg_entries g @ [\<lparr>pi_index = i, pi_item = item\<rparr>]\<rparr>"

definition group_generation :: "batchGroup \<Rightarrow> string" where
  "group_generation g = k_AttemptGeneration (bi_Key (pi_item (hd (bg_entries g))))"

fun group_items :: "nat \<Rightarrow> batchItem list \<Rightarrow> batchGroup list \<Rightarrow> err + batchGroup list" where
  "group_items i [] groups = Inr groups"
| "group_items i (item # items) groups =
    (case find (\<lambda>g. bg_key g = item_key item) groups of
       None \<Rightarrow> group_items (Suc i) items (groups @ [new_group i item])
     | Some g \<Rightarrow>
        if group_generation g \<noteq> k_AttemptGeneration (bi_Key item)
        then Inl (Wrap ''mixed attempt generations'' [Sentinel ErrInvalidBatchResult])
        else group_items (Suc i) items
          (map (\<lambda>g. if bg_key g = item_key item then add_entry i item g else g) groups))"

definition prepareBatchGroups :: "batchItem list \<Rightarrow> err + batchGroup list" where
  "prepareBatchGroups items = group_items 0 items []"

definition lock_order :: "batchGroup list \<Rightarrow> batchGroup list" where
  "lock_order = sort_key (\<lambda>g. (bik_Source (bg_key g), mid_String (bik_MessageID (bg_key g))))"

definition group_ident :: "batchGroup \<Rightarrow> key3" where
  "group_ident g =
    (k_ConsumerID (bi_Key (pi_item (hd (bg_entries g)))), bik_Source (bg_key g), mid_String (bik_MessageID (bg_key g)))"

text \<open>The delivery that stands for a group once its envelope matched.\<close>

definition group_item :: "batchGroup \<Rightarrow> batchItem" where
  "group_item g = pi_item (hd (bg_matching g))"

definition selectBatchGroups :: "batchGroup list \<Rightarrow> bool \<Rightarrow> batchGroup list" where
  "selectBatchGroups groups generated =
    filter (\<lambda>g. (k_AttemptGeneration (bi_Key (group_item g)) \<noteq> []) = generated) groups"

section \<open>Outcomes\<close>

definition zero_key :: key where
  "zero_key = \<lparr>k_ConsumerID = [], k_Source = [], k_MessageID = 0, k_AttemptGeneration = []\<rparr>"

definition zero_outcome :: batchItemOutcome where
  "zero_outcome =
    \<lparr>bo_Key = zero_key, bo_Fingerprint = replicate 32 (byte 0), bo_Outcome = BatchNone, bo_Attempt = 0,
     bo_Duplicate = False, bo_Delay = 0, bo_FailureKind = [], bo_Err = None\<rparr>"

definition assignBatchOutcome :: "batchGroup \<Rightarrow> batchItemOutcome \<Rightarrow> batchItemOutcome list \<Rightarrow> batchItemOutcome list" where
  "assignBatchOutcome g o1 outcomes =
    fold (\<lambda>(index, entry) outs.
        outs[pi_index entry := o1\<lparr>bo_Key := bi_Key (pi_item entry), bo_Duplicate := (index > 0 \<or> bo_Duplicate o1)\<rparr>])
      (enumerate 0 (bg_matching g)) outcomes"

definition conflict_outcome :: "batchItem \<Rightarrow> batchItemOutcome" where
  "conflict_outcome item =
    zero_outcome\<lparr>bo_Key := bi_Key item, bo_Fingerprint := bi_Fingerprint item, bo_Outcome := BatchDLQ,
      bo_FailureKind := FailureIdentityConflict, bo_Err := Some (Sentinel ErrFingerprintConflict)\<rparr>"

definition match_group :: "fingerprint \<Rightarrow> batchGroup \<Rightarrow> batchGroup" where
  "match_group stored g =
    (let m = bg_matching g @ filter (\<lambda>e. bi_Fingerprint (pi_item e) = stored) (bg_entries g)
     in g\<lparr>bg_matching := m, bg_first := (if m = [] then bg_first g else pi_index (hd m))\<rparr>)"

definition assign_conflicts :: "fingerprint \<Rightarrow> batchGroup \<Rightarrow> batchItemOutcome list \<Rightarrow> batchItemOutcome list" where
  "assign_conflicts stored g outcomes =
    fold (\<lambda>e outs. if bi_Fingerprint (pi_item e) = stored then outs
        else outs[pi_index e := conflict_outcome (pi_item e)]) (bg_entries g) outcomes"

definition state_closed :: "attemptState \<Rightarrow> nat \<Rightarrow> bool" where
  "state_closed st maxAttempts \<longleftrightarrow> as_terminal st \<or> as_attempt st \<ge> maxAttempts \<or> as_kind st \<noteq> []"

text \<open>The outcome of a group that needs no handler; \<open>None\<close> for an active group.\<close>

definition settled_outcome :: "nat \<Rightarrow> instant option \<Rightarrow> batchGroup \<Rightarrow> batchItemOutcome option" where
  "settled_outcome maxAttempts completedAt g =
    (let st = bg_state g; o1 = zero_outcome\<lparr>bo_Fingerprint := bi_Fingerprint (group_item g), bo_Attempt := as_attempt st\<rparr>
     in if completedAt \<noteq> None then Some (o1\<lparr>bo_Outcome := BatchACK, bo_Duplicate := True\<rparr>)
        else if state_closed st maxAttempts then
          (if as_terminal st \<or> as_kind st = InboxFailurePermanent
           then Some (o1\<lparr>bo_Outcome := BatchDLQ, bo_FailureKind := InboxFailurePermanent,
                        bo_Err := Some (PermanentError (Sentinel ErrAttemptTerminal))\<rparr>)
           else Some (o1\<lparr>bo_Outcome := BatchDLQ, bo_FailureKind := FailureAttemptsExhausted,
                        bo_Err := Some (Sentinel ErrAttemptsExhausted)\<rparr>))
        else None)"

text \<open>The outcome of an active group after the handler, with the counter it consumed.\<close>

definition handled_outcome :: "nat \<Rightarrow> nat \<Rightarrow> batchGroup \<Rightarrow> err option \<Rightarrow> batchItemOutcome" where
  "handled_outcome maxAttempts attempt g e =
    (case Classify e of
       (kind, delay) \<Rightarrow>
         let o1 = zero_outcome\<lparr>bo_Fingerprint := bi_Fingerprint (group_item g), bo_Outcome := BatchRetry,
                    bo_Attempt := attempt, bo_Delay := delay, bo_Err := e\<rparr>
         in case kind of
              FailureDefer \<Rightarrow> o1\<lparr>bo_Outcome := BatchDefer, bo_Attempt := as_attempt (bg_state g)\<rparr>
            | FailureSuccess \<Rightarrow> o1\<lparr>bo_Outcome := BatchACK\<rparr>
            | FailurePermanent \<Rightarrow>
                o1\<lparr>bo_Outcome := BatchDLQ, bo_FailureKind := InboxFailurePermanent, bo_Delay := 0\<rparr>
            | _ \<Rightarrow>
                if attempt \<ge> maxAttempts
                then o1\<lparr>bo_Outcome := BatchDLQ, bo_FailureKind := FailureAttemptsExhausted, bo_Delay := 0\<rparr>
                else o1)"

definition failure_of :: "err option \<Rightarrow> failureKind" where
  "failure_of e = fst (Classify e)"

text \<open>The groups of a list of active groups whose error satisfies a test on its classification.\<close>

definition groups_where :: "(failureKind \<Rightarrow> bool) \<Rightarrow> (batchGroup \<times> err option) list \<Rightarrow> batchGroup list" where
  "groups_where P judged = map fst (filter (\<lambda>(_, e). P (failure_of e)) judged)"

definition lookup_attempt :: "(batchItemKey, nat) table \<Rightarrow> batchItemKey \<Rightarrow> nat" where
  "lookup_attempt attempts k = (case map_of attempts k of None \<Rightarrow> 0 | Some a \<Rightarrow> a)"

definition assign_handled ::
  "nat \<Rightarrow> (batchItemKey, nat) table \<Rightarrow> (batchGroup \<times> err option) list \<Rightarrow> batchItemOutcome list \<Rightarrow> batchItemOutcome list" where
  "assign_handled maxAttempts attempts judged outcomes =
    fold (\<lambda>(g, e). assignBatchOutcome g (handled_outcome maxAttempts (lookup_attempt attempts (bg_key g)) g e))
      judged outcomes"

section \<open>Running the batch handler and committing\<close>

definition run_batch_handler ::
  "'b batchHandler \<Rightarrow> batchItem list \<Rightarrow> ('b db, batchResult \<times> err option) sql" where
  "run_batch_handler handler items =
    m_run (\<lambda>d. case handler items (db_business d) of (b, r) \<Rightarrow> (r, d\<lparr>db_business := b\<rparr>))"

text \<open>The validated errors of the active groups, or the failure of the batch.\<close>

definition judge_batch :: "batchGroup list \<Rightarrow> batchResult \<times> err option \<Rightarrow> err + err option list" where
  "judge_batch active r =
    (case snd r of
       Some handlerErr \<Rightarrow>
         if fst r \<noteq> [] \<or> IsFailClosed handlerErr
         then Inl (Wrap ''invalid top-level batch failure'' [Sentinel ErrInvalidBatchResult, handlerErr])
         else Inl handlerErr
     | None \<Rightarrow> ValidateResult (map bg_key active) (fst r))"

definition commitTerminalBatch ::
  "string \<Rightarrow> (string \<Rightarrow> fingerprint) \<Rightarrow> batchProcessResult \<Rightarrow> ('b db, batchProcessResult \<times> err option) sql" where
  "commitTerminalBatch pkg H report =
    m_bind m_now
    (\<lambda>now. m_bind (PreserveDeferred H (bp_Items report) now)
    (\<lambda>_. m_bind m_now
    (\<lambda>now. m_bind (Record H (bp_Items report) now)
    (\<lambda>_. m_bind (m_commit (sql_err pkg ''commit batch transaction'')) (\<lambda>_. m_return (report, None))))))"

section \<open>Rows of a group\<close>

definition upsert_row :: "'k \<Rightarrow> ('v \<Rightarrow> 'v) \<Rightarrow> 'v \<Rightarrow> ('k, 'v) table \<Rightarrow> ('k, 'v) table" where
  "upsert_row k f v t = (if tb_has t k then tb_update (\<lambda>k'. k' = k) f t else tb_add k v t)"

definition group_fp :: "(string \<Rightarrow> fingerprint) \<Rightarrow> batchGroup \<Rightarrow> fingerprint" where
  "group_fp H g = AttemptFingerprint H (bi_Key (group_item g)) (bi_Fingerprint (group_item g))"

definition matching_ident :: "batchGroup \<Rightarrow> key3" where
  "matching_ident g =
    (k_ConsumerID (bi_Key (group_item g)), bik_Source (bg_key g), mid_String (bik_MessageID (bg_key g)))"

definition complete_rows :: "string \<Rightarrow> (string \<times> string) list \<Rightarrow> instant \<Rightarrow> 'b db \<Rightarrow> 'b db" where
  "complete_rows consumer rows now d =
    d\<lparr>db_inbox := tb_update (\<lambda>(c, s, m). c = consumer \<and> (s, m) \<in> set rows)
        (\<lambda>r. r\<lparr>id_completed_at := Some now\<rparr>) (db_inbox d)\<rparr>"

definition group_row :: "batchGroup \<Rightarrow> string \<times> string" where
  "group_row g = (bik_Source (bg_key g), mid_String (bik_MessageID (bg_key g)))"

section \<open>All or nothing\<close>

lemma reversible_batch [atomic_intros]: "reversible (run_batch_handler handler items)"
  unfolding run_batch_handler_def by (intro atomic_intros)

lemma atomic_commitTerminalBatch [atomic_intros]: "atomic (commitTerminalBatch pkg H report)"
  unfolding commitTerminalBatch_def by (intro atomic_intros reversible_terminal)

end
