(* ===== verification/Ledger.thy ===== *)
theory Ledger
  imports InboxSql
begin

text \<open>
  What the inbox promises, without tables, timestamps and SQL. A ledger maps every logical identity
  to the fingerprint it was first seen with and a completion flag, and every attempt generation of
  an identity to its state: no attempt yet, open with a number of consumed attempts, or closed.
  \<open>ledger_attempt\<close>, \<open>ledger_process\<close> and \<open>ledger_forget\<close> specify the operations of a backend; \<open>ledger_of\<close> reads a
  ledger off a database that satisfies the schema invariant \<open>db_inv\<close>. The contract is the one
  \<open>adapters/inbox/inbox.go\<close> documents for \<open>Backend\<close> and \<open>AttemptBackend\<close>.
\<close>

section \<open>Ledgers\<close>

datatype gstate = Fresh | Open nat | Closed nat string

record 'b ledger =
  lg_identity :: "key3 \<Rightarrow> (fingerprint \<times> bool) option"
  lg_gen :: "key4 \<Rightarrow> gstate"
  lg_business :: 'b

fun consumed :: "gstate \<Rightarrow> nat" where
  "consumed Fresh = 0"
| "consumed (Open a) = a"
| "consumed (Closed a k) = a"

definition kind_error :: "string \<Rightarrow> err" where
  "kind_error k =
    (if k = InboxFailurePermanent then PermanentError (Sentinel ErrAttemptTerminal)
     else Sentinel ErrAttemptsExhausted)"

definition after_failure :: "nat \<Rightarrow> nat \<Rightarrow> err \<Rightarrow> gstate" where
  "after_failure maxAttempts a e =
    (if IsPermanent e then Closed (a + 1) InboxFailurePermanent
     else if a + 1 \<ge> maxAttempts then Closed (a + 1) FailureAttemptsExhausted
     else Open (a + 1))"

definition deferred :: "err \<Rightarrow> bool" where
  "deferred e \<longleftrightarrow> DeferDelay e \<noteq> None \<and> \<not> IsPermanent e"

definition set_gen :: "key4 \<Rightarrow> gstate \<Rightarrow> 'b ledger \<Rightarrow> 'b ledger" where
  "set_gen g st L = L\<lparr>lg_gen := (lg_gen L)(g := st)\<rparr>"

definition set_identity :: "key3 \<Rightarrow> fingerprint \<Rightarrow> bool \<Rightarrow> 'b ledger \<Rightarrow> 'b ledger" where
  "set_identity k fp completed L = L\<lparr>lg_identity := (lg_identity L)(k \<mapsto> (fp, completed))\<rparr>"

text \<open>One handler invocation of an open generation with \<open>a\<close> consumed attempts.\<close>

definition ledger_invoke ::
  "key \<Rightarrow> fingerprint \<Rightarrow> key4 \<Rightarrow> nat \<Rightarrow> nat \<Rightarrow> 'b handler \<Rightarrow> 'b ledger \<Rightarrow> (result \<times> err option) \<times> 'b ledger" where
  "ledger_invoke key fp g maxAttempts a handler L =
    (case handler (lg_business L) of
       (b, None) \<Rightarrow>
         ((attempt_result (a + 1), None),
          set_identity (ident key) fp True (set_gen g (Open (a + 1)) (L\<lparr>lg_business := b\<rparr>)))
     | (b, Some e) \<Rightarrow>
         if deferred e then ((attempt_result a, Some e), set_gen g (Open a) L)
         else ((attempt_result (a + 1), Some e), set_gen g (after_failure maxAttempts a e) L))"

text \<open>An attempt on an identity that is not completed.\<close>

definition ledger_open ::
  "key \<Rightarrow> fingerprint \<Rightarrow> key4 \<Rightarrow> nat \<Rightarrow> 'b handler \<Rightarrow> 'b ledger \<Rightarrow> (result \<times> err option) \<times> 'b ledger" where
  "ledger_open key fp g maxAttempts handler L =
    (case lg_gen L g of
       Closed a k \<Rightarrow> ((attempt_result a, Some (kind_error k)), L)
     | Open a \<Rightarrow>
        if a \<ge> maxAttempts
        then ((attempt_result a, Some (Sentinel ErrAttemptsExhausted)),
              set_gen g (Closed a FailureAttemptsExhausted) L)
        else ledger_invoke key fp g maxAttempts a handler L
     | Fresh \<Rightarrow> ledger_invoke key fp g maxAttempts 0 handler L)"

definition ledger_attempt ::
  "key \<Rightarrow> fingerprint \<Rightarrow> key4 \<Rightarrow> nat \<Rightarrow> 'b handler \<Rightarrow> 'b ledger \<Rightarrow> (result \<times> err option) \<times> 'b ledger" where
  "ledger_attempt key fp g maxAttempts handler L =
    (case lg_identity L (ident key) of
       Some (fp', completed) \<Rightarrow>
         if fp' \<noteq> fp then ((zero_result, Some (Sentinel ErrFingerprintConflict)), L)
         else if completed then ((\<lparr>res_Duplicate = True, res_Attempt = consumed (lg_gen L g)\<rparr>, None), L)
         else ledger_open key fp g maxAttempts handler L
     | None \<Rightarrow> ledger_open key fp g maxAttempts handler (set_identity (ident key) fp False L))"

text \<open>The rule for single processing without attempt accounting.\<close>

definition tracked :: "key3 \<Rightarrow> 'b ledger \<Rightarrow> bool" where
  "tracked k L \<longleftrightarrow> (\<exists>g. logical g = k \<and> lg_gen L g \<noteq> Fresh)"

definition permanent_closed :: "key3 \<Rightarrow> 'b ledger \<Rightarrow> bool" where
  "permanent_closed k L \<longleftrightarrow> (\<exists>g a. logical g = k \<and> lg_gen L g = Closed a InboxFailurePermanent)"

definition ledger_process ::
  "key \<Rightarrow> fingerprint \<Rightarrow> 'b handler \<Rightarrow> 'b ledger \<Rightarrow> (result \<times> err option) \<times> 'b ledger" where
  "ledger_process key fp handler L =
    (case lg_identity L (ident key) of
       Some (fp', completed) \<Rightarrow>
         if fp' \<noteq> fp then ((zero_result, Some (Sentinel ErrFingerprintConflict)), L)
         else if completed then ((\<lparr>res_Duplicate = True, res_Attempt = 0\<rparr>, None), L)
         else if permanent_closed (ident key) L
         then ((zero_result, Some (PermanentError (Sentinel ErrAttemptTerminal))), L)
         else if tracked (ident key) L then ((zero_result, Some (Sentinel ErrAttemptConflict)), L)
         else (case handler (lg_business L) of
           (b, Some e) \<Rightarrow> ((zero_result, Some e), L)
         | (b, None) \<Rightarrow> ((zero_result, None), set_identity (ident key) fp True (L\<lparr>lg_business := b\<rparr>)))
     | None \<Rightarrow> (case handler (lg_business L) of
           (b, Some e) \<Rightarrow> ((zero_result, Some e), L)
         | (b, None) \<Rightarrow> ((zero_result, None), set_identity (ident key) fp True (L\<lparr>lg_business := b\<rparr>))))"

text \<open>Resetting a generation drops its identity with the last counter of it.\<close>

definition ledger_reset :: "key4 \<Rightarrow> 'b ledger \<Rightarrow> 'b ledger" where
  "ledger_reset g L =
    (let L' = set_gen g Fresh L in
     if tracked (logical g) L' then L'
     else L'\<lparr>lg_identity := (lg_identity L')(logical g := None)\<rparr>)"

definition ledger_forget :: "key \<Rightarrow> fingerprint \<Rightarrow> key4 \<Rightarrow> 'b ledger \<Rightarrow> (unit \<times> err option) \<times> 'b ledger" where
  "ledger_forget key fp g L =
    (case lg_identity L (ident key) of
       None \<Rightarrow> (((), None), L)
     | Some (fp', completed) \<Rightarrow>
        if fp' \<noteq> fp then (((), Some (Sentinel ErrFingerprintConflict)), L)
        else if completed then (((), None), L)
        else (((), None), ledger_reset g L))"

text \<open>Pruning a set of completed identities.\<close>

definition ledger_drop :: "key3 set \<Rightarrow> 'b ledger \<Rightarrow> 'b ledger" where
  "ledger_drop S L =
    L\<lparr>lg_identity := (\<lambda>k. if k \<in> S then None else lg_identity L k),
      lg_gen := (\<lambda>g. if logical g \<in> S then Fresh else lg_gen L g)\<rparr>"

section \<open>The schema invariant and the abstraction\<close>

definition counter_row :: "'b db \<Rightarrow> key4 \<Rightarrow> attempt_row option" where
  "counter_row d g =
    (case map_of (db_attempts d) (logical g) of
       Some r \<Rightarrow> if at_fingerprint r = gen_fp g then Some r else map_of (db_generations d) g
     | None \<Rightarrow> map_of (db_generations d) g)"

definition terminal_kind :: "string \<Rightarrow> bool" where
  "terminal_kind k \<longleftrightarrow> k = InboxFailurePermanent \<or> k = FailureAttemptsExhausted"

definition db_inv :: "'b db \<Rightarrow> bool" where
  "db_inv d \<longleftrightarrow>
    wf_table (db_inbox d) \<and> wf_table (db_attempts d) \<and> wf_table (db_generations d) \<and> wf_table (db_terminal d) \<and>
    (\<forall>k r. map_of (db_attempts d) k = Some r \<longrightarrow>
      (\<exists>i. map_of (db_inbox d) k = Some i \<and> id_fingerprint i = at_fingerprint r)) \<and>
    (\<forall>g r. map_of (db_generations d) g = Some r \<longrightarrow>
      at_fingerprint r = gen_fp g \<and>
      (\<exists>i. map_of (db_inbox d) (logical g) = Some i \<and> id_fingerprint i \<noteq> gen_fp g)) \<and>
    (\<forall>g r. counter_row d g = Some r \<longrightarrow> 0 \<le> at_attempts r \<and>
      (at_terminal r \<longrightarrow> (\<exists>t. map_of (db_terminal d) g = Some t \<and> tm_failure_kind t = InboxFailurePermanent))) \<and>
    (\<forall>g t. map_of (db_terminal d) g = Some t \<longrightarrow>
      0 < tm_attempts t \<and> terminal_kind (tm_failure_kind t) \<and>
      (\<exists>r. counter_row d g = Some r \<and> 0 < at_attempts r \<and>
        (tm_failure_kind t = InboxFailurePermanent \<longrightarrow> at_terminal r)))"

definition abs_identity :: "'b db \<Rightarrow> key3 \<Rightarrow> (fingerprint \<times> bool) option" where
  "abs_identity d k =
    map_option (\<lambda>r. (id_fingerprint r, id_completed_at r \<noteq> None)) (map_of (db_inbox d) k)"

definition abs_gen :: "'b db \<Rightarrow> key4 \<Rightarrow> gstate" where
  "abs_gen d g =
    (case counter_row d g of
       None \<Rightarrow> Fresh
     | Some r \<Rightarrow>
        (case map_of (db_terminal d) g of
           None \<Rightarrow> Open (nat (at_attempts r))
         | Some t \<Rightarrow> Closed (nat (at_attempts r)) (tm_failure_kind t)))"

definition ledger_of :: "'b db \<Rightarrow> 'b ledger" where
  "ledger_of d = \<lparr>lg_identity = abs_identity d, lg_gen = abs_gen d, lg_business = db_business d\<rparr>"

text \<open>
  The derived fingerprint of a named generation differs from the envelope fingerprint it is
  derived from: what the code relies on of SHA-256 when it keeps both kinds of counters apart.
\<close>

definition separated :: "(string \<Rightarrow> fingerprint) \<Rightarrow> key \<Rightarrow> fingerprint \<Rightarrow> bool" where
  "separated H key fp \<longleftrightarrow> k_AttemptGeneration key \<noteq> [] \<longrightarrow> AttemptFingerprint H key fp \<noteq> fp"

abbreviation generation :: "(string \<Rightarrow> fingerprint) \<Rightarrow> key \<Rightarrow> fingerprint \<Rightarrow> key4" where
  "generation H key fp \<equiv> gen_key key (AttemptFingerprint H key fp)"

definition empty_db :: "'b \<Rightarrow> 'b db" where
  "empty_db b = \<lparr>db_inbox = [], db_attempts = [], db_generations = [], db_terminal = [], db_business = b\<rparr>"

lemma db_inv_empty: "db_inv (empty_db b)"
  by (simp add: db_inv_def empty_db_def counter_row_def)

section \<open>Writing one row\<close>

text \<open>
  Every statement of the backends that changes a row amounts to storing a row under a primary key.
\<close>

definition put_inbox :: "key3 \<Rightarrow> identity_row \<Rightarrow> 'b db \<Rightarrow> 'b db" where
  "put_inbox k i d = d\<lparr>db_inbox := tb_put k i (db_inbox d)\<rparr>"

definition put_counter :: "key \<Rightarrow> fingerprint \<Rightarrow> attempt_row \<Rightarrow> 'b db \<Rightarrow> 'b db" where
  "put_counter key afp r d =
    (if k_AttemptGeneration key = [] then d\<lparr>db_attempts := tb_put (ident key) r (db_attempts d)\<rparr>
     else d\<lparr>db_generations := tb_put (gen_key key afp) r (db_generations d)\<rparr>)"

definition put_terminal :: "key4 \<Rightarrow> terminal_row \<Rightarrow> 'b db \<Rightarrow> 'b db" where
  "put_terminal g t d = d\<lparr>db_terminal := tb_put g t (db_terminal d)\<rparr>"

lemma wf_tb_put [simp]: "wf_table t \<Longrightarrow> wf_table (tb_put k v t)"
  by (simp add: tb_put_def wf_tb_add)

lemma tb_update_cong:
  "(\<And>v. (k, v) \<in> set t \<Longrightarrow> f v = f' v) \<Longrightarrow> tb_update (\<lambda>k'. k' = k) f t = tb_update (\<lambda>k'. k' = k) f' t"
  by (auto simp: tb_update_def)

lemma wf_table_unique: "wf_table t \<Longrightarrow> map_of t k = Some r \<Longrightarrow> (k, v) \<in> set t \<Longrightarrow> v = r"
  by (metis map_of_eq_Some_iff option.inject wf_table_def)

lemma tb_update_eq_put:
  assumes "wf_table t" and "map_of t k = Some r"
  shows "tb_update (\<lambda>k'. k' = k) f t = tb_put k (f r) t"
proof -
  have "tb_update (\<lambda>k'. k' = k) f t = tb_update (\<lambda>k'. k' = k) (\<lambda>_. f r) t"
    by (rule tb_update_cong) (drule wf_table_unique [OF assms], simp)
  then show ?thesis using assms(2) by (simp add: tb_put_def tb_has_def)
qed

lemma tb_update_absent: "map_of t k = None \<Longrightarrow> tb_update (\<lambda>k'. k' = k) f t = t"
  by (induction t) (auto simp: tb_update_def split: if_splits)

lemma tb_put_put [simp]: "tb_put k a (tb_put k b t) = tb_put k a t"
proof (cases "map_of t k")
  case None
  then show ?thesis
    using tb_update_absent [OF None, of "\<lambda>_. a"]
    by (simp add: tb_put_def tb_has_def table_simps) (simp add: tb_update_def tb_add_def)
next
  case (Some v)
  then show ?thesis
    by (simp add: tb_put_def tb_has_def table_simps) (simp add: tb_update_def case_prod_beta comp_def)
qed

lemma tb_update_id: "tb_update P (\<lambda>v. v) t = t"
  by (induction t) (auto simp: tb_update_def)

lemma tb_put_same:
  assumes "wf_table t" and "map_of t k = Some r"
  shows "tb_put k r t = t"
  using tb_update_eq_put [OF assms, of "\<lambda>v. v"] by (simp add: tb_update_id)

lemma tb_has_put [simp]: "tb_has (tb_put k v t) x \<longleftrightarrow> x = k \<or> tb_has t x"
  by (simp add: tb_has_def table_simps)

lemmas put_defs = put_inbox_def put_counter_def put_terminal_def

lemma db_invD:
  assumes "db_inv d"
  shows "wf_table (db_inbox d)" "wf_table (db_attempts d)" "wf_table (db_generations d)" "wf_table (db_terminal d)"
    and "map_of (db_attempts d) k = Some r \<Longrightarrow>
      \<exists>i. map_of (db_inbox d) k = Some i \<and> id_fingerprint i = at_fingerprint r"
    and "map_of (db_generations d) g = Some r \<Longrightarrow> at_fingerprint r = gen_fp g \<and>
      (\<exists>i. map_of (db_inbox d) (logical g) = Some i \<and> id_fingerprint i \<noteq> gen_fp g)"
    and "counter_row d g = Some r \<Longrightarrow> 0 \<le> at_attempts r \<and>
      (at_terminal r \<longrightarrow> (\<exists>t. map_of (db_terminal d) g = Some t \<and> tm_failure_kind t = InboxFailurePermanent))"
    and "map_of (db_terminal d) g = Some t \<Longrightarrow> 0 < tm_attempts t \<and> terminal_kind (tm_failure_kind t) \<and>
      (\<exists>r. counter_row d g = Some r \<and> 0 < at_attempts r \<and>
        (tm_failure_kind t = InboxFailurePermanent \<longrightarrow> at_terminal r))"
  using assms unfolding db_inv_def by blast+

lemma counter_row_business [simp]: "counter_row (d\<lparr>db_business := b\<rparr>) g = counter_row d g"
  by (simp add: counter_row_def split: option.split)

lemma ledger_of_business: "ledger_of (d\<lparr>db_business := b\<rparr>) = (ledger_of d)\<lparr>lg_business := b\<rparr>"
  by (simp add: ledger_of_def abs_identity_def abs_gen_def fun_eq_iff split: option.split)

lemma db_inv_business [simp]: "db_inv (d\<lparr>db_business := b\<rparr>) = db_inv d"
  by (simp add: db_inv_def)

lemma counter_row_put_inbox [simp]: "counter_row (put_inbox k i d) g = counter_row d g"
  by (simp add: counter_row_def put_inbox_def split: option.split)

lemma counter_row_put_terminal [simp]: "counter_row (put_terminal k t d) g = counter_row d g"
  by (simp add: counter_row_def put_terminal_def split: option.split)

lemma counter_row_cases:
  assumes "counter_row d g = Some r"
  shows "(map_of (db_attempts d) (logical g) = Some r \<and> at_fingerprint r = gen_fp g) \<or>
    map_of (db_generations d) g = Some r"
  using assms by (auto simp: counter_row_def split: option.splits if_splits)

lemma counter_row_logical:
  assumes "db_inv d" and "counter_row d g = Some r"
  shows "\<exists>i. map_of (db_inbox d) (logical g) = Some i"
  using counter_row_cases [OF assms(2)] db_invD(5) [OF assms(1), of "logical g" r]
    db_invD(6) [OF assms(1), of g r]
  by blast

lemma counter_row_fp:
  assumes "db_inv d" and "counter_row d g = Some r"
  shows "at_fingerprint r = gen_fp g"
  using counter_row_cases [OF assms(2)] db_invD(6) [OF assms(1), of g r] by blast

text \<open>The counter of a key under its attempt fingerprint is where \<open>counter_row\<close> looks for it.\<close>

lemma counter_row_put_counter:
  assumes inv: "db_inv d" and i: "map_of (db_inbox d) (ident key) = Some i" "id_fingerprint i = fp"
    and sep: "separated H key fp" and r: "at_fingerprint r = AttemptFingerprint H key fp"
  shows "counter_row (put_counter key (AttemptFingerprint H key fp) r d) g =
    (if g = generation H key fp then Some r else counter_row d g)"
proof (cases "k_AttemptGeneration key = []")
  case True
  then have afp: "AttemptFingerprint H key fp = fp" by (simp add: AttemptFingerprint_def)
  have old: "map_of (db_attempts d) (ident key) = Some r' \<Longrightarrow> at_fingerprint r' = fp" for r'
    using db_invD(5) [OF inv] i by fastforce
  show ?thesis
  proof (cases "logical g = ident key")
    case True
    then show ?thesis
      using \<open>k_AttemptGeneration key = []\<close> afp r old
      by (auto simp: counter_row_def put_counter_def table_simps gen_key_eq_iff split: option.split)
  next
    case False
    then show ?thesis
      using \<open>k_AttemptGeneration key = []\<close>
      by (auto simp: counter_row_def put_counter_def table_simps gen_key_eq_iff split: option.split)
  qed
next
  case False
  with sep have afp: "AttemptFingerprint H key fp \<noteq> fp" by (simp add: separated_def)
  have old: "map_of (db_attempts d) (ident key) = Some r' \<Longrightarrow> at_fingerprint r' = fp" for r'
    using db_invD(5) [OF inv] i by fastforce
  show ?thesis
    using False afp old
    by (auto simp: counter_row_def put_counter_def table_simps gen_key_eq_iff split: option.split)
qed

lemma put_counter_simps [simp]:
  "db_inbox (put_counter key afp r d) = db_inbox d" "db_terminal (put_counter key afp r d) = db_terminal d"
  "db_business (put_counter key afp r d) = db_business d"
  by (simp_all add: put_counter_def)

lemma put_terminal_simps [simp]:
  "db_inbox (put_terminal g t d) = db_inbox d" "db_attempts (put_terminal g t d) = db_attempts d"
  "db_generations (put_terminal g t d) = db_generations d" "db_business (put_terminal g t d) = db_business d"
  by (simp_all add: put_terminal_def)

lemma put_inbox_simps [simp]:
  "db_attempts (put_inbox k i d) = db_attempts d" "db_generations (put_inbox k i d) = db_generations d"
  "db_terminal (put_inbox k i d) = db_terminal d" "db_business (put_inbox k i d) = db_business d"
  by (simp_all add: put_inbox_def)

text \<open>Storing an identity row with the fingerprint the identity already has.\<close>

lemma put_inbox_inv:
  assumes inv: "db_inv d" and same: "\<And>j. map_of (db_inbox d) k = Some j \<Longrightarrow> id_fingerprint j = id_fingerprint i"
  shows "db_inv (put_inbox k i d)"
    and "ledger_of (put_inbox k i d) = set_identity k (id_fingerprint i) (id_completed_at i \<noteq> None) (ledger_of d)"
proof -
  note I = db_invD [OF inv]
  have m: "map_of (db_inbox (put_inbox k i d)) x = (if x = k then Some i else map_of (db_inbox d) x)" for x
    by (simp add: put_inbox_def table_simps)
  have fp: "map_of (db_inbox d) x = Some j \<Longrightarrow>
    \<exists>j'. map_of (db_inbox (put_inbox k i d)) x = Some j' \<and> id_fingerprint j' = id_fingerprint j" for x j
    using same by (auto simp: m)
  have 1: "\<exists>j. map_of (db_inbox (put_inbox k i d)) x = Some j \<and> id_fingerprint j = at_fingerprint r"
    if "map_of (db_attempts d) x = Some r" for x r
    using I(5) [OF that] fp by fastforce
  have 2: "at_fingerprint r = gen_fp g \<and>
      (\<exists>j. map_of (db_inbox (put_inbox k i d)) (logical g) = Some j \<and> id_fingerprint j \<noteq> gen_fp g)"
    if "map_of (db_generations d) g = Some r" for g r
    using I(6) [OF that] fp by fastforce
  have wf: "wf_table (db_inbox (put_inbox k i d))" using I(1) by (simp add: put_inbox_def)
  show "db_inv (put_inbox k i d)"
    unfolding db_inv_def using wf I 1 2 by simp
  show "ledger_of (put_inbox k i d) = set_identity k (id_fingerprint i) (id_completed_at i \<noteq> None) (ledger_of d)"
    by (simp add: ledger_of_def set_identity_def abs_identity_def abs_gen_def m fun_eq_iff split: option.split)
qed

text \<open>Storing a counter, and storing a counter together with its terminal marker.\<close>

lemma put_counter_wf:
  assumes inv: "db_inv d" and i: "map_of (db_inbox d) (ident key) = Some i" "id_fingerprint i = fp"
    and sep: "separated H key fp" and r: "at_fingerprint r = AttemptFingerprint H key fp"
  shows "wf_table (db_attempts (put_counter key (AttemptFingerprint H key fp) r d))"
    "wf_table (db_generations (put_counter key (AttemptFingerprint H key fp) r d))"
    "map_of (db_attempts (put_counter key (AttemptFingerprint H key fp) r d)) k = Some x \<Longrightarrow>
      \<exists>i. map_of (db_inbox d) k = Some i \<and> id_fingerprint i = at_fingerprint x"
    "map_of (db_generations (put_counter key (AttemptFingerprint H key fp) r d)) g = Some x \<Longrightarrow>
      at_fingerprint x = gen_fp g \<and> (\<exists>i. map_of (db_inbox d) (logical g) = Some i \<and> id_fingerprint i \<noteq> gen_fp g)"
proof -
  note I = db_invD [OF inv]
  show "wf_table (db_attempts (put_counter key (AttemptFingerprint H key fp) r d))"
    "wf_table (db_generations (put_counter key (AttemptFingerprint H key fp) r d))"
    using I by (simp_all add: put_counter_def)
  show "\<exists>i. map_of (db_inbox d) k = Some i \<and> id_fingerprint i = at_fingerprint x"
    if "map_of (db_attempts (put_counter key (AttemptFingerprint H key fp) r d)) k = Some x"
    using that i r I(5) [of k x]
    by (auto simp: put_counter_def table_simps AttemptFingerprint_def split: if_splits)
  show "at_fingerprint x = gen_fp g \<and> (\<exists>i. map_of (db_inbox d) (logical g) = Some i \<and> id_fingerprint i \<noteq> gen_fp g)"
    if "map_of (db_generations (put_counter key (AttemptFingerprint H key fp) r d)) g = Some x"
    using that i r sep I(6) [of g x]
    by (auto simp: put_counter_def table_simps separated_def split: if_splits)
qed

lemma put_counter_inv:
  assumes inv: "db_inv d" and i: "map_of (db_inbox d) (ident key) = Some i" "id_fingerprint i = fp"
    and sep: "separated H key fp" and r: "at_fingerprint r = AttemptFingerprint H key fp"
    and open_row: "0 \<le> at_attempts r" "\<not> at_terminal r" "map_of (db_terminal d) (generation H key fp) = None"
  shows "db_inv (put_counter key (AttemptFingerprint H key fp) r d)" (is "db_inv ?d")
    and "ledger_of (put_counter key (AttemptFingerprint H key fp) r d) =
      set_gen (generation H key fp) (Open (nat (at_attempts r))) (ledger_of d)"
proof -
  note I = db_invD [OF inv]
  note W = put_counter_wf [OF inv i sep r]
  have c: "counter_row ?d g = (if g = generation H key fp then Some r else counter_row d g)" for g
    by (rule counter_row_put_counter [OF inv i sep r])
  show "db_inv ?d"
    unfolding db_inv_def
  proof (intro conjI allI impI)
    show "0 \<le> at_attempts x" if "counter_row ?d g = Some x" for g x
      using that I(7) open_row by (auto simp: c split: if_splits)
    show "\<exists>t. map_of (db_terminal ?d) g = Some t \<and> tm_failure_kind t = InboxFailurePermanent"
      if "counter_row ?d g = Some x" and "at_terminal x" for g x
      using that I(7) open_row by (auto simp: c split: if_splits)
    show "\<exists>x. counter_row ?d g = Some x \<and> 0 < at_attempts x \<and>
        (tm_failure_kind t = InboxFailurePermanent \<longrightarrow> at_terminal x)"
      if "map_of (db_terminal ?d) g = Some t" for g t
      using that I(8) [of g t] open_row by (auto simp: c)
  qed (use I W in auto)
  show "ledger_of ?d = set_gen (generation H key fp) (Open (nat (at_attempts r))) (ledger_of d)"
    using open_row by (simp add: ledger_of_def set_gen_def abs_identity_def abs_gen_def c fun_eq_iff split: option.split)
qed

lemma put_terminal_inv:
  assumes inv: "db_inv d" and i: "map_of (db_inbox d) (ident key) = Some i" "id_fingerprint i = fp"
    and sep: "separated H key fp" and r: "at_fingerprint r = AttemptFingerprint H key fp"
    and closed: "0 < at_attempts r" "0 < tm_attempts t" "terminal_kind (tm_failure_kind t)"
      "at_terminal r \<longleftrightarrow> tm_failure_kind t = InboxFailurePermanent"
  shows "db_inv (put_terminal (generation H key fp) t (put_counter key (AttemptFingerprint H key fp) r d))"
      (is "db_inv ?d")
    and "ledger_of (put_terminal (generation H key fp) t (put_counter key (AttemptFingerprint H key fp) r d)) =
      set_gen (generation H key fp) (Closed (nat (at_attempts r)) (tm_failure_kind t)) (ledger_of d)"
proof -
  note I = db_invD [OF inv]
  note W = put_counter_wf [OF inv i sep r]
  have c: "counter_row (put_counter key (AttemptFingerprint H key fp) r d) g =
      (if g = generation H key fp then Some r else counter_row d g)" for g
    by (rule counter_row_put_counter [OF inv i sep r])
  have m: "map_of (db_terminal ?d) g = (if g = generation H key fp then Some t else map_of (db_terminal d) g)" for g
    by (simp add: put_terminal_def table_simps)
  show "db_inv ?d"
    unfolding db_inv_def
  proof (intro conjI allI impI)
    show "wf_table (db_terminal ?d)" using I by (simp add: put_terminal_def)
    show "0 \<le> at_attempts x" if "counter_row ?d g = Some x" for g x
      using that I(7) closed by (auto simp: c split: if_splits)
    show "\<exists>t. map_of (db_terminal ?d) g = Some t \<and> tm_failure_kind t = InboxFailurePermanent"
      if "counter_row ?d g = Some x" and "at_terminal x" for g x
      using that I(7) closed by (auto simp: c m split: if_splits)
    show "\<exists>x. counter_row ?d g = Some x \<and> 0 < at_attempts x \<and>
        (tm_failure_kind u = InboxFailurePermanent \<longrightarrow> at_terminal x)"
      if "map_of (db_terminal ?d) g = Some u" for g u
      using that I(8) [of g u] closed by (auto simp: c m split: if_splits)
    show "0 < tm_attempts u" "terminal_kind (tm_failure_kind u)"
      if "map_of (db_terminal ?d) g = Some u" for g u
      using that I(8) [of g u] closed by (auto simp: m split: if_splits)
  qed (use I W in auto)
  show "ledger_of ?d =
      set_gen (generation H key fp) (Closed (nat (at_attempts r)) (tm_failure_kind t)) (ledger_of d)"
    by (simp add: ledger_of_def set_gen_def abs_identity_def abs_gen_def c m fun_eq_iff split: option.split)
qed

end
