(* ===== verification/InboxRefine.thy ===== *)
theory InboxRefine
  imports Ledger
begin

text \<open>
  The SQLite backend implements the ledger: without faults every operation returns what the ledger
  specification returns, leaves a database whose ledger is the specified one, and keeps the schema
  invariant. Together with the all-or-nothing lemmas this determines the backend under faults.
\<close>

section \<open>The steps of an attempt\<close>

lemma m_bind_ok: "m c = (Inr x, c') \<Longrightarrow> m_bind m f c = f x c'"
  by (simp add: m_bind_def)

lemma chunks_small: "xs \<noteq> [] \<Longrightarrow> length xs \<le> n \<Longrightarrow> chunks n xs = [xs]"
  by (cases n; cases xs) (simp_all add: chunks.simps)

lemma chunks_Nil [simp]: "chunks n [] = []"
  by (simp add: chunks.simps)

lemma nat_int_Suc [simp]: "nat (int a + 1) = Suc a" "nat (1 + int a) = Suc a"
  by simp_all

text \<open>Where the counter of a generation is stored.\<close>

lemma counter_row_slot:
  assumes inv: "db_inv d" and i: "map_of (db_inbox d) (ident key) = Some i" "id_fingerprint i = fp"
    and sep: "separated H key fp"
  shows "counter_row d (generation H key fp) =
    (if k_AttemptGeneration key = [] then map_of (db_attempts d) (ident key)
     else map_of (db_generations d) (generation H key fp))"
proof (cases "k_AttemptGeneration key = []")
  case True
  then have g: "generation H key fp = gen_key key fp" by (simp add: AttemptFingerprint_def)
  have old: "map_of (db_attempts d) (ident key) = Some r \<Longrightarrow> at_fingerprint r = fp" for r
    using db_invD(5) [OF inv] i by fastforce
  have none: "map_of (db_generations d) (gen_key key fp) = None"
  proof (rule ccontr)
    assume "map_of (db_generations d) (gen_key key fp) \<noteq> None"
    then obtain r where "map_of (db_generations d) (gen_key key fp) = Some r" by auto
    from db_invD(6) [OF inv this] i show False by simp
  qed
  show ?thesis using True g old none by (auto simp: counter_row_def split: option.split)
next
  case False
  with sep have afp: "AttemptFingerprint H key fp \<noteq> fp" by (simp add: separated_def)
  have old: "map_of (db_attempts d) (ident key) = Some r \<Longrightarrow> at_fingerprint r = fp" for r
    using db_invD(5) [OF inv] i by fastforce
  show ?thesis using False afp old by (auto simp: counter_row_def split: option.split)
qed

definition gdecide :: "nat \<Rightarrow> gstate \<Rightarrow> attemptDecision" where
  "gdecide n st =
    (case st of
       Fresh \<Rightarrow> \<lparr>ad_attempt = 1, ad_terminal = False, ad_exhausted = False, ad_exists = False\<rparr>
     | Open a \<Rightarrow>
        if a \<ge> n then \<lparr>ad_attempt = a, ad_terminal = False, ad_exhausted = True, ad_exists = True\<rparr>
        else \<lparr>ad_attempt = a + 1, ad_terminal = False, ad_exhausted = False, ad_exists = True\<rparr>
     | Closed a k \<Rightarrow>
        if k = InboxFailurePermanent
        then \<lparr>ad_attempt = a, ad_terminal = True, ad_exhausted = False, ad_exists = True\<rparr>
        else \<lparr>ad_attempt = a, ad_terminal = False, ad_exhausted = True, ad_exists = True\<rparr>)"

definition state_of :: "'b db \<Rightarrow> key4 \<Rightarrow> attemptState option" where
  "state_of d g =
    map_option (\<lambda>r. \<lparr>as_kind = closed_kind d g, as_attempt = nat (at_attempts r), as_terminal = at_terminal r\<rparr>)
      (counter_row d g)"

lemma join4_ident [simp]: "join4 (ident key) fp = gen_key key fp"
  by (simp add: join4_def ident_def gen_key_def)

lemma kinds_distinct [simp]:
  "InboxFailurePermanent \<noteq> []" "FailureAttemptsExhausted \<noteq> []"
  "[] \<noteq> InboxFailurePermanent" "[] \<noteq> FailureAttemptsExhausted"
  "InboxFailurePermanent \<noteq> FailureAttemptsExhausted" "FailureAttemptsExhausted \<noteq> InboxFailurePermanent"
  by (simp_all add: InboxFailurePermanent_def FailureAttemptsExhausted_def)

lemma attempt_row_of_eq:
  assumes inv: "db_inv d" and i: "map_of (db_inbox d) (ident key) = Some i" "id_fingerprint i = fp"
    and sep: "separated H key fp"
  shows "attempt_row_of key (AttemptFingerprint H key fp) d =
    map_option (\<lambda>r. (at_attempts r, at_terminal r, closed_kind d (generation H key fp)))
      (counter_row d (generation H key fp))"
proof (cases "k_AttemptGeneration key = []")
  case True
  have old: "map_of (db_attempts d) (ident key) = Some r \<Longrightarrow> at_fingerprint r = fp" for r
    using db_invD(5) [OF inv] i by fastforce
  show ?thesis
    using True old counter_row_slot [OF inv i sep]
    by (cases "map_of (db_attempts d) (ident key)")
      (auto simp: attempt_row_of_def readAttempt_sql_def AttemptFingerprint_def)
next
  case False
  then show ?thesis
    by (simp add: counter_row_slot [OF inv i sep] attempt_row_of_def readAttemptGeneration_sql_def)
qed

lemma readAttempt_run:
  assumes ff: "cn_faults c = []" and inv: "db_inv (cn_work c)"
    and i: "map_of (db_inbox (cn_work c)) (ident key) = Some i" "id_fingerprint i = fp"
    and sep: "separated H key fp"
  shows "sql_readAttempt pkg key (AttemptFingerprint H key fp) c =
    (Inr (state_of (cn_work c) (generation H key fp)), c)"
  using db_invD(7) [OF inv, of "generation H key fp"]
  by (auto simp: sql_readAttempt_def sql_simps ff attempt_row_of_eq [OF inv i sep] state_of_def
      split: option.split)

lemma decide_state_of:
  assumes inv: "db_inv d"
  shows "decide n (state_of d g) = gdecide n (abs_gen d g)"
proof (cases "counter_row d g")
  case None
  then show ?thesis by (simp add: state_of_def decide_def abs_gen_def gdecide_def)
next
  case (Some r)
  show ?thesis
  proof (cases "map_of (db_terminal d) g")
    case None
    then show ?thesis
      using Some db_invD(7) [OF inv Some]
      by (simp add: state_of_def decide_def abs_gen_def gdecide_def closed_kind_def)
  next
    case (Some t)
    then show ?thesis
      using \<open>counter_row d g = Some r\<close> db_invD(7) [OF inv \<open>counter_row d g = Some r\<close>] db_invD(8) [OF inv Some]
      by (auto simp: state_of_def decide_def abs_gen_def gdecide_def closed_kind_def terminal_kind_def)
  qed
qed

lemma nextAttempt_run:
  assumes "cn_faults c = []" and "db_inv (cn_work c)"
    and "map_of (db_inbox (cn_work c)) (ident key) = Some i" "id_fingerprint i = fp" and "separated H key fp"
  shows "sql_nextAttempt pkg H key fp n c = (Inr (gdecide n (abs_gen (cn_work c) (generation H key fp))), c)"
  using assms
  by (simp add: sql_nextAttempt_def m_bind_def readAttempt_run [OF assms] sql_simps decide_state_of)

definition terminal_mark :: "'b db \<Rightarrow> key4 \<Rightarrow> nat \<Rightarrow> bool \<Rightarrow> instant \<Rightarrow> terminal_row" where
  "terminal_mark d g a p now =
    (case map_of (db_terminal d) g of
       Some t \<Rightarrow> t\<lparr>tm_handoff_confirmed_at := None\<rparr>
     | None \<Rightarrow> \<lparr>tm_attempts = int a,
         tm_failure_kind = (if p then InboxFailurePermanent else FailureAttemptsExhausted),
         tm_terminal_at = now, tm_handoff_confirmed_at = None\<rparr>)"

lemma recordTerminal_run:
  assumes ff: "cn_faults c = []" and wf: "wf_table (db_terminal (cn_work c))" and a: "0 < a"
  shows "sql_recordTerminal H key fp a p c =
    (Inr (), c\<lparr>cn_tick := Suc (cn_tick c),
       cn_work := put_terminal (generation H key fp)
         (terminal_mark (cn_work c) (generation H key fp) a p (cn_clock c (cn_tick c))) (cn_work c)\<rparr>)"
proof -
  let ?o = "terminal_item key fp a p"
  have o: "terminal_outcome ?o" "terminal_check ?o" "terminal_key H ?o = generation H key fp"
    using a by (simp_all add: terminal_outcome_def terminal_check_def terminal_item_def terminal_key_def)
  have up: "upsert_terminal H now ?o (db_terminal d) =
      tb_put (generation H key fp) (terminal_mark d (generation H key fp) a p now) (db_terminal d)"
    if "wf_table (db_terminal d)" for d :: "'b db" and now
  proof (cases "map_of (db_terminal d) (generation H key fp)")
    case None
    then show ?thesis
      using o(3) by (simp add: upsert_terminal_def terminal_mark_def tb_has_def tb_put_def) (simp add: terminal_item_def)
  next
    case (Some t)
    then show ?thesis
      using o(3) that by (simp add: upsert_terminal_def terminal_mark_def tb_has_def tb_update_eq_put)
  qed
  show ?thesis
    using ff o up [OF wf]
    by (simp add: sql_recordTerminal_def sql_simps Record_def chunks_small)
      (simp add: m_bind_def m_stmt_def record_sql_def sql_simps put_terminal_def)
qed

text \<open>The row after consuming one attempt.\<close>

definition consumed_row :: "fingerprint \<Rightarrow> attempt_row option \<Rightarrow> instant \<Rightarrow> attempt_row" where
  "consumed_row afp row now = (case row of None \<Rightarrow> fresh_attempt afp 1 now | Some r \<Rightarrow> bump now r)"

lemma consumeAttempt_run:
  assumes ff: "cn_faults c = []" and inv: "db_inv (cn_work c)"
    and i: "map_of (db_inbox (cn_work c)) (ident key) = Some i" "id_fingerprint i = fp"
    and sep: "separated H key fp"
    and ex: "ad_exists dec \<longleftrightarrow> counter_row (cn_work c) (generation H key fp) \<noteq> None"
  shows "sql_consumeAttempt pkg H key fp dec c =
    (Inr (), c\<lparr>cn_tick := Suc (cn_tick c),
       cn_work := put_counter key (AttemptFingerprint H key fp)
         (consumed_row (AttemptFingerprint H key fp) (counter_row (cn_work c) (generation H key fp))
           (cn_clock c (cn_tick c))) (cn_work c)\<rparr>)"
proof -
  note slot = counter_row_slot [OF inv i sep]
  note wf = db_invD(2,3) [OF inv]
  show ?thesis
  proof (cases "counter_row (cn_work c) (generation H key fp)")
    case None
    with ex have "\<not> ad_exists dec" by simp
    with None slot ff show ?thesis
      by (cases "k_AttemptGeneration key = []")
        (simp_all add: sql_consumeAttempt_def sql_insertAttempt_def sql_simps m_stmt_def
          insertAttempt_sql_def insertAttemptGeneration_sql_def tb_has_def put_counter_def tb_put_def
          consumed_row_def Let_def)
  next
    case (Some r)
    with ex have "ad_exists dec" by simp
    with Some slot ff wf show ?thesis
      by (cases "k_AttemptGeneration key = []")
        (simp_all add: sql_consumeAttempt_def sql_incrementAttempt_def sql_simps m_exec_def m_stmt_def
          update_attempt_sql_def update_generation_sql_def put_counter_def tb_update_eq_put
          consumed_row_def Let_def)
  qed
qed

lemma markAttemptTerminal_run:
  assumes ff: "cn_faults c = []" and inv: "db_inv (cn_work c)"
    and i: "map_of (db_inbox (cn_work c)) (ident key) = Some i" "id_fingerprint i = fp"
    and sep: "separated H key fp" and r: "counter_row (cn_work c) (generation H key fp) = Some r"
    and e: "IsPermanent e"
  shows "sql_markAttemptTerminal pkg H key fp e c =
    (Inr (), c\<lparr>cn_tick := Suc (cn_tick c),
       cn_work := put_counter key (AttemptFingerprint H key fp) (close_row (cn_clock c (cn_tick c)) r) (cn_work c)\<rparr>)"
proof -
  note slot = counter_row_slot [OF inv i sep]
  note wf = db_invD(2,3) [OF inv]
  show ?thesis
    using ff e r slot wf
    by (cases "k_AttemptGeneration key = []")
      (simp_all add: sql_markAttemptTerminal_def sql_simps m_exec_def m_stmt_def
        update_attempt_sql_def update_generation_sql_def put_counter_def tb_update_eq_put)
qed

lemma PreserveDeferred_run:
  assumes ff: "cn_faults c = []" and inv: "db_inv (cn_work c)"
    and i: "map_of (db_inbox (cn_work c)) (ident key) = Some i" "id_fingerprint i = fp"
    and sep: "separated H key fp"
  shows "PreserveDeferred H [defer_item key fp a] now c =
    (Inr (), c\<lparr>cn_work :=
       if a = 0 \<and> counter_row (cn_work c) (generation H key fp) = None
       then put_counter key (AttemptFingerprint H key fp) (fresh_attempt (AttemptFingerprint H key fp) 0 now) (cn_work c)
       else cn_work c\<rparr>)"
proof -
  note slot = counter_row_slot [OF inv i sep]
  let ?o = "defer_item key fp a"
  have o: "deferred_outcome replay (defer_item key fp x) \<longleftrightarrow>
      x = 0 \<and> (k_AttemptGeneration key \<noteq> []) = replay" for replay x
    by (simp add: deferred_outcome_def defer_item_def)
  have p: "preserve_sql H (k_AttemptGeneration key \<noteq> []) now ?o (cn_work c) =
      (if counter_row (cn_work c) (generation H key fp) = None
       then put_counter key (AttemptFingerprint H key fp) (fresh_attempt (AttemptFingerprint H key fp) 0 now) (cn_work c)
       else cn_work c)"
    using slot
    by (auto simp: preserve_sql_def defer_item_def insert_ignore_def put_counter_def tb_put_def tb_has_def Let_def)
  show ?thesis
  proof (cases "a = 0")
    case True
    then show ?thesis
      using p ff
      by (cases "k_AttemptGeneration key = []")
        (simp_all add: PreserveDeferred_def o chunks_small sql_simps preserveDeferredChunk_def
          m_bind_def m_exec_def m_stmt_def)
  next
    case False
    then show ?thesis by (simp add: PreserveDeferred_def o sql_simps)
  qed
qed

section \<open>One handler invocation\<close>

definition implements :: "'b db conn \<Rightarrow> 'b ledger \<Rightarrow> bool" where
  "implements c L \<longleftrightarrow> db_inv (cn_durable c) \<and> ledger_of (cn_durable c) = L"

lemma set_gen_same: "lg_gen L g = st \<Longrightarrow> set_gen g st L = L"
  by (simp add: set_gen_def) (metis fun_upd_triv ledger.surjective ledger.update_convs(2))

lemma set_identity_same: "lg_identity L k = Some (fp, x) \<Longrightarrow> set_identity k fp x L = L"
  by (simp add: set_identity_def) (metis fun_upd_triv ledger.surjective ledger.update_convs(1))

lemma set_gen_identity: "set_gen g st (set_identity k fp x L) = set_identity k fp x (set_gen g st L)"
  by (simp add: set_gen_def set_identity_def)

lemma ledger_of_simps [simp]:
  "lg_identity (ledger_of d) = abs_identity d" "lg_gen (ledger_of d) = abs_gen d"
  "lg_business (ledger_of d) = db_business d"
  by (simp_all add: ledger_of_def)

text \<open>A generation that accepts another attempt, with \<open>a\<close> attempts consumed.\<close>

definition invocable :: "nat \<Rightarrow> nat \<Rightarrow> gstate \<Rightarrow> bool" where
  "invocable n a st \<longleftrightarrow> (st = Fresh \<and> a = 0) \<or> (st = Open a \<and> a < n)"

lemma invocable_open:
  assumes inv: "db_inv d" and st: "invocable n a (abs_gen d g)"
  shows "map_of (db_terminal d) g = None"
    and "0 < n \<Longrightarrow> gdecide n (abs_gen d g) =
      \<lparr>ad_attempt = a + 1, ad_terminal = False, ad_exhausted = False, ad_exists = counter_row d g \<noteq> None\<rparr>"
proof -
  show t: "map_of (db_terminal d) g = None"
  proof (cases "map_of (db_terminal d) g")
    case (Some t)
    with st db_invD(8) [OF inv Some] show ?thesis by (auto simp: invocable_def abs_gen_def)
  qed
  show "0 < n \<Longrightarrow> gdecide n (abs_gen d g) =
      \<lparr>ad_attempt = a + 1, ad_terminal = False, ad_exhausted = False, ad_exists = counter_row d g \<noteq> None\<rparr>"
    using st t by (auto simp: invocable_def abs_gen_def gdecide_def split: option.splits)
qed

lemma invocable_row:
  assumes inv: "db_inv d" and st: "invocable n a (abs_gen d g)"
  shows "at_attempts (consumed_row (gen_fp g) (counter_row d g) now) = int a + 1"
    and "\<not> at_terminal (consumed_row (gen_fp g) (counter_row d g) now)"
    and "at_fingerprint (consumed_row (gen_fp g) (counter_row d g) now) = gen_fp g"
proof -
  note t = invocable_open(1) [OF inv st]
  show "at_attempts (consumed_row (gen_fp g) (counter_row d g) now) = int a + 1"
    using st t db_invD(7) [OF inv, of g]
    by (auto simp: invocable_def abs_gen_def consumed_row_def fresh_attempt_def bump_def split: option.splits)
  show "\<not> at_terminal (consumed_row (gen_fp g) (counter_row d g) now)"
    using t db_invD(7) [OF inv, of g]
    by (auto simp: consumed_row_def fresh_attempt_def bump_def split: option.splits)
  show "at_fingerprint (consumed_row (gen_fp g) (counter_row d g) now) = gen_fp g"
    using counter_row_fp [OF inv]
    by (auto simp: consumed_row_def fresh_attempt_def bump_def split: option.splits)
qed

lemma markComplete_eq_put:
  assumes "wf_table (db_inbox d)" and "map_of (db_inbox d) k = Some i"
  shows "markComplete_sql k now d = put_inbox k (i\<lparr>id_completed_at := Some now\<rparr>) d"
  using assms by (simp add: markComplete_sql_def put_inbox_def tb_update_eq_put)

definition closed_mark :: "nat \<Rightarrow> string \<Rightarrow> instant \<Rightarrow> terminal_row" where
  "closed_mark a k now =
    \<lparr>tm_attempts = int a, tm_failure_kind = k, tm_terminal_at = now, tm_handoff_confirmed_at = None\<rparr>"

lemma terminal_mark_None:
  "map_of (db_terminal d) g = None \<Longrightarrow> terminal_mark d g a p now =
    closed_mark a (if p then InboxFailurePermanent else FailureAttemptsExhausted) now"
  by (simp add: terminal_mark_def closed_mark_def)

text \<open>A successful handler: the attempt is consumed, the identity completed, the writes kept.\<close>

lemma success_run:
  assumes ff: "cn_faults c = []" and inv: "db_inv (cn_work c)"
    and i: "map_of (db_inbox (cn_work c)) (ident key) = Some i" "id_fingerprint i = fp"
    and sep: "separated H key fp" and n: "0 < n"
    and st: "invocable n a (abs_gen (cn_work c) (generation H key fp))"
    and dec: "dec = gdecide n (abs_gen (cn_work c) (generation H key fp))"
  shows "\<exists>c'. m_bind (sql_consumeAttempt pkg H key fp dec)
      (\<lambda>_. m_bind m_now
      (\<lambda>now. m_bind (m_exec (sql_err pkg ''mark attempt complete'') (markComplete_sql (ident key) now))
      (\<lambda>_. m_bind (m_commit (sql_err pkg ''commit handler attempt''))
      (\<lambda>_. m_return (attempt_result (ad_attempt dec), None))))) c = (Inr (attempt_result (a + 1), None), c') \<and>
    implements c' (set_identity (ident key) fp True
      (set_gen (generation H key fp) (Open (a + 1)) (ledger_of (cn_work c))))"
proof -
  let ?g = "generation H key fp" and ?afp = "AttemptFingerprint H key fp"
  let ?now = "cn_clock c (cn_tick c)" and ?now' = "cn_clock c (Suc (cn_tick c))"
  let ?r = "consumed_row ?afp (counter_row (cn_work c) ?g) ?now"
  let ?w = "put_counter key ?afp ?r (cn_work c)"
  note row = invocable_row [OF inv st, of ?now, simplified] invocable_open [OF inv st]
  have ex: "ad_exists dec \<longleftrightarrow> counter_row (cn_work c) ?g \<noteq> None" and at: "ad_attempt dec = a + 1"
    using row dec n by simp_all
  note consume = consumeAttempt_run [OF ff inv i sep ex]
  have inv1: "db_inv ?w"
    and led1: "ledger_of ?w = set_gen ?g (Open (nat (at_attempts ?r))) (ledger_of (cn_work c))"
    using put_counter_inv [OF inv i sep, of ?r] row by simp_all
  have i1: "map_of (db_inbox ?w) (ident key) = Some i" using i by simp
  have mc: "markComplete_sql (ident key) ?now' ?w = put_inbox (ident key) (i\<lparr>id_completed_at := Some ?now'\<rparr>) ?w"
    using i1 db_invD(1) [OF inv1] by (rule markComplete_eq_put [rotated])
  have "db_inv (put_inbox (ident key) (i\<lparr>id_completed_at := Some ?now'\<rparr>) ?w)"
    "ledger_of (put_inbox (ident key) (i\<lparr>id_completed_at := Some ?now'\<rparr>) ?w) =
      set_identity (ident key) fp True (set_gen ?g (Open (a + 1)) (ledger_of (cn_work c)))"
    using put_inbox_inv [OF inv1, of "ident key" "i\<lparr>id_completed_at := Some ?now'\<rparr>"] i1 i led1 row
    by simp_all
  with mc show ?thesis
    using at ff by (simp add: m_bind_ok [where m = "sql_consumeAttempt pkg H key fp dec", OF consume] sql_simps implements_def)
qed

text \<open>A failed handler: its writes are dropped, the attempt is consumed unless it was deferred.\<close>

lemma deferred_run:
  assumes ff: "cn_faults c = []" and sv: "cn_save c = Some w" and inv: "db_inv w"
    and i: "map_of (db_inbox w) (ident key) = Some i" "id_fingerprint i = fp"
    and sep: "separated H key fp" and n: "0 < n"
    and st: "invocable n a (abs_gen w (generation H key fp))"
    and dec: "dec = gdecide n (abs_gen w (generation H key fp))" and e: "deferred e"
  shows "\<exists>c'. sql_finishFailedAttempt pkg H key fp dec n e c = (Inr (attempt_result a, Some e), c') \<and>
    implements c' (set_gen (generation H key fp) (Open a) (ledger_of w))"
proof -
  let ?g = "generation H key fp" and ?afp = "AttemptFingerprint H key fp" and ?now = "cn_clock c (cn_tick c)"
  let ?c = "c\<lparr>cn_work := w, cn_tick := Suc (cn_tick c)\<rparr>"
  let ?w = "if a = 0 \<and> counter_row w ?g = None then put_counter key ?afp (fresh_attempt ?afp 0 ?now) w else w"
  note op = invocable_open [OF inv st]
  have pres: "PreserveDeferred H [defer_item key fp a] ?now ?c = (Inr (), ?c\<lparr>cn_work := ?w\<rparr>)"
    using PreserveDeferred_run [of ?c key i fp H a ?now] ff inv i sep by simp
  have imp: "db_inv ?w \<and> ledger_of ?w = set_gen ?g (Open a) (ledger_of w)"
  proof (cases "counter_row w ?g")
    case None
    with st have "a = 0" by (auto simp: invocable_def abs_gen_def)
    with None show ?thesis
      using put_counter_inv [OF inv i sep, of "fresh_attempt ?afp 0 ?now"] op
      by (simp add: fresh_attempt_def)
  next
    case (Some r)
    with op have "abs_gen w ?g = Open (nat (at_attempts r))" by (simp add: abs_gen_def)
    with st have "abs_gen w ?g = Open a" by (simp add: invocable_def)
    with Some inv show ?thesis by (simp add: set_gen_same)
  qed
  have "sql_finishFailedAttempt pkg H key fp dec n e c =
      (Inr (attempt_result a, Some e), ?c\<lparr>cn_work := ?w, cn_durable := ?w\<rparr>)"
    using e dec op(2) [OF n] ff sv
    by (simp add: sql_finishFailedAttempt_def deferred_def sql_simps
        m_bind_ok [where m = "PreserveDeferred H [defer_item key fp a] ?now", OF pres])
  with imp show ?thesis by (auto simp: implements_def)
qed

lemma failure_run:
  assumes ff: "cn_faults c = []" and sv: "cn_save c = Some w" and inv: "db_inv w"
    and i: "map_of (db_inbox w) (ident key) = Some i" "id_fingerprint i = fp"
    and sep: "separated H key fp" and n: "0 < n"
    and st: "invocable n a (abs_gen w (generation H key fp))"
    and dec: "dec = gdecide n (abs_gen w (generation H key fp))" and e: "\<not> deferred e"
  shows "\<exists>c'. sql_finishFailedAttempt pkg H key fp dec n e c = (Inr (attempt_result (a + 1), Some e), c') \<and>
    implements c' (set_gen (generation H key fp) (after_failure n a e) (ledger_of w))"
proof -
  let ?g = "generation H key fp" and ?afp = "AttemptFingerprint H key fp" and ?now = "cn_clock c (cn_tick c)"
  let ?r = "consumed_row ?afp (counter_row w ?g) ?now"
  let ?c = "c\<lparr>cn_work := w\<rparr>"
  let ?c1 = "c\<lparr>cn_work := put_counter key ?afp ?r w, cn_tick := Suc (cn_tick c)\<rparr>"
  note row = invocable_row [OF inv st, of ?now, simplified] and op = invocable_open [OF inv st]
  have dec': "ad_attempt dec = a + 1" "ad_exists dec \<longleftrightarrow> counter_row w ?g \<noteq> None"
    using dec op(2) [OF n] by simp_all
  have consume: "sql_consumeAttempt pkg H key fp dec ?c = (Inr (), ?c1)"
    using consumeAttempt_run [of ?c key i fp H dec] ff inv i sep dec' by simp
  have inv1: "db_inv (put_counter key ?afp ?r w)"
    and led1: "ledger_of (put_counter key ?afp ?r w) = set_gen ?g (Open (a + 1)) (ledger_of w)"
    using put_counter_inv [OF inv i sep, of ?r] row op by simp_all
  have row1: "counter_row (put_counter key ?afp ?r w) ?g = Some ?r"
    using counter_row_put_counter [OF inv i sep, of ?r ?g] row by simp
  have start: "sql_finishFailedAttempt pkg H key fp dec n e c =
      m_bind (sql_markAttemptTerminal pkg H key fp e)
        (\<lambda>_. m_bind (m_when (IsPermanent e \<or> a + 1 \<ge> n) (sql_recordTerminal H key fp (a + 1) (IsPermanent e)))
        (\<lambda>_. m_bind (m_commit (sql_err pkg ''commit failed handler attempt''))
        (\<lambda>_. m_return (attempt_result (a + 1), Some e)))) ?c1"
    using e dec' ff sv
    by (simp add: sql_finishFailedAttempt_def deferred_def [symmetric] sql_simps
        m_bind_ok [where m = "sql_consumeAttempt pkg H key fp dec", OF consume] del: not_None_eq)
  show ?thesis
  proof (cases "IsPermanent e")
    case True
    let ?r2 = "close_row (cn_clock c (Suc (cn_tick c))) ?r"
    let ?c2 = "c\<lparr>cn_work := put_counter key ?afp ?r2 w, cn_tick := Suc (Suc (cn_tick c))\<rparr>"
    let ?t = "closed_mark (a + 1) InboxFailurePermanent (cn_clock c (Suc (Suc (cn_tick c))))"
    have pp: "put_counter key ?afp ?r2 (put_counter key ?afp ?r w) = put_counter key ?afp ?r2 w"
      by (simp add: put_counter_def)
    have mark: "sql_markAttemptTerminal pkg H key fp e ?c1 = (Inr (), ?c2)"
      using markAttemptTerminal_run [of ?c1 key i fp H ?r e] ff inv1 i sep row1 True pp by simp
    have rec: "sql_recordTerminal H key fp (a + 1) True ?c2 =
        (Inr (), ?c2\<lparr>cn_tick := Suc (cn_tick ?c2), cn_work := put_terminal ?g ?t (put_counter key ?afp ?r2 w)\<rparr>)"
      using recordTerminal_run [of ?c2 "a + 1" H key fp True] ff db_invD(4) [OF inv] op
      by (simp add: terminal_mark_None)
    have "db_inv (put_terminal ?g ?t (put_counter key ?afp ?r2 w))"
      "ledger_of (put_terminal ?g ?t (put_counter key ?afp ?r2 w)) =
        set_gen ?g (Closed (a + 1) InboxFailurePermanent) (ledger_of w)"
      using put_terminal_inv [OF inv i sep, of ?r2 ?t] row
      by (simp_all add: close_row_def closed_mark_def terminal_kind_def)
    with True start mark rec show ?thesis
      using ff
      by (simp add: m_bind_ok [where m = "sql_markAttemptTerminal pkg H key fp e", OF mark] sql_simps
          m_bind_ok [where m = "sql_recordTerminal H key fp (Suc a) True", OF rec [simplified]]
          implements_def after_failure_def)
  next
    case False
    then have mark: "sql_markAttemptTerminal pkg H key fp e ?c1 = (Inr (), ?c1)"
      by (simp add: sql_markAttemptTerminal_def sql_simps)
    note start' = start [unfolded m_bind_ok [where m = "sql_markAttemptTerminal pkg H key fp e", OF mark]]
    show ?thesis
    proof (cases "a + 1 \<ge> n")
      case True
      let ?t = "closed_mark (a + 1) FailureAttemptsExhausted (cn_clock c (Suc (cn_tick c)))"
      have rec: "sql_recordTerminal H key fp (a + 1) False ?c1 =
          (Inr (), ?c1\<lparr>cn_tick := Suc (cn_tick ?c1), cn_work := put_terminal ?g ?t (put_counter key ?afp ?r w)\<rparr>)"
        using recordTerminal_run [of ?c1 "a + 1" H key fp False] ff db_invD(4) [OF inv] op
        by (simp add: terminal_mark_None)
      have "db_inv (put_terminal ?g ?t (put_counter key ?afp ?r w))"
        "ledger_of (put_terminal ?g ?t (put_counter key ?afp ?r w)) =
          set_gen ?g (Closed (a + 1) FailureAttemptsExhausted) (ledger_of w)"
        using put_terminal_inv [OF inv i sep, of ?r ?t] row
        by (simp_all add: closed_mark_def terminal_kind_def)
      with True False start' rec show ?thesis
        using ff
        by (simp add: sql_simps
            m_bind_ok [where m = "sql_recordTerminal H key fp (Suc a) False", OF rec [simplified]]
            implements_def after_failure_def)
    next
      case small: False
      with False start' inv1 led1 show ?thesis
        using ff by (simp add: sql_simps implements_def after_failure_def)
    qed
  qed
qed

section \<open>The whole attempt\<close>

lemma put_counter_same:
  assumes inv: "db_inv d" and i: "map_of (db_inbox d) (ident key) = Some i" "id_fingerprint i = fp"
    and sep: "separated H key fp" and r: "counter_row d (generation H key fp) = Some r"
  shows "put_counter key (AttemptFingerprint H key fp) r d = d"
  using counter_row_slot [OF inv i sep] r db_invD(2,3) [OF inv]
  by (cases "k_AttemptGeneration key = []") (simp_all add: put_counter_def tb_put_same)

lemma closed_run:
  assumes ff: "cn_faults c = []" and inv: "db_inv (cn_work c)"
    and i: "map_of (db_inbox (cn_work c)) (ident key) = Some i" "id_fingerprint i = fp"
    and sep: "separated H key fp" and n: "0 < n"
    and dec: "dec = gdecide n (abs_gen (cn_work c) (generation H key fp))"
    and closed: "ad_terminal dec \<or> ad_exhausted dec"
  shows "\<exists>c'. m_bind (sql_recordTerminal H key fp (ad_attempt dec) (ad_terminal dec))
        (\<lambda>_. m_bind (m_commit (sql_err pkg ''commit existing attempt state''))
        (\<lambda>_. m_return (attempt_result (ad_attempt dec), Some (closed_error dec)))) c =
      (Inr (fst (ledger_open key fp (generation H key fp) n h (ledger_of (cn_work c)))), c') \<and>
    implements c' (snd (ledger_open key fp (generation H key fp) n h (ledger_of (cn_work c))))"
proof -
  let ?g = "generation H key fp" and ?w = "cn_work c"
  from closed dec obtain r where r: "counter_row ?w ?g = Some r"
    by (cases "counter_row ?w ?g") (auto simp: abs_gen_def gdecide_def)
  note same = put_counter_same [OF inv i sep r]
  have fp: "at_fingerprint r = AttemptFingerprint H key fp" using counter_row_fp [OF inv r] by simp
  let ?t = "terminal_mark ?w ?g (ad_attempt dec) (ad_terminal dec) (cn_clock c (cn_tick c))"
  have facts: "0 < ad_attempt dec \<and> 0 < at_attempts r \<and> 0 < tm_attempts ?t \<and>
      terminal_kind (tm_failure_kind ?t) \<and> (at_terminal r \<longleftrightarrow> tm_failure_kind ?t = InboxFailurePermanent) \<and>
      ledger_open key fp ?g n h (ledger_of ?w) =
        ((attempt_result (ad_attempt dec), Some (closed_error dec)),
         set_gen ?g (Closed (nat (at_attempts r)) (tm_failure_kind ?t)) (ledger_of ?w))"
  proof (cases "map_of (db_terminal ?w) ?g")
    case None
    then have "abs_gen ?w ?g = Open (nat (at_attempts r))" using r by (simp add: abs_gen_def)
    with None r dec closed n db_invD(7) [OF inv r] show ?thesis
      by (auto simp: gdecide_def terminal_mark_def terminal_kind_def ledger_open_def closed_error_def
          split: if_splits)
  next
    case (Some t)
    then have st: "abs_gen ?w ?g = Closed (nat (at_attempts r)) (tm_failure_kind t)"
      using r by (simp add: abs_gen_def)
    have "set_gen ?g (Closed (nat (at_attempts r)) (tm_failure_kind t)) (ledger_of ?w) = ledger_of ?w"
      using st by (intro set_gen_same) simp
    with Some st r dec db_invD(7) [OF inv r] db_invD(8) [OF inv Some] show ?thesis
      by (auto simp: gdecide_def terminal_mark_def terminal_kind_def ledger_open_def closed_error_def
          kind_error_def split: if_splits)
  qed
  have rec: "sql_recordTerminal H key fp (ad_attempt dec) (ad_terminal dec) c =
      (Inr (), c\<lparr>cn_tick := Suc (cn_tick c), cn_work := put_terminal ?g ?t ?w\<rparr>)"
    using recordTerminal_run [OF ff db_invD(4) [OF inv]] facts by simp
  have "db_inv (put_terminal ?g ?t ?w)" "ledger_of (put_terminal ?g ?t ?w) =
      set_gen ?g (Closed (nat (at_attempts r)) (tm_failure_kind ?t)) (ledger_of ?w)"
    using put_terminal_inv [OF inv i sep fp, of ?t] facts same by simp_all
  with facts show ?thesis
    using ff by (simp add: m_bind_ok [where m = "sql_recordTerminal H key fp (ad_attempt dec) (ad_terminal dec)", OF rec]
        sql_simps implements_def)
qed

lemma abs_gen_business [simp]: "abs_gen (d\<lparr>db_business := b\<rparr>) g = abs_gen d g"
  by (simp add: abs_gen_def split: option.split)

lemma attempt_body_run:
  assumes ff: "cn_faults c = []" and inv: "db_inv (cn_work c)"
    and i: "map_of (db_inbox (cn_work c)) (ident key) = Some i" "id_fingerprint i = fp"
    and sep: "separated H key fp" and n: "0 < n"
  shows "\<exists>c'. sql_attempt_body pkg H key fp n h c =
      (Inr (fst (ledger_open key fp (generation H key fp) n h (ledger_of (cn_work c)))), c') \<and>
    implements c' (snd (ledger_open key fp (generation H key fp) n h (ledger_of (cn_work c))))"
proof -
  let ?g = "generation H key fp" and ?w = "cn_work c"
  define dec where dec: "dec = gdecide n (abs_gen ?w ?g)"
  note read = nextAttempt_run [OF ff inv i sep, where pkg = pkg and n = n, folded dec]
  show ?thesis
  proof (cases "ad_terminal dec \<or> ad_exhausted dec")
    case True
    then show ?thesis
      using closed_run [OF ff inv i sep n dec True, where h = h and pkg = pkg]
      by (simp add: sql_attempt_body_def sql_run_attempt_def m_bind_ok [where m = "sql_nextAttempt pkg H key fp n", OF read])
  next
    case False
    then obtain a where st: "invocable n a (abs_gen ?w ?g)"
      using dec n by (cases "abs_gen ?w ?g") (auto simp: gdecide_def invocable_def split: if_splits)
    obtain b he where h: "h (db_business ?w) = (b, he)" by force
    have spec: "ledger_open key fp ?g n h (ledger_of ?w) = ledger_invoke key fp ?g n a h (ledger_of ?w)"
      using st by (auto simp: invocable_def ledger_open_def)
    let ?c = "c\<lparr>cn_save := Some ?w, cn_work := ?w\<lparr>db_business := b\<rparr>\<rparr>"
    have start: "sql_attempt_body pkg H key fp n h c =
        (case he of
           Some e \<Rightarrow> sql_finishFailedAttempt pkg H key fp dec n e
         | None \<Rightarrow>
            m_bind (sql_consumeAttempt pkg H key fp dec)
            (\<lambda>_. m_bind m_now
            (\<lambda>now. m_bind (m_exec (sql_err pkg ''mark attempt complete'') (markComplete_sql (ident key) now))
            (\<lambda>_. m_bind (m_commit (sql_err pkg ''commit handler attempt''))
            (\<lambda>_. m_return (attempt_result (ad_attempt dec), None)))))) ?c"
      using False ff h
      by (simp add: sql_attempt_body_def sql_run_attempt_def m_bind_ok [where m = "sql_nextAttempt pkg H key fp n", OF read]
          sql_simps run_handler_def cong: option.case_cong)
    show ?thesis
    proof (cases he)
      case None
      then show ?thesis
        using success_run [of ?c key i fp H n a dec] ff inv i sep n st dec h
        unfolding start spec by (simp add: ledger_invoke_def ledger_of_business)
    next
      case (Some e)
      then show ?thesis
        using deferred_run [of ?c ?w key i fp H n a dec e] failure_run [of ?c ?w key i fp H n a dec e]
          ff inv i sep n st dec h
        unfolding start spec by (cases "deferred e") (simp_all add: ledger_invoke_def)
    qed
  qed
qed

lemma state_of_attempt:
  "(case state_of d g of None \<Rightarrow> 0 | Some st \<Rightarrow> as_attempt st) = consumed (abs_gen d g)"
  by (simp add: state_of_def abs_gen_def split: option.split)

lemma implements_rollback [simp]: "implements (rollback c) L = implements c L"
  by (simp add: implements_def sql_simps)

lemma sql_ProcessAttempt_refines:
  assumes ff: "cn_faults c = []" and inv: "db_inv (cn_durable c)" and sep: "separated H key fp" and n: "0 < n"
  shows "fst (sql_ProcessAttempt pkg H key fp n h c) =
      fst (ledger_attempt key fp (generation H key fp) n h (ledger_of (cn_durable c)))"
    and "implements (snd (sql_ProcessAttempt pkg H key fp n h c))
      (snd (ledger_attempt key fp (generation H key fp) n h (ledger_of (cn_durable c))))"
proof -
  let ?d = "cn_durable c" and ?g = "generation H key fp"
  let ?c0 = "(rollback c)\<lparr>cn_tick := Suc (cn_tick c)\<rparr>" and ?now = "cn_clock c (cn_tick c)"
  have "fst (sql_ProcessAttempt pkg H key fp n h c) = fst (ledger_attempt key fp ?g n h (ledger_of ?d)) \<and>
    implements (snd (sql_ProcessAttempt pkg H key fp n h c)) (snd (ledger_attempt key fp ?g n h (ledger_of ?d)))"
  proof (cases "map_of (db_inbox ?d) (ident key)")
    case None
    let ?i = "\<lparr>id_fingerprint = fp, id_created_at = ?now, id_completed_at = None\<rparr>"
    let ?w = "put_inbox (ident key) ?i ?d" and ?c1 = "?c0\<lparr>cn_work := put_inbox (ident key) ?i ?d\<rparr>"
    have inv1: "db_inv ?w" and led: "ledger_of ?w = set_identity (ident key) fp False (ledger_of ?d)"
      using put_inbox_inv [OF inv, of "ident key" ?i] None by simp_all
    have i1: "map_of (db_inbox ?w) (ident key) = Some ?i" by (simp add: put_inbox_def table_simps)
    obtain c' where c': "sql_attempt_body pkg H key fp n h ?c1 =
        (Inr (fst (ledger_open key fp ?g n h (ledger_of ?w))), c')"
      "implements c' (snd (ledger_open key fp ?g n h (ledger_of ?w)))"
      using attempt_body_run [where pkg = pkg, of ?c1 key ?i fp H n h] ff inv1 i1 sep n by (auto simp: sql_simps)
    have ins: "insertIdentity_sql (ident key) fp ?now ?d = Some (1, ?w)"
      using None by (simp add: insertIdentity_sql_def tb_has_def put_inbox_def tb_put_def)
    show ?thesis
      using c' None ff ins led
      by (simp add: sql_ProcessAttempt_def finish_def sql_prepareAttemptIdentity_def sql_simps
          ledger_attempt_def abs_identity_def)
  next
    case (Some i)
    then have ins: "insertIdentity_sql (ident key) fp ?now ?d = Some (0, ?d)"
      by (simp add: insertIdentity_sql_def tb_has_def)
    have read: "readIdentity_sql (ident key) ?d = Some (id_fingerprint i, id_completed_at i)"
      using Some by (simp add: readIdentity_sql_def)
    consider "id_fingerprint i \<noteq> fp" | "id_fingerprint i = fp" "id_completed_at i \<noteq> None"
      | "id_fingerprint i = fp" "id_completed_at i = None" by blast
    then show ?thesis
    proof cases
      case 1
      with Some ff ins read inv show ?thesis
        by (simp add: sql_ProcessAttempt_def finish_def sql_prepareAttemptIdentity_def sql_simps
            ledger_attempt_def abs_identity_def implements_def)
    next
      case 2
      let ?c2 = "?c0\<lparr>cn_work := ?d\<rparr>"
      have rd: "sql_readAttempt pkg key (AttemptFingerprint H key fp) ?c2 = (Inr (state_of ?d ?g), ?c2)"
        using readAttempt_run [where pkg = pkg, of ?c2 key i fp H] ff inv Some 2 sep by (simp add: sql_simps)
      from 2 obtain t where "id_completed_at i = Some t" by blast
      with 2 Some ff ins read inv show ?thesis
        by (simp add: sql_ProcessAttempt_def finish_def sql_prepareAttemptIdentity_def sql_simps
            m_bind_ok [where m = "sql_readAttempt pkg key (AttemptFingerprint H key fp)", OF rd] state_of_attempt
            ledger_attempt_def abs_identity_def implements_def)
    next
      case 3
      let ?c2 = "?c0\<lparr>cn_work := ?d\<rparr>"
      obtain c' where c': "sql_attempt_body pkg H key fp n h ?c2 =
          (Inr (fst (ledger_open key fp ?g n h (ledger_of ?d))), c')"
        "implements c' (snd (ledger_open key fp ?g n h (ledger_of ?d)))"
        using attempt_body_run [where pkg = pkg, of ?c2 key i fp H n h] ff inv Some 3 sep n by (auto simp: sql_simps)
      from 3 Some ff ins read c' show ?thesis
        by (simp add: sql_ProcessAttempt_def finish_def sql_prepareAttemptIdentity_def sql_simps
            ledger_attempt_def abs_identity_def)
    qed
  qed
  then show "fst (sql_ProcessAttempt pkg H key fp n h c) = fst (ledger_attempt key fp ?g n h (ledger_of ?d))"
    and "implements (snd (sql_ProcessAttempt pkg H key fp n h c)) (snd (ledger_attempt key fp ?g n h (ledger_of ?d)))"
    by simp_all
qed

section \<open>When the handler is not invoked\<close>

lemma atomic_Inr:
  assumes "atomic m" and "m c = (Inr x, c1)"
  shows "m (ff c) = (Inr x, ff c1)"
  using assms(1) [unfolded atomic_def, rule_format, of c] assms(2) by (cases "m (ff c)") auto

lemma m_bind_cong_at:
  assumes "\<And>x c1. m c = (Inr x, c1) \<Longrightarrow> f x c1 = f' x c1"
  shows "m_bind m f c = m_bind m f' c"
  using assms by (auto simp: m_bind_def split: prod.split sum.split)

lemma prepare_existing:
  assumes ff: "cn_faults c = []" and inv: "db_inv (cn_work c)" and sep: "separated H key fp"
    and i: "map_of (db_inbox (cn_work c)) (ident key) = Some i" "id_fingerprint i = fp"
  shows "(id_completed_at i \<noteq> None \<longrightarrow> (\<exists>r c1. sql_prepareAttemptIdentity pkg H key fp c = (Inr (Some r), c1))) \<and>
    (id_completed_at i = None \<longrightarrow>
      sql_prepareAttemptIdentity pkg H key fp c = (Inr None, c\<lparr>cn_tick := Suc (cn_tick c)\<rparr>))"
proof -
  let ?now = "cn_clock c (cn_tick c)" and ?c1 = "c\<lparr>cn_tick := Suc (cn_tick c)\<rparr>"
  have ins: "insertIdentity_sql (ident key) fp ?now (cn_work c) = Some (0, cn_work c)"
    using i by (simp add: insertIdentity_sql_def tb_has_def)
  have read: "readIdentity_sql (ident key) (cn_work c) = Some (fp, id_completed_at i)"
    using i by (simp add: readIdentity_sql_def)
  have c1: "?c1\<lparr>cn_work := cn_work c\<rparr> = ?c1" by simp
  have rd: "sql_readAttempt pkg key (AttemptFingerprint H key fp) ?c1 =
      (Inr (state_of (cn_work c) (generation H key fp)), ?c1)"
    using readAttempt_run [where pkg = pkg, of ?c1 key i fp H] ff inv i sep by simp
  show ?thesis
    using ff ins read
    by (auto simp: sql_prepareAttemptIdentity_def sql_simps c1
        m_bind_ok [where m = "sql_readAttempt pkg key (AttemptFingerprint H key fp)", OF rd])
qed

text \<open>
  For a completed identity, and for a generation that accepts no further attempt, the outcome does
  not depend on the handler, under any faults.
\<close>

lemma sql_handler_independent:
  assumes inv: "db_inv (cn_durable c)" and sep: "separated H key fp" and n: "0 < n"
    and id: "lg_identity (ledger_of (cn_durable c)) (ident key) = Some (fp, completed)"
    and no: "completed \<or> \<not> (\<exists>a. invocable n a (lg_gen (ledger_of (cn_durable c)) (generation H key fp)))"
  shows "sql_ProcessAttempt pkg H key fp n h c = sql_ProcessAttempt pkg H key fp n h' c"
proof -
  from id obtain i where i: "map_of (db_inbox (cn_durable c)) (ident key) = Some i" "id_fingerprint i = fp"
    "completed \<longleftrightarrow> id_completed_at i \<noteq> None" by (auto simp: abs_identity_def)
  let ?body = "\<lambda>h handled. case handled of
      Some duplicate \<Rightarrow> m_return (duplicate, None) | None \<Rightarrow> sql_attempt_body pkg H key fp n h"
  have step: "?body h x c2 = ?body h' x c2"
    if c1: "m_begin w c = (Inr (), c1)" and prep: "sql_prepareAttemptIdentity pkg H key fp c1 = (Inr x, c2)" for w c1 c2 x
  proof (cases x)
    case None
    have w1: "cn_work (ff c1) = cn_durable c" using c1 by (auto simp: m_begin_def split: if_splits)
    have "atomic (sql_prepareAttemptIdentity pkg H key fp)" using semi_prepare unfolding semi_at_def by blast
    from atomic_Inr [OF this prep] have p: "sql_prepareAttemptIdentity pkg H key fp (ff c1) = (Inr x, ff c2)" .
    with prepare_existing [where pkg = pkg, of "ff c1" H key fp i] w1 inv sep i None
    have open_id: "\<not> completed" and c2: "cn_work c2 = cn_durable c"
      by (auto dest: arg_cong [where f = cn_work])
    have rev: "reversible (sql_nextAttempt pkg H key fp n)" by (rule reversible_sql)
    have dec: "dec = gdecide n (abs_gen (cn_durable c) (generation H key fp))"
      if "sql_nextAttempt pkg H key fp n c2 = (Inr dec, c3)" for dec c3
      using atomic_Inr [OF reversible_atomic [OF rev] that] nextAttempt_run [where pkg = pkg, of "ff c2" key i fp H n]
        c2 inv i sep by simp
    have closed: "ad_terminal (gdecide n (abs_gen (cn_durable c) (generation H key fp))) \<or>
        ad_exhausted (gdecide n (abs_gen (cn_durable c) (generation H key fp)))"
      using no open_id n
      by (cases "abs_gen (cn_durable c) (generation H key fp)") (auto simp: gdecide_def invocable_def)
    have "sql_attempt_body pkg H key fp n h c2 = sql_attempt_body pkg H key fp n h' c2"
      unfolding sql_attempt_body_def sql_run_attempt_def
      by (rule m_bind_cong_at) (use dec closed in auto)
    with None show ?thesis by simp
  qed simp
  have "m_bind (m_begin w) (\<lambda>_. m_bind (sql_prepareAttemptIdentity pkg H key fp) (?body h)) c =
      m_bind (m_begin w) (\<lambda>_. m_bind (sql_prepareAttemptIdentity pkg H key fp) (?body h')) c" for w
    by (intro m_bind_cong_at step) auto
  then show ?thesis by (simp add: sql_ProcessAttempt_def finish_def in_tx_def)
qed

end
