(* ===== verification/InboxRetention.thy ===== *)
theory InboxRetention
  imports InboxRefine
begin

text \<open>
  The remaining operations of the SQLite backend against the ledger: processing without attempt
  accounting, the destructive reset, pruning of completed identities, confirmation of terminal
  handoffs, and pruning of confirmed terminal generations.
\<close>

section \<open>Deleting rows\<close>

declare split_paired_Ex [simp del] split_paired_All [simp del]

lemma map_of_tb_delete_key [table_simps]:
  "map_of (tb_delete (\<lambda>k _. P k) t) x = (if P x then None else map_of t x)"
  by (induction t) (auto simp: tb_delete_def)

lemma list_ex_logical:
  "list_ex (\<lambda>(g, _). logical g = k) t \<longleftrightarrow> (\<exists>g r. logical g = k \<and> map_of t g = Some r)"
proof -
  have "list_ex (\<lambda>(g, _). logical g = k) t \<longleftrightarrow> (\<exists>g \<in> fst ` set t. logical g = k)"
    by (force simp: list_ex_iff)
  also have "\<dots> \<longleftrightarrow> (\<exists>g r. logical g = k \<and> map_of t g = Some r)"
    by (metis map_of_eq_None_iff not_None_eq)
  finally show ?thesis .
qed

lemma logical_join4 [simp]: "logical (join4 k fp) = k"
  by (cases k) (simp add: join4_def logical_def)

lemma gen_fp_join4 [simp]: "gen_fp (join4 k fp) = fp"
  by (cases k) (simp add: join4_def gen_fp_def)

lemma counter_row_attempts:
  "map_of (db_attempts d) k = Some r \<Longrightarrow> counter_row d (join4 k (at_fingerprint r)) = Some r"
  by (simp add: counter_row_def)

lemma counter_row_generations:
  assumes "db_inv d" and "map_of (db_generations d) g = Some r"
  shows "counter_row d g = Some r"
proof (cases "map_of (db_attempts d) (logical g)")
  case None
  with assms show ?thesis by (simp add: counter_row_def)
next
  case (Some r')
  with db_invD(5) [OF assms(1) Some] db_invD(6) [OF assms]
  have "at_fingerprint r' \<noteq> gen_fp g" by auto
  with Some assms(2) show ?thesis by (simp add: counter_row_def)
qed

lemma abs_gen_Fresh: "abs_gen d g = Fresh \<longleftrightarrow> counter_row d g = None"
  by (simp add: abs_gen_def split: option.split)

lemma trackedI: "counter_row d g = Some r \<Longrightarrow> tracked (logical g) (ledger_of d)"
  unfolding tracked_def by (rule exI [of _ g]) (simp add: abs_gen_Fresh)

lemma trackedE:
  assumes "tracked k (ledger_of d)"
  obtains g r where "logical g = k" "counter_row d g = Some r"
  using assms by (auto simp: tracked_def abs_gen_Fresh)

lemma hasAttempts_iff:
  assumes "db_inv d"
  shows "hasAttempts_sql k d \<longleftrightarrow> tracked k (ledger_of d)"
proof
  assume "hasAttempts_sql k d"
  then consider r where "map_of (db_attempts d) k = Some r"
    | g r where "logical g = k" "map_of (db_generations d) g = Some r"
    by (auto simp: hasAttempts_sql_def tb_has_def list_ex_logical)
  then show "tracked k (ledger_of d)"
  proof cases
    case 1
    from trackedI [OF counter_row_attempts [OF this]] show ?thesis by simp
  next
    case 2
    from trackedI [OF counter_row_generations [OF assms this(2)]] this(1) show ?thesis by simp
  qed
next
  assume "tracked k (ledger_of d)"
  then obtain g r where "logical g = k" "counter_row d g = Some r" by (rule trackedE)
  then show "hasAttempts_sql k d"
    using counter_row_cases [of d g r] unfolding hasAttempts_sql_def tb_has_def list_ex_logical by blast
qed

lemma has_any_iff:
  assumes "db_inv d"
  shows "has_any k d \<longleftrightarrow> tracked k (ledger_of d)"
proof -
  have "tracked k (ledger_of d)" if "logical g = k" "map_of (db_terminal d) g = Some t" for g t
    using db_invD(8) [OF assms that(2)] that(1) trackedI [of d g] by blast
  then show ?thesis
    using hasAttempts_iff [OF assms, of k] unfolding has_any_def hasAttempts_sql_def list_ex_logical by blast
qed

text \<open>Deleting the terminal marker and the counter of one generation.\<close>

lemma drop_generation_inv:
  assumes inv: "db_inv d"
    and inbox: "db_inbox d' = db_inbox d"
    and wf: "wf_table (db_attempts d')" "wf_table (db_generations d')" "wf_table (db_terminal d')"
    and att: "\<And>k r. map_of (db_attempts d') k = Some r \<Longrightarrow> map_of (db_attempts d) k = Some r"
    and gen: "\<And>x r. map_of (db_generations d') x = Some r \<Longrightarrow> map_of (db_generations d) x = Some r"
    and row: "\<And>x. counter_row d' x = (if P x then None else counter_row d x)"
    and mark: "\<And>x. map_of (db_terminal d') x = (if P x then None else map_of (db_terminal d) x)"
  shows "db_inv d'"
  unfolding db_inv_def
proof (intro conjI allI impI)
  note I = db_invD [OF inv]
  show "\<exists>i. map_of (db_inbox d') k = Some i \<and> id_fingerprint i = at_fingerprint r"
    if "map_of (db_attempts d') k = Some r" for k r
    using I(5) [OF att [OF that]] inbox by simp
  show "at_fingerprint r = gen_fp x"
    "\<exists>i. map_of (db_inbox d') (logical x) = Some i \<and> id_fingerprint i \<noteq> gen_fp x"
    if "map_of (db_generations d') x = Some r" for x r
    using I(6) [OF gen [OF that]] inbox by simp_all
  show "0 \<le> at_attempts r" if "counter_row d' x = Some r" for x r
    using that I(7) [of x r] by (simp add: row split: if_splits)
  show "\<exists>t. map_of (db_terminal d') x = Some t \<and> tm_failure_kind t = InboxFailurePermanent"
    if "counter_row d' x = Some r" "at_terminal r" for x r
    using that I(7) [of x r] by (simp add: row mark split: if_splits)
  show "0 < tm_attempts t" "terminal_kind (tm_failure_kind t)"
    "\<exists>r. counter_row d' x = Some r \<and> 0 < at_attempts r \<and>
      (tm_failure_kind t = InboxFailurePermanent \<longrightarrow> at_terminal r)"
    if "map_of (db_terminal d') x = Some t" for x t
    using that I(8) [of x t] by (simp_all add: row mark split: if_splits)
  show "wf_table (db_inbox d')" using I(1) inbox by simp
qed (use wf in simp_all)

text \<open>Deleting identities that have no counters left.\<close>

lemma drop_identity_inv:
  assumes inv: "db_inv d" and wf: "wf_table t"
    and t: "\<And>k. map_of t k = (if P k then None else map_of (db_inbox d) k)"
    and none: "\<And>g r. counter_row d g = Some r \<Longrightarrow> \<not> P (logical g)"
  shows "db_inv (d\<lparr>db_inbox := t\<rparr>)"
    and "ledger_of (d\<lparr>db_inbox := t\<rparr>) =
      (ledger_of d)\<lparr>lg_identity := (\<lambda>k. if P k then None else lg_identity (ledger_of d) k)\<rparr>"
proof -
  note I = db_invD [OF inv]
  have c: "counter_row (d\<lparr>db_inbox := t\<rparr>) g = counter_row d g" for g
    by (simp add: counter_row_def split: option.split)
  have 1: "\<not> P k" if "map_of (db_attempts d) k = Some r" for k r
    using none [OF counter_row_attempts [OF that]] by simp
  have 2: "\<not> P (logical g)" if "map_of (db_generations d) g = Some r" for g r
    using none [OF counter_row_generations [OF inv that]] .
  show "db_inv (d\<lparr>db_inbox := t\<rparr>)"
    unfolding db_inv_def
  proof (intro conjI allI impI)
    show "\<exists>i. map_of (db_inbox (d\<lparr>db_inbox := t\<rparr>)) k = Some i \<and> id_fingerprint i = at_fingerprint r"
      if "map_of (db_attempts (d\<lparr>db_inbox := t\<rparr>)) k = Some r" for k r
      using that 1 I(5) [of k r] by (simp add: t)
    show "at_fingerprint r = gen_fp x"
      "\<exists>i. map_of (db_inbox (d\<lparr>db_inbox := t\<rparr>)) (logical x) = Some i \<and> id_fingerprint i \<noteq> gen_fp x"
      if "map_of (db_generations (d\<lparr>db_inbox := t\<rparr>)) x = Some r" for x r
      using that 2 I(6) [of x r] by (simp_all add: t)
    show "0 \<le> at_attempts r" if "counter_row (d\<lparr>db_inbox := t\<rparr>) x = Some r" for x r
      using that I(7) [of x r] by (simp add: c)
    show "\<exists>u. map_of (db_terminal (d\<lparr>db_inbox := t\<rparr>)) x = Some u \<and> tm_failure_kind u = InboxFailurePermanent"
      if "counter_row (d\<lparr>db_inbox := t\<rparr>) x = Some r" "at_terminal r" for x r
      using that I(7) [of x r] by (simp add: c)
    show "0 < tm_attempts u" "terminal_kind (tm_failure_kind u)"
      "\<exists>r. counter_row (d\<lparr>db_inbox := t\<rparr>) x = Some r \<and> 0 < at_attempts r \<and>
        (tm_failure_kind u = InboxFailurePermanent \<longrightarrow> at_terminal r)"
      if "map_of (db_terminal (d\<lparr>db_inbox := t\<rparr>)) x = Some u" for x u
      using that I(8) [of x u] by (simp_all add: c)
  qed (use wf I in simp_all)
  show "ledger_of (d\<lparr>db_inbox := t\<rparr>) =
      (ledger_of d)\<lparr>lg_identity := (\<lambda>k. if P k then None else lg_identity (ledger_of d) k)\<rparr>"
    by (simp add: ledger_of_def abs_identity_def abs_gen_def c t fun_eq_iff split: option.split)
qed

section \<open>Processing without attempts\<close>

lemma filter_key_nonempty: "filter (\<lambda>(k', _). k' = k) t \<noteq> [] \<longleftrightarrow> tb_has t k"
  by (induction t) (auto simp: tb_has_def)

lemma filter_list_ex: "filter P t \<noteq> [] \<longleftrightarrow> list_ex P t"
  by (induction t) auto

lemma list_ex_flags:
  "list_ex id (map (\<lambda>(_, r). at_terminal r) (filter (\<lambda>(k, _). P k) t)) \<longleftrightarrow>
    (\<exists>k r. (k, r) \<in> set t \<and> P k \<and> at_terminal r)"
  by (induction t) auto

lemma inspectAttempts_count: "snd (inspectAttempts_sql k d) > 0 \<longleftrightarrow> hasAttempts_sql k d"
  using filter_key_nonempty [of k "db_attempts d"] filter_list_ex [of "\<lambda>(g, _). logical g = k" "db_generations d"]
  unfolding inspectAttempts_sql_def Let_def hasAttempts_sql_def snd_conv length_append length_map add_gr_0
    length_greater_0_conv
  by blast

lemma inspectAttempts_terminal:
  assumes inv: "db_inv d"
  shows "fst (inspectAttempts_sql k d) > 0 \<longleftrightarrow> permanent_closed k (ledger_of d)"
proof -
  have "fst (inspectAttempts_sql k d) > 0 \<longleftrightarrow>
      (\<exists>r. (k, r) \<in> set (db_attempts d) \<and> at_terminal r) \<or>
      (\<exists>g r. (g, r) \<in> set (db_generations d) \<and> logical g = k \<and> at_terminal r)"
    by (simp add: inspectAttempts_sql_def Let_def list_ex_flags del: split_paired_Ex)
  also have "\<dots> \<longleftrightarrow> (\<exists>r. map_of (db_attempts d) k = Some r \<and> at_terminal r) \<or>
      (\<exists>g r. map_of (db_generations d) g = Some r \<and> logical g = k \<and> at_terminal r)"
    using db_invD(2,3) [OF inv] unfolding wf_table_def by (simp only: in_set_map_of)
  also have "\<dots> \<longleftrightarrow> (\<exists>g r. counter_row d g = Some r \<and> logical g = k \<and> at_terminal r)"
    (is "?L \<longleftrightarrow> ?R")
  proof
    show "?L \<Longrightarrow> ?R"
      using counter_row_attempts [of d k] counter_row_generations [OF inv] logical_join4 by blast
    show "?R \<Longrightarrow> ?L" using counter_row_cases by blast
  qed
  also have "\<dots> \<longleftrightarrow> permanent_closed k (ledger_of d)"
    (is "?L \<longleftrightarrow> ?R")
  proof
    assume ?L
    then obtain g r where g: "counter_row d g = Some r" "logical g = k" "at_terminal r" by blast
    from db_invD(7) [OF inv g(1)] g(3)
    have "lg_gen (ledger_of d) g = Closed (nat (at_attempts r)) InboxFailurePermanent"
      using g(1) by (auto simp: abs_gen_def)
    with g(2) show ?R unfolding permanent_closed_def by blast
  next
    assume ?R
    then obtain g a where g: "logical g = k" "abs_gen d g = Closed a InboxFailurePermanent"
      unfolding permanent_closed_def ledger_of_simps by blast
    then obtain r t where rt: "counter_row d g = Some r" "map_of (db_terminal d) g = Some t"
      "tm_failure_kind t = InboxFailurePermanent"
      by (auto simp: abs_gen_def split: option.splits)
    from db_invD(8) [OF inv rt(2)] rt g show ?L by auto
  qed
  finally show ?thesis .
qed

lemma process_body_run:
  assumes ff: "cn_faults c = []" and inv: "db_inv (cn_work c)"
    and i: "map_of (db_inbox (cn_work c)) (ident key) = Some i" "id_fingerprint i = fp"
    and h: "h (db_business (cn_work c)) = (b, None)"
  shows "\<exists>c'. sql_process_body pkg key h c = (Inr (zero_result, None), c') \<and>
    implements c' (set_identity (ident key) fp True ((ledger_of (cn_work c))\<lparr>lg_business := b\<rparr>))"
proof -
  let ?w = "cn_work c\<lparr>db_business := b\<rparr>" and ?now = "cn_clock c (cn_tick c)"
  have "markComplete_sql (ident key) ?now ?w = put_inbox (ident key) (i\<lparr>id_completed_at := Some ?now\<rparr>) ?w"
    using i db_invD(1) [OF inv] by (intro markComplete_eq_put) simp_all
  moreover have "db_inv (put_inbox (ident key) (i\<lparr>id_completed_at := Some ?now\<rparr>) ?w)"
    "ledger_of (put_inbox (ident key) (i\<lparr>id_completed_at := Some ?now\<rparr>) ?w) =
      set_identity (ident key) fp True ((ledger_of (cn_work c))\<lparr>lg_business := b\<rparr>)"
    using put_inbox_inv [of ?w "ident key" "i\<lparr>id_completed_at := Some ?now\<rparr>"] inv i
    by (simp_all add: ledger_of_business)
  ultimately show ?thesis
    using ff h by (simp add: sql_process_body_def run_handler_def sql_simps implements_def)
qed

lemma process_body_fail:
  assumes "cn_faults c = []" and "h (db_business (cn_work c)) = (b, Some e)"
  shows "sql_process_body pkg key h c = (Inl e, c\<lparr>cn_work := cn_work c\<lparr>db_business := b\<rparr>\<rparr>)"
  using assms by (simp add: sql_process_body_def run_handler_def sql_simps)

lemma set_identity_twice: "set_identity k fp x (set_identity k fp y L) = set_identity k fp x L"
  by (simp add: set_identity_def)

lemma set_identity_business:
  "(set_identity k fp x L)\<lparr>lg_business := b\<rparr> = set_identity k fp x (L\<lparr>lg_business := b\<rparr>)"
  by (simp add: set_identity_def)

lemma sql_Process_refines:
  assumes ff: "cn_faults c = []" and inv: "db_inv (cn_durable c)"
  shows "fst (sql_Process pkg key fp h c) = fst (ledger_process key fp h (ledger_of (cn_durable c))) \<and>
    implements (snd (sql_Process pkg key fp h c)) (snd (ledger_process key fp h (ledger_of (cn_durable c))))"
proof -
  let ?d = "cn_durable c" and ?now = "cn_clock c (cn_tick c)"
  let ?c0 = "(rollback c)\<lparr>cn_tick := Suc (cn_tick c)\<rparr>"
  obtain b he where h: "h (db_business ?d) = (b, he)" by force
  show ?thesis
  proof (cases "map_of (db_inbox ?d) (ident key)")
    case None
    let ?i = "\<lparr>id_fingerprint = fp, id_created_at = ?now, id_completed_at = None\<rparr>"
    let ?w = "put_inbox (ident key) ?i ?d" and ?c1 = "?c0\<lparr>cn_work := put_inbox (ident key) ?i ?d\<rparr>"
    have ins: "insertIdentity_sql (ident key) fp ?now ?d = Some (1, ?w)"
      using None by (simp add: insertIdentity_sql_def tb_has_def put_inbox_def tb_put_def)
    have inv1: "db_inv ?w" and led: "ledger_of ?w = set_identity (ident key) fp False (ledger_of ?d)"
      using put_inbox_inv [OF inv, of "ident key" ?i] None by simp_all
    have i1: "map_of (db_inbox ?w) (ident key) = Some ?i" by (simp add: put_inbox_def table_simps)
    have start: "sql_Process pkg key fp h c =
        finish zero_result (\<lambda>_. case sql_process_body pkg key h ?c1 of (r, c') \<Rightarrow> (r, rollback c')) c"
      using ff ins by (simp add: sql_Process_def finish_def sql_simps)
    show ?thesis
    proof (cases he)
      case (Some e)
      then show ?thesis
        using process_body_fail [where pkg = pkg, of ?c1 h b e key] ff h None inv
        by (simp add: start finish_def ledger_process_def abs_identity_def implements_def sql_simps)
    next
      case he: None
      then show ?thesis
        using process_body_run [where pkg = pkg, of ?c1 key ?i fp h b] ff h None inv1 i1
        by (auto simp: start finish_def ledger_process_def abs_identity_def sql_simps led
            set_identity_business set_identity_twice)
    qed
  next
    case (Some i)
    then have ins: "insertIdentity_sql (ident key) fp ?now ?d = Some (0, ?d)"
      by (simp add: insertIdentity_sql_def tb_has_def)
    have read: "readIdentity_sql (ident key) ?d = Some (id_fingerprint i, id_completed_at i)"
      using Some by (simp add: readIdentity_sql_def)
    let ?c2 = "?c0\<lparr>cn_work := ?d\<rparr>"
    obtain mt ct where q: "inspectAttempts_sql (ident key) ?d = (mt, ct)" by force
    have insp: "ct > 0 \<longleftrightarrow> tracked (ident key) (ledger_of ?d)"
      "mt > 0 \<longleftrightarrow> permanent_closed (ident key) (ledger_of ?d)"
      using inspectAttempts_count [of "ident key" ?d] hasAttempts_iff [OF inv, of "ident key"]
        inspectAttempts_terminal [OF inv, of "ident key"] q by simp_all
    have perm: "permanent_closed (ident key) (ledger_of ?d) \<Longrightarrow> tracked (ident key) (ledger_of ?d)"
      unfolding permanent_closed_def tracked_def by force
    consider "id_fingerprint i \<noteq> fp" | "id_fingerprint i = fp" "id_completed_at i \<noteq> None"
      | "id_fingerprint i = fp" "id_completed_at i = None" "tracked (ident key) (ledger_of ?d)"
      | "id_fingerprint i = fp" "id_completed_at i = None" "\<not> tracked (ident key) (ledger_of ?d)" by blast
    then show ?thesis
    proof cases
      case 1
      with Some ff ins read inv show ?thesis
        by (simp add: sql_Process_def finish_def sql_handleExisting_def sql_simps
            ledger_process_def abs_identity_def implements_def)
    next
      case 2
      from 2 obtain t where "id_completed_at i = Some t" by blast
      with 2 Some ff ins read inv show ?thesis
        by (simp add: sql_Process_def finish_def sql_handleExisting_def sql_simps
            ledger_process_def abs_identity_def implements_def)
    next
      case 3
      with Some ff ins read inv insp q show ?thesis
        by (simp add: sql_Process_def finish_def sql_handleExisting_def sql_simps
            ledger_process_def abs_identity_def implements_def)
    next
      case 4
      have start: "sql_Process pkg key fp h c =
          finish zero_result (\<lambda>_. case sql_process_body pkg key h ?c2 of (r, c') \<Rightarrow> (r, rollback c')) c"
        using ff ins read 4 insp q
        by (simp add: sql_Process_def sql_handleExisting_def finish_def sql_simps)
      show ?thesis
      proof (cases he)
        case e: (Some e)
        then show ?thesis
          using process_body_fail [where pkg = pkg, of ?c2 h b e key] ff h Some inv 4 perm
          by (auto simp: start finish_def ledger_process_def abs_identity_def implements_def sql_simps)
      next
        case he: None
        then show ?thesis
          using process_body_run [where pkg = pkg, of ?c2 key i fp h b] ff h Some inv 4 perm
          by (auto simp: start finish_def ledger_process_def abs_identity_def sql_simps)
      qed
    qed
  qed
qed

section \<open>The destructive reset\<close>

lemma drop_generation_ledger:
  assumes "db_inbox d' = db_inbox d" and "db_business d' = db_business d"
    and "\<And>x. counter_row d' x = (if x = g then None else counter_row d x)"
    and "\<And>x. map_of (db_terminal d') x = (if x = g then None else map_of (db_terminal d) x)"
  shows "ledger_of d' = set_gen g Fresh (ledger_of d)"
  using assms
  by (simp add: ledger_of_def set_gen_def abs_identity_def abs_gen_def fun_eq_iff split: option.split)

lemma delete_identity_run:
  assumes inv: "db_inv d" and i: "map_of (db_inbox d) k = Some i" "id_completed_at i = None"
    and none: "\<not> tracked k (ledger_of d)"
  shows "db_inv (deleteIncompleteIdentity_sql k d)"
    and "ledger_of (deleteIncompleteIdentity_sql k d) =
      (ledger_of d)\<lparr>lg_identity := (lg_identity (ledger_of d))(k := None)\<rparr>"
proof -
  let ?t = "tb_delete (\<lambda>k' r. k' = k \<and> id_completed_at r = None) (db_inbox d)"
  have wf: "wf_table ?t" using db_invD(1) [OF inv] by simp
  have t: "map_of ?t x = (if x = k then None else map_of (db_inbox d) x)" for x
    using i by (simp add: map_of_tb_delete [OF db_invD(1) [OF inv]] split: option.split)
  have c: "logical g \<noteq> k" if "counter_row d g = Some r" for g r
    using trackedI [OF that] none by blast
  have D: "db_inv (d\<lparr>db_inbox := ?t\<rparr>)"
    "ledger_of (d\<lparr>db_inbox := ?t\<rparr>) =
      (ledger_of d)\<lparr>lg_identity := (\<lambda>x. if x = k then None else lg_identity (ledger_of d) x)\<rparr>"
    using drop_identity_inv [where P = "\<lambda>x. x = k", OF inv wf t] c by blast+
  show "db_inv (deleteIncompleteIdentity_sql k d)" using D(1) by (simp add: deleteIncompleteIdentity_sql_def)
  show "ledger_of (deleteIncompleteIdentity_sql k d) =
      (ledger_of d)\<lparr>lg_identity := (lg_identity (ledger_of d))(k := None)\<rparr>"
    unfolding deleteIncompleteIdentity_sql_def fun_upd_def by (rule D(2))
qed

definition reset_db :: "(string \<Rightarrow> fingerprint) \<Rightarrow> key \<Rightarrow> fingerprint \<Rightarrow> 'b db \<Rightarrow> 'b db" where
  "reset_db H key fp d =
    (let d1 = d\<lparr>db_terminal := tb_delete (\<lambda>k _. k = generation H key fp) (db_terminal d)\<rparr> in
     if k_AttemptGeneration key = [] then deleteAttempt_sql (ident key) d1
     else delete_generation (generation H key fp) d1)"

lemma reset_db_inv:
  assumes inv: "db_inv d" and i: "map_of (db_inbox d) (ident key) = Some i" "id_fingerprint i = fp"
    and sep: "separated H key fp"
  shows "db_inv (reset_db H key fp d)"
    and "ledger_of (reset_db H key fp d) = set_gen (generation H key fp) Fresh (ledger_of d)"
    and "db_inbox (reset_db H key fp d) = db_inbox d"
proof -
  let ?d = "reset_db H key fp d" and ?g = "generation H key fp"
  note I = db_invD [OF inv]
  have old: "map_of (db_attempts d) (ident key) = Some r \<Longrightarrow> at_fingerprint r = fp" for r
    using I(5) [of "ident key" r] i by auto
  have slot: "counter_row d ?g = (if k_AttemptGeneration key = [] then map_of (db_attempts d) (ident key)
     else map_of (db_generations d) ?g)"
    by (rule counter_row_slot [OF inv i sep])
  show inbox: "db_inbox ?d = db_inbox d"
    by (simp add: reset_db_def Let_def deleteAttempt_sql_def delete_generation_def)
  have att: "map_of (db_attempts ?d) k =
      (if k_AttemptGeneration key = [] \<and> k = ident key then None else map_of (db_attempts d) k)" for k
    by (simp add: reset_db_def Let_def deleteAttempt_sql_def delete_generation_def table_simps)
  have gens: "map_of (db_generations ?d) x =
      (if k_AttemptGeneration key \<noteq> [] \<and> x = ?g then None else map_of (db_generations d) x)" for x
    by (simp add: reset_db_def Let_def deleteAttempt_sql_def delete_generation_def table_simps)
  have mark: "map_of (db_terminal ?d) x = (if x = ?g then None else map_of (db_terminal d) x)" for x
    by (simp add: reset_db_def Let_def deleteAttempt_sql_def delete_generation_def table_simps)
  have row: "counter_row ?d x = (if x = ?g then None else counter_row d x)" for x
  proof (cases "k_AttemptGeneration key = []")
    case True
    then have g: "?g = gen_key key fp" by (simp add: AttemptFingerprint_def)
    have none: "map_of (db_generations d) (gen_key key fp) = None"
    proof (rule ccontr)
      assume "map_of (db_generations d) (gen_key key fp) \<noteq> None"
      then obtain r where "map_of (db_generations d) (gen_key key fp) = Some r" by auto
      from I(6) [OF this] i show False by simp
    qed
    show ?thesis
    proof (cases "x = ?g")
      case eq: True
      then show ?thesis using True g none by (simp add: counter_row_def att gens)
    next
      case neq: False
      then have "logical x = ident key \<Longrightarrow> gen_fp x \<noteq> fp" using g by (simp add: gen_key_eq_iff)
      then show ?thesis
        using True neq old by (auto simp: counter_row_def att gens split: option.split)
    qed
  next
    case False
    with sep have afp: "AttemptFingerprint H key fp \<noteq> fp" by (simp add: separated_def)
    show ?thesis
      using False afp old
      by (auto simp: counter_row_def att gens gen_key_eq_iff split: option.splits)
  qed
  show "db_inv ?d"
  proof (rule drop_generation_inv [OF inv inbox, of "\<lambda>x. x = ?g"])
    show "wf_table (db_attempts ?d)" "wf_table (db_generations ?d)" "wf_table (db_terminal ?d)"
      using I by (simp_all add: reset_db_def Let_def deleteAttempt_sql_def delete_generation_def)
  qed (simp_all add: att gens row mark split: if_splits)
  show "ledger_of ?d = set_gen ?g Fresh (ledger_of d)"
    by (rule drop_generation_ledger [OF inbox _ row mark])
      (simp add: reset_db_def Let_def deleteAttempt_sql_def delete_generation_def)
qed

lemma sql_ForgetAttempt_refines:
  assumes ff: "cn_faults c = []" and inv: "db_inv (cn_durable c)" and sep: "separated H key fp"
  shows "fst (sql_ForgetAttempt pkg H key fp c) =
      fst (ledger_forget key fp (generation H key fp) (ledger_of (cn_durable c))) \<and>
    implements (snd (sql_ForgetAttempt pkg H key fp c))
      (snd (ledger_forget key fp (generation H key fp) (ledger_of (cn_durable c))))"
proof -
  let ?d = "cn_durable c" and ?g = "generation H key fp"
  show ?thesis
  proof (cases "map_of (db_inbox ?d) (ident key)")
    case None
    with ff inv show ?thesis
      by (simp add: sql_ForgetAttempt_def finish_def sql_simps readIdentity_sql_def
          ledger_forget_def abs_identity_def implements_def)
  next
    case (Some i)
    have read: "readIdentity_sql (ident key) ?d = Some (id_fingerprint i, id_completed_at i)"
      using Some by (simp add: readIdentity_sql_def)
    consider "id_fingerprint i \<noteq> fp" | "id_fingerprint i = fp" "id_completed_at i \<noteq> None"
      | "id_fingerprint i = fp" "id_completed_at i = None" by blast
    then show ?thesis
    proof cases
      case 1
      with Some ff read inv show ?thesis
        by (simp add: sql_ForgetAttempt_def finish_def sql_simps
            ledger_forget_def abs_identity_def implements_def)
    next
      case 2
      from 2 obtain t where "id_completed_at i = Some t" by blast
      with 2 Some ff read inv show ?thesis
        by (simp add: sql_ForgetAttempt_def finish_def sql_simps
            ledger_forget_def abs_identity_def implements_def)
    next
      case 3
      note R = reset_db_inv [OF inv Some 3(1) sep]
      let ?d1 = "reset_db H key fp ?d"
      have has: "hasAttempts_sql (ident key) ?d1 \<longleftrightarrow> tracked (ident key) (ledger_of ?d1)"
        by (rule hasAttempts_iff [OF R(1)])
      have run: "sql_ForgetAttempt pkg H key fp c =
          (((), None), rollback ((rollback c)\<lparr>cn_work := d2, cn_durable := d2\<rparr>))"
        if "d2 = (if tracked (ident key) (ledger_of ?d1) then ?d1 else deleteIncompleteIdentity_sql (ident key) ?d1)"
        for d2
        using that 3 Some ff read has
        by (cases "k_AttemptGeneration key = []")
          (simp_all add: sql_ForgetAttempt_def finish_def sql_simps Forget_def sql_deleteAttempt_def
            reset_db_def Let_def)
      show ?thesis
        using run [OF refl] R 3 Some delete_identity_run [OF R(1), of "ident key" i]
        by (simp add: ledger_forget_def ledger_reset_def Let_def abs_identity_def implements_def sql_simps)
    qed
  qed
qed

section \<open>Pruning completed identities\<close>

lemma completed_before_cong: "db_inbox d' = db_inbox d \<Longrightarrow> completed_before before limit d' = completed_before before limit d"
  by (simp add: completed_before_def)

definition old_rows :: "instant \<Rightarrow> 'b db \<Rightarrow> (instant \<times> key3) list" where
  "old_rows before d =
    List.map_filter (\<lambda>(k, r). case id_completed_at r of
        None \<Rightarrow> None
      | Some t \<Rightarrow> if t < before then Some (t, k) else None) (db_inbox d)"

lemma completed_before_eq: "completed_before before limit d = map snd (take limit (sort (old_rows before d)))"
  by (simp add: completed_before_def old_rows_def)

text \<open>Rows with a time that passes a test, as pairs of the time and the primary key.\<close>

definition timed_rows :: "('v \<Rightarrow> instant option) \<Rightarrow> ('k \<Rightarrow> instant \<Rightarrow> bool) \<Rightarrow> ('k, 'v) table \<Rightarrow> (instant \<times> 'k) list" where
  "timed_rows f Q t =
    List.map_filter (\<lambda>(k, r). case f r of None \<Rightarrow> None | Some x \<Rightarrow> if Q k x then Some (x, k) else None) t"

lemma timed_rows_simps [simp]:
  "timed_rows f Q [] = []"
  "timed_rows f Q ((k, r) # t) =
    (case f r of None \<Rightarrow> timed_rows f Q t
     | Some x \<Rightarrow> if Q k x then (x, k) # timed_rows f Q t else timed_rows f Q t)"
  by (simp_all add: timed_rows_def List.map_filter_simps split: option.split)

lemma timed_rows_iff: "(x, k) \<in> set (timed_rows f Q t) \<longleftrightarrow> (\<exists>r. (k, r) \<in> set t \<and> f r = Some x \<and> Q k x)"
  by (induction t) (auto split: option.splits if_splits)

lemma distinct_timed_rows: "distinct (map fst t) \<Longrightarrow> distinct (map snd (timed_rows f Q t))"
proof (induction t)
  case (Cons kr t)
  obtain k r where kr: "kr = (k, r)" by (rule prod.exhaust)
  have "k \<notin> snd ` set (timed_rows f Q t)"
    using Cons.prems kr by (force simp: timed_rows_iff)
  with Cons kr show ?case by (auto split: option.split)
qed simp

lemma distinct_take_sorted: "distinct (map snd (xs :: (instant \<times> 'k::linorder) list)) \<Longrightarrow>
    distinct (map snd (take n (sort xs)))"
  unfolding take_map [symmetric] by (rule distinct_take) (metis distinct_map distinct_sort set_sort)

lemma old_rows_timed: "old_rows before d = timed_rows id_completed_at (\<lambda>_ t. t < before) (db_inbox d)"
  by (simp add: old_rows_def timed_rows_def)

lemma old_rows_iff:
  assumes "wf_table (db_inbox d)"
  shows "(t, k) \<in> set (old_rows before d) \<longleftrightarrow>
    (\<exists>i. map_of (db_inbox d) k = Some i \<and> id_completed_at i = Some t \<and> t < before)"
  using assms unfolding old_rows_timed timed_rows_iff wf_table_def by (simp only: in_set_map_of)

lemma completed_before_facts:
  assumes wf: "wf_table (db_inbox d)"
  shows "distinct (completed_before before limit d)"
    and "length (completed_before before limit d) \<le> limit"
    and "k \<in> set (completed_before before limit d) \<Longrightarrow>
      \<exists>i t. map_of (db_inbox d) k = Some i \<and> id_completed_at i = Some t \<and> t < before"
proof -
  show "distinct (completed_before before limit d)"
    unfolding completed_before_eq old_rows_timed
    by (intro distinct_take_sorted distinct_timed_rows) (use wf in \<open>simp add: wf_table_def\<close>)
  show "length (completed_before before limit d) \<le> limit" by (simp add: completed_before_eq)
  assume "k \<in> set (completed_before before limit d)"
  then obtain t where "(t, k) \<in> set (old_rows before d)"
    unfolding completed_before_eq by (auto dest: in_set_takeD)
  with old_rows_iff [OF wf] show "\<exists>i t. map_of (db_inbox d) k = Some i \<and> id_completed_at i = Some t \<and> t < before"
    by blast
qed

lemma completed_before_full:
  assumes wf: "wf_table (db_inbox d)" and short: "length (completed_before before limit d) \<noteq> limit"
    and old: "map_of (db_inbox d) k = Some i" "id_completed_at i = Some t" "t < before"
  shows "k \<in> set (completed_before before limit d)"
proof -
  have "(t, k) \<in> set (old_rows before d)" using old_rows_iff [OF wf] old by blast
  moreover have "length (old_rows before d) \<le> limit" using short by (simp add: completed_before_eq min_def split: if_splits)
  ultimately show ?thesis unfolding completed_before_eq by (force simp: image_iff)
qed

lemma tb_delete_length:
  assumes "wf_table t" and "\<And>k. k \<in> S \<Longrightarrow> tb_has t k" and "finite S"
  shows "length t - length (tb_delete (\<lambda>k _. k \<in> S) t) = card S"
proof -
  have dist: "distinct (map fst t)" using assms(1) by (simp add: wf_table_def)
  have "length t = length (filter (\<lambda>k. k \<in> S) (map fst t)) + length (filter (\<lambda>k. k \<notin> S) (map fst t))"
    using sum_length_filter_compl [of "\<lambda>k. k \<in> S" "map fst t"] by simp
  moreover have "length (filter (\<lambda>k. k \<in> S) (map fst t)) = card S"
  proof -
    have "set (filter (\<lambda>k. k \<in> S) (map fst t)) = S"
      using assms(2) by (auto simp: tb_has_def map_of_eq_None_iff)
    then show ?thesis using distinct_card [of "filter (\<lambda>k. k \<in> S) (map fst t)"] dist by simp
  qed
  moreover have "length (tb_delete (\<lambda>k _. k \<in> S) t) = length (filter (\<lambda>k. k \<notin> S) (map fst t))"
    by (induction t) (auto simp: tb_delete_def)
  ultimately show ?thesis by simp
qed

lemma sql_Prune_refines:
  fixes c :: "'b db conn"
  assumes ff: "cn_faults c = []" and inv: "db_inv (cn_durable c)"
  shows "fst (sql_Prune pkg before limit c) =
      (int (length (completed_before before limit (cn_durable c))), None) \<and>
    implements (snd (sql_Prune pkg before limit c))
      (ledger_drop (set (completed_before before limit (cn_durable c))) (ledger_of (cn_durable c)))"
proof -
  let ?d = "cn_durable c"
  define S where "S = set (completed_before before limit ?d)"
  note I = db_invD [OF inv] and F = completed_before_facts [OF db_invD(1) [OF inv], where before = before and limit = limit]
  define d3 where "d3 = ?d\<lparr>db_terminal := tb_delete (\<lambda>k _. logical k \<in> S) (db_terminal ?d),
    db_generations := tb_delete (\<lambda>g _. logical g \<in> S) (db_generations ?d),
    db_attempts := tb_delete (\<lambda>k _. k \<in> S) (db_attempts ?d)\<rparr>"
  have att: "map_of (db_attempts d3) k = (if k \<in> S then None else map_of (db_attempts ?d) k)" for k
    by (simp add: d3_def table_simps)
  have gens: "map_of (db_generations d3) x = (if logical x \<in> S then None else map_of (db_generations ?d) x)" for x
    by (simp add: d3_def table_simps)
  have mark: "map_of (db_terminal d3) x = (if logical x \<in> S then None else map_of (db_terminal ?d) x)" for x
    by (simp add: d3_def table_simps)
  have row: "counter_row d3 x = (if logical x \<in> S then None else counter_row ?d x)" for x
    by (simp add: counter_row_def att gens split: option.split)
  have inbox: "db_inbox d3 = db_inbox ?d" by (simp add: d3_def)
  have inv3: "db_inv d3"
  proof (rule drop_generation_inv [OF inv inbox, of "\<lambda>x. logical x \<in> S"])
    show "wf_table (db_attempts d3)" "wf_table (db_generations d3)" "wf_table (db_terminal d3)"
      using I by (simp_all add: d3_def)
  qed (simp_all add: att gens row mark split: if_splits)
  let ?t = "tb_delete (\<lambda>k _. k \<in> S) (db_inbox ?d)"
  have t: "map_of ?t k = (if k \<in> S then None else map_of (db_inbox d3) k)" for k
    by (simp add: table_simps inbox)
  have wft: "wf_table ?t" using I(1) by simp
  have free: "logical g \<notin> S" if "counter_row d3 g = Some r" for g r
    using that by (simp add: row split: if_splits)
  have D: "db_inv (d3\<lparr>db_inbox := ?t\<rparr>)"
    "ledger_of (d3\<lparr>db_inbox := ?t\<rparr>) =
      (ledger_of d3)\<lparr>lg_identity := (\<lambda>k. if k \<in> S then None else lg_identity (ledger_of d3) k)\<rparr>"
    using drop_identity_inv [where P = "\<lambda>k. k \<in> S", OF inv3 wft t] free by blast+
  have led: "ledger_of (d3\<lparr>db_inbox := ?t\<rparr>) = ledger_drop S (ledger_of ?d)"
    unfolding D(2)
    by (simp add: ledger_drop_def ledger_of_def abs_identity_def abs_gen_def fun_eq_iff row mark inbox
        split: option.split) (simp add: d3_def)
  have "tb_has (db_inbox ?d) k" if "k \<in> S" for k
    using F(3) [of k] that by (auto simp: S_def tb_has_def)
  then have cnt: "length (db_inbox ?d) - length ?t = length (completed_before before limit ?d)"
    using tb_delete_length [OF I(1), of S] distinct_card [OF F(1)] by (simp add: S_def)
  have same: "completed_before before limit (?d\<lparr>db_terminal := x\<rparr>) = completed_before before limit ?d"
    "completed_before before limit (?d\<lparr>db_terminal := x, db_generations := y\<rparr>) = completed_before before limit ?d"
    "completed_before before limit (?d\<lparr>db_terminal := x, db_generations := y, db_attempts := z\<rparr>) =
      completed_before before limit ?d" for x y z
    by (simp_all add: completed_before_def)
  have "sql_Prune pkg before limit c =
      ((int (length (completed_before before limit ?d)), None),
       rollback ((rollback c)\<lparr>cn_work := d3\<lparr>db_inbox := ?t\<rparr>, cn_durable := d3\<lparr>db_inbox := ?t\<rparr>\<rparr>))"
    using ff cnt
    by (simp add: sql_Prune_def finish_def PruneCompleted_def pruneAttemptGenerations_sql_def
        pruneAttempts_sql_def pruneInbox_sql_def sql_simps same Let_def d3_def S_def)
  then show ?thesis using D(1) led by (simp add: implements_def sql_simps S_def)
qed

section \<open>Confirming terminal handoffs\<close>

definition confirmed :: "instant \<Rightarrow> 'b db \<Rightarrow> key4 \<Rightarrow> bool" where
  "confirmed before d g \<longleftrightarrow>
    (case map_of (db_terminal d) g of
       None \<Rightarrow> False
     | Some t \<Rightarrow> (case tm_handoff_confirmed_at t of None \<Rightarrow> False | Some h \<Rightarrow> h < before))"

lemma confirm_db_inv:
  assumes inv: "db_inv d" and t: "map_of (db_terminal d) g = Some t"
  shows "db_inv (put_terminal g (t\<lparr>tm_handoff_confirmed_at := h\<rparr>) d)"
    and "ledger_of (put_terminal g (t\<lparr>tm_handoff_confirmed_at := h\<rparr>) d) = ledger_of d"
proof -
  let ?t = "t\<lparr>tm_handoff_confirmed_at := h\<rparr>"
  note I = db_invD [OF inv]
  have m: "map_of (db_terminal (put_terminal g ?t d)) x =
      (if x = g then Some ?t else map_of (db_terminal d) x)" for x
    by (simp add: put_terminal_def table_simps)
  show "db_inv (put_terminal g ?t d)"
    unfolding db_inv_def
  proof (intro conjI allI impI)
    show "wf_table (db_terminal (put_terminal g ?t d))" using I by (simp add: put_terminal_def)
    show "\<exists>u. map_of (db_terminal (put_terminal g ?t d)) x = Some u \<and> tm_failure_kind u = InboxFailurePermanent"
      if "counter_row (put_terminal g ?t d) x = Some r" "at_terminal r" for x r
      using that I(7) [of x r] t by (auto simp: m)
    show "0 < tm_attempts u" "terminal_kind (tm_failure_kind u)"
      "\<exists>r. counter_row (put_terminal g ?t d) x = Some r \<and> 0 < at_attempts r \<and>
        (tm_failure_kind u = InboxFailurePermanent \<longrightarrow> at_terminal r)"
      if "map_of (db_terminal (put_terminal g ?t d)) x = Some u" for x u
      using that I(8) [of g t] I(8) [of x u] t by (auto simp: m split: if_splits)
  qed (use I in auto)
  show "ledger_of (put_terminal g ?t d) = ledger_of d"
    using t by (auto simp: ledger_of_def abs_identity_def abs_gen_def m fun_eq_iff split: option.split)
qed

text \<open>
  A confirmation only touches the handoff time of a marker that exists for the right fingerprint.
\<close>

lemma sql_Confirm_run:
  assumes ff: "cn_faults c = []" and inv: "db_inv (cn_durable c)"
  shows "implements (snd (sql_ConfirmTerminalHandoff pkg H key fp c)) (ledger_of (cn_durable c))"
    and "snd (fst (sql_ConfirmTerminalHandoff pkg H key fp c)) =
      (case lg_identity (ledger_of (cn_durable c)) (ident key) of
         None \<Rightarrow> Some (Sentinel ErrTerminalStateMissing)
       | Some (fp', _) \<Rightarrow>
          if fp' \<noteq> fp then Some (Sentinel ErrFingerprintConflict)
          else case lg_gen (ledger_of (cn_durable c)) (generation H key fp) of
            Closed _ _ \<Rightarrow> None
          | _ \<Rightarrow> Some (Sentinel ErrTerminalStateMissing))"
proof -
  let ?d = "cn_durable c" and ?g = "generation H key fp" and ?now = "cn_clock c (cn_tick c)"
  have both: "implements (snd (sql_ConfirmTerminalHandoff pkg H key fp c)) (ledger_of ?d) \<and>
    snd (fst (sql_ConfirmTerminalHandoff pkg H key fp c)) =
      (case lg_identity (ledger_of ?d) (ident key) of
         None \<Rightarrow> Some (Sentinel ErrTerminalStateMissing)
       | Some (fp', _) \<Rightarrow>
          if fp' \<noteq> fp then Some (Sentinel ErrFingerprintConflict)
          else case lg_gen (ledger_of ?d) ?g of
            Closed _ _ \<Rightarrow> None
          | _ \<Rightarrow> Some (Sentinel ErrTerminalStateMissing))"
  proof (cases "map_of (db_inbox ?d) (ident key)")
    case None
    with ff inv show ?thesis
      by (simp add: sql_ConfirmTerminalHandoff_def Confirm_def finish_def sql_simps readIdentity_sql_def
          abs_identity_def implements_def)
  next
    case (Some i)
    then have read: "readIdentity_sql (ident key) ?d = Some (id_fingerprint i, id_completed_at i)"
      by (simp add: readIdentity_sql_def)
    show ?thesis
    proof (cases "id_fingerprint i = fp")
      case False
      with Some read ff inv show ?thesis
        by (simp add: sql_ConfirmTerminalHandoff_def Confirm_def finish_def sql_simps
            abs_identity_def implements_def)
    next
      case True
      show ?thesis
      proof (cases "map_of (db_terminal ?d) ?g")
        case None
        then have "\<nexists>a k. abs_gen ?d ?g = Closed a k" by (auto simp: abs_gen_def split: option.split)
        with None True Some read ff inv show ?thesis
          by (cases "abs_gen ?d ?g")
            (auto simp: sql_ConfirmTerminalHandoff_def Confirm_def finish_def sql_simps tb_has_def Let_def
              abs_identity_def implements_def)
      next
        case (Some t)
        let ?h = "later ?now (tm_handoff_confirmed_at t)"
        have up: "tb_update (\<lambda>k'. k' = ?g)
            (\<lambda>r. r\<lparr>tm_handoff_confirmed_at := later ?now (tm_handoff_confirmed_at r)\<rparr>) (db_terminal ?d) =
            tb_put ?g (t\<lparr>tm_handoff_confirmed_at := ?h\<rparr>) (db_terminal ?d)"
          by (rule tb_update_eq_put [OF db_invD(4) [OF inv] Some])
        have "\<exists>a k. abs_gen ?d ?g = Closed a k"
          using Some db_invD(8) [OF inv Some] by (auto simp: abs_gen_def)
        with Some True read ff \<open>map_of (db_inbox ?d) (ident key) = Some i\<close> confirm_db_inv [OF inv Some, of ?h] up
        show ?thesis
          by (auto simp: sql_ConfirmTerminalHandoff_def Confirm_def finish_def sql_simps tb_has_def Let_def
              abs_identity_def implements_def put_terminal_def)
      qed
    qed
  qed
  from both show "implements (snd (sql_ConfirmTerminalHandoff pkg H key fp c)) (ledger_of ?d)" by blast
  from both show "snd (fst (sql_ConfirmTerminalHandoff pkg H key fp c)) =
      (case lg_identity (ledger_of ?d) (ident key) of
         None \<Rightarrow> Some (Sentinel ErrTerminalStateMissing)
       | Some (fp', _) \<Rightarrow>
          if fp' \<noteq> fp then Some (Sentinel ErrFingerprintConflict)
          else case lg_gen (ledger_of ?d) ?g of
            Closed _ _ \<Rightarrow> None
          | _ \<Rightarrow> Some (Sentinel ErrTerminalStateMissing))" by blast
qed

section \<open>Pruning confirmed terminal generations\<close>

definition eligible :: "instant \<Rightarrow> 'b db \<Rightarrow> key4 \<Rightarrow> bool" where
  "eligible before d g \<longleftrightarrow> confirmed before d g \<and>
    (case map_of (db_inbox d) (logical g) of None \<Rightarrow> False | Some i \<Rightarrow> id_completed_at i = None)"

definition strip_db :: "key4 \<Rightarrow> instant \<Rightarrow> 'b db \<Rightarrow> 'b db" where
  "strip_db g before d = delete_generation g (delete_counters g
     (d\<lparr>db_terminal := tb_delete (\<lambda>k r. k = g \<and>
         (case tm_handoff_confirmed_at r of None \<Rightarrow> False | Some h \<Rightarrow> h < before)) (db_terminal d)\<rparr>))"

lemma strip_db_inv:
  assumes inv: "db_inv d" and e: "confirmed before d g"
  shows "db_inv (strip_db g before d)" "ledger_of (strip_db g before d) = set_gen g Fresh (ledger_of d)"
    "db_inbox (strip_db g before d) = db_inbox d"
    "map_of (db_terminal (strip_db g before d)) x = (if x = g then None else map_of (db_terminal d) x)"
    "db_business (strip_db g before d) = db_business d"
proof -
  let ?d = "strip_db g before d"
  note I = db_invD [OF inv]
  show inbox: "db_inbox ?d = db_inbox d" and biz: "db_business ?d = db_business d"
    by (simp_all add: strip_db_def delete_generation_def delete_counters_def)
  have att: "map_of (db_attempts ?d) k = (case map_of (db_attempts d) k of
      None \<Rightarrow> None | Some r \<Rightarrow> if k = logical g \<and> at_fingerprint r = gen_fp g then None else Some r)" for k
    by (simp add: strip_db_def delete_generation_def delete_counters_def map_of_tb_delete [OF I(2)])
  have gens: "map_of (db_generations ?d) y = (if y = g then None else map_of (db_generations d) y)" for y
    by (simp add: strip_db_def delete_generation_def delete_counters_def table_simps)
  have mark: "map_of (db_terminal ?d) y = (if y = g then None else map_of (db_terminal d) y)" for y
    using e by (auto simp: strip_db_def delete_generation_def delete_counters_def map_of_tb_delete [OF I(4)]
        confirmed_def split: option.splits)
  then show "map_of (db_terminal ?d) x = (if x = g then None else map_of (db_terminal d) x)" .
  have eq: "y = g \<longleftrightarrow> logical y = logical g \<and> gen_fp y = gen_fp g" for y
    by (cases y; cases g) (auto simp: logical_def gen_fp_def)
  have row: "counter_row ?d y = (if y = g then None else counter_row d y)" for y
    by (auto simp: counter_row_def att gens eq split: option.split)
  show "db_inv ?d"
  proof (rule drop_generation_inv [OF inv inbox, of "\<lambda>y. y = g"])
    show "wf_table (db_attempts ?d)" "wf_table (db_generations ?d)" "wf_table (db_terminal ?d)"
      using I by (simp_all add: strip_db_def delete_generation_def delete_counters_def)
  qed (simp_all add: att gens row mark split: if_splits option.splits)
  show "ledger_of ?d = set_gen g Fresh (ledger_of d)"
    by (rule drop_generation_ledger [OF inbox biz row mark])
qed

lemma tb_delete_one:
  assumes "wf_table t"
  shows "length t - length (tb_delete (\<lambda>k r. k = g \<and> Q r) t) =
      (case map_of t g of None \<Rightarrow> 0 | Some r \<Rightarrow> if Q r then 1 else 0)"
    and "(case map_of t g of None \<Rightarrow> False | Some r \<Rightarrow> Q r) \<or> tb_delete (\<lambda>k r. k = g \<and> Q r) t = t"
proof -
  have absent: "tb_delete (\<lambda>k r. k = g \<and> Q r) u = u" if "map_of u g = None" for u :: "('a \<times> 'b) list"
    using that by (induction u) (auto simp: tb_delete_def split: if_splits)
  have len: "length (tb_delete P u) \<le> length u" for P and u :: "('a \<times> 'b) list"
    by (simp add: tb_delete_def)
  have *: "length t - length (tb_delete (\<lambda>k r. k = g \<and> Q r) t) =
      (case map_of t g of None \<Rightarrow> 0 | Some r \<Rightarrow> if Q r then 1 else 0) \<and>
    ((case map_of t g of None \<Rightarrow> False | Some r \<Rightarrow> Q r) \<or> tb_delete (\<lambda>k r. k = g \<and> Q r) t = t)"
    using assms
  proof (induction t)
    case (Cons kv t)
    obtain k v where kv: "kv = (k, v)" by force
    show ?case
    proof (cases "k = g")
      case True
      with Cons.prems kv have "map_of t g = None" by (auto simp: wf_table_def map_of_eq_None_iff)
      from absent [OF this] True kv show ?thesis by (auto simp: tb_delete_def)
    next
      case False
      from Cons kv have "wf_table t" by (simp add: wf_table_def)
      with Cons.IH False kv len [of "\<lambda>k r. k = g \<and> Q r" t] show ?thesis
        by (auto simp: tb_delete_def Suc_diff_le split: option.splits)
    qed
  qed (simp add: tb_delete_def)
  from * show "length t - length (tb_delete (\<lambda>k r. k = g \<and> Q r) t) =
      (case map_of t g of None \<Rightarrow> 0 | Some r \<Rightarrow> if Q r then 1 else 0)" by blast
  from * show "(case map_of t g of None \<Rightarrow> False | Some r \<Rightarrow> Q r) \<or> tb_delete (\<lambda>k r. k = g \<and> Q r) t = t" by blast
qed

definition pruned_db :: "key4 \<Rightarrow> instant \<Rightarrow> 'b db \<Rightarrow> 'b db" where
  "pruned_db g before d =
    (if eligible before d g then delete_empty_identity (logical g) (strip_db g before d) else d)"

lemma pruneCandidate_run:
  assumes ff: "cn_faults c = []" and inv: "db_inv (cn_work c)"
  shows "pruneCandidate g before c =
    (Inr (if eligible before (cn_work c) g then 1 else 0), c\<lparr>cn_work := pruned_db g before (cn_work c)\<rparr>)"
proof (cases "map_of (db_inbox (cn_work c)) (logical g)")
  case None
  then show ?thesis
    using ff by (simp add: pruneCandidate_def sql_simps readIdentity_sql_def eligible_def pruned_db_def)
next
  case (Some i)
  let ?Q = "\<lambda>r. case tm_handoff_confirmed_at r of None \<Rightarrow> False | Some h \<Rightarrow> h < before"
  note T = tb_delete_one [OF db_invD(4) [OF inv], where g = g and Q = ?Q]
  show ?thesis
  proof (cases "id_completed_at i")
    case completed: (Some t)
    with Some ff show ?thesis
      by (simp add: pruneCandidate_def sql_simps readIdentity_sql_def eligible_def pruned_db_def)
  next
    case None
    with Some have el: "eligible before (cn_work c) g \<longleftrightarrow> confirmed before (cn_work c) g"
      by (simp add: eligible_def)
    show ?thesis
    proof (cases "confirmed before (cn_work c) g")
      case True
      with T(1) have "length (db_terminal (cn_work c)) -
          length (tb_delete (\<lambda>k r. k = g \<and> ?Q r) (db_terminal (cn_work c))) = 1"
        by (auto simp: confirmed_def split: option.splits)
      with True None Some ff el show ?thesis
        by (simp add: pruneCandidate_def sql_simps readIdentity_sql_def delete_confirmed_def Let_def
            pruned_db_def strip_db_def)
    next
      case False
      with T have "tb_delete (\<lambda>k r. k = g \<and> ?Q r) (db_terminal (cn_work c)) = db_terminal (cn_work c)"
        by (simp add: confirmed_def)
      with False None Some ff el show ?thesis
        by (simp add: pruneCandidate_def sql_simps readIdentity_sql_def delete_confirmed_def Let_def
            pruned_db_def)
    qed
  qed
qed

lemma delete_empty_eq:
  "delete_empty_identity k d = (if has_any k d then d else deleteIncompleteIdentity_sql k d)"
  by (simp add: delete_empty_identity_def deleteIncompleteIdentity_sql_def)

lemma pruned_db_inv:
  assumes inv: "db_inv d"
  shows "db_inv (pruned_db g before d)"
    and "ledger_of (pruned_db g before d) =
      (if eligible before d g then ledger_reset g (ledger_of d) else ledger_of d)"
proof -
  have "db_inv (pruned_db g before d) \<and> ledger_of (pruned_db g before d) = ledger_reset g (ledger_of d)"
    if e: "eligible before d g"
  proof -
    from e have c: "confirmed before d g" by (simp add: eligible_def)
    note S = strip_db_inv [OF inv c]
    let ?d = "strip_db g before d"
    from e obtain i where i: "map_of (db_inbox ?d) (logical g) = Some i" "id_completed_at i = None"
      by (auto simp: eligible_def S(3) split: option.splits)
    have h: "has_any (logical g) ?d \<longleftrightarrow> tracked (logical g) (ledger_of ?d)" by (rule has_any_iff [OF S(1)])
    show ?thesis
      using e h S(1,2) delete_identity_run [OF S(1) i]
      by (simp add: pruned_db_def delete_empty_eq ledger_reset_def Let_def)
  qed
  then show "db_inv (pruned_db g before d)" "ledger_of (pruned_db g before d) =
      (if eligible before d g then ledger_reset g (ledger_of d) else ledger_of d)"
    using inv by (auto simp: pruned_db_def)
qed

text \<open>Pruning one generation leaves every other eligible generation eligible.\<close>

lemma eligible_other:
  assumes inv: "db_inv d" and x: "eligible before d x" and g: "x \<noteq> g"
  shows "eligible before (pruned_db g before d) x"
proof (cases "eligible before d g")
  case True
  then have c: "confirmed before d g" by (simp add: eligible_def)
  note S = strip_db_inv [OF inv c]
  let ?d = "strip_db g before d"
  from x obtain t where t: "map_of (db_terminal d) x = Some t" by (auto simp: eligible_def confirmed_def split: option.splits)
  have mark: "map_of (db_terminal ?d) x = Some t" using S(4) g t by simp
  from db_invD(8) [OF S(1) mark] obtain r where "counter_row ?d x = Some r" by blast
  from trackedI [OF this] has_any_iff [OF S(1)] have tr: "has_any (logical x) ?d" by blast
  have ib: "map_of (db_inbox (delete_empty_identity (logical g) ?d)) (logical x) = map_of (db_inbox d) (logical x)"
  proof (cases "logical x = logical g")
    case True
    with tr S(3) show ?thesis by (simp add: delete_empty_identity_def)
  next
    case False
    then show ?thesis
      using db_invD(1) [OF S(1)]
      by (simp add: delete_empty_identity_def map_of_tb_delete S(3) split: option.split)
  qed
  have "db_terminal (delete_empty_identity (logical g) ?d) = db_terminal ?d"
    by (simp add: delete_empty_identity_def)
  with x True mark t ib show ?thesis
    by (simp add: eligible_def confirmed_def pruned_db_def)
next
  case False
  with x show ?thesis by (simp add: pruned_db_def)
qed

lemma prune_all_run:
  assumes "cn_faults c = []" and "db_inv (cn_work c)"
    and "distinct gs" and "\<forall>g\<in>set gs. eligible before (cn_work c) g"
  shows "\<exists>d'. m_map (\<lambda>g. pruneCandidate g before) gs c =
      (Inr (replicate (length gs) 1), c\<lparr>cn_work := d'\<rparr>) \<and>
    db_inv d' \<and> ledger_of d' = fold ledger_reset gs (ledger_of (cn_work c))"
  using assms
proof (induction gs arbitrary: c)
  case Nil
  then show ?case by (auto simp: sql_simps intro!: exI [of _ "cn_work c"])
next
  case (Cons g gs)
  let ?w = "pruned_db g before (cn_work c)"
  have run: "pruneCandidate g before c = (Inr 1, c\<lparr>cn_work := ?w\<rparr>)"
    using pruneCandidate_run [of c g before] Cons.prems by simp
  note P = pruned_db_inv [OF Cons.prems(2), of g before]
  have "\<forall>x\<in>set gs. eligible before ?w x"
  proof
    fix x assume x: "x \<in> set gs"
    with Cons.prems have "x \<noteq> g" "eligible before (cn_work c) x" by auto
    then show "eligible before ?w x" using eligible_other [OF Cons.prems(2)] by blast
  qed
  with Cons.IH [of "c\<lparr>cn_work := ?w\<rparr>"] Cons.prems P
  obtain d' where d': "m_map (\<lambda>g. pruneCandidate g before) gs (c\<lparr>cn_work := ?w\<rparr>) =
      (Inr (replicate (length gs) 1), c\<lparr>cn_work := d'\<rparr>)"
    "db_inv d'" "ledger_of d' = fold ledger_reset gs (ledger_of ?w)" by auto
  show ?case
  proof (intro exI conjI)
    show "m_map (\<lambda>g. pruneCandidate g before) (g # gs) c =
      (Inr (replicate (length (g # gs)) 1), c\<lparr>cn_work := d'\<rparr>)"
      using d'(1) by (simp add: m_bind_def run m_return_def)
    show "ledger_of d' = fold ledger_reset (g # gs) (ledger_of (cn_work c))"
      using d'(3) P(2) Cons.prems(4) by simp
  qed (rule d'(2))
qed

lemma confirmed_before_facts:
  assumes inv: "db_inv d"
  shows "distinct (confirmed_before before limit d)"
    and "length (confirmed_before before limit d) \<le> limit"
    and "g \<in> set (confirmed_before before limit d) \<Longrightarrow> eligible before d g"
proof -
  let ?P = "\<lambda>g h. h < before \<and> (case map_of (db_inbox d) (logical g) of
      None \<Rightarrow> False | Some i \<Rightarrow> id_completed_at i = None)"
  let ?rows = "timed_rows tm_handoff_confirmed_at ?P (db_terminal d)"
  have eq: "confirmed_before before limit d = sort (map snd (take limit (sort ?rows)))"
    by (simp add: confirmed_before_def timed_rows_def)
  have wf: "distinct (map fst (db_terminal d))" using db_invD(4) [OF inv] by (simp add: wf_table_def)
  have "distinct (map snd (take limit (sort ?rows)))"
    by (intro distinct_take_sorted distinct_timed_rows wf)
  then show "distinct (confirmed_before before limit d)" by (simp add: eq)
  show "length (confirmed_before before limit d) \<le> limit" by (simp add: eq)
  assume "g \<in> set (confirmed_before before limit d)"
  then obtain h where "(h, g) \<in> set ?rows" unfolding eq by (auto dest: in_set_takeD)
  then obtain r where r: "(g, r) \<in> set (db_terminal d)" "tm_handoff_confirmed_at r = Some h" "?P g h"
    unfolding timed_rows_iff by blast
  then have "map_of (db_terminal d) g = Some r" using wf by (simp only: in_set_map_of)
  with r show "eligible before d g" by (simp add: eligible_def confirmed_def)
qed

lemma confirmed_before_full:
  assumes inv: "db_inv d" and short: "length (confirmed_before before limit d) \<noteq> limit"
    and e: "eligible before d g"
  shows "g \<in> set (confirmed_before before limit d)"
proof -
  let ?P = "\<lambda>g h. h < before \<and> (case map_of (db_inbox d) (logical g) of
      None \<Rightarrow> False | Some i \<Rightarrow> id_completed_at i = None)"
  let ?rows = "timed_rows tm_handoff_confirmed_at ?P (db_terminal d)"
  have eq: "confirmed_before before limit d = sort (map snd (take limit (sort ?rows)))"
    by (simp add: confirmed_before_def timed_rows_def)
  obtain r h where "map_of (db_terminal d) g = Some r" "tm_handoff_confirmed_at r = Some h" "?P g h"
    using e by (auto simp: eligible_def confirmed_def split: option.splits)
  then have "(h, g) \<in> set ?rows" unfolding timed_rows_iff by (meson map_of_SomeD)
  moreover have "length ?rows \<le> limit" using short by (simp add: eq min_def split: if_splits)
  ultimately show ?thesis unfolding eq by (force simp: image_iff)
qed

lemma sum_list_ones: "sum_list (replicate n (1::int)) = int n"
  by (induction n) auto

lemma sql_PruneTerminal_refines:
  assumes ff: "cn_faults c = []" and inv: "db_inv (cn_durable c)"
  shows "fst (sql_PruneTerminalAttempts pkg before limit c) =
      (int (length (confirmed_before before limit (cn_durable c))), None) \<and>
    implements (snd (sql_PruneTerminalAttempts pkg before limit c))
      (fold ledger_reset (confirmed_before before limit (cn_durable c)) (ledger_of (cn_durable c)))"
proof -
  let ?gs = "confirmed_before before limit (cn_durable c)"
  note F = confirmed_before_facts [OF inv, where before = before and limit = limit]
  obtain d' where d': "m_map (\<lambda>g. pruneCandidate g before) ?gs (rollback c) =
      (Inr (replicate (length ?gs) 1), (rollback c)\<lparr>cn_work := d'\<rparr>)"
    "db_inv d'" "ledger_of d' = fold ledger_reset ?gs (ledger_of (cn_durable c))"
    using prune_all_run [of "rollback c" ?gs before] ff inv F by (auto simp: sql_simps)
  have "sql_PruneTerminalAttempts pkg before limit c =
      ((int (length ?gs), None), rollback ((rollback c)\<lparr>cn_work := d', cn_durable := d'\<rparr>))"
    using ff d'(1)
    by (simp add: sql_PruneTerminalAttempts_def TerminalPrune_def candidates_def finish_def sql_simps
        m_bind_ok [where m = "m_map (\<lambda>g. pruneCandidate g before) ?gs", OF d'(1)] sum_list_ones)
  with d' show ?thesis by (simp add: implements_def sql_simps)
qed

end
