(* ===== verification/InboxContract.thy ===== *)
theory InboxContract
  imports InboxRetention
begin

text \<open>
  The store over any backend that implements the ledger, under any interleaving of operations and
  any faults. A call is one operation of \<open>inbox.Store\<close>; calls on one database are serialised by its
  transactions, so a concurrent execution is a sequence of calls. The locale \<open>ledger_backend\<close> is the
  interface of a backend: it implements the ledger when no fault occurs, and is all or nothing when
  one does. What the inbox guarantees is proved once from these laws and holds for every backend
  that satisfies them; the SQLite and the PostgreSQL backend are its interpretations.
\<close>

section \<open>Calls\<close>

datatype 'b call =
    CAttempt key fingerprint nat "'b handler"
  | CProcess key fingerprint "'b handler"
  | CForget key fingerprint
  | CPrune instant int
  | CConfirm key fingerprint
  | CPruneTerminal instant int

definition live :: ctx where
  "live = Ctx None"

fun run_call :: "'b backend \<Rightarrow> 'b call \<Rightarrow> 'b db conn \<Rightarrow> 'b db conn" where
  "run_call be (CAttempt key fp n h) c = snd (Store_ProcessAttempt be key fp n (Some h) c)"
| "run_call be (CProcess key fp h) c = snd (Store_Process be key fp (Some h) c)"
| "run_call be (CForget key fp) c = snd (Store_ForgetAttempt be key fp c)"
| "run_call be (CPrune before limit) c = snd (Store_Prune be before limit c)"
| "run_call be (CConfirm key fp) c = snd (Store_ConfirmTerminalHandoff be live key fp c)"
| "run_call be (CPruneTerminal before limit) c = snd (Store_PruneTerminalAttempts be live before limit c)"

fun run_calls :: "'b backend \<Rightarrow> 'b call list \<Rightarrow> 'b db conn \<Rightarrow> 'b db conn" where
  "run_calls be [] c = c"
| "run_calls be (x # xs) c = run_calls be xs (run_call be x c)"

fun call_ok :: "(string \<Rightarrow> fingerprint) \<Rightarrow> 'b call \<Rightarrow> bool" where
  "call_ok H (CAttempt key fp n h) = separated H key fp"
| "call_ok H (CForget key fp) = separated H key fp"
| "call_ok H _ = True"

fun prunes :: "'b call \<Rightarrow> bool" where
  "prunes (CPrune before limit) = True"
| "prunes _ = False"

fun resets :: "(string \<Rightarrow> fingerprint) \<Rightarrow> key4 \<Rightarrow> 'b call \<Rightarrow> bool" where
  "resets H g (CForget key fp) \<longleftrightarrow> generation H key fp = g"
| "resets H g (CPrune before limit) = True"
| "resets H g (CPruneTerminal before limit) = True"
| "resets H g _ = False"

fun on_identity :: "key3 \<Rightarrow> 'b call \<Rightarrow> bool" where
  "on_identity k (CAttempt key fp n h) \<longleftrightarrow> ident key = k"
| "on_identity k (CProcess key fp h) \<longleftrightarrow> ident key = k"
| "on_identity k _ = False"

abbreviation ledger :: "'b db conn \<Rightarrow> 'b ledger" where
  "ledger c \<equiv> ledger_of (cn_durable c)"

definition completed :: "key3 \<Rightarrow> fingerprint \<Rightarrow> 'b db conn \<Rightarrow> bool" where
  "completed k fp c \<longleftrightarrow> lg_identity (ledger c) k = Some (fp, True)"

text \<open>The number of calls on an identity that change the business database.\<close>

fun effects :: "'b backend \<Rightarrow> key3 \<Rightarrow> 'b call list \<Rightarrow> 'b db conn \<Rightarrow> nat" where
  "effects be k [] c = 0"
| "effects be k (x # xs) c =
    (if on_identity k x \<and> lg_business (ledger (run_call be x c)) \<noteq> lg_business (ledger c) then 1 else 0) +
    effects be k xs (run_call be x c)"

section \<open>The ledger under one operation\<close>

lemma ledger_attempt_completed:
  "lg_identity L (ident key) = Some (fp', True) \<Longrightarrow> snd (ledger_attempt key fp g n h L) = L"
  by (simp add: ledger_attempt_def)

lemma ledger_process_completed:
  "lg_identity L (ident key) = Some (fp', True) \<Longrightarrow> snd (ledger_process key fp h L) = L"
  by (simp add: ledger_process_def)

lemmas ledger_steps = ledger_attempt_def ledger_open_def ledger_invoke_def ledger_process_def
  set_gen_def set_identity_def

lemma ledger_invoke_other:
  assumes "ident key \<noteq> k"
  shows "lg_identity (snd (ledger_invoke key fp g n a h L)) k = lg_identity L k"
  using assms by (auto simp: ledger_invoke_def set_gen_def set_identity_def split: prod.splits option.splits)

lemma ledger_attempt_other:
  assumes "ident key \<noteq> k"
  shows "lg_identity (snd (ledger_attempt key fp g n h L)) k = lg_identity L k"
proof -
  have "lg_identity (snd (ledger_open key fp g n h L')) k = lg_identity L' k" for L'
    by (simp add: ledger_open_def set_gen_def ledger_invoke_other [OF assms] split: gstate.split)
  then show ?thesis
    using assms by (auto simp: ledger_attempt_def set_identity_def split: option.splits prod.splits)
qed

lemma ledger_process_other:
  assumes "ident key \<noteq> k"
  shows "lg_identity (snd (ledger_process key fp h L)) k = lg_identity L k"
  using assms by (auto simp: ledger_process_def set_identity_def split: option.splits prod.splits)

text \<open>The business database changes only together with the completion of the identity.\<close>

lemma ledger_invoke_effect:
  assumes "lg_business (snd (ledger_invoke key fp g n a h L)) \<noteq> lg_business L"
  shows "lg_identity (snd (ledger_invoke key fp g n a h L)) (ident key) = Some (fp, True)"
  using assms by (auto simp: ledger_invoke_def set_gen_def set_identity_def split: prod.splits option.splits if_splits)

lemma ledger_open_effect:
  assumes "lg_business (snd (ledger_open key fp g n h L)) \<noteq> lg_business L"
  shows "lg_identity (snd (ledger_open key fp g n h L)) (ident key) = Some (fp, True)"
  using assms ledger_invoke_effect [of key fp g n _ h L]
  by (auto simp: ledger_open_def set_gen_def split: gstate.splits if_splits)

lemma ledger_attempt_effect:
  assumes "lg_business (snd (ledger_attempt key fp g n h L)) \<noteq> lg_business L"
  shows "lg_identity (snd (ledger_attempt key fp g n h L)) (ident key) = Some (fp, True)"
  using assms ledger_open_effect [of key fp g n h]
  by (fastforce simp: ledger_attempt_def set_identity_def split: option.splits prod.splits if_splits)

lemma ledger_process_effect:
  assumes "lg_business (snd (ledger_process key fp h L)) \<noteq> lg_business L"
  shows "lg_identity (snd (ledger_process key fp h L)) (ident key) = Some (fp, True)"
  using assms by (auto simp: ledger_process_def set_identity_def split: option.splits prod.splits if_splits)

lemma ledger_reset_facts:
  "lg_business (ledger_reset g L) = lg_business L"
  "lg_gen (ledger_reset g L) = (lg_gen L)(g := Fresh)"
  "k \<noteq> logical g \<Longrightarrow> lg_identity (ledger_reset g L) k = lg_identity L k"
  by (simp_all add: ledger_reset_def Let_def set_gen_def)

lemma fold_reset_facts:
  "lg_business (fold ledger_reset gs L) = lg_business L"
  "\<forall>g\<in>set gs. logical g \<noteq> k \<Longrightarrow> lg_identity (fold ledger_reset gs L) k = lg_identity L k"
  by (induction gs arbitrary: L) (auto simp: ledger_reset_facts)

section \<open>Transitions of the ledger\<close>

inductive ledger_step :: "(string \<Rightarrow> fingerprint) \<Rightarrow> 'b call \<Rightarrow> 'b ledger \<Rightarrow> 'b ledger \<Rightarrow> bool"
  for H :: "string \<Rightarrow> fingerprint" where
  step_attempt: "0 < n \<Longrightarrow> L' = snd (ledger_attempt key fp (generation H key fp) n h L) \<Longrightarrow>
    ledger_step H (CAttempt key fp n h) L L'"
| step_process: "L' = snd (ledger_process (key\<lparr>k_AttemptGeneration := []\<rparr>) fp h L) \<Longrightarrow>
    ledger_step H (CProcess key fp h) L L'"
| step_forget: "L' = snd (ledger_forget key fp (generation H key fp) L) \<Longrightarrow> ledger_step H (CForget key fp) L L'"
| step_prune: "\<forall>k\<in>S. \<exists>fp. lg_identity L k = Some (fp, True) \<Longrightarrow> ledger_step H (CPrune before limit) L (ledger_drop S L)"
| step_prune_terminal: "\<forall>g\<in>set gs. \<exists>fp. lg_identity L (logical g) = Some (fp, False) \<Longrightarrow>
    ledger_step H (CPruneTerminal before limit) L (fold ledger_reset gs L)"

inductive_cases step_attemptE: "ledger_step H (CAttempt key fp n h) L L'"
inductive_cases step_processE: "ledger_step H (CProcess key fp h) L L'"
inductive_cases step_forgetE: "ledger_step H (CForget key fp) L L'"
inductive_cases step_pruneE: "ledger_step H (CPrune before limit) L L'"
inductive_cases step_confirmE: "ledger_step H (CConfirm key fp) L L'"
inductive_cases step_prune_terminalE: "ledger_step H (CPruneTerminal before limit) L L'"

lemma ledger_step_completed:
  assumes "ledger_step H x L L'" and "lg_identity L k = Some (fp, True)" and "\<not> prunes x"
  shows "lg_identity L' k = Some (fp, True)"
  using assms
proof (induction rule: ledger_step.induct)
  case (step_attempt n L' key fp' h L)
  then show ?case
    by (cases "ident key = k") (simp_all add: ledger_attempt_completed ledger_attempt_other)
next
  case (step_process L' key fp' h L)
  then show ?case
    by (cases "ident key = k") (simp_all add: ledger_process_completed ledger_process_other)
next
  case (step_forget L' key fp' L)
  then show ?case
    by (cases "ident key = k")
      (auto simp: ledger_forget_def ledger_reset_facts split: option.splits if_splits)
next
  case (step_prune_terminal gs L before limit)
  then have "\<forall>g\<in>set gs. logical g \<noteq> k" by force
  with step_prune_terminal show ?case by (simp add: fold_reset_facts)
qed simp

lemma ledger_step_effect:
  assumes "ledger_step H x L L'" and "lg_business L' \<noteq> lg_business L" and "on_identity k x"
  shows "(\<exists>fp. lg_identity L' k = Some (fp, True)) \<and> (\<nexists>fp. lg_identity L k = Some (fp, True))"
  using assms
proof (induction rule: ledger_step.induct)
  case (step_attempt n L' key fp h L)
  then show ?case
    using ledger_attempt_effect [of key fp "generation H key fp" n h L] ledger_attempt_completed [of L key _ fp "generation H key fp" n h] by auto
next
  case (step_process L' key fp h L)
  then show ?case
    using ledger_process_effect [of "key\<lparr>k_AttemptGeneration := []\<rparr>" fp h L]
      ledger_process_completed [of L "key\<lparr>k_AttemptGeneration := []\<rparr>"] by auto
qed simp_all

lemma ledger_forget_other_gen:
  assumes "generation H key fp \<noteq> g"
  shows "lg_gen (snd (ledger_forget key fp (generation H key fp) L)) g = lg_gen L g"
  using assms by (auto simp: ledger_forget_def ledger_reset_facts split: option.splits if_splits)

text \<open>A closed generation of an incomplete identity stays closed, and its calls change nothing.\<close>

definition closed_in :: "key4 \<Rightarrow> nat \<Rightarrow> string \<Rightarrow> 'b ledger \<Rightarrow> bool" where
  "closed_in g a k L \<longleftrightarrow> lg_gen L g = Closed a k"

lemma ledger_attempt_closed:
  assumes "lg_gen L g = Closed a k"
  shows "lg_gen (snd (ledger_attempt key fp g' n h L)) g = Closed a k"
  using assms
  by (auto simp: ledger_attempt_def ledger_open_def ledger_invoke_def set_gen_def set_identity_def
      split: option.splits prod.splits gstate.splits if_splits)

lemma ledger_process_gen: "lg_gen (snd (ledger_process key fp h L)) = lg_gen L"
  by (auto simp: ledger_process_def set_identity_def split: option.splits prod.splits if_splits)

lemma ledger_step_closed:
  assumes "ledger_step H x L L'" and "closed_in g a k L" and "\<not> resets H g x"
  shows "closed_in g a k L'"
  using assms
proof (induction rule: ledger_step.induct)
  case (step_attempt n L' key fp h L)
  then show ?case by (simp add: closed_in_def ledger_attempt_closed)
next
  case (step_process L' key fp h L)
  then show ?case by (simp add: closed_in_def ledger_process_gen)
next
  case (step_forget L' key fp L)
  then show ?case by (simp add: closed_in_def ledger_forget_other_gen)
qed simp_all

text \<open>With a common attempt limit no generation consumes more attempts than the limit.\<close>

fun limit_at_most :: "nat \<Rightarrow> 'b call \<Rightarrow> bool" where
  "limit_at_most m (CAttempt key fp n h) \<longleftrightarrow> n \<le> m"
| "limit_at_most m _ = True"

lemma consumed_after_failure: "consumed (after_failure n a e) = a + 1"
  by (simp add: after_failure_def)

lemma ledger_attempt_consumed:
  assumes "n \<le> m" and "0 < n" and "consumed (lg_gen L g) \<le> m"
  shows "consumed (lg_gen (snd (ledger_attempt key fp g' n h L)) g) \<le> m"
proof -
  have inv: "consumed (lg_gen (snd (ledger_invoke key fp g' n a h L')) g) \<le> m"
    if "a < n" "consumed (lg_gen L' g) \<le> m" for a L'
    using that assms
    by (auto simp: ledger_invoke_def set_gen_def set_identity_def consumed_after_failure
        split: prod.splits option.splits)
  have opn: "consumed (lg_gen (snd (ledger_open key fp g' n h L')) g) \<le> m"
    if "consumed (lg_gen L' g) \<le> m" for L'
  proof (cases "lg_gen L' g'")
    case Fresh
    with inv [of 0 L'] that assms show ?thesis by (simp add: ledger_open_def)
  next
    case (Open a)
    with inv [of a L'] that assms show ?thesis by (auto simp: ledger_open_def set_gen_def)
  next
    case (Closed a k)
    with that show ?thesis by (simp add: ledger_open_def)
  qed
  show ?thesis
    using opn [of L] opn [of "set_identity (ident key) fp False L"] assms
    by (auto simp: ledger_attempt_def set_identity_def split: option.splits)
qed

lemma fold_reset_gen: "lg_gen (fold ledger_reset gs L) g = (if g \<in> set gs then Fresh else lg_gen L g)"
  by (induction gs arbitrary: L) (auto simp: ledger_reset_facts)

lemma ledger_step_consumed:
  assumes "ledger_step H x L L'" and "limit_at_most m x" and "consumed (lg_gen L g) \<le> m"
  shows "consumed (lg_gen L' g) \<le> m"
  using assms
proof (induction rule: ledger_step.induct)
  case (step_attempt n L' key fp h L)
  then show ?case by (simp add: ledger_attempt_consumed)
next
  case (step_process L' key fp h L)
  then show ?case by (simp add: ledger_process_gen)
next
  case (step_forget L' key fp L)
  then show ?case by (auto simp: ledger_forget_def ledger_reset_facts split: option.splits)
next
  case (step_prune S L before limit)
  then show ?case by (simp add: ledger_drop_def)
next
  case (step_prune_terminal gs L before limit)
  then show ?case by (simp add: fold_reset_gen)
qed

text \<open>A call that leaves the ledger alone or makes one transition of it.\<close>

definition stepped :: "(string \<Rightarrow> fingerprint) \<Rightarrow> 'b call \<Rightarrow> 'b db conn \<Rightarrow> 'b db conn \<Rightarrow> bool" where
  "stepped H x c c' \<longleftrightarrow> db_inv (cn_durable c') \<and> (ledger c' = ledger c \<or> ledger_step H x (ledger c) (ledger c'))"

section \<open>Backends\<close>

locale ledger_backend =
  fixes be :: "'b backend" and H :: "string \<Rightarrow> fingerprint"
    and ab :: "'b attemptBackend" and tb :: "'b terminalBackend"
  assumes attempts: "be_attempts be = Some ab" and terminals: "be_terminal be = Some tb"
    and attempt_refines: "cn_faults c = [] \<Longrightarrow> db_inv (cn_durable c) \<Longrightarrow> separated H key fp \<Longrightarrow> 0 < n \<Longrightarrow>
      fst (ab_ProcessAttempt ab key fp n h c) =
        fst (ledger_attempt key fp (generation H key fp) n h (ledger c)) \<and>
      implements (snd (ab_ProcessAttempt ab key fp n h c))
        (snd (ledger_attempt key fp (generation H key fp) n h (ledger c)))"
    and process_refines: "cn_faults c = [] \<Longrightarrow> db_inv (cn_durable c) \<Longrightarrow>
      fst (be_Process be key fp h c) = fst (ledger_process key fp h (ledger c)) \<and>
      implements (snd (be_Process be key fp h c)) (snd (ledger_process key fp h (ledger c)))"
    and forget_refines: "cn_faults c = [] \<Longrightarrow> db_inv (cn_durable c) \<Longrightarrow> separated H key fp \<Longrightarrow>
      fst (ab_ForgetAttempt ab key fp c) = fst (ledger_forget key fp (generation H key fp) (ledger c)) \<and>
      implements (snd (ab_ForgetAttempt ab key fp c)) (snd (ledger_forget key fp (generation H key fp) (ledger c)))"
    and prune_refines: "cn_faults c = [] \<Longrightarrow> db_inv (cn_durable c) \<Longrightarrow>
      fst (be_Prune be before limit c) = (int (length (completed_before before limit (cn_durable c))), None) \<and>
      implements (snd (be_Prune be before limit c))
        (ledger_drop (set (completed_before before limit (cn_durable c))) (ledger c))"
    and confirm_refines: "cn_faults c = [] \<Longrightarrow> db_inv (cn_durable c) \<Longrightarrow>
      implements (snd (tb_ConfirmTerminalHandoff tb key fp c)) (ledger c)"
    and prune_terminal_refines: "cn_faults c = [] \<Longrightarrow> db_inv (cn_durable c) \<Longrightarrow>
      implements (snd (tb_PruneTerminalAttempts tb before limit c))
        (fold ledger_reset (confirmed_before before limit (cn_durable c)) (ledger c))"
    and attempt_atomic: "op_atomic zero_result (ab_ProcessAttempt ab key fp n h)"
    and process_atomic: "op_atomic zero_result (be_Process be key fp h)"
    and forget_atomic: "op_atomic () (ab_ForgetAttempt ab key fp)"
    and prune_atomic: "op_atomic 0 (be_Prune be before limit)"
    and confirm_atomic: "op_atomic () (tb_ConfirmTerminalHandoff tb key fp)"
    and prune_terminal_atomic: "op_atomic 0 (tb_PruneTerminalAttempts tb before limit)"
begin

lemma op_atomic_durable:
  assumes "op_atomic z f"
  shows "cn_durable (snd (f c)) = cn_durable c \<or> cn_durable (snd (f c)) = cn_durable (snd (f (ff c)))"
proof -
  from assms [unfolded op_atomic_def, rule_format, of c] show ?thesis
    by (metis ff_simps(1) insertE singletonD)
qed

lemma op_step:
  assumes "op_atomic z f" and "db_inv (cn_durable c)" and "implements (snd (f (ff c))) L'"
  shows "db_inv (cn_durable (snd (f c))) \<and> (ledger (snd (f c)) = ledger c \<or> ledger (snd (f c)) = L')"
  using op_atomic_durable [OF assms(1), of c] assms(2,3) by (auto simp: implements_def)

lemma identity_of:
  assumes "db_inv (cn_durable c)"
  shows "g \<in> set (confirmed_before before limit (cn_durable c)) \<Longrightarrow>
      \<exists>fp. lg_identity (ledger c) (logical g) = Some (fp, False)"
    and "k \<in> set (completed_before before limit (cn_durable c)) \<Longrightarrow>
      \<exists>fp. lg_identity (ledger c) k = Some (fp, True)"
proof -
  assume "g \<in> set (confirmed_before before limit (cn_durable c))"
  from confirmed_before_facts(3) [OF assms this]
  show "\<exists>fp. lg_identity (ledger c) (logical g) = Some (fp, False)"
    by (auto simp: eligible_def abs_identity_def split: option.splits)
next
  assume "k \<in> set (completed_before before limit (cn_durable c))"
  from completed_before_facts(3) [OF db_invD(1) [OF assms] this]
  show "\<exists>fp. lg_identity (ledger c) k = Some (fp, True)"
    by (auto simp: abs_identity_def)
qed

text \<open>Whatever fault occurs, a call leaves the ledger alone or makes one transition of it.\<close>

lemma stepped_same: "db_inv (cn_durable c) \<Longrightarrow> stepped H x c c"
  by (simp add: stepped_def)

lemma stepped_op:
  assumes "op_atomic z f" and "db_inv (cn_durable c)" and "implements (snd (f (ff c))) L'"
    and "L' = ledger c \<or> ledger_step H x (ledger c) L'"
  shows "stepped H x c (snd (f c))"
  using op_step [OF assms(1-3)] assms(4) by (auto simp: stepped_def)

lemma stepped_attempt:
  assumes inv: "db_inv (cn_durable c)" and ok: "separated H key fp"
  shows "stepped H (CAttempt key fp n h) c (run_call be (CAttempt key fp n h) c)"
proof (cases "ValidateKey key = None \<and> 0 < n")
  case True
  then have r: "run_call be (CAttempt key fp n h) c = snd (ab_ProcessAttempt ab key fp n h c)"
    by (simp add: Store_ProcessAttempt_def attempts)
  show ?thesis
    unfolding r
  proof (rule stepped_op [OF attempt_atomic inv])
    show "implements (snd (ab_ProcessAttempt ab key fp n h (ff c)))
        (snd (ledger_attempt key fp (generation H key fp) n h (ledger c)))"
      using attempt_refines [of "ff c" key fp n h] inv ok True by simp
  qed (use True in \<open>blast intro: step_attempt\<close>)
next
  case False
  then have "run_call be (CAttempt key fp n h) c = c"
    by (auto simp: Store_ProcessAttempt_def refuse_def split: option.splits)
  with inv show ?thesis by (simp add: stepped_same)
qed

lemma stepped_process:
  assumes inv: "db_inv (cn_durable c)"
  shows "stepped H (CProcess key fp h) c (run_call be (CProcess key fp h) c)"
proof (cases "ValidateKey key = None")
  case True
  let ?key = "key\<lparr>k_AttemptGeneration := []\<rparr>"
  have r: "run_call be (CProcess key fp h) c = snd (be_Process be ?key fp h c)"
    using True by (simp add: Store_Process_def)
  show ?thesis
    unfolding r
  proof (rule stepped_op [OF process_atomic inv])
    show "implements (snd (be_Process be ?key fp h (ff c))) (snd (ledger_process ?key fp h (ledger c)))"
      using process_refines [of "ff c" ?key fp h] inv by simp
  qed (blast intro: step_process)
next
  case False
  then have "run_call be (CProcess key fp h) c = c"
    by (auto simp: Store_Process_def refuse_def split: option.splits)
  with inv show ?thesis by (simp add: stepped_same)
qed

lemma stepped_forget:
  assumes inv: "db_inv (cn_durable c)" and ok: "separated H key fp"
  shows "stepped H (CForget key fp) c (run_call be (CForget key fp) c)"
proof (cases "ValidateKey key = None")
  case True
  then have r: "run_call be (CForget key fp) c = snd (ab_ForgetAttempt ab key fp c)"
    by (simp add: Store_ForgetAttempt_def attempts)
  show ?thesis
    unfolding r
  proof (rule stepped_op [OF forget_atomic inv])
    show "implements (snd (ab_ForgetAttempt ab key fp (ff c)))
        (snd (ledger_forget key fp (generation H key fp) (ledger c)))"
      using forget_refines [of "ff c" key fp] inv ok by simp
  qed (blast intro: step_forget)
next
  case False
  then have "run_call be (CForget key fp) c = c"
    by (auto simp: Store_ForgetAttempt_def refuse_def split: option.splits)
  with inv show ?thesis by (simp add: stepped_same)
qed

lemma stepped_prune:
  assumes inv: "db_inv (cn_durable c)"
  shows "stepped H (CPrune before limit) c (run_call be (CPrune before limit) c)"
proof (cases "before = 0 \<or> limit \<le> 0 \<or> limit > 10000")
  case False
  then have r: "run_call be (CPrune before limit) c = snd (be_Prune be before (nat limit) c)"
    by (simp add: Store_Prune_def)
  show ?thesis
    unfolding r
  proof (rule stepped_op [OF prune_atomic inv])
    show "implements (snd (be_Prune be before (nat limit) (ff c)))
        (ledger_drop (set (completed_before before (nat limit) (cn_durable c))) (ledger c))"
      using prune_refines [of "ff c" before "nat limit"] inv by simp
    show "ledger_drop (set (completed_before before (nat limit) (cn_durable c))) (ledger c) = ledger c \<or>
        ledger_step H (CPrune before limit) (ledger c)
          (ledger_drop (set (completed_before before (nat limit) (cn_durable c))) (ledger c))"
      by (intro disjI2 step_prune ballI identity_of(2) [OF inv])
  qed
next
  case True
  then have "run_call be (CPrune before limit) c = c" by (auto simp: Store_Prune_def refuse_def)
  with inv show ?thesis by (simp add: stepped_same)
qed

lemma stepped_confirm:
  assumes inv: "db_inv (cn_durable c)"
  shows "stepped H (CConfirm key fp) c (run_call be (CConfirm key fp) c)"
proof (cases "ValidateKey key = None")
  case True
  then have r: "run_call be (CConfirm key fp) c = snd (tb_ConfirmTerminalHandoff tb key fp c)"
    by (simp add: Store_ConfirmTerminalHandoff_def live_def terminals)
  show ?thesis
    unfolding r
  proof (rule stepped_op [OF confirm_atomic inv])
    show "implements (snd (tb_ConfirmTerminalHandoff tb key fp (ff c))) (ledger c)"
      using confirm_refines [of "ff c" key fp] inv by simp
  qed simp
next
  case False
  then have "run_call be (CConfirm key fp) c = c"
    by (auto simp: Store_ConfirmTerminalHandoff_def live_def refuse_def split: option.splits)
  with inv show ?thesis by (simp add: stepped_same)
qed

lemma stepped_prune_terminal:
  assumes inv: "db_inv (cn_durable c)"
  shows "stepped H (CPruneTerminal before limit) c (run_call be (CPruneTerminal before limit) c)"
proof (cases "before = 0 \<or> limit \<le> 0 \<or> limit > 10000")
  case False
  then have r: "run_call be (CPruneTerminal before limit) c = snd (tb_PruneTerminalAttempts tb before (nat limit) c)"
    by (simp add: Store_PruneTerminalAttempts_def live_def terminals)
  let ?gs = "confirmed_before before (nat limit) (cn_durable c)"
  show ?thesis
    unfolding r
  proof (rule stepped_op [OF prune_terminal_atomic inv])
    show "implements (snd (tb_PruneTerminalAttempts tb before (nat limit) (ff c))) (fold ledger_reset ?gs (ledger c))"
      using prune_terminal_refines [of "ff c" before "nat limit"] inv by simp
    show "fold ledger_reset ?gs (ledger c) = ledger c \<or>
        ledger_step H (CPruneTerminal before limit) (ledger c) (fold ledger_reset ?gs (ledger c))"
      by (intro disjI2 step_prune_terminal ballI identity_of(1) [OF inv])
  qed
next
  case True
  then have "run_call be (CPruneTerminal before limit) c = c"
    by (auto simp: Store_PruneTerminalAttempts_def live_def refuse_def)
  with inv show ?thesis by (simp add: stepped_same)
qed

lemma stepped_call:
  assumes "db_inv (cn_durable c)" and "call_ok H x"
  shows "stepped H x c (run_call be x c)"
  using assms
  by (cases x) (simp_all only: call_ok.simps stepped_attempt stepped_process stepped_forget stepped_prune
      stepped_confirm stepped_prune_terminal)

section \<open>What every backend guarantees\<close>

lemma runs_inv:
  assumes "db_inv (cn_durable c)" and "list_all (call_ok H) xs"
  shows "db_inv (cn_durable (run_calls be xs c))"
  using assms by (induction xs arbitrary: c) (auto dest: stepped_call simp: stepped_def)

lemma runs_completed:
  assumes "db_inv (cn_durable c)" and "list_all (call_ok H) xs" and "list_all (\<lambda>x. \<not> prunes x) xs"
    and "completed k fp c"
  shows "completed k fp (run_calls be xs c)"
  using assms
proof (induction xs arbitrary: c)
  case (Cons x xs)
  have st: "stepped H x c (run_call be x c)" using Cons.prems by (simp add: stepped_call)
  then have "completed k fp (run_call be x c)"
    using Cons.prems ledger_step_completed [of H x "ledger c" "ledger (run_call be x c)" k fp]
    unfolding stepped_def completed_def by (auto simp del: ledger_of_simps)
  with Cons st show ?case by (simp add: stepped_def)
qed simp

text \<open>After the completion of an identity no call on it changes the business database.\<close>

lemma completed_no_effects:
  assumes "db_inv (cn_durable c)" and "list_all (call_ok H) xs" and "list_all (\<lambda>x. \<not> prunes x) xs"
    and "completed k fp c"
  shows "effects be k xs c = 0"
  using assms
proof (induction xs arbitrary: c)
  case (Cons x xs)
  have st: "stepped H x c (run_call be x c)" using Cons.prems by (simp add: stepped_call)
  have comp: "completed k fp (run_call be x c)"
    using runs_completed [of c "[x]" k fp] Cons.prems by simp
  have "lg_business (ledger (run_call be x c)) = lg_business (ledger c)" if "on_identity k x"
    using st that Cons.prems(4) ledger_step_effect [of H x "ledger c" "ledger (run_call be x c)" k]
    unfolding stepped_def completed_def by (auto simp del: ledger_of_simps)
  with Cons st comp show ?case by (auto simp: stepped_def)
qed simp

lemma at_most_one_effect:
  assumes "db_inv (cn_durable c)" and "list_all (call_ok H) xs" and "list_all (\<lambda>x. \<not> prunes x) xs"
  shows "effects be k xs c \<le> 1"
  using assms
proof (induction xs arbitrary: c)
  case (Cons x xs)
  have st: "stepped H x c (run_call be x c)" using Cons.prems by (simp add: stepped_call)
  show ?case
  proof (cases "on_identity k x \<and> lg_business (ledger (run_call be x c)) \<noteq> lg_business (ledger c)")
    case True
    then obtain fp where "completed k fp (run_call be x c)"
      using st ledger_step_effect [of H x "ledger c" "ledger (run_call be x c)" k]
      unfolding stepped_def completed_def by (auto simp del: ledger_of_simps)
    with completed_no_effects [of "run_call be x c" xs k fp] Cons.prems st True show ?thesis
      by (simp add: stepped_def)
  next
    case False
    with Cons st show ?thesis by (auto simp: stepped_def)
  qed
qed simp

lemma runs_closed:
  assumes "db_inv (cn_durable c)" and "list_all (call_ok H) xs" and "list_all (\<lambda>x. \<not> resets H g x) xs"
    and "closed_in g a k (ledger c)"
  shows "closed_in g a k (ledger (run_calls be xs c))"
  using assms
proof (induction xs arbitrary: c)
  case (Cons x xs)
  have st: "stepped H x c (run_call be x c)" using Cons.prems by (simp add: stepped_call)
  then have "closed_in g a k (ledger (run_call be x c))"
    using Cons.prems ledger_step_closed [of H x "ledger c" "ledger (run_call be x c)" g a k]
    unfolding stepped_def by auto
  with Cons st show ?case by (simp add: stepped_def)
qed simp

lemma runs_consumed:
  assumes "db_inv (cn_durable c)" and "list_all (call_ok H) xs" and "list_all (limit_at_most m) xs"
    and "consumed (lg_gen (ledger c) g) \<le> m"
  shows "consumed (lg_gen (ledger (run_calls be xs c)) g) \<le> m"
  using assms
proof (induction xs arbitrary: c)
  case (Cons x xs)
  have st: "stepped H x c (run_call be x c)" using Cons.prems by (simp add: stepped_call)
  then have "consumed (lg_gen (ledger (run_call be x c)) g) \<le> m"
    using Cons.prems ledger_step_consumed [of H x "ledger c" "ledger (run_call be x c)" m g]
    unfolding stepped_def by (auto simp del: ledger_of_simps)
  with Cons st show ?case by (simp add: stepped_def)
qed simp

end

end
