(* ===== verification/InboxProgress.thy ===== *)
theory InboxProgress
  imports InboxContract
begin

text \<open>
  Progress of the inbox on a connection without faults, for every backend of the contract: a message
  whose handler keeps failing is closed after exactly its attempt budget, and a message whose handler
  fails fewer times than the budget and then succeeds is completed, with the business writes of the
  successful invocation only.
\<close>

definition ordinary :: "err \<Rightarrow> bool" where
  "ordinary e \<longleftrightarrow> \<not> IsPermanent e \<and> \<not> deferred e"

definition always_fails :: "'b handler \<Rightarrow> bool" where
  "always_fails h \<longleftrightarrow> (\<forall>b. \<exists>b' e. h b = (b', Some e) \<and> ordinary e)"

text \<open>The state after \<open>a\<close> ordinary failures with a budget of \<open>n\<close>.\<close>

definition failed_state :: "nat \<Rightarrow> nat \<Rightarrow> gstate" where
  "failed_state n a = (if a = 0 then Fresh else if a \<ge> n then Closed a FailureAttemptsExhausted else Open a)"

definition pending :: "key \<Rightarrow> fingerprint \<Rightarrow> 'b ledger \<Rightarrow> bool" where
  "pending key fp L \<longleftrightarrow> lg_identity L (ident key) \<in> {None, Some (fp, False)}"

lemma ledger_attempt_pending:
  assumes "pending key fp L"
  shows "ledger_attempt key fp g n h L = ledger_open key fp g n h (set_identity (ident key) fp False L)"
proof -
  have "L = set_identity (ident key) fp False L" if "lg_identity L (ident key) = Some (fp, False)"
    using that by (simp add: set_identity_def) (metis fun_upd_triv ledger.surjective ledger.update_convs(1))
  with assms show ?thesis by (auto simp: pending_def ledger_attempt_def)
qed

lemma ledger_open_invoke:
  assumes "lg_gen L g = failed_state n a" and "a < n"
  shows "ledger_open key fp g n h L = ledger_invoke key fp g n a h L"
  using assms by (simp add: ledger_open_def failed_state_def)

lemma ledger_attempt_fails:
  assumes "always_fails h" and "pending key fp L" and "lg_gen L g = failed_state n a" and "a < n"
  shows "\<exists>e. fst (ledger_attempt key fp g n h L) = (attempt_result (a + 1), Some e)"
    and "pending key fp (snd (ledger_attempt key fp g n h L))"
    and "lg_gen (snd (ledger_attempt key fp g n h L)) g = failed_state n (a + 1)"
    and "lg_business (snd (ledger_attempt key fp g n h L)) = lg_business L"
proof -
  let ?L = "set_identity (ident key) fp False L"
  have "lg_gen ?L g = failed_state n a" using assms(3) by (simp add: set_identity_def)
  note eq = ledger_attempt_pending [OF assms(2)] ledger_open_invoke [OF this assms(4)]
  from assms(1) obtain b e where h: "h (lg_business ?L) = (b, Some e)" "ordinary e"
    unfolding always_fails_def by blast
  then have inv: "ledger_attempt key fp g n h L =
      ((attempt_result (a + 1), Some e), set_gen g (after_failure n a e) ?L)"
    by (simp add: eq ledger_invoke_def ordinary_def)
  show "\<exists>e. fst (ledger_attempt key fp g n h L) = (attempt_result (a + 1), Some e)" by (simp add: inv)
  show "pending key fp (snd (ledger_attempt key fp g n h L))"
    by (simp add: inv pending_def set_gen_def set_identity_def)
  show "lg_gen (snd (ledger_attempt key fp g n h L)) g = failed_state n (a + 1)"
    using h(2) by (simp add: inv set_gen_def after_failure_def failed_state_def ordinary_def)
  show "lg_business (snd (ledger_attempt key fp g n h L)) = lg_business L"
    by (simp add: inv set_gen_def set_identity_def)
qed

lemma ledger_attempt_succeeds:
  assumes "h (lg_business L) = (b, None)" and "pending key fp L" and "lg_gen L g = failed_state n a" and "a < n"
  shows "lg_identity (snd (ledger_attempt key fp g n h L)) (ident key) = Some (fp, True)"
    and "lg_business (snd (ledger_attempt key fp g n h L)) = b"
proof -
  let ?L = "set_identity (ident key) fp False L"
  have "lg_gen ?L g = failed_state n a" using assms(3) by (simp add: set_identity_def)
  note eq = ledger_attempt_pending [OF assms(2)] ledger_open_invoke [OF this assms(4)]
  show "lg_identity (snd (ledger_attempt key fp g n h L)) (ident key) = Some (fp, True)"
    and "lg_business (snd (ledger_attempt key fp g n h L)) = b"
    using assms(1) unfolding eq by (simp_all add: ledger_invoke_def set_gen_def set_identity_def)
qed

text \<open>An operation that does not give the zero result leaves a connection without faults so.\<close>

lemma op_atomic_faultless:
  assumes "op_atomic z f" and "cn_faults c = []" and "fst (fst (f c)) \<noteq> z"
  shows "cn_faults (snd (f c)) = []"
proof -
  have "ff c = c" using assms(2) by (simp add: ff_def)
  with assms(1,3) have "ff (snd (f c)) = snd (f c)" unfolding op_atomic_def by metis
  then show ?thesis by (metis ff_simps(4))
qed

context ledger_backend
begin

lemma failing_run:
  assumes "always_fails h" and "ValidateKey key = None" and "separated H key fp"
    and "cn_faults c = []" and "db_inv (cn_durable c)" and "pending key fp (ledger c)"
    and "lg_gen (ledger c) (generation H key fp) = failed_state n a" and "a + m \<le> n"
  shows "cn_faults (run_calls be (replicate m (CAttempt key fp n h)) c) = [] \<and>
    db_inv (cn_durable (run_calls be (replicate m (CAttempt key fp n h)) c)) \<and>
    pending key fp (ledger (run_calls be (replicate m (CAttempt key fp n h)) c)) \<and>
    lg_gen (ledger (run_calls be (replicate m (CAttempt key fp n h)) c)) (generation H key fp) = failed_state n (a + m) \<and>
    lg_business (ledger (run_calls be (replicate m (CAttempt key fp n h)) c)) = lg_business (ledger c)"
  using assms
proof (induction m arbitrary: a c)
  case (Suc m)
  let ?op = "ab_ProcessAttempt ab key fp n h" and ?g = "generation H key fp"
  have lt: "a < n" and n: "0 < n" using Suc.prems(8) by auto
  have run: "run_call be (CAttempt key fp n h) c = snd (?op c)"
    using Suc.prems(2) n by (simp add: Store_ProcessAttempt_def attempts)
  note R = attempt_refines [OF Suc.prems(4,5,3) n, of h, unfolded implements_def]
  note F = ledger_attempt_fails [OF Suc.prems(1,6,7) lt]
  have "fst (fst (?op c)) \<noteq> zero_result"
    using R F(1) by (auto simp: attempt_result_def zero_result_def)
  with attempt_atomic Suc.prems(4) have "cn_faults (snd (?op c)) = []" by (rule op_atomic_faultless)
  with Suc.IH [of "snd (?op c)" "a + 1"] Suc.prems R F(2-4) show ?case by (simp add: run del: run_call.simps)
qed simp

lemma failing_closes:
  assumes "always_fails h" and "ValidateKey key = None" and "separated H key fp" and "0 < n"
    and "cn_faults c = []" and "db_inv (cn_durable c)" and "pending key fp (ledger c)"
    and "lg_gen (ledger c) (generation H key fp) = Fresh"
  shows "closed_in (generation H key fp) n FailureAttemptsExhausted
      (ledger (run_calls be (replicate n (CAttempt key fp n h)) c)) \<and>
    lg_business (ledger (run_calls be (replicate n (CAttempt key fp n h)) c)) = lg_business (ledger c)"
  using failing_run [OF assms(1-3,5-7), where n = n and a = 0 and m = n] assms(4,8)
  by (simp add: failed_state_def closed_in_def)

lemma retries_complete:
  assumes "always_fails bad" and "good = (\<lambda>b. (f b, None))" and "m < n"
    and "ValidateKey key = None" and "separated H key fp"
    and "cn_faults c = []" and "db_inv (cn_durable c)" and "pending key fp (ledger c)"
    and "lg_gen (ledger c) (generation H key fp) = Fresh"
  shows "completed (ident key) fp
      (run_calls be (replicate m (CAttempt key fp n bad) @ [CAttempt key fp n good]) c) \<and>
    lg_business (ledger (run_calls be (replicate m (CAttempt key fp n bad) @ [CAttempt key fp n good]) c)) =
      f (lg_business (ledger c))"
proof -
  let ?c = "run_calls be (replicate m (CAttempt key fp n bad)) c"
  have n: "0 < n" using assms(3) by simp
  have app: "run_calls be (xs @ ys) c = run_calls be ys (run_calls be xs c)" for xs ys
    by (induction xs arbitrary: c) simp_all
  have "lg_gen (ledger c) (generation H key fp) = failed_state n 0" using assms(9) by (simp add: failed_state_def)
  note P = failing_run [OF assms(1,4-8) this, where m = m, simplified]
  have run: "run_call be (CAttempt key fp n good) ?c = snd (ab_ProcessAttempt ab key fp n good ?c)"
    using assms(4) n by (simp add: Store_ProcessAttempt_def attempts)
  have "implements (run_call be (CAttempt key fp n good) ?c)
      (snd (ledger_attempt key fp (generation H key fp) n good (ledger ?c)))"
    unfolding run using attempt_refines [of ?c key fp n good] P assms(3,5) n by simp
  moreover have "good (lg_business (ledger ?c)) = (f (lg_business (ledger c)), None)"
    using P assms(2,3) by simp
  ultimately show ?thesis
    using ledger_attempt_succeeds [of good "ledger ?c" "f (lg_business (ledger c))" key fp "generation H key fp" n m]
      P assms(3) by (simp add: app completed_def implements_def del: run_call.simps)
qed

end

end
