(* ===== verification/InboxSqlite.thy ===== *)
theory InboxSqlite
  imports InboxProgress
begin

text \<open>
  The SQLite backend: \<open>adapters/inbox/sqlite/sqlite.go\<close> and \<open>terminal.go\<close> are the shared code with the
  package's error prefix. It provides the ledger contract, so everything proved of a ledger backend
  holds of it. The batch operation is an argument of the backend here: it has a theory of its own.
\<close>

definition sqlite_pkg :: string where
  "sqlite_pkg = ''inbox/sqlite''"

definition sqlite_ProcessAttempt ::
  "(string \<Rightarrow> fingerprint) \<Rightarrow> key \<Rightarrow> fingerprint \<Rightarrow> nat \<Rightarrow> 'b handler \<Rightarrow> ('b, result) op" where
  "sqlite_ProcessAttempt = sql_ProcessAttempt sqlite_pkg"

definition sqlite_Process :: "key \<Rightarrow> fingerprint \<Rightarrow> 'b handler \<Rightarrow> ('b, result) op" where
  "sqlite_Process = sql_Process sqlite_pkg"

definition sqlite_ForgetAttempt :: "(string \<Rightarrow> fingerprint) \<Rightarrow> key \<Rightarrow> fingerprint \<Rightarrow> ('b, unit) op" where
  "sqlite_ForgetAttempt = sql_ForgetAttempt sqlite_pkg"

definition sqlite_Prune :: "instant \<Rightarrow> nat \<Rightarrow> ('b, int) op" where
  "sqlite_Prune = sql_Prune sqlite_pkg"

definition sqlite_ConfirmTerminalHandoff :: "(string \<Rightarrow> fingerprint) \<Rightarrow> key \<Rightarrow> fingerprint \<Rightarrow> ('b, unit) op" where
  "sqlite_ConfirmTerminalHandoff = sql_ConfirmTerminalHandoff sqlite_pkg"

definition sqlite_PruneTerminalAttempts :: "instant \<Rightarrow> nat \<Rightarrow> ('b, int) op" where
  "sqlite_PruneTerminalAttempts = sql_PruneTerminalAttempts sqlite_pkg"

lemmas sqlite_defs = sqlite_ProcessAttempt_def sqlite_Process_def sqlite_ForgetAttempt_def sqlite_Prune_def
  sqlite_ConfirmTerminalHandoff_def sqlite_PruneTerminalAttempts_def

definition sqlite_attempts :: "(string \<Rightarrow> fingerprint) \<Rightarrow> 'b attemptBackend" where
  "sqlite_attempts H = \<lparr>ab_ProcessAttempt = sqlite_ProcessAttempt H, ab_ForgetAttempt = sqlite_ForgetAttempt H\<rparr>"

definition sqlite_terminals :: "(string \<Rightarrow> fingerprint) \<Rightarrow> 'b terminalBackend" where
  "sqlite_terminals H =
    \<lparr>tb_ConfirmTerminalHandoff = sqlite_ConfirmTerminalHandoff H,
     tb_PruneTerminalAttempts = sqlite_PruneTerminalAttempts\<rparr>"

definition sqlite_backend :: "(string \<Rightarrow> fingerprint) \<Rightarrow>
    (batchItem list \<Rightarrow> nat \<Rightarrow> 'b batchHandler \<Rightarrow> ('b, batchProcessResult) op) \<Rightarrow> 'b backend" where
  "sqlite_backend H batch =
    \<lparr>be_Process = sqlite_Process, be_Prune = sqlite_Prune, be_attempts = Some (sqlite_attempts H),
     be_batch = Some batch, be_terminal = Some (sqlite_terminals H)\<rparr>"

interpretation sqlite: ledger_backend "sqlite_backend H batch" H "sqlite_attempts H" "sqlite_terminals H"
  by unfold_locales
    (simp_all add: sqlite_backend_def sqlite_attempts_def sqlite_terminals_def sqlite_defs
      sql_ProcessAttempt_refines sql_Process_refines sql_ForgetAttempt_refines sql_Prune_refines
      sql_Confirm_run sql_PruneTerminal_refines sql_op_atomic)

end
