(* ===== verification/SqliteBatch.thy ===== *)
theory SqliteBatch
  imports InboxBatch InboxSqlite
begin

text \<open>
  The batch operation of the SQLite backend: \<open>adapters/inbox/sqlite/batch.go\<close>. One transaction inserts
  the identities in chunks, reads every group in lock order, runs the handler on the active groups and
  stores the counters, completions and terminal marks of the outcome.
\<close>

section \<open>Statements\<close>

definition sqliteBatchStatementItems :: nat where
  "sqliteBatchStatementItems = 100"

definition insert_identity_row :: "batchGroup \<times> instant \<Rightarrow> 'b db \<Rightarrow> 'b db" where
  "insert_identity_row gt d =
    (case gt of (g, now) \<Rightarrow>
      d\<lparr>db_inbox := insert_ignore (group_ident g)
         \<lparr>id_fingerprint = bi_Fingerprint (pi_item (hd (bg_entries g))), id_created_at = now, id_completed_at = None\<rparr>
         (db_inbox d)\<rparr>)"

definition increment_row :: "(string \<Rightarrow> fingerprint) \<Rightarrow> bool \<Rightarrow> batchGroup \<times> instant \<Rightarrow> 'b db \<Rightarrow> 'b db" where
  "increment_row H generated gt d =
    (case gt of (g, now) \<Rightarrow>
      if generated
      then d\<lparr>db_generations := upsert_row (join4 (matching_ident g) (group_fp H g)) (bump now)
               (fresh_attempt (group_fp H g) 1 now) (db_generations d)\<rparr>
      else d\<lparr>db_attempts := upsert_row (matching_ident g) (bump now)
               (fresh_attempt (group_fp H g) 1 now) (db_attempts d)\<rparr>)"

section \<open>Steps of the operation\<close>

text \<open>Every row of a statement reads the clock before the statement runs.\<close>

definition with_times :: "batchGroup list \<Rightarrow> ((batchGroup \<times> instant) list \<Rightarrow> ('b db, 'a) sql) \<Rightarrow> ('b db, 'a) sql" where
  "with_times groups f = m_bind (m_map (\<lambda>_. m_now) groups) (\<lambda>times. f (zip groups times))"

definition insertSQLiteBatchIdentities :: "batchGroup list \<Rightarrow> ('b db, unit) sql" where
  "insertSQLiteBatchIdentities groups =
    m_iter (\<lambda>chunk. with_times chunk (\<lambda>rows.
        m_exec (sql_err sqlite_pkg ''insert batch identities'') (fold insert_identity_row rows)))
      (chunks sqliteBatchStatementItems groups)"

definition readSQLiteBatchAttempt :: "(string \<Rightarrow> fingerprint) \<Rightarrow> batchItem \<Rightarrow> ('b db, attemptState) sql" where
  "readSQLiteBatchAttempt H item =
    m_bind (sql_readAttempt sqlite_pkg (bi_Key item) (AttemptFingerprint H (bi_Key item) (bi_Fingerprint item)))
    (\<lambda>state. m_return (case state of None \<Rightarrow> zero_state | Some st \<Rightarrow> st))"

fun read_sqlite_groups ::
  "(string \<Rightarrow> fingerprint) \<Rightarrow> nat \<Rightarrow> batchGroup list \<Rightarrow> batchItemOutcome list \<Rightarrow>
   ('b db, batchGroup list \<times> batchItemOutcome list) sql" where
  "read_sqlite_groups H maxAttempts [] outcomes = m_return ([], outcomes)"
| "read_sqlite_groups H maxAttempts (g # groups) outcomes =
    m_bind (m_query (sql_err sqlite_pkg ''read batch identity'') (readIdentity_sql (group_ident g)))
    (\<lambda>row. case row of
       None \<Rightarrow> m_fail (sql_err sqlite_pkg ''read batch identity'' (Sentinel SqlErrNoRows))
     | Some (stored, completedAt) \<Rightarrow>
        if length stored \<noteq> 32 then m_fail (Plain ''inbox/sqlite: invalid stored batch identity'')
        else
          let g1 = match_group stored g; outs1 = assign_conflicts stored g outcomes in
          if bg_matching g1 = [] then read_sqlite_groups H maxAttempts groups outs1
          else
            m_bind (readSQLiteBatchAttempt H (group_item g1))
            (\<lambda>state. let g2 = g1\<lparr>bg_state := state\<rparr> in
              case settled_outcome maxAttempts completedAt g2 of
                Some o1 \<Rightarrow> read_sqlite_groups H maxAttempts groups (assignBatchOutcome g2 o1 outs1)
              | None \<Rightarrow>
                  m_bind (read_sqlite_groups H maxAttempts groups outs1)
                  (\<lambda>(active, outs). m_return (g2 # active, outs))))"

definition prepareSQLiteBatchIdentities ::
  "(string \<Rightarrow> fingerprint) \<Rightarrow> batchGroup list \<Rightarrow> batchItemOutcome list \<Rightarrow> nat \<Rightarrow>
   ('b db, batchGroup list \<times> batchItemOutcome list) sql" where
  "prepareSQLiteBatchIdentities H groups outcomes maxAttempts =
    m_bind (insertSQLiteBatchIdentities groups) (\<lambda>_. read_sqlite_groups H maxAttempts groups outcomes)"

definition incrementSQLiteBatchAttempts ::
  "(string \<Rightarrow> fingerprint) \<Rightarrow> batchGroup list \<Rightarrow> ('b db, (batchItemKey, nat) table) sql" where
  "incrementSQLiteBatchAttempts H groups =
    m_bind (m_iter (\<lambda>generated.
        m_iter (\<lambda>chunk. with_times chunk (\<lambda>rows.
            m_exec (sql_err sqlite_pkg ''increment batch attempts'') (fold (increment_row H generated) rows)))
          (chunks sqliteBatchStatementItems (selectBatchGroups groups generated))) [False, True])
    (\<lambda>_. m_map (\<lambda>g. m_bind (readSQLiteBatchAttempt H (group_item g))
        (\<lambda>state. if as_attempt state < 1 then m_fail (Plain ''inbox/sqlite: invalid incremented batch attempt'')
                 else m_return (bg_key g, as_attempt state))) groups)"

definition markSQLiteBatchCompleted :: "batchGroup list \<Rightarrow> ('b db, unit) sql" where
  "markSQLiteBatchCompleted groups =
    m_iter (\<lambda>chunk. m_bind m_now (\<lambda>now.
        m_exec (sql_err sqlite_pkg ''mark batch items complete'')
          (complete_rows (k_ConsumerID (bi_Key (group_item (hd chunk)))) (map group_row chunk) now)))
      (chunks sqliteBatchStatementItems groups)"

definition markSQLiteBatchTerminal :: "(string \<Rightarrow> fingerprint) \<Rightarrow> batchGroup list \<Rightarrow> ('b db, unit) sql" where
  "markSQLiteBatchTerminal H groups =
    m_iter (\<lambda>g. sql_markAttemptTerminal sqlite_pkg H (bi_Key (group_item g)) (bi_Fingerprint (group_item g))
        (PermanentError (Plain ''batch terminal''))) groups"

definition finish_sqlite_batch ::
  "(string \<Rightarrow> fingerprint) \<Rightarrow> nat \<Rightarrow> (batchGroup \<times> err option) list \<Rightarrow> batchItemOutcome list \<Rightarrow>
   ('b db, batchProcessResult \<times> err option) sql" where
  "finish_sqlite_batch H maxAttempts judged outcomes =
    m_bind (incrementSQLiteBatchAttempts H (groups_where (\<lambda>k. k \<noteq> FailureDefer) judged))
    (\<lambda>attempts. m_bind (markSQLiteBatchCompleted (groups_where (\<lambda>k. k = FailureSuccess) judged))
    (\<lambda>_. m_bind (markSQLiteBatchTerminal H (groups_where (\<lambda>k. k = FailurePermanent) judged))
    (\<lambda>_. commitTerminalBatch sqlite_pkg H
      \<lparr>bp_Items = assign_handled maxAttempts attempts judged outcomes, bp_HandlerMessages = length judged\<rparr>)))"

definition sqlite_batch_body ::
  "(string \<Rightarrow> fingerprint) \<Rightarrow> batchItem list \<Rightarrow> nat \<Rightarrow> 'b batchHandler \<Rightarrow> batchGroup list \<Rightarrow>
   ('b db, batchProcessResult \<times> err option) sql" where
  "sqlite_batch_body H items maxAttempts handler groups =
    m_bind (prepareSQLiteBatchIdentities H (lock_order groups) (replicate (length items) zero_outcome) maxAttempts)
    (\<lambda>(found, outcomes).
      if found = [] then commitTerminalBatch sqlite_pkg H \<lparr>bp_Items = outcomes, bp_HandlerMessages = 0\<rparr>
      else
        let active = sort_key bg_first found in
        m_bind (run_batch_handler handler (map group_item active))
        (\<lambda>r. case judge_batch active r of
           Inl e \<Rightarrow> m_fail e
         | Inr itemErrors \<Rightarrow> finish_sqlite_batch H maxAttempts (zip active itemErrors) outcomes))"

definition sqlite_ProcessBatchAttempt ::
  "(string \<Rightarrow> fingerprint) \<Rightarrow> batchItem list \<Rightarrow> nat \<Rightarrow> 'b batchHandler \<Rightarrow> ('b, batchProcessResult) op" where
  "sqlite_ProcessBatchAttempt H items maxAttempts handler =
    (if items = [] then finish zero_batch (m_return (zero_batch, None))
     else case prepareBatchGroups items of
       Inl e \<Rightarrow> refuse zero_batch e
     | Inr groups \<Rightarrow>
        finish zero_batch (in_tx (sql_err sqlite_pkg ''begin batch transaction'')
          (sqlite_batch_body H items maxAttempts handler groups)))"

section \<open>All or nothing\<close>

lemma reversible_with_times [atomic_intros]: "(\<And>rows. reversible (f rows)) \<Longrightarrow> reversible (with_times groups f)"
  unfolding with_times_def by (intro atomic_intros)

lemma reversible_readSQLiteBatchAttempt [atomic_intros]: "reversible (readSQLiteBatchAttempt H item)"
  unfolding readSQLiteBatchAttempt_def by (intro atomic_intros)

lemma reversible_read_sqlite_groups [atomic_intros]: "reversible (read_sqlite_groups H n groups outs)"
proof (induction groups arbitrary: outs)
  case (Cons g groups)
  show ?case unfolding read_sqlite_groups.simps Let_def by (intro atomic_intros Cons.IH)
qed (simp add: reversible_return)

lemma reversible_sqlite_batch [atomic_intros]:
  "reversible (prepareSQLiteBatchIdentities H groups outs n)"
  "reversible (incrementSQLiteBatchAttempts H groups)"
  "reversible (markSQLiteBatchCompleted groups)" "reversible (markSQLiteBatchTerminal H groups)"
  unfolding prepareSQLiteBatchIdentities_def insertSQLiteBatchIdentities_def incrementSQLiteBatchAttempts_def
    markSQLiteBatchCompleted_def markSQLiteBatchTerminal_def
  by (intro atomic_intros)+

lemma atomic_sqlite_batch_body: "atomic (sqlite_batch_body H items n handler groups)"
  unfolding sqlite_batch_body_def finish_sqlite_batch_def Let_def
  by (intro atomic_intros reversible_atomic [OF reversible_fail])

lemma sqlite_batch_atomic: "op_atomic zero_batch (sqlite_ProcessBatchAttempt H items n handler)"
proof (cases "prepareBatchGroups items")
  case (Inr groups)
  then show ?thesis
    unfolding sqlite_ProcessBatchAttempt_def
    by (simp add: op_atomic_finish atomic_in_tx atomic_sqlite_batch_body reversible_atomic reversible_return)
qed (simp add: sqlite_ProcessBatchAttempt_def op_atomic_refuse op_atomic_finish reversible_atomic reversible_return)

end
