(* ===== verification/InboxPgsql.thy ===== *)
theory InboxPgsql
  imports InboxProgress
begin

text \<open>
  The PostgreSQL backend: \<open>adapters/inbox/pgsql/pgsql.go\<close> and \<open>terminal.go\<close>. Most methods repeat the SQLite
  code with their own error prefix. Its own are the attempt operation, which skips the counter read for
  an identity it has just inserted, the reads that lock the identity row, and the lock of a prune
  batch. A row lock is a query that returns the row: operations run one after another here, so what
  locks and isolation levels exclude does not arise.
\<close>

section \<open>Operations shared with SQLite\<close>

definition pg_pkg :: string where
  "pg_pkg = ''inbox/pgsql''"

definition pg_finishFailedAttempt ::
  "(string \<Rightarrow> fingerprint) \<Rightarrow> key \<Rightarrow> fingerprint \<Rightarrow> attemptDecision \<Rightarrow> nat \<Rightarrow> err \<Rightarrow>
   ('b db, result \<times> err option) sql" where
  "pg_finishFailedAttempt = sql_finishFailedAttempt pg_pkg"

definition pg_markAttemptTerminal :: "(string \<Rightarrow> fingerprint) \<Rightarrow> key \<Rightarrow> fingerprint \<Rightarrow> err \<Rightarrow> ('b db, unit) sql" where
  "pg_markAttemptTerminal = sql_markAttemptTerminal pg_pkg"

definition pg_nextAttempt :: "(string \<Rightarrow> fingerprint) \<Rightarrow> key \<Rightarrow> fingerprint \<Rightarrow> nat \<Rightarrow> ('b db, attemptDecision) sql" where
  "pg_nextAttempt = sql_nextAttempt pg_pkg"

definition pg_consumeAttempt ::
  "(string \<Rightarrow> fingerprint) \<Rightarrow> key \<Rightarrow> fingerprint \<Rightarrow> attemptDecision \<Rightarrow> ('b db, unit) sql" where
  "pg_consumeAttempt = sql_consumeAttempt pg_pkg"

definition pg_readAttempt :: "key \<Rightarrow> fingerprint \<Rightarrow> ('b db, attemptState option) sql" where
  "pg_readAttempt = sql_readAttempt pg_pkg"

definition pg_ForgetAttempt :: "(string \<Rightarrow> fingerprint) \<Rightarrow> key \<Rightarrow> fingerprint \<Rightarrow> ('b, unit) op" where
  "pg_ForgetAttempt = sql_ForgetAttempt pg_pkg"

definition pg_ConfirmTerminalHandoff :: "(string \<Rightarrow> fingerprint) \<Rightarrow> key \<Rightarrow> fingerprint \<Rightarrow> ('b, unit) op" where
  "pg_ConfirmTerminalHandoff = sql_ConfirmTerminalHandoff pg_pkg"

definition pg_PruneTerminalAttempts :: "instant \<Rightarrow> nat \<Rightarrow> ('b, int) op" where
  "pg_PruneTerminalAttempts = sql_PruneTerminalAttempts pg_pkg"

section \<open>Single processing\<close>

definition pg_handleExisting :: "key \<Rightarrow> fingerprint \<Rightarrow> ('b db, result option) sql" where
  "pg_handleExisting key fp =
    m_bind (m_query (sql_err pg_pkg ''lock identity'') (readIdentity_sql (ident key)))
    (\<lambda>row. case row of
       None \<Rightarrow> m_fail (sql_err pg_pkg ''lock identity'' (Sentinel SqlErrNoRows))
     | Some (stored, completedAt) \<Rightarrow>
        if \<not> fingerprintsEqual stored fp then m_fail (Sentinel ErrFingerprintConflict)
        else if completedAt \<noteq> None then
          m_bind (m_commit (sql_err pg_pkg ''commit duplicate''))
          (\<lambda>_. m_return (Some \<lparr>res_Duplicate = True, res_Attempt = 0\<rparr>))
        else
          m_bind (m_query (sql_err pg_pkg ''inspect attempts'') (inspectAttempts_sql (ident key)))
          (\<lambda>(maxTerminal, count).
            if count > 0 then
              (if maxTerminal > 0 then m_fail (PermanentError (Sentinel ErrAttemptTerminal))
               else m_fail (Sentinel ErrAttemptConflict))
            else m_return None))"

definition pg_Process :: "key \<Rightarrow> fingerprint \<Rightarrow> 'b handler \<Rightarrow> ('b, result) op" where
  "pg_Process key fp handler =
    finish zero_result (in_tx (sql_err pg_pkg ''begin transaction'')
      (m_bind m_now
       (\<lambda>now. m_bind (m_stmt (sql_err pg_pkg ''insert identity'') (insertIdentity_sql (ident key) fp now))
       (\<lambda>n. m_bind (m_query (sql_err pg_pkg ''inserted rows'') (\<lambda>_. n))
       (\<lambda>rows.
         if rows = 0 then
           m_bind (pg_handleExisting key fp)
           (\<lambda>handled. case handled of
              Some duplicate \<Rightarrow> m_return (duplicate, None)
            | None \<Rightarrow> sql_process_body pg_pkg key handler)
         else sql_process_body pg_pkg key handler)))))"

section \<open>Attempts\<close>

text \<open>The result is \<open>(fresh, handled)\<close>; \<open>Some\<close> is a delivery that needs no handler.\<close>

definition pg_prepareAttemptIdentity ::
  "(string \<Rightarrow> fingerprint) \<Rightarrow> key \<Rightarrow> fingerprint \<Rightarrow> ('b db, bool \<times> result option) sql" where
  "pg_prepareAttemptIdentity H key fp =
    m_bind m_now
    (\<lambda>now. m_bind (m_stmt (sql_err pg_pkg ''prepare attempt identity'') (insertIdentity_sql (ident key) fp now))
    (\<lambda>n. m_bind (m_query (sql_err pg_pkg ''prepared attempt rows'') (\<lambda>_. n))
    (\<lambda>rows.
      if rows = 1 then m_return (True, None)
      else if rows \<noteq> 0 then m_fail (Plain ''inbox/pgsql: prepared attempt rows: want 0 or 1'')
      else
        m_bind (m_query (sql_err pg_pkg ''lock attempt identity'') (readIdentity_sql (ident key)))
        (\<lambda>row. case row of
           None \<Rightarrow> m_fail (sql_err pg_pkg ''lock attempt identity'' (Sentinel SqlErrNoRows))
         | Some (stored, completedAt) \<Rightarrow>
            if \<not> fingerprintsEqual stored fp then m_fail (Sentinel ErrFingerprintConflict)
            else if completedAt = None then m_return (False, None)
            else
              m_bind (pg_readAttempt key (AttemptFingerprint H key fp))
              (\<lambda>state. m_bind (m_commit (sql_err pg_pkg ''commit attempt duplicate''))
              (\<lambda>_. m_return (False, Some \<lparr>res_Duplicate = True,
                 res_Attempt = (case state of None \<Rightarrow> 0 | Some st \<Rightarrow> as_attempt st)\<rparr>)))))))"

definition pg_first_decision :: attemptDecision where
  "pg_first_decision = \<lparr>ad_attempt = 1, ad_terminal = False, ad_exhausted = False, ad_exists = False\<rparr>"

definition pg_ProcessAttempt ::
  "(string \<Rightarrow> fingerprint) \<Rightarrow> key \<Rightarrow> fingerprint \<Rightarrow> nat \<Rightarrow> 'b handler \<Rightarrow> ('b, result) op" where
  "pg_ProcessAttempt H key fp maxAttempts handler =
    finish zero_result (in_tx (sql_err pg_pkg ''begin attempt transaction'')
      (m_bind (pg_prepareAttemptIdentity H key fp)
       (\<lambda>(fresh, handled). case handled of
          Some duplicate \<Rightarrow> m_return (duplicate, None)
        | None \<Rightarrow>
           m_bind (if fresh then m_return pg_first_decision else pg_nextAttempt H key fp maxAttempts)
           (sql_run_attempt pg_pkg H key fp maxAttempts handler))))"

section \<open>Pruning\<close>

definition pg_lockPruneBatch :: "instant \<Rightarrow> nat \<Rightarrow> ('b db, unit) sql" where
  "pg_lockPruneBatch before limit =
    m_bind (m_query (sql_err pg_pkg ''lock prune batch'') (completed_before before limit))
    (\<lambda>locked. m_bind (m_iter (\<lambda>_. m_query (sql_err pg_pkg ''scan prune batch'') (\<lambda>_. ())) locked)
    (\<lambda>_. m_query (sql_err pg_pkg ''iterate prune batch'') (\<lambda>_. ())))"

definition pg_Prune :: "instant \<Rightarrow> nat \<Rightarrow> ('b, int) op" where
  "pg_Prune before limit =
    finish 0 (in_tx (sql_err pg_pkg ''begin prune'')
      (m_bind (pg_lockPruneBatch before limit)
      (\<lambda>_. m_bind (PruneCompleted before limit)
      (\<lambda>_. m_bind (m_exec (sql_err pg_pkg ''prune attempt generations'') (pruneAttemptGenerations_sql before limit))
      (\<lambda>_. m_bind (m_exec (sql_err pg_pkg ''prune attempts'') (pruneAttempts_sql before limit))
      (\<lambda>_. m_bind (m_stmt (sql_err pg_pkg ''prune'') (pruneInbox_sql before limit))
      (\<lambda>n. m_bind (m_query (sql_err pg_pkg ''pruned rows'') (\<lambda>_. n))
      (\<lambda>rows. m_bind (m_commit (sql_err pg_pkg ''commit prune'')) (\<lambda>_. m_return (int rows, None))))))))))"

section \<open>Every operation is all or nothing\<close>

lemma reversible_pg [atomic_intros]:
  "reversible (pg_readAttempt key fp)" "reversible (pg_nextAttempt H key fp n)" "reversible (pg_lockPruneBatch before limit)"
  unfolding pg_readAttempt_def pg_nextAttempt_def pg_lockPruneBatch_def by (intro atomic_intros)+

lemma semi_pg_handleExisting [atomic_intros]: "semi (pg_handleExisting key fp)"
  unfolding pg_handleExisting_def by (intro atomic_intros)

lemma semi_pg_prepare: "semi_at (\<lambda>x. snd x = None) (pg_prepareAttemptIdentity H key fp)"
  unfolding pg_prepareAttemptIdentity_def by (intro atomic_intros semi_at_commit) simp

lemma atomic_pg_attempt:
  "atomic (m_bind (pg_prepareAttemptIdentity H key fp)
     (\<lambda>(fresh, handled). case handled of
        Some duplicate \<Rightarrow> m_return (duplicate, None)
      | None \<Rightarrow>
         m_bind (if fresh then m_return pg_first_decision else pg_nextAttempt H key fp n)
         (sql_run_attempt pg_pkg H key fp n h)))"
  by (rule atomic_bind_semi_at [OF semi_pg_prepare])
    (auto intro!: atomic_bind reversible_if reversible_return reversible_pg atomic_run_attempt split: option.splits)

lemma pg_op_atomic:
  "op_atomic zero_result (pg_ProcessAttempt H key fp n h)"
  "op_atomic zero_result (pg_Process key fp h)"
  "op_atomic () (pg_ForgetAttempt H key fp)"
  "op_atomic 0 (pg_Prune before limit)"
  "op_atomic () (pg_ConfirmTerminalHandoff H key fp)"
  "op_atomic 0 (pg_PruneTerminalAttempts before limit)"
  unfolding pg_ProcessAttempt_def pg_Process_def pg_ForgetAttempt_def pg_Prune_def
    pg_ConfirmTerminalHandoff_def pg_PruneTerminalAttempts_def
  by (rule op_atomic_finish, intro atomic_intros atomic_pg_attempt reversible_atomic [OF reversible_fail]
      | rule sql_op_atomic)+

section \<open>Fault-free agreement with the shared operations\<close>

lemma m_iter_query [sql_simps]: "cn_faults c = [] \<Longrightarrow> m_iter (\<lambda>_. m_query w (\<lambda>_. ())) xs c = (Inr (), c)"
  by (induction xs) (simp_all add: sql_simps)

lemma pg_Prune_agrees:
  assumes "cn_faults c = []"
  shows "pg_Prune before limit c = sql_Prune pg_pkg before limit c"
  using assms
  by (simp add: pg_Prune_def sql_Prune_def finish_def pg_lockPruneBatch_def sql_simps
      m_bind_ok [where m = "m_iter _ _", OF m_iter_query])

lemma pg_handleExisting_agrees:
  assumes "cn_faults c = []" and "map_of (db_inbox (cn_work c)) (ident key) = Some i"
  shows "m_bind (pg_handleExisting key fp) f c = m_bind (sql_handleExisting pg_pkg key fp) f c"
  using assms
  by (simp add: pg_handleExisting_def sql_handleExisting_def sql_simps readIdentity_sql_def)

lemma pg_Process_agrees:
  assumes "cn_faults c = []"
  shows "pg_Process key fp h c = sql_Process pg_pkg key fp h c"
proof (cases "map_of (db_inbox (cn_durable c)) (ident key)")
  case None
  with assms show ?thesis
    by (simp add: pg_Process_def sql_Process_def finish_def sql_simps insertIdentity_sql_def tb_has_def)
next
  case (Some i)
  with assms show ?thesis
    by (simp add: pg_Process_def sql_Process_def finish_def sql_simps insertIdentity_sql_def tb_has_def
        pg_handleExisting_agrees [where i = i])
qed

lemma counter_row_needs_identity:
  assumes inv: "db_inv d" and "map_of (db_inbox d) (logical g) = None"
  shows "counter_row d g = None"
proof (rule ccontr)
  assume "counter_row d g \<noteq> None"
  then obtain r where "counter_row d g = Some r" by blast
  from counter_row_cases [OF this] show False
    using db_invD(5) [OF inv, of "logical g" r] db_invD(6) [OF inv, of g r] assms(2) by auto
qed

lemma pg_ProcessAttempt_agrees:
  assumes ff: "cn_faults c = []" and inv: "db_inv (cn_durable c)" and sep: "separated H key fp" and n: "0 < n"
  shows "pg_ProcessAttempt H key fp n h c = sql_ProcessAttempt pg_pkg H key fp n h c"
proof (cases "map_of (db_inbox (cn_durable c)) (ident key)")
  case None
  let ?g = "generation H key fp" and ?now = "cn_clock c (cn_tick c)"
  let ?i = "\<lparr>id_fingerprint = fp, id_created_at = ?now, id_completed_at = None\<rparr>"
  let ?w = "put_inbox (ident key) ?i (cn_durable c)"
  let ?c1 = "(rollback c)\<lparr>cn_tick := Suc (cn_tick c), cn_work := ?w\<rparr>"
  have ins: "insertIdentity_sql (ident key) fp ?now (cn_durable c) = Some (1, ?w)"
    using None by (simp add: insertIdentity_sql_def tb_has_def put_inbox_def tb_put_def)
  have inv1: "db_inv ?w" using put_inbox_inv [OF inv, of "ident key" ?i] None by simp
  have i1: "map_of (db_inbox ?w) (ident key) = Some ?i" by (simp add: put_inbox_def table_simps)
  have "counter_row (cn_durable c) ?g = None"
    using counter_row_needs_identity [OF inv] None by (simp add: logical_gen_key)
  then have "abs_gen ?w ?g = Fresh" by (simp add: abs_gen_def)
  then have "sql_nextAttempt pg_pkg H key fp n ?c1 = (Inr pg_first_decision, ?c1)"
    using nextAttempt_run [where pkg = pg_pkg, of ?c1 key ?i fp H n] ff inv1 i1 sep
    by (simp add: sql_simps gdecide_def pg_first_decision_def)
  note step = m_bind_ok [where m = "sql_nextAttempt pg_pkg H key fp n", OF this]
  show ?thesis
    using ff ins
    by (simp add: pg_ProcessAttempt_def sql_ProcessAttempt_def finish_def pg_prepareAttemptIdentity_def
        sql_prepareAttemptIdentity_def sql_attempt_body_def sql_simps step)
next
  case (Some i)
  then show ?thesis
    using ff
    by (simp add: pg_ProcessAttempt_def sql_ProcessAttempt_def finish_def pg_prepareAttemptIdentity_def
        sql_prepareAttemptIdentity_def sql_attempt_body_def sql_simps insertIdentity_sql_def tb_has_def
        readIdentity_sql_def pg_readAttempt_def pg_nextAttempt_def m_bind_return_fun)
qed

section \<open>The PostgreSQL backend provides the ledger contract\<close>

definition pg_attempts :: "(string \<Rightarrow> fingerprint) \<Rightarrow> 'b attemptBackend" where
  "pg_attempts H = \<lparr>ab_ProcessAttempt = pg_ProcessAttempt H, ab_ForgetAttempt = pg_ForgetAttempt H\<rparr>"

definition pg_terminals :: "(string \<Rightarrow> fingerprint) \<Rightarrow> 'b terminalBackend" where
  "pg_terminals H =
    \<lparr>tb_ConfirmTerminalHandoff = pg_ConfirmTerminalHandoff H, tb_PruneTerminalAttempts = pg_PruneTerminalAttempts\<rparr>"

definition pg_backend :: "(string \<Rightarrow> fingerprint) \<Rightarrow>
    (batchItem list \<Rightarrow> nat \<Rightarrow> 'b batchHandler \<Rightarrow> ('b, batchProcessResult) op) \<Rightarrow> 'b backend" where
  "pg_backend H batch =
    \<lparr>be_Process = pg_Process, be_Prune = pg_Prune, be_attempts = Some (pg_attempts H),
     be_batch = Some batch, be_terminal = Some (pg_terminals H)\<rparr>"

interpretation pgsql: ledger_backend "pg_backend H batch" H "pg_attempts H" "pg_terminals H"
  by unfold_locales
    (simp_all add: pg_backend_def pg_attempts_def pg_terminals_def pg_ForgetAttempt_def
      pg_ConfirmTerminalHandoff_def pg_PruneTerminalAttempts_def pg_ProcessAttempt_agrees pg_Process_agrees
      pg_Prune_agrees sql_ProcessAttempt_refines sql_Process_refines sql_ForgetAttempt_refines
      sql_Prune_refines sql_Confirm_run sql_PruneTerminal_refines sql_op_atomic
      pg_op_atomic [unfolded pg_ForgetAttempt_def pg_ConfirmTerminalHandoff_def pg_PruneTerminalAttempts_def])

end
