(* ===== verification/PgBatch.thy ===== *)
theory PgBatch
  imports InboxBatch InboxPgsql
begin

text \<open>
  The batch operation of the PostgreSQL backend: \<open>adapters/inbox/pgsql/batch.go\<close>. Unlike SQLite it works
  on sets: one statement inserts the identities, one query locks them, the counters are read and
  incremented with one statement per counter table, and every returned row is scanned and its message
  identifier parsed. The rows of a query over a list of requested identities are the table's rows that
  are requested; the groups have distinct identities, so no row is returned twice.
\<close>

section \<open>Rows\<close>

type_synonym batchStoredIdentity = "fingerprint \<times> instant option"

definition consumer_of :: "batchGroup list \<Rightarrow> string" where
  "consumer_of groups = k_ConsumerID (bi_Key (pi_item (hd (bg_entries (hd groups)))))"

definition scannedBatchKey :: "string \<Rightarrow> string \<Rightarrow> err + batchItemKey" where
  "scannedBatchKey source messageID =
    (case ParseMessageID messageID of
       Inl e \<Rightarrow> Inl (sql_err pg_pkg ''parse stored batch message ID'' e)
     | Inr i \<Rightarrow> Inr \<lparr>bik_Source = source, bik_MessageID = i\<rparr>)"

definition batchGroupRepresentative :: "batchGroup \<Rightarrow> batchItem" where
  "batchGroupRepresentative g =
    (if bg_matching g \<noteq> [] then pi_item (hd (bg_matching g)) else pi_item (hd (bg_entries g)))"

definition pg_selectBatchGroups :: "batchGroup list \<Rightarrow> bool \<Rightarrow> batchGroup list" where
  "pg_selectBatchGroups groups generated =
    filter (\<lambda>g. (k_AttemptGeneration (bi_Key (batchGroupRepresentative g)) \<noteq> []) = generated) groups"

text \<open>Source, message and fingerprint columns of the identities and of the counters.\<close>

definition batchGroupColumns :: "batchGroup list \<Rightarrow> (string \<times> string \<times> fingerprint) list" where
  "batchGroupColumns groups =
    map (\<lambda>g. (bik_Source (bg_key g), mid_String (bik_MessageID (bg_key g)),
      bi_Fingerprint (batchGroupRepresentative g))) groups"

definition batchAttemptColumns :: "(string \<Rightarrow> fingerprint) \<Rightarrow> batchGroup list \<Rightarrow> (string \<times> string \<times> fingerprint) list" where
  "batchAttemptColumns H groups =
    map (\<lambda>g. (bik_Source (bg_key g), mid_String (bik_MessageID (bg_key g)),
      AttemptFingerprint H (bi_Key (batchGroupRepresentative g)) (bi_Fingerprint (batchGroupRepresentative g)))) groups"

definition column_rows :: "(string \<times> string \<times> fingerprint) list \<Rightarrow> (string \<times> string) list" where
  "column_rows = map (\<lambda>(s, m, _). (s, m))"

definition pg_insert_identities ::
  "string \<Rightarrow> (string \<times> string \<times> fingerprint) list \<Rightarrow> instant \<Rightarrow> 'b db \<Rightarrow> 'b db" where
  "pg_insert_identities consumer columns now d =
    d\<lparr>db_inbox := fold (\<lambda>(s, m, fp). insert_ignore (consumer, s, m)
        \<lparr>id_fingerprint = fp, id_created_at = now, id_completed_at = None\<rparr>) columns (db_inbox d)\<rparr>"

definition pg_locked_identities ::
  "string \<Rightarrow> (string \<times> string) list \<Rightarrow> 'b db \<Rightarrow> (string \<times> string \<times> batchStoredIdentity) list" where
  "pg_locked_identities consumer requested d =
    sort_key (\<lambda>(s, m, _). (s, m))
      (List.map_filter (\<lambda>((c, s, m), r). if c = consumer \<and> (s, m) \<in> set requested
          then Some (s, m, id_fingerprint r, id_completed_at r) else None) (db_inbox d))"

definition pg_locked_attempts ::
  "string \<Rightarrow> (string \<times> string \<times> fingerprint) list \<Rightarrow> bool \<Rightarrow> 'b db \<Rightarrow> (string \<times> string \<times> int \<times> bool \<times> string) list" where
  "pg_locked_attempts consumer columns generated d =
    (if generated
     then map (\<lambda>((_, s, m, _), x). (s, m, x)) (sort_key (\<lambda>((_, s, m, fp), _). (s, m, fp))
       (List.map_filter (\<lambda>((c, s, m, fp), r). if c = consumer \<and> (s, m, fp) \<in> set columns
          then Some ((c, s, m, fp), at_attempts r, at_terminal r, closed_kind d (c, s, m, fp)) else None) (db_generations d)))
     else map (\<lambda>((_, s, m), x). (s, m, x)) (sort_key (\<lambda>((_, s, m), _). (s, m))
       (List.map_filter (\<lambda>((c, s, m), r). if c = consumer \<and> (s, m) \<in> set (column_rows columns)
          then Some ((c, s, m), at_attempts r, at_terminal r, closed_kind d (c, s, m, at_fingerprint r)) else None)
         (db_attempts d))))"

text \<open>
  An upsert may not touch a row twice; it returns the counter of every row in order.
\<close>

definition pg_increment_sql ::
  "string \<Rightarrow> (string \<times> string \<times> fingerprint) list \<Rightarrow> bool \<Rightarrow> instant \<Rightarrow> 'b db \<Rightarrow>
   ((string \<times> string \<times> int) list \<times> 'b db) option" where
  "pg_increment_sql consumer columns generated now d =
    (if generated then
       (if distinct columns then
          let t = fold (\<lambda>(s, m, fp). upsert_row (consumer, s, m, fp) (bump now) (fresh_attempt fp 1 now))
                columns (db_generations d)
          in Some (map (\<lambda>(s, m, fp). (s, m, at_attempts (the (map_of t (consumer, s, m, fp))))) columns,
                   d\<lparr>db_generations := t\<rparr>)
        else None)
     else
       (if distinct (column_rows columns) then
          let t = fold (\<lambda>(s, m, fp). upsert_row (consumer, s, m) (bump now) (fresh_attempt fp 1 now))
                columns (db_attempts d)
          in Some (map (\<lambda>(s, m, fp). (s, m, at_attempts (the (map_of t (consumer, s, m))))) columns,
                   d\<lparr>db_attempts := t\<rparr>)
        else None))"

definition pg_terminal_sql ::
  "string \<Rightarrow> (string \<times> string \<times> fingerprint) list \<Rightarrow> bool \<Rightarrow> instant \<Rightarrow> 'b db \<Rightarrow> 'b db" where
  "pg_terminal_sql consumer columns generated now d =
    (if generated
     then d\<lparr>db_generations := tb_update (\<lambda>(c, s, m, fp). c = consumer \<and> (s, m, fp) \<in> set columns)
              (close_row now) (db_generations d)\<rparr>
     else d\<lparr>db_attempts := tb_update (\<lambda>(c, s, m). c = consumer \<and> (s, m) \<in> set (column_rows columns))
              (close_row now) (db_attempts d)\<rparr>)"

section \<open>Steps of the operation\<close>

text \<open>Scanning the rows of a query: each row is read and converted, then the cursor is closed.\<close>

definition scan_rows :: "string \<Rightarrow> string \<Rightarrow> string \<Rightarrow> ('r \<Rightarrow> err + 'x) \<Rightarrow> 'r list \<Rightarrow> ('b db, 'x list) sql" where
  "scan_rows scan close iterate f rows =
    m_bind (m_map (\<lambda>r. m_bind (m_query (sql_err pg_pkg scan) (\<lambda>_. r))
        (\<lambda>r. case f r of Inl e \<Rightarrow> m_fail e | Inr x \<Rightarrow> m_return x)) rows)
    (\<lambda>xs. m_bind (m_query (sql_err pg_pkg close) (\<lambda>_. ()))
    (\<lambda>_. m_bind (m_query (sql_err pg_pkg iterate) (\<lambda>_. ())) (\<lambda>_. m_return xs)))"

definition put_all :: "('k \<times> 'v) list \<Rightarrow> ('k, 'v) table \<Rightarrow> ('k, 'v) table" where
  "put_all kvs t = fold (\<lambda>(k, v). tb_put k v) kvs t"

definition scan_identity :: "string \<times> string \<times> batchStoredIdentity \<Rightarrow> err + (batchItemKey \<times> batchStoredIdentity)" where
  "scan_identity row =
    (case row of (s, m, identity) \<Rightarrow>
      (case scannedBatchKey s m of Inl e \<Rightarrow> Inl e | Inr k \<Rightarrow> Inr (k, identity)))"

definition scan_attempt :: "string \<times> string \<times> int \<times> bool \<times> string \<Rightarrow> err + (batchItemKey \<times> attemptState)" where
  "scan_attempt row =
    (case row of (s, m, attempts, terminal, kind) \<Rightarrow>
      if attempts < 0 then Inl (Plain ''inbox/pgsql: invalid stored batch attempt'')
      else (case scannedBatchKey s m of
        Inl e \<Rightarrow> Inl e
      | Inr k \<Rightarrow> Inr (k, \<lparr>as_kind = kind, as_attempt = nat attempts, as_terminal = terminal\<rparr>)))"

definition scan_increment :: "string \<times> string \<times> int \<Rightarrow> err + (batchItemKey \<times> nat)" where
  "scan_increment row =
    (case row of (s, m, attempts) \<Rightarrow>
      if attempts < 1 then Inl (Plain ''inbox/pgsql: invalid incremented batch attempt'')
      else (case scannedBatchKey s m of Inl e \<Rightarrow> Inl e | Inr k \<Rightarrow> Inr (k, nat attempts)))"

definition readBatchAttempts ::
  "(string \<Rightarrow> fingerprint) \<Rightarrow> batchGroup list \<Rightarrow> ('b db, (batchItemKey, attemptState) table) sql" where
  "readBatchAttempts H groups =
    m_bind (m_map (\<lambda>generated.
        let selected = pg_selectBatchGroups groups generated in
        if selected = [] then m_return []
        else
          m_bind (m_query (sql_err pg_pkg ''lock batch attempts'')
            (pg_locked_attempts (consumer_of selected) (batchAttemptColumns H selected) generated))
          (scan_rows ''scan batch attempt'' ''close batch attempt rows'' ''iterate batch attempts'' scan_attempt))
      [False, True])
    (\<lambda>found. m_return (put_all (concat found) []))"

text \<open>The first loop: stored envelopes against deliveries.\<close>

fun pg_match_groups ::
  "(batchItemKey, batchStoredIdentity) table \<Rightarrow> batchGroup list \<Rightarrow> batchItemOutcome list \<Rightarrow>
   err + (batchGroup \<times> instant option) list \<times> batchItemOutcome list" where
  "pg_match_groups identities [] outcomes = Inr ([], outcomes)"
| "pg_match_groups identities (g # groups) outcomes =
    (case map_of identities (bg_key g) of
       None \<Rightarrow> Inl (Plain ''inbox/pgsql: missing or invalid batch identity'')
     | Some (stored, completedAt) \<Rightarrow>
        if length stored \<noteq> 32 then Inl (Plain ''inbox/pgsql: missing or invalid batch identity'')
        else
          (case pg_match_groups identities groups (assign_conflicts stored g outcomes) of
             Inl e \<Rightarrow> Inl e
           | Inr (matched, outs) \<Rightarrow>
              Inr (if bg_matching (match_group stored g) = [] then matched
                   else (match_group stored g, completedAt) # matched, outs)))"

text \<open>The second loop: settled groups get their outcome, the others are active.\<close>

fun pg_settle_groups ::
  "nat \<Rightarrow> (batchItemKey, attemptState) table \<Rightarrow> (batchGroup \<times> instant option) list \<Rightarrow> batchItemOutcome list \<Rightarrow>
   batchGroup list \<times> batchItemOutcome list" where
  "pg_settle_groups maxAttempts attempts [] outcomes = ([], outcomes)"
| "pg_settle_groups maxAttempts attempts ((g, completedAt) # groups) outcomes =
    (let g2 = g\<lparr>bg_state := (case map_of attempts (bg_key g) of None \<Rightarrow> zero_state | Some st \<Rightarrow> st)\<rparr> in
     case settled_outcome maxAttempts completedAt g2 of
       Some o1 \<Rightarrow> pg_settle_groups maxAttempts attempts groups (assignBatchOutcome g2 o1 outcomes)
     | None \<Rightarrow>
        (case pg_settle_groups maxAttempts attempts groups outcomes of (active, outs) \<Rightarrow> (g2 # active, outs)))"

definition prepareBatchIdentities ::
  "(string \<Rightarrow> fingerprint) \<Rightarrow> batchGroup list \<Rightarrow> batchItemOutcome list \<Rightarrow> nat \<Rightarrow>
   ('b db, batchGroup list \<times> batchItemOutcome list) sql" where
  "prepareBatchIdentities H groups outcomes maxAttempts =
    (let consumer = consumer_of groups; columns = batchGroupColumns groups in
     m_bind m_now
     (\<lambda>now. m_bind (m_exec (sql_err pg_pkg ''insert batch identities'') (pg_insert_identities consumer columns now))
     (\<lambda>_. m_bind (m_query (sql_err pg_pkg ''lock batch identities'') (pg_locked_identities consumer (column_rows columns)))
     (\<lambda>rows. m_bind (scan_rows ''scan batch identity'' ''close batch identity rows'' ''iterate batch identities''
         scan_identity rows)
     (\<lambda>found. case pg_match_groups (put_all found []) groups outcomes of
         Inl e \<Rightarrow> m_fail e
       | Inr (matched, outs) \<Rightarrow>
          m_bind (readBatchAttempts H (map fst matched))
          (\<lambda>attempts. m_return (pg_settle_groups maxAttempts attempts matched outs)))))))"

definition incrementBatchAttempts ::
  "(string \<Rightarrow> fingerprint) \<Rightarrow> batchGroup list \<Rightarrow> ('b db, (batchItemKey, nat) table) sql" where
  "incrementBatchAttempts H groups =
    m_bind (m_map (\<lambda>generated.
        let selected = pg_selectBatchGroups groups generated in
        if selected = [] then m_return []
        else
          m_bind m_now
          (\<lambda>now. m_bind (m_stmt (sql_err pg_pkg ''increment batch attempts'')
            (pg_increment_sql (consumer_of selected) (batchAttemptColumns H selected) generated now))
          (scan_rows ''scan incremented batch attempt'' ''close incremented batch attempts''
            ''iterate incremented batch attempts'' scan_increment)))
      [False, True])
    (\<lambda>found. let result = put_all (concat found) [] in
      if length result \<noteq> length groups
      then m_fail (Plain ''inbox/pgsql: incomplete incremented batch attempt result'')
      else m_return result)"

definition markBatchCompleted :: "batchGroup list \<Rightarrow> ('b db, unit) sql" where
  "markBatchCompleted groups =
    (if groups = [] then m_return ()
     else m_bind m_now (\<lambda>now. m_exec (sql_err pg_pkg ''mark batch items complete'')
        (complete_rows (consumer_of groups) (column_rows (batchGroupColumns groups)) now)))"

definition markBatchTerminal :: "(string \<Rightarrow> fingerprint) \<Rightarrow> batchGroup list \<Rightarrow> ('b db, unit) sql" where
  "markBatchTerminal H groups =
    m_iter (\<lambda>generated.
        let selected = pg_selectBatchGroups groups generated in
        if selected = [] then m_return ()
        else m_bind m_now (\<lambda>now. m_exec (sql_err pg_pkg ''mark batch items terminal'')
          (pg_terminal_sql (consumer_of selected) (batchAttemptColumns H selected) generated now)))
      [False, True]"

definition finish_pg_batch ::
  "(string \<Rightarrow> fingerprint) \<Rightarrow> nat \<Rightarrow> (batchGroup \<times> err option) list \<Rightarrow> batchItemOutcome list \<Rightarrow>
   ('b db, batchProcessResult \<times> err option) sql" where
  "finish_pg_batch H maxAttempts judged outcomes =
    m_bind (incrementBatchAttempts H (groups_where (\<lambda>k. k \<noteq> FailureDefer) judged))
    (\<lambda>attempts. m_bind (markBatchCompleted (groups_where (\<lambda>k. k = FailureSuccess) judged))
    (\<lambda>_. m_bind (markBatchTerminal H (groups_where (\<lambda>k. k = FailurePermanent) judged))
    (\<lambda>_. commitTerminalBatch pg_pkg H
      \<lparr>bp_Items = assign_handled maxAttempts attempts judged outcomes, bp_HandlerMessages = length judged\<rparr>)))"

definition pg_batch_body ::
  "(string \<Rightarrow> fingerprint) \<Rightarrow> batchItem list \<Rightarrow> nat \<Rightarrow> 'b batchHandler \<Rightarrow> batchGroup list \<Rightarrow>
   ('b db, batchProcessResult \<times> err option) sql" where
  "pg_batch_body H items maxAttempts handler groups =
    m_bind (prepareBatchIdentities H (lock_order groups) (replicate (length items) zero_outcome) maxAttempts)
    (\<lambda>(found, outcomes).
      if found = [] then commitTerminalBatch pg_pkg H \<lparr>bp_Items = outcomes, bp_HandlerMessages = 0\<rparr>
      else
        let active = sort_key bg_first found in
        m_bind (run_batch_handler handler (map group_item active))
        (\<lambda>r. case judge_batch active r of
           Inl e \<Rightarrow> m_fail e
         | Inr itemErrors \<Rightarrow> finish_pg_batch H maxAttempts (zip active itemErrors) outcomes))"

definition pg_ProcessBatchAttempt ::
  "(string \<Rightarrow> fingerprint) \<Rightarrow> batchItem list \<Rightarrow> nat \<Rightarrow> 'b batchHandler \<Rightarrow> ('b, batchProcessResult) op" where
  "pg_ProcessBatchAttempt H items maxAttempts handler =
    (if items = [] then finish zero_batch (m_return (zero_batch, None))
     else case prepareBatchGroups items of
       Inl e \<Rightarrow> refuse zero_batch e
     | Inr groups \<Rightarrow>
        finish zero_batch (in_tx (sql_err pg_pkg ''begin batch transaction'')
          (pg_batch_body H items maxAttempts handler groups)))"

section \<open>All or nothing\<close>

lemma reversible_scan_rows [atomic_intros]: "reversible (scan_rows a b c f rows)"
  unfolding scan_rows_def by (intro atomic_intros)

lemma reversible_pg_batch [atomic_intros]:
  "reversible (readBatchAttempts H groups)" "reversible (incrementBatchAttempts H groups)"
  "reversible (markBatchCompleted groups)" "reversible (markBatchTerminal H groups)"
  unfolding readBatchAttempts_def incrementBatchAttempts_def markBatchCompleted_def markBatchTerminal_def Let_def
  by (intro atomic_intros)+

lemma reversible_prepareBatchIdentities [atomic_intros]: "reversible (prepareBatchIdentities H groups outs n)"
  unfolding prepareBatchIdentities_def Let_def by (intro atomic_intros)

lemma atomic_pg_batch_body: "atomic (pg_batch_body H items n handler groups)"
  unfolding pg_batch_body_def finish_pg_batch_def Let_def
  by (intro atomic_intros reversible_atomic [OF reversible_fail])

lemma pg_batch_atomic: "op_atomic zero_batch (pg_ProcessBatchAttempt H items n handler)"
proof (cases "prepareBatchGroups items")
  case (Inr groups)
  then show ?thesis
    unfolding pg_ProcessBatchAttempt_def
    by (simp add: op_atomic_finish atomic_in_tx atomic_pg_batch_body reversible_atomic reversible_return)
qed (simp add: pg_ProcessBatchAttempt_def op_atomic_refuse op_atomic_finish reversible_atomic reversible_return)

end
