(* ===== verification/BatchCoverage.thy ===== *)
theory BatchCoverage
  imports InboxBatch "HOL-Library.Sublist"
begin

text \<open>
  Facts shared by both batch operations: the groups partition the deliveries, every write to the outcome
  array settles the delivery it belongs to, and the deliveries handed to the handler are a subsequence
  of the batch with distinct identities.
\<close>

section \<open>The groups of a batch\<close>

definition entry_ok :: "batchItem list \<Rightarrow> batchGroup \<Rightarrow> batchPreparedItem \<Rightarrow> bool" where
  "entry_ok items g e \<longleftrightarrow> pi_index e < length items \<and> items ! pi_index e = pi_item e \<and> item_key (pi_item e) = bg_key g"

definition group_ok :: "batchItem list \<Rightarrow> batchGroup \<Rightarrow> bool" where
  "group_ok items g \<longleftrightarrow> bg_entries g \<noteq> [] \<and> bg_matching g = [] \<and> (\<forall>e\<in>set (bg_entries g). entry_ok items g e)"

definition indices :: "batchGroup list \<Rightarrow> nat set" where
  "indices groups = (\<Union>g\<in>set groups. pi_index ` set (bg_entries g))"

definition groups_ok :: "batchItem list \<Rightarrow> nat \<Rightarrow> batchGroup list \<Rightarrow> bool" where
  "groups_ok items n groups \<longleftrightarrow>
    distinct (map bg_key groups) \<and> (\<forall>g\<in>set groups. group_ok items g) \<and> indices groups = {..<n}"

lemma find_key_None: "find (\<lambda>g. bg_key g = k) gs = None \<longleftrightarrow> k \<notin> set (map bg_key gs)"
  by (auto simp: find_None_iff)

lemma map_key_add_entry [simp]:
  "map bg_key (map (\<lambda>g. if bg_key g = k then add_entry i item g else g) gs) = map bg_key gs"
  by (simp add: comp_def add_entry_def)

lemma groups_ok_new:
  assumes ok: "groups_ok items i gs" and new: "item_key item \<notin> set (map bg_key gs)"
    and it: "i < length items" "items ! i = item"
  shows "groups_ok items (Suc i) (gs @ [new_group i item])"
  using assms
  by (auto simp: groups_ok_def indices_def group_ok_def entry_ok_def new_group_def lessThan_Suc)

lemma groups_ok_add:
  assumes ok: "groups_ok items i gs" and old: "item_key item \<in> set (map bg_key gs)"
    and it: "i < length items" "items ! i = item"
  shows "groups_ok items (Suc i) (map (\<lambda>g. if bg_key g = item_key item then add_entry i item g else g) gs)"
    (is "groups_ok _ _ (map ?f gs)")
proof -
  have "\<forall>g\<in>set (map ?f gs). group_ok items g"
    using ok it by (auto simp: groups_ok_def group_ok_def entry_ok_def add_entry_def)
  moreover have "indices (map ?f gs) = insert i (indices gs)"
  proof -
    have "pi_index ` set (bg_entries (?f g)) =
        (if bg_key g = item_key item then insert i (pi_index ` set (bg_entries g)) else pi_index ` set (bg_entries g))" for g
      by (simp add: add_entry_def)
    then have "indices (map ?f gs) = (\<Union>g\<in>set gs. if bg_key g = item_key item
        then insert i (pi_index ` set (bg_entries g)) else pi_index ` set (bg_entries g))"
      unfolding indices_def set_map image_image by (simp only:)
    also have "\<dots> = insert i (indices gs)"
    proof -
      obtain g where "g \<in> set gs" "bg_key g = item_key item" using old by auto
      then show ?thesis unfolding indices_def by (auto split: if_splits)
    qed
    finally show ?thesis .
  qed
  moreover have "distinct (map bg_key (map ?f gs))" unfolding map_key_add_entry using ok by (simp add: groups_ok_def)
  ultimately show ?thesis using ok unfolding groups_ok_def lessThan_Suc by blast
qed

lemma group_items_ok:
  assumes "group_items i rest gs = Inr gs'" and "rest = drop i items" and "i \<le> length items" and "groups_ok items i gs"
  shows "groups_ok items (length items) gs'"
  using assms
proof (induction i rest gs rule: group_items.induct)
  case (2 i item rest gs)
  have lt: "i < length items" using "2.prems"(2) by (cases "i < length items") auto
  then have "item # rest = items ! i # drop (Suc i) items"
    using "2.prems"(2) by (simp add: Cons_nth_drop_Suc)
  with lt have i: "i < length items" "items ! i = item" "rest = drop (Suc i) items" by simp_all
  show ?case
  proof (cases "find (\<lambda>g. bg_key g = item_key item) gs")
    case None
    with 2 i groups_ok_new [of items i gs item] show ?thesis by (simp add: find_key_None)
  next
    case (Some g)
    then have "item_key item \<in> set (map bg_key gs)" using find_key_None [of "item_key item" gs] by auto
    with 2 i Some groups_ok_add [of items i gs item] show ?thesis by (simp split: if_splits)
  qed
qed auto

lemma prepareBatchGroups_ok: "prepareBatchGroups items = Inr gs \<Longrightarrow> groups_ok items (length items) gs"
  using group_items_ok [of 0 items "[]" gs items] by (simp add: prepareBatchGroups_def groups_ok_def indices_def)

lemma lock_order_ok: "groups_ok items n gs \<Longrightarrow> groups_ok items n (lock_order gs)"
  by (simp add: groups_ok_def indices_def lock_order_def distinct_map)

section \<open>Every write settles its delivery\<close>

definition settled :: "batchItem \<Rightarrow> batchItemOutcome \<Rightarrow> bool" where
  "settled item o1 \<longleftrightarrow> bo_Key o1 = bi_Key item \<and> bo_Fingerprint o1 = bi_Fingerprint item \<and> bo_Outcome o1 \<noteq> BatchNone"

text \<open>
  \<open>settles items I outs outs'\<close>: the array keeps its length, nothing settled is unsettled, and all of
  \<open>I\<close> is settled afterwards.
\<close>

definition settles :: "batchItem list \<Rightarrow> nat set \<Rightarrow> batchItemOutcome list \<Rightarrow> batchItemOutcome list \<Rightarrow> bool" where
  "settles items I outs outs' \<longleftrightarrow> length outs' = length outs \<and>
    (\<forall>i<length items. settled (items ! i) (outs ! i) \<or> i \<in> I \<longrightarrow> settled (items ! i) (outs' ! i))"

lemma settles_refl: "settles items {} outs outs"
  by (simp add: settles_def)

lemma settles_trans: "settles items I xs ys \<Longrightarrow> settles items J ys zs \<Longrightarrow> settles items (I \<union> J) xs zs"
  by (auto simp: settles_def)

lemma settles_update:
  assumes "length outs = length items" and "settled (items ! i) x" and "i < length items"
  shows "settles items {i} outs (outs[i := x])"
  using assms by (auto simp: settles_def nth_list_update)

lemma settles_length: "settles items I xs ys \<Longrightarrow> length ys = length xs"
  by (simp add: settles_def)

lemma settles_fold:
  assumes "\<And>x outs. x \<in> set xs \<Longrightarrow> length outs = length items \<Longrightarrow> settles items (I x) outs (f x outs)"
    and "length outs = length items"
  shows "settles items (\<Union>x\<in>set xs. I x) outs (fold f xs outs)"
  using assms
proof (induction xs arbitrary: outs)
  case (Cons x xs)
  have 1: "settles items (I x) outs (f x outs)" using Cons.prems by simp
  with Cons have "settles items (\<Union>x\<in>set xs. I x) (f x outs) (fold f xs (f x outs))"
    by (simp add: settles_def)
  from settles_trans [OF 1 this] show ?case by simp
qed (simp add: settles_refl)

lemma settled_conflict: "settled item (conflict_outcome item)"
  by (simp add: settled_def conflict_outcome_def)

lemma settles_conflicts:
  assumes g: "group_ok items g" and len: "length outs = length items"
  shows "settles items (pi_index ` {e \<in> set (bg_entries g). bi_Fingerprint (pi_item e) \<noteq> stored}) outs
    (assign_conflicts stored g outs)"
proof -
  let ?I = "\<lambda>e. if bi_Fingerprint (pi_item e) = stored then {} else {pi_index e}"
  have "settles items (\<Union>e\<in>set (bg_entries g). ?I e) outs (assign_conflicts stored g outs)"
    unfolding assign_conflicts_def
  proof (rule settles_fold)
    fix e and outs :: "batchItemOutcome list"
    assume e: "e \<in> set (bg_entries g)" and len: "length outs = length items"
    have "entry_ok items g e" using g e by (simp add: group_ok_def)
    then show "settles items (?I e) outs (if bi_Fingerprint (pi_item e) = stored then outs
        else outs[pi_index e := conflict_outcome (pi_item e)])"
      using settles_update [OF len, of "pi_index e" "conflict_outcome (pi_item e)"]
      by (auto simp: settles_refl entry_ok_def settled_conflict)
  qed (rule len)
  moreover have "(\<Union>e\<in>set (bg_entries g). ?I e) =
      pi_index ` {e \<in> set (bg_entries g). bi_Fingerprint (pi_item e) \<noteq> stored}" by auto
  ultimately show ?thesis by simp
qed

text \<open>A group whose deliveries were compared with the stored envelope.\<close>

definition matched :: "batchItem list \<Rightarrow> batchGroup \<Rightarrow> bool" where
  "matched items g \<longleftrightarrow> bg_matching g \<noteq> [] \<and>
    (\<forall>e\<in>set (bg_matching g). entry_ok items g e \<and> bi_Fingerprint (pi_item e) = bi_Fingerprint (group_item g)) \<and>
    bg_first g = pi_index (hd (bg_matching g))"

lemma matched_state [simp]: "matched items (g\<lparr>bg_state := st\<rparr>) = matched items g"
  unfolding matched_def group_item_def entry_ok_def by simp

lemma matched_match_group:
  assumes "group_ok items g" and "bg_matching (match_group stored g) \<noteq> []"
  shows "matched items ((match_group stored g)\<lparr>bg_state := st\<rparr>)"
proof -
  let ?m = "filter (\<lambda>e. bi_Fingerprint (pi_item e) = stored) (bg_entries g)"
  have m: "bg_matching (match_group stored g) = ?m" using assms(1) by (simp add: match_group_def group_ok_def Let_def)
  then have "hd ?m \<in> set ?m" using assms(2) by (metis hd_in_set)
  then have "bi_Fingerprint (pi_item (hd ?m)) = stored" by simp
  with m assms show ?thesis
    by (auto simp: matched_def group_item_def match_group_def Let_def group_ok_def entry_ok_def)
qed

lemma settles_assign:
  assumes g: "matched items g" and o1: "bo_Fingerprint o1 = bi_Fingerprint (group_item g)" "bo_Outcome o1 \<noteq> BatchNone"
    and len: "length outs = length items"
  shows "settles items (pi_index ` set (bg_matching g)) outs (assignBatchOutcome g o1 outs)"
proof -
  have "settles items (\<Union>x\<in>set (enumerate 0 (bg_matching g)). {pi_index (snd x)}) outs (assignBatchOutcome g o1 outs)"
    unfolding assignBatchOutcome_def
  proof (rule settles_fold)
    fix x and outs :: "batchItemOutcome list"
    assume x: "x \<in> set (enumerate 0 (bg_matching g))" and len: "length outs = length items"
    obtain j e where je: "x = (j, e)" by (rule prod.exhaust)
    have "snd x \<in> set (map snd (enumerate 0 (bg_matching g)))" unfolding set_map using x by (rule imageI)
    then have "e \<in> set (bg_matching g)" unfolding map_snd_enumerate je by simp
    then have "entry_ok items g e" "bi_Fingerprint (pi_item e) = bi_Fingerprint (group_item g)"
      using g by (auto simp: matched_def)
    then show "settles items {pi_index (snd x)} outs ((\<lambda>(index, entry) outs.
        outs[pi_index entry := o1\<lparr>bo_Key := bi_Key (pi_item entry), bo_Duplicate := (index > 0 \<or> bo_Duplicate o1)\<rparr>]) x outs)"
      using je o1 len by (auto simp: entry_ok_def settled_def intro!: settles_update)
  qed (rule len)
  moreover have "(\<Union>x\<in>A. {pi_index (snd x)}) = pi_index ` (snd ` A)" for A :: "(nat \<times> batchPreparedItem) set" by auto
  moreover have "snd ` set (enumerate 0 (bg_matching g)) = set (bg_matching g)"
    unfolding set_map [symmetric] map_snd_enumerate ..
  ultimately show ?thesis by (simp only:)
qed

lemma settled_outcome_facts:
  "settled_outcome n at g = Some o1 \<Longrightarrow> bo_Fingerprint o1 = bi_Fingerprint (group_item g) \<and> bo_Outcome o1 \<noteq> BatchNone"
  by (auto simp: settled_outcome_def Let_def split: if_splits)

lemma handled_outcome_facts:
  "bo_Fingerprint (handled_outcome n a g e) = bi_Fingerprint (group_item g) \<and> bo_Outcome (handled_outcome n a g e) \<noteq> BatchNone"
  by (simp add: handled_outcome_def Let_def split: prod.split failureKind.split)

text \<open>The deliveries that matched the stored envelope of their group.\<close>

definition claimed :: "batchGroup list \<Rightarrow> nat set" where
  "claimed groups = (\<Union>g\<in>set groups. pi_index ` set (bg_matching g))"

lemma claimed_simps [simp]:
  "claimed [] = {}" "claimed (g # gs) = pi_index ` set (bg_matching g) \<union> claimed gs"
  by (simp_all add: claimed_def)

lemma claimed_cong: "set gs = set gs' \<Longrightarrow> claimed gs = claimed gs'"
  by (simp add: claimed_def)

lemma settles_handled:
  assumes "\<forall>g\<in>set (map fst judged). matched items g" and "length outs = length items"
  shows "settles items (claimed (map fst judged)) outs (assign_handled n attempts judged outs)"
proof -
  have "settles items (\<Union>x\<in>set judged. pi_index ` set (bg_matching (fst x))) outs (assign_handled n attempts judged outs)"
    unfolding assign_handled_def
    by (rule settles_fold)
      (use assms in \<open>auto intro!: settles_assign simp: handled_outcome_facts split: prod.split\<close>)
  then show ?thesis by (simp add: claimed_def)
qed

section \<open>Preparing the groups\<close>

text \<open>
  What both backends establish before the handler runs: every delivery of the groups is settled or
  belongs to an active group, and the active groups are some of the groups, in their order.
\<close>

definition prepared ::
  "batchItem list \<Rightarrow> batchGroup list \<Rightarrow> batchItemOutcome list \<Rightarrow> batchGroup list \<Rightarrow> batchItemOutcome list \<Rightarrow> bool" where
  "prepared items groups outs active outs' \<longleftrightarrow>
    (\<exists>I. settles items I outs outs' \<and> indices groups \<subseteq> I \<union> claimed active) \<and>
    (\<forall>g\<in>set active. matched items g) \<and> subseq (map bg_key active) (map bg_key groups)"

lemma indices_simps [simp]:
  "indices [] = {}" "indices (g # gs) = pi_index ` set (bg_entries g) \<union> indices gs"
  by (simp_all add: indices_def)

lemma prepared_Nil: "prepared items [] outs [] outs"
  unfolding prepared_def using settles_refl by auto

lemma prepared_settled:
  assumes "settles items I outs outs1" and "pi_index ` set (bg_entries g) \<subseteq> I" and "prepared items groups outs1 active outs'"
  shows "prepared items (g # groups) outs active outs'"
proof -
  from assms(3) obtain J where J: "settles items J outs1 outs'"
    "indices groups \<subseteq> J \<union> claimed active"
    unfolding prepared_def by blast
  have "settles items (I \<union> J) outs outs'" using settles_trans [OF assms(1) J(1)] .
  with J(2) assms(2,3) show ?thesis unfolding prepared_def by (auto intro!: exI [of _ "I \<union> J"])
qed

lemma prepared_active:
  assumes "settles items I outs outs1" and "pi_index ` set (bg_entries g) \<subseteq> I \<union> pi_index ` set (bg_matching g2)"
    and "matched items g2" and "bg_key g2 = bg_key g" and "prepared items groups outs1 active outs'"
  shows "prepared items (g # groups) outs (g2 # active) outs'"
proof -
  from assms(5) obtain J where J: "settles items J outs1 outs'"
    "indices groups \<subseteq> J \<union> claimed active"
    unfolding prepared_def by blast
  have "settles items (I \<union> J) outs outs'" using settles_trans [OF assms(1) J(1)] .
  with J(2) assms(2-5) show ?thesis unfolding prepared_def by (auto intro!: exI [of _ "I \<union> J"])
qed

text \<open>The deliveries of a group, split by the stored envelope.\<close>

lemma group_split:
  assumes "group_ok items g"
  shows "pi_index ` set (bg_entries g) =
    pi_index ` {e \<in> set (bg_entries g). bi_Fingerprint (pi_item e) \<noteq> stored} \<union>
    pi_index ` set (bg_matching (match_group stored g))"
  using assms by (auto simp: match_group_def group_ok_def Let_def)

lemma match_group_key [simp]: "bg_key (match_group stored g) = bg_key g"
  by (simp add: match_group_def Let_def)

section \<open>The deliveries the handler sees\<close>

lemma subseq_nth:
  assumes "sorted_wrt (<) is" and "\<forall>i\<in>set is. i < length xs"
  shows "subseq (map ((!) xs) is) xs"
proof -
  have f: "filter (\<lambda>i. i \<in> set is) [0..<length xs] = is"
    using assms strict_sorted_iff [of "is"]
    by (intro sorted_distinct_set_unique) (auto intro: sorted_filter [of id, simplified])
  have "zip xs [0..<length xs] = map (\<lambda>i. (xs ! i, i)) [0..<length xs]"
    by (rule nth_equalityI) auto
  then have "nths xs (set is) = map ((!) xs) is"
    unfolding nths_def by (simp add: filter_map comp_def f)
  then show ?thesis using subseq_conv_nths by metis
qed

lemma sort_key_strict:
  assumes "inj_on f (set gs)" and "distinct gs"
  shows "sorted_wrt (<) (map f (sort_key f gs))"
  using assms by (simp add: strict_sorted_iff distinct_map)

lemma handler_items:
  assumes gs: "\<forall>g\<in>set gs. matched items g" and d: "distinct (map bg_key gs)"
  shows "subseq (map group_item (sort_key bg_first gs)) items"
    and "distinct (map item_key (map group_item (sort_key bg_first gs)))"
proof -
  have m: "bg_first g < length items \<and> items ! bg_first g = group_item g \<and> item_key (group_item g) = bg_key g"
    if "g \<in> set gs" for g
    using gs that by (auto simp: matched_def entry_ok_def group_item_def)
  have "inj_on bg_first (set gs)"
    using d m unfolding distinct_map by (metis inj_on_def)
  then have "sorted_wrt (<) (map bg_first (sort_key bg_first gs))"
    using d by (intro sort_key_strict) (auto simp: distinct_map)
  then have "subseq (map ((!) items) (map bg_first (sort_key bg_first gs))) items"
    by (rule subseq_nth) (use m in auto)
  moreover have "map ((!) items) (map bg_first (sort_key bg_first gs)) = map group_item (sort_key bg_first gs)"
    using m by simp
  ultimately show "subseq (map group_item (sort_key bg_first gs)) items" by (simp only:)
  have "distinct (map bg_key (sort_key bg_first gs))" using d by (simp add: distinct_map)
  moreover have "map item_key (map group_item (sort_key bg_first gs)) = map bg_key (sort_key bg_first gs)"
    using m by simp
  ultimately show "distinct (map item_key (map group_item (sort_key bg_first gs)))" by (simp only:)
qed

section \<open>The report\<close>

lemma prepared_report:
  assumes p: "prepared items gs (replicate (length items) zero_outcome) active outs" and ok: "groups_ok items (length items) gs"
    and i: "i < length items"
  shows "length outs = length items"
    and "active = [] \<Longrightarrow> settled (items ! i) (outs ! i)"
    and "set (map fst judged) = set active \<Longrightarrow> settled (items ! i) (assign_handled n attempts judged outs ! i)"
    and "set (map fst judged) = set active \<Longrightarrow> length (assign_handled n attempts judged outs) = length items"
proof -
  obtain I where I: "settles items I (replicate (length items) zero_outcome) outs"
    "indices gs \<subseteq> I \<union> claimed active" "\<forall>g\<in>set active. matched items g"
    using p unfolding prepared_def by blast
  show len: "length outs = length items" using I(1) by (simp add: settles_def)
  have mem: "i \<in> I \<union> claimed active"
    using I(2) ok i unfolding groups_ok_def by blast
  show "active = [] \<Longrightarrow> settled (items ! i) (outs ! i)" using mem I(1) i by (simp add: settles_def)
  assume j: "set (map fst judged) = set active"
  have J: "settles items (claimed (map fst judged)) outs (assign_handled n attempts judged outs)"
    using j I(3) len by (intro settles_handled) auto
  then show "length (assign_handled n attempts judged outs) = length items" using len by (simp add: settles_def)
  have "claimed (map fst judged) = claimed active" by (rule claimed_cong [OF j])
  with settles_trans [OF I(1) J] mem i show "settled (items ! i) (assign_handled n attempts judged outs ! i)"
    by (auto simp: settles_def)
qed

text \<open>A later pass over the groups an earlier one left.\<close>

definition narrows ::
  "batchItem list \<Rightarrow> batchGroup list \<Rightarrow> batchItemOutcome list \<Rightarrow> batchGroup list \<Rightarrow> batchItemOutcome list \<Rightarrow> bool" where
  "narrows items ms outs active outs' \<longleftrightarrow>
    (\<exists>J. settles items J outs outs' \<and> claimed ms \<subseteq> J \<union> claimed active) \<and>
    (\<forall>g\<in>set active. matched items g) \<and> subseq (map bg_key active) (map bg_key ms)"

lemma narrows_Nil: "narrows items [] outs [] outs"
  unfolding narrows_def using settles_refl by auto

lemma narrows_settled:
  assumes "settles items (pi_index ` set (bg_matching g)) outs outs1" and "narrows items ms outs1 active outs'"
  shows "narrows items (g # ms) outs active outs'"
proof -
  from assms(2) obtain J where J: "settles items J outs1 outs'" "claimed ms \<subseteq> J \<union> claimed active"
    unfolding narrows_def by blast
  have "settles items (pi_index ` set (bg_matching g) \<union> J) outs outs'" using settles_trans [OF assms(1) J(1)] .
  with J(2) assms(2) show ?thesis unfolding narrows_def by auto
qed

lemma narrows_active:
  assumes "matched items g2" and "bg_matching g2 = bg_matching g" and "bg_key g2 = bg_key g" and "narrows items ms outs active outs'"
  shows "narrows items (g # ms) outs (g2 # active) outs'"
  using assms unfolding narrows_def by auto

lemma prepared_narrows:
  assumes "prepared items gs outs ms outs1" and "narrows items ms outs1 active outs'"
  shows "prepared items gs outs active outs'"
proof -
  obtain I where I: "settles items I outs outs1" "indices gs \<subseteq> I \<union> claimed ms" "subseq (map bg_key ms) (map bg_key gs)"
    using assms(1) unfolding prepared_def by blast
  obtain J where J: "settles items J outs1 outs'" "claimed ms \<subseteq> J \<union> claimed active"
    "\<forall>g\<in>set active. matched items g" "subseq (map bg_key active) (map bg_key ms)"
    using assms(2) unfolding narrows_def by blast
  have "indices gs \<subseteq> (I \<union> J) \<union> claimed active" using I(2) J(2) by blast
  moreover have "subseq (map bg_key active) (map bg_key gs)" using J(4) I(3) by (rule subseq_order.trans)
  ultimately show ?thesis
    using settles_trans [OF I(1) J(1)] J(3) unfolding prepared_def by blast
qed

end
