(* ===== verification/BatchReports.thy ===== *)
theory BatchReports
  imports SqliteBatch PgBatch BatchCoverage
begin

text \<open>
  The reports of both batch operations, under any faults: a report names every delivery of the batch,
  in order, with an outcome; and the handler only ever sees a subsequence of the batch with distinct
  identities.
\<close>

definition complete_report :: "batchItem list \<Rightarrow> batchProcessResult \<Rightarrow> bool" where
  "complete_report items report \<longleftrightarrow> length (bp_Items report) = length items \<and>
    (\<forall>i<length items. settled (items ! i) (bp_Items report ! i))"

text \<open>Two handlers that agree on every batch the operation may hand out.\<close>

definition agree_on_batches :: "batchItem list \<Rightarrow> 'b batchHandler \<Rightarrow> 'b batchHandler \<Rightarrow> bool" where
  "agree_on_batches items h h' \<longleftrightarrow>
    (\<forall>hs. subseq hs items \<longrightarrow> distinct (map item_key hs) \<longrightarrow> h hs = h' hs)"

lemma judge_batch_length: "judge_batch active r = Inr es \<Longrightarrow> length es = length active"
  by (auto simp: judge_batch_def ValidateResult_iff split: option.splits if_splits)

lemma commit_report: "commitTerminalBatch pkg H report c = (Inr x, c') \<Longrightarrow> x = (report, None)"
  unfolding commitTerminalBatch_def by (auto elim!: m_bind_InrE simp: m_return_def)

section \<open>Preparation\<close>

lemma read_sqlite_groups_prepared:
  assumes "read_sqlite_groups H n gs outs c = (Inr (active, outs'), c')"
    and "\<forall>g\<in>set gs. group_ok items g" and "length outs = length items"
  shows "prepared items gs outs active outs'"
  using assms
proof (induction gs arbitrary: outs c active c')
  case (Cons g gs)
  have g: "group_ok items g" using Cons.prems(2) by simp
  from Cons.prems(1) obtain stored at c1 where c1:
    "(let g1 = match_group stored g; outs1 = assign_conflicts stored g outs in
      if bg_matching g1 = [] then read_sqlite_groups H n gs outs1
      else m_bind (readSQLiteBatchAttempt H (group_item g1))
        (\<lambda>state. let g2 = g1\<lparr>bg_state := state\<rparr> in
          case settled_outcome n at g2 of
            Some o1 \<Rightarrow> read_sqlite_groups H n gs (assignBatchOutcome g2 o1 outs1)
          | None \<Rightarrow> m_bind (read_sqlite_groups H n gs outs1) (\<lambda>(active, outs). m_return (g2 # active, outs)))) c1 =
      (Inr (active, outs'), c')"
    by (auto elim!: m_bind_InrE simp: m_fail_def split: option.splits if_splits)
  let ?g1 = "match_group stored g" and ?outs1 = "assign_conflicts stored g outs"
  note conf = settles_conflicts [OF g Cons.prems(3), of stored]
  have len1: "length ?outs1 = length items" using settles_length [OF conf] Cons.prems(3) by simp
  show ?case
  proof (cases "bg_matching ?g1 = []")
    case True
    with c1 Cons.IH Cons.prems(2) len1 have "prepared items gs ?outs1 active outs'" by (simp add: Let_def)
    with conf True group_split [OF g, of stored] show ?thesis by (intro prepared_settled [OF conf]) auto
  next
    case False
    then obtain st c2 where c2: "(case settled_outcome n at (?g1\<lparr>bg_state := st\<rparr>) of
            Some o1 \<Rightarrow> read_sqlite_groups H n gs (assignBatchOutcome (?g1\<lparr>bg_state := st\<rparr>) o1 ?outs1)
          | None \<Rightarrow> m_bind (read_sqlite_groups H n gs ?outs1) (\<lambda>(active, outs). m_return (?g1\<lparr>bg_state := st\<rparr> # active, outs))) c2 =
      (Inr (active, outs'), c')"
      using c1 by (auto elim!: m_bind_InrE simp: Let_def)
    let ?g2 = "?g1\<lparr>bg_state := st\<rparr>"
    have m: "matched items ?g2" by (rule matched_match_group [OF g False])
    show ?thesis
    proof (cases "settled_outcome n at ?g2")
      case (Some o1)
      have fill: "settles items (pi_index ` set (bg_matching ?g2)) ?outs1 (assignBatchOutcome ?g2 o1 ?outs1)"
        using settled_outcome_facts [OF Some] by (intro settles_assign [OF m _ _ len1]) auto
      have "prepared items gs (assignBatchOutcome ?g2 o1 ?outs1) active outs'"
        using c2 Some Cons.IH Cons.prems(2) settles_length [OF fill] len1 by simp
      with settles_trans [OF conf fill] group_split [OF g, of stored] show ?thesis
        by (intro prepared_settled) auto
    next
      case None
      with c2 obtain act c3 where act: "active = ?g2 # act" "read_sqlite_groups H n gs ?outs1 c2 = (Inr (act, outs'), c3)"
        by (auto elim!: m_bind_InrE simp: m_return_def)
      have "prepared items gs ?outs1 act outs'" using act(2) Cons.IH Cons.prems(2) len1 by simp
      with conf m group_split [OF g, of stored] show ?thesis
        unfolding act(1) by (intro prepared_active [OF conf]) auto
    qed
  qed
qed (simp add: m_return_def prepared_Nil)

lemma sqlite_prepared:
  assumes "prepareSQLiteBatchIdentities H gs outs n c = (Inr (active, outs'), c')"
    and "groups_ok items k gs" and "length outs = length items"
  shows "prepared items gs outs active outs'"
  using assms read_sqlite_groups_prepared
  unfolding prepareSQLiteBatchIdentities_def groups_ok_def by (auto elim!: m_bind_InrE)

lemma pg_match_groups_prepared:
  assumes "pg_match_groups ids gs outs = Inr (ms, outs')"
    and "\<forall>g\<in>set gs. group_ok items g" and "length outs = length items"
  shows "prepared items gs outs (map fst ms) outs'"
  using assms
proof (induction gs arbitrary: outs ms)
  case (Cons g gs)
  have g: "group_ok items g" using Cons.prems(2) by simp
  from Cons.prems(1) obtain stored at rest where r:
    "pg_match_groups ids gs (assign_conflicts stored g outs) = Inr (rest, outs')"
    "ms = (if bg_matching (match_group stored g) = [] then rest else (match_group stored g, at) # rest)"
    by (auto split: option.splits if_splits sum.splits)
  note conf = settles_conflicts [OF g Cons.prems(3), of stored]
  have IH: "prepared items gs (assign_conflicts stored g outs) (map fst rest) outs'"
    using Cons.IH [OF r(1)] Cons.prems settles_length [OF conf] by simp
  show ?case
  proof (cases "bg_matching (match_group stored g) = []")
    case True
    with IH r(2) group_split [OF g, of stored] show ?thesis by (auto intro!: prepared_settled [OF conf])
  next
    case False
    have "matched items (match_group stored g)"
      using matched_match_group [OF g False, of "bg_state (match_group stored g)"] by simp
    with IH r(2) False group_split [OF g, of stored] show ?thesis by (auto intro!: prepared_active [OF conf])
  qed
qed (simp add: prepared_Nil)

lemma pg_settle_groups_narrows:
  assumes "pg_settle_groups n attempts ms outs = (active, outs')"
    and "\<forall>g\<in>set (map fst ms). matched items g" and "length outs = length items"
  shows "narrows items (map fst ms) outs active outs'"
  using assms
proof (induction ms arbitrary: outs active)
  case (Cons x ms)
  obtain g at where x: "x = (g, at)" by (rule prod.exhaust)
  let ?g2 = "g\<lparr>bg_state := (case map_of attempts (bg_key g) of None \<Rightarrow> zero_state | Some st \<Rightarrow> st)\<rparr>"
  have m: "matched items ?g2" using Cons.prems(2) x by simp
  show ?case
  proof (cases "settled_outcome n at ?g2")
    case (Some o1)
    let ?outs1 = "assignBatchOutcome ?g2 o1 outs"
    have fill: "settles items (pi_index ` set (bg_matching ?g2)) outs ?outs1"
      using settled_outcome_facts [OF Some] by (intro settles_assign [OF m _ _ Cons.prems(3)]) auto
    have "pg_settle_groups n attempts ms ?outs1 = (active, outs')"
      using Cons.prems(1) Some x by (simp add: Let_def)
    then have "narrows items (map fst ms) ?outs1 active outs'"
      using Cons.IH Cons.prems(2,3) settles_length [OF fill] by simp
    with fill x show ?thesis by (auto intro: narrows_settled)
  next
    case None
    obtain act where act: "pg_settle_groups n attempts ms outs = (act, outs')" "active = ?g2 # act"
      using Cons.prems(1) None x by (cases "pg_settle_groups n attempts ms outs") (simp add: Let_def)
    have "narrows items (map fst ms) outs act outs'" using Cons.IH [OF act(1)] Cons.prems(2,3) by simp
    with m act(2) x show ?thesis by (auto intro: narrows_active)
  qed
qed (simp add: narrows_Nil)

lemma pg_prepared:
  assumes run: "prepareBatchIdentities H gs outs n c = (Inr (active, outs'), c')"
    and ok: "groups_ok items k gs" and len: "length outs = length items"
  shows "prepared items gs outs active outs'"
proof -
  from run obtain ids ms outs1 attempts where p: "pg_match_groups ids gs outs = Inr (ms, outs1)"
    "pg_settle_groups n attempts ms outs1 = (active, outs')"
    unfolding prepareBatchIdentities_def Let_def
    by (auto elim!: m_bind_InrE simp: m_fail_def m_return_def split: sum.splits prod.splits)
  have P: "prepared items gs outs (map fst ms) outs1"
    using pg_match_groups_prepared [OF p(1) _ len] ok by (simp add: groups_ok_def)
  then have m: "\<forall>g\<in>set (map fst ms). matched items g" and "length outs1 = length items"
    using len by (auto simp: prepared_def settles_def)
  with pg_settle_groups_narrows [OF p(2) m] prepared_narrows [OF P] show ?thesis by blast
qed

section \<open>Complete reports\<close>

text \<open>
  The operations differ only in how they prepare the groups and how they finish; what they report
  follows from the preparation.
\<close>

lemma batch_body_report:
  assumes prep: "\<And>active outs c1. m c = (Inr (active, outs), c1) \<Longrightarrow>
      prepared items gs (replicate (length items) zero_outcome) active outs"
    and fin: "\<And>judged outs c1 x c2. fin judged outs c1 = (Inr x, c2) \<Longrightarrow>
      \<exists>attempts. x = (\<lparr>bp_Items = assign_handled n attempts judged outs, bp_HandlerMessages = length judged\<rparr>, None)"
    and ok: "groups_ok items (length items) gs"
    and run: "m_bind m (\<lambda>(found, outcomes).
      if found = [] then commitTerminalBatch pkg H \<lparr>bp_Items = outcomes, bp_HandlerMessages = 0\<rparr>
      else
        let active = sort_key bg_first found in
        m_bind (run_batch_handler handler (map group_item active))
        (\<lambda>r. case judge_batch active r of
           Inl e \<Rightarrow> m_fail e
         | Inr itemErrors \<Rightarrow> fin (zip active itemErrors) outcomes)) c = (Inr (report, e), c')"
  shows "e = None \<and> complete_report items report"
proof -
  from run obtain found outs c1 where m: "m c = (Inr (found, outs), c1)" and rest:
    "(if found = [] then commitTerminalBatch pkg H \<lparr>bp_Items = outs, bp_HandlerMessages = 0\<rparr>
      else
        let active = sort_key bg_first found in
        m_bind (run_batch_handler handler (map group_item active))
        (\<lambda>r. case judge_batch active r of
           Inl e \<Rightarrow> m_fail e
         | Inr itemErrors \<Rightarrow> fin (zip active itemErrors) outs)) c1 = (Inr (report, e), c')"
    by (auto elim!: m_bind_InrE)
  note P = prepared_report [OF prep [OF m] ok]
  have len: "length outs = length items"
    using prep [OF m] by (auto simp: prepared_def settles_def)
  show ?thesis
  proof (cases "found = []")
    case True
    with rest commit_report have "e = None" "report = \<lparr>bp_Items = outs, bp_HandlerMessages = 0\<rparr>" by force+
    with True P(2) len show ?thesis by (simp add: complete_report_def)
  next
    case False
    let ?active = "sort_key bg_first found"
    from False rest obtain r es c2 where es: "judge_batch ?active r = Inr es" "fin (zip ?active es) outs c2 = (Inr (report, e), c')"
      by (auto elim!: m_bind_InrE simp: Let_def m_fail_def split: sum.splits)
    have "length es = length ?active" by (rule judge_batch_length [OF es(1)])
    then have "map fst (zip ?active es) = ?active" by simp
    then have j: "set (map fst (zip ?active es)) = set found" by simp
    from fin [OF es(2)] obtain attempts where
      "report = \<lparr>bp_Items = assign_handled n attempts (zip ?active es) outs, bp_HandlerMessages = length (zip ?active es)\<rparr>" "e = None"
      by blast
    moreover have "length (assign_handled n attempts (zip ?active es) outs) = length items"
      by (rule settles_length [OF settles_handled, of _ items, THEN trans])
        (use j len prep [OF m] in \<open>auto simp: prepared_def simp del: set_map\<close>)
    ultimately show ?thesis using P(3) [OF _ j] by (simp add: complete_report_def)
  qed
qed

lemma finish_sqlite_report:
  assumes "finish_sqlite_batch H n judged outs c = (Inr x, c')"
  shows "\<exists>attempts. x = (\<lparr>bp_Items = assign_handled n attempts judged outs, bp_HandlerMessages = length judged\<rparr>, None)"
  using assms unfolding finish_sqlite_batch_def by (elim m_bind_InrE) (blast dest: commit_report)

lemma finish_pg_report:
  assumes "finish_pg_batch H n judged outs c = (Inr x, c')"
  shows "\<exists>attempts. x = (\<lparr>bp_Items = assign_handled n attempts judged outs, bp_HandlerMessages = length judged\<rparr>, None)"
  using assms unfolding finish_pg_batch_def by (elim m_bind_InrE) (blast dest: commit_report)

lemma finish_okE:
  assumes "fst (finish z m c) = (r, None)"
  obtains c' where "m c = (Inr (r, None), c')"
  using assms by (auto simp: finish_def split: prod.splits sum.splits)

lemma in_tx_InrE:
  assumes "in_tx w body c = (Inr x, c')"
  obtains c1 c2 where "body c1 = (Inr x, c2)"
  using assms by (auto simp: in_tx_def split: prod.splits elim!: m_bind_InrE)

lemma sqlite_batch_report:
  assumes "fst (sqlite_ProcessBatchAttempt H items n handler c) = (report, None)"
  shows "complete_report items report"
proof (cases "items = []")
  case True
  with assms show ?thesis
    by (auto simp: sqlite_ProcessBatchAttempt_def finish_def m_return_def complete_report_def zero_batch_def)
next
  case False
  with assms obtain gs where gs: "prepareBatchGroups items = Inr gs"
    by (cases "prepareBatchGroups items") (auto simp: sqlite_ProcessBatchAttempt_def refuse_def)
  with False assms obtain c1 c2 where run: "sqlite_batch_body H items n handler gs c1 = (Inr (report, None), c2)"
    by (auto simp: sqlite_ProcessBatchAttempt_def elim!: finish_okE in_tx_InrE)
  note ok = lock_order_ok [OF prepareBatchGroups_ok [OF gs]]
  show ?thesis
    using batch_body_report [OF sqlite_prepared [OF _ ok] finish_sqlite_report ok run [unfolded sqlite_batch_body_def]]
    by simp
qed

lemma pg_batch_report:
  assumes "fst (pg_ProcessBatchAttempt H items n handler c) = (report, None)"
  shows "complete_report items report"
proof (cases "items = []")
  case True
  with assms show ?thesis
    by (auto simp: pg_ProcessBatchAttempt_def finish_def m_return_def complete_report_def zero_batch_def)
next
  case False
  with assms obtain gs where gs: "prepareBatchGroups items = Inr gs"
    by (cases "prepareBatchGroups items") (auto simp: pg_ProcessBatchAttempt_def refuse_def)
  with False assms obtain c1 c2 where run: "pg_batch_body H items n handler gs c1 = (Inr (report, None), c2)"
    by (auto simp: pg_ProcessBatchAttempt_def elim!: finish_okE in_tx_InrE)
  note ok = lock_order_ok [OF prepareBatchGroups_ok [OF gs]]
  show ?thesis
    using batch_body_report [OF pg_prepared [OF _ ok] finish_pg_report ok run [unfolded pg_batch_body_def]]
    by simp
qed

section \<open>What the handler sees\<close>

lemma run_batch_handler_cong: "h hs = h' hs \<Longrightarrow> run_batch_handler h hs = run_batch_handler h' hs"
  by (simp add: run_batch_handler_def)

lemma subseq_distinct: "subseq xs ys \<Longrightarrow> distinct ys \<Longrightarrow> distinct xs"
  by (auto simp: subseq_conv_nths intro: distinct_nthsI)

lemma prepared_handler_items:
  assumes "prepared items gs outs active outs'" and "groups_ok items k gs" and "agree_on_batches items h h'"
  shows "h (map group_item (sort_key bg_first active)) = h' (map group_item (sort_key bg_first active))"
proof -
  have m: "\<forall>g\<in>set active. matched items g" and sub: "subseq (map bg_key active) (map bg_key gs)"
    using assms(1) by (auto simp: prepared_def)
  have "distinct (map bg_key active)"
    using subseq_distinct [OF sub] assms(2) by (simp add: groups_ok_def)
  from handler_items [OF m this] assms(3) show ?thesis unfolding agree_on_batches_def by blast
qed

lemma sqlite_batch_body_handler:
  assumes agree: "agree_on_batches items h h'" and ok: "groups_ok items k (lock_order gs)"
  shows "sqlite_batch_body H items n h gs = sqlite_batch_body H items n h' gs"
proof
  fix c
  show "sqlite_batch_body H items n h gs c = sqlite_batch_body H items n h' gs c"
    unfolding sqlite_batch_body_def
  proof (rule m_bind_cong_at)
    fix x c1
    assume p: "prepareSQLiteBatchIdentities H (lock_order gs) (replicate (length items) zero_outcome) n c = (Inr x, c1)"
    obtain active outs where x: "x = (active, outs)" by (rule prod.exhaust)
    have "prepared items (lock_order gs) (replicate (length items) zero_outcome) active outs"
      using sqlite_prepared [OF p [unfolded x] ok] by simp
    note eq = run_batch_handler_cong [where h = h and h' = h', OF prepared_handler_items [OF this ok agree]]
    show "(case x of (found, outcomes) \<Rightarrow>
        if found = [] then commitTerminalBatch sqlite_pkg H \<lparr>bp_Items = outcomes, bp_HandlerMessages = 0\<rparr>
        else let active = sort_key bg_first found in
          m_bind (run_batch_handler h (map group_item active))
            (\<lambda>r. case judge_batch active r of Inl e \<Rightarrow> m_fail e
              | Inr itemErrors \<Rightarrow> finish_sqlite_batch H n (zip active itemErrors) outcomes)) c1 =
      (case x of (found, outcomes) \<Rightarrow>
        if found = [] then commitTerminalBatch sqlite_pkg H \<lparr>bp_Items = outcomes, bp_HandlerMessages = 0\<rparr>
        else let active = sort_key bg_first found in
          m_bind (run_batch_handler h' (map group_item active))
            (\<lambda>r. case judge_batch active r of Inl e \<Rightarrow> m_fail e
              | Inr itemErrors \<Rightarrow> finish_sqlite_batch H n (zip active itemErrors) outcomes)) c1"
      by (simp add: x Let_def eq)
  qed
qed

lemma pg_batch_body_handler:
  assumes agree: "agree_on_batches items h h'" and ok: "groups_ok items k (lock_order gs)"
  shows "pg_batch_body H items n h gs = pg_batch_body H items n h' gs"
proof
  fix c
  show "pg_batch_body H items n h gs c = pg_batch_body H items n h' gs c"
    unfolding pg_batch_body_def
  proof (rule m_bind_cong_at)
    fix x c1
    assume p: "prepareBatchIdentities H (lock_order gs) (replicate (length items) zero_outcome) n c = (Inr x, c1)"
    obtain active outs where x: "x = (active, outs)" by (rule prod.exhaust)
    have "prepared items (lock_order gs) (replicate (length items) zero_outcome) active outs"
      using pg_prepared [OF p [unfolded x] ok] by simp
    note eq = run_batch_handler_cong [where h = h and h' = h', OF prepared_handler_items [OF this ok agree]]
    show "(case x of (found, outcomes) \<Rightarrow>
        if found = [] then commitTerminalBatch pg_pkg H \<lparr>bp_Items = outcomes, bp_HandlerMessages = 0\<rparr>
        else let active = sort_key bg_first found in
          m_bind (run_batch_handler h (map group_item active))
            (\<lambda>r. case judge_batch active r of Inl e \<Rightarrow> m_fail e
              | Inr itemErrors \<Rightarrow> finish_pg_batch H n (zip active itemErrors) outcomes)) c1 =
      (case x of (found, outcomes) \<Rightarrow>
        if found = [] then commitTerminalBatch pg_pkg H \<lparr>bp_Items = outcomes, bp_HandlerMessages = 0\<rparr>
        else let active = sort_key bg_first found in
          m_bind (run_batch_handler h' (map group_item active))
            (\<lambda>r. case judge_batch active r of Inl e \<Rightarrow> m_fail e
              | Inr itemErrors \<Rightarrow> finish_pg_batch H n (zip active itemErrors) outcomes)) c1"
      by (simp add: x Let_def eq)
  qed
qed

lemma sqlite_batch_handler:
  assumes "agree_on_batches items h h'"
  shows "sqlite_ProcessBatchAttempt H items n h = sqlite_ProcessBatchAttempt H items n h'"
  using sqlite_batch_body_handler [OF assms lock_order_ok [OF prepareBatchGroups_ok]]
  by (auto simp: sqlite_ProcessBatchAttempt_def split: sum.split)

lemma pg_batch_handler:
  assumes "agree_on_batches items h h'"
  shows "pg_ProcessBatchAttempt H items n h = pg_ProcessBatchAttempt H items n h'"
  using pg_batch_body_handler [OF assms lock_order_ok [OF prepareBatchGroups_ok]]
  by (auto simp: pg_ProcessBatchAttempt_def split: sum.split)

end
