(* ===== verification/BatchGrouping.thy ===== *)
theory BatchGrouping
  imports InboxBatch
begin

text \<open>
  The grouping of a batch against a reference that does not iterate: the groups are the distinct
  identities of the batch in the order of their first delivery, each with its deliveries in order,
  and grouping fails exactly when one identity is delivered under two attempt generations.
\<close>

definition first_keys :: "batchItem list \<Rightarrow> batchItemKey list" where
  "first_keys items = rev (remdups (rev (map item_key items)))"

definition entries_for :: "batchItem list \<Rightarrow> batchItemKey \<Rightarrow> batchPreparedItem list" where
  "entries_for items k =
    map (\<lambda>(i, item). \<lparr>pi_index = i, pi_item = item\<rparr>) (filter (\<lambda>(_, item). item_key item = k) (enumerate 0 items))"

definition reference_group :: "batchItem list \<Rightarrow> batchItemKey \<Rightarrow> batchGroup" where
  "reference_group items k =
    \<lparr>bg_key = k, bg_entries = entries_for items k, bg_matching = [], bg_state = zero_state,
     bg_first = pi_index (hd (entries_for items k))\<rparr>"

definition reference_groups :: "batchItem list \<Rightarrow> batchGroup list" where
  "reference_groups items = map (reference_group items) (first_keys items)"

definition item_generation :: "batchItem \<Rightarrow> string" where
  "item_generation item = k_AttemptGeneration (bi_Key item)"

definition one_generation :: "batchItem list \<Rightarrow> bool" where
  "one_generation items \<longleftrightarrow>
    (\<forall>x\<in>set items. \<forall>y\<in>set items. item_key x = item_key y \<longrightarrow> item_generation x = item_generation y)"

section \<open>One more delivery\<close>

lemma first_keys_snoc:
  "first_keys (xs @ [x]) = (if item_key x \<in> item_key ` set xs then first_keys xs else first_keys xs @ [item_key x])"
  by (auto simp: first_keys_def)

lemma set_first_keys [simp]: "set (first_keys xs) = item_key ` set xs"
  by (simp add: first_keys_def)

lemma entries_for_snoc:
  "entries_for (xs @ [x]) k =
    entries_for xs k @ (if item_key x = k then [\<lparr>pi_index = length xs, pi_item = x\<rparr>] else [])"
  by (simp add: entries_for_def enumerate_append_eq)

lemma entries_for_empty: "entries_for xs k = [] \<longleftrightarrow> k \<notin> item_key ` set xs"
proof -
  have "snd ` set (enumerate 0 xs) = set xs" by (metis map_snd_enumerate set_map)
  then show ?thesis by (force simp: entries_for_def filter_empty_conv)
qed

lemma entries_for_items: "e \<in> set (entries_for xs k) \<Longrightarrow> pi_item e \<in> set xs \<and> item_key (pi_item e) = k"
  by (auto simp: entries_for_def in_set_enumerate_eq)

lemma reference_group_key [simp]: "bg_key (reference_group xs k) = k"
  by (simp add: reference_group_def)

lemma reference_group_snoc:
  assumes "k \<in> item_key ` set xs"
  shows "reference_group (xs @ [x]) k =
    (if k = item_key x then add_entry (length xs) x (reference_group xs k) else reference_group xs k)"
  using assms entries_for_empty [of xs k] by (auto simp: reference_group_def entries_for_snoc add_entry_def)

lemma reference_groups_snoc:
  "reference_groups (xs @ [x]) =
    (if item_key x \<in> item_key ` set xs
     then map (\<lambda>g. if bg_key g = item_key x then add_entry (length xs) x g else g) (reference_groups xs)
     else reference_groups xs @ [new_group (length xs) x])"
proof (cases "item_key x \<in> item_key ` set xs")
  case True
  then have "reference_groups (xs @ [x]) = map (reference_group (xs @ [x])) (first_keys xs)"
    by (simp add: reference_groups_def first_keys_snoc)
  also have "\<dots> = map (\<lambda>k. if k = item_key x then add_entry (length xs) x (reference_group xs k)
      else reference_group xs k) (first_keys xs)"
    by (rule map_cong [OF refl]) (simp only: set_first_keys reference_group_snoc)
  also have "\<dots> = map (\<lambda>g. if bg_key g = item_key x then add_entry (length xs) x g else g) (reference_groups xs)"
    by (simp add: reference_groups_def comp_def)
  finally show ?thesis using True by simp
next
  case False
  then have "reference_group (xs @ [x]) (item_key x) = new_group (length xs) x"
    using entries_for_empty [of xs "item_key x"] by (simp add: reference_group_def entries_for_snoc new_group_def)
  moreover have "reference_group (xs @ [x]) k = reference_group xs k" if "k \<in> item_key ` set xs" for k
    using that False reference_group_snoc [OF that, of x] by metis
  ultimately show ?thesis using False by (simp add: reference_groups_def first_keys_snoc)
qed

lemma find_reference:
  "find (\<lambda>g. bg_key g = k) (reference_groups xs) =
    (if k \<in> item_key ` set xs then Some (reference_group xs k) else None)"
proof -
  have "find (\<lambda>g. bg_key g = k) (map (reference_group xs) ks) =
      (if k \<in> set ks then Some (reference_group xs k) else None)" for ks
    by (induction ks) auto
  then show ?thesis by (simp add: reference_groups_def)
qed

lemma reference_generation:
  assumes "k \<in> item_key ` set xs"
  obtains y where "y \<in> set xs" "item_key y = k" "group_generation (reference_group xs k) = item_generation y"
proof -
  have ne: "entries_for xs k \<noteq> []" using assms by (simp add: entries_for_empty)
  then have "hd (entries_for xs k) \<in> set (entries_for xs k)" by simp
  from entries_for_items [OF this] that show thesis
    by (auto simp: group_generation_def reference_group_def item_generation_def)
qed

section \<open>The whole batch\<close>

definition same_generation :: "batchItem \<Rightarrow> batchItem \<Rightarrow> bool" where
  "same_generation x y \<longleftrightarrow> (item_key x = item_key y \<longrightarrow> item_generation x = item_generation y)"

lemma one_generation_same: "one_generation xs \<longleftrightarrow> (\<forall>x\<in>set xs. \<forall>y\<in>set xs. same_generation x y)"
  by (simp add: one_generation_def same_generation_def)

lemma same_generation_sym: "same_generation x y \<longleftrightarrow> same_generation y x"
  unfolding same_generation_def by metis

lemma one_generation_snoc:
  "one_generation (xs @ [x]) \<longleftrightarrow> one_generation xs \<and> (\<forall>y\<in>set xs. same_generation y x)"
proof -
  have "same_generation x x" by (simp add: same_generation_def)
  then show ?thesis
    unfolding one_generation_same set_append list.set ball_Un using same_generation_sym by blast
qed

lemma one_generation_append: "one_generation (xs @ ys) \<Longrightarrow> one_generation xs"
  unfolding one_generation_same by simp

lemma group_items_reference:
  assumes "one_generation done_items"
  shows "group_items (length done_items) rest (reference_groups done_items) =
    (if one_generation (done_items @ rest) then Inr (reference_groups (done_items @ rest))
     else Inl (Wrap ''mixed attempt generations'' [Sentinel ErrInvalidBatchResult]))"
  using assms
proof (induction rest arbitrary: done_items)
  case (Cons x rest)
  let ?xs = "done_items @ [x]"
  show ?case
  proof (cases "item_key x \<in> item_key ` set done_items")
    case False
    then have "same_generation z x" if "z \<in> set done_items" for z
      using that unfolding same_generation_def by (metis image_eqI)
    with Cons.prems have "one_generation ?xs" by (simp add: one_generation_snoc)
    from Cons.IH [OF this] False show ?thesis by (simp add: find_reference reference_groups_snoc)
  next
    case True
    then obtain y where y: "y \<in> set done_items" "item_key y = item_key x"
      "group_generation (reference_group done_items (item_key x)) = item_generation y"
      by (rule reference_generation)
    show ?thesis
    proof (cases "item_generation y = item_generation x")
      case same: True
      have "same_generation z x" if "z \<in> set done_items" for z
        using Cons.prems [unfolded one_generation_same] y(1,2) same that unfolding same_generation_def by metis
      with Cons.prems have "one_generation ?xs" by (simp add: one_generation_snoc)
      from Cons.IH [OF this] True y(3) same show ?thesis
        by (simp add: find_reference reference_groups_snoc item_generation_def)
    next
      case False
      with y have "\<not> one_generation ?xs" by (auto simp: one_generation_snoc same_generation_def)
      then have "\<not> one_generation (done_items @ x # rest)"
        using one_generation_append [of ?xs rest] by auto
      with True y(3) False show ?thesis by (simp add: find_reference item_generation_def)
    qed
  qed
qed simp

lemma prepareBatchGroups_reference:
  "prepareBatchGroups items =
    (if one_generation items then Inr (reference_groups items)
     else Inl (Wrap ''mixed attempt generations'' [Sentinel ErrInvalidBatchResult]))"
proof -
  have "reference_groups [] = []" and "one_generation []"
    by (simp_all add: reference_groups_def first_keys_def one_generation_def)
  with group_items_reference [of "[]" items] show ?thesis by (simp add: prepareBatchGroups_def)
qed

end
