(* ===== verification/GoText.thy ===== *)
theory GoText
  imports GoStrings "HOL-Library.Sublist"
begin

text \<open>
  More of Go's \<open>strings\<close> and \<open>strconv\<close>: searching, splitting at a single byte, suffixes, ASCII
  lower-casing and the conversion of 64-bit integers, with the facts about segments that the naming
  schemes of the broker adapters rest on.
\<close>

section \<open>Searching\<close>

fun Index :: "string \<Rightarrow> string \<Rightarrow> nat option" where
  "Index [] p = (if p = [] then Some 0 else None)"
| "Index (c # s) p = (if prefix p (c # s) then Some 0 else map_option Suc (Index s p))"

fun LastIndex :: "string \<Rightarrow> string \<Rightarrow> nat option" where
  "LastIndex [] p = (if p = [] then Some 0 else None)"
| "LastIndex (c # s) p =
    (case LastIndex s p of Some i \<Rightarrow> Some (Suc i) | None \<Rightarrow> if prefix p (c # s) then Some 0 else None)"

definition HasPrefix :: "string \<Rightarrow> string \<Rightarrow> bool" where
  "HasPrefix s p \<longleftrightarrow> prefix p s"

definition HasSuffix :: "string \<Rightarrow> string \<Rightarrow> bool" where
  "HasSuffix s p \<longleftrightarrow> suffix p s"

definition TrimSuffix :: "string \<Rightarrow> string \<Rightarrow> string" where
  "TrimSuffix s p = (if HasSuffix s p then take (length s - length p) s else s)"

section \<open>Splitting\<close>

text \<open>\<open>strings.Split\<close> with a separator of one byte: there is always at least one segment.\<close>

fun Split :: "char \<Rightarrow> string \<Rightarrow> string list" where
  "Split x [] = [[]]"
| "Split x (c # s) = (if c = x then [] # Split x s else (c # hd (Split x s)) # tl (Split x s))"

section \<open>Case\<close>

definition lower_char :: "char \<Rightarrow> char" where
  "lower_char c = (if inR 65 90 c then char_of (of_char c + 32 :: nat) else c)"

text \<open>
  \<open>strings.ToLower\<close> as far as it yields ASCII. Two runes outside ASCII have an ASCII lower case,
  U+0130 (\<open>i\<close>) and U+212A (\<open>k\<close>); the lower case of every other rune outside ASCII is outside ASCII, and
  its bytes are left alone here. The program only compares the result with ASCII names.
\<close>

fun ToLower :: "string \<Rightarrow> string" where
  "ToLower [] = []"
| "ToLower (c # s) =
    (if c = byte 196 \<and> take 1 s = [byte 176] then CHR ''i'' # ToLower (drop 1 s)
     else if c = byte 226 \<and> take 2 s = [byte 132, byte 170] then CHR ''k'' # ToLower (drop 2 s)
     else lower_char c # ToLower s)"

section \<open>Integers\<close>

definition Itoa :: "int \<Rightarrow> string" where
  "Itoa i = (if i < 0 then CHR ''-'' # decimal (nat (- i)) else decimal (nat i))"

definition parse_digits :: "string \<Rightarrow> nat option" where
  "parse_digits s = (if s \<noteq> [] \<and> list_all is_digit s then Some (undecimal s) else None)"

text \<open>\<open>strconv.ParseInt\<close> in base 10 for a signed type of \<open>b\<close> bits, and \<open>strconv.ParseUint\<close>.\<close>

definition ParseInt :: "nat \<Rightarrow> string \<Rightarrow> int option" where
  "ParseInt b s =
    (let neg = (s \<noteq> [] \<and> hd s = CHR ''-'');
         body = (if s \<noteq> [] \<and> (hd s = CHR ''-'' \<or> hd s = CHR ''+'') then tl s else s)
     in case parse_digits body of
          None \<Rightarrow> None
        | Some n \<Rightarrow>
           (let v = (if neg then - int n else int n) in
            if - (2 ^ (b - 1)) \<le> v \<and> v < 2 ^ (b - 1) then Some v else None))"

definition ParseUint :: "nat \<Rightarrow> string \<Rightarrow> nat option" where
  "ParseUint b s = (case parse_digits s of None \<Rightarrow> None | Some n \<Rightarrow> if n < 2 ^ b then Some n else None)"

definition Atoi :: "string \<Rightarrow> int option" where
  "Atoi s = ParseInt 64 s"

section \<open>Facts\<close>

lemma Split_nonempty [simp]: "Split x s \<noteq> []"
  by (cases s) auto

lemma Split_append: "Split x (a @ x # b) = Split x a @ Split x b"
proof (induction a)
  case (Cons c a)
  then show ?case by (cases "Split x a") auto
qed simp

lemma Split_single: "x \<notin> set s \<Longrightarrow> Split x s = [s]"
  by (induction s) auto

lemma Split_inject: "Split x a = Split x b \<Longrightarrow> a = b"
proof (induction a arbitrary: b)
  case Nil
  then show ?case by (cases b) (auto dest: sym split: if_splits)
next
  case (Cons c a)
  note IH = Cons.IH and eq = Cons.prems
  have tl_eq: "hd (Split x a) = hd (Split x b') \<Longrightarrow> tl (Split x a) = tl (Split x b') \<Longrightarrow> a = b'" for b'
    using IH [of b'] list.expand [of "Split x a" "Split x b'"] by auto
  show ?case
  proof (cases b)
    case Nil
    with eq show ?thesis by (auto split: if_splits)
  next
    case (Cons d b')
    then show ?thesis
      using eq IH [of b'] tl_eq [of b'] by (auto split: if_splits)
  qed
qed

lemma Split_no_sep: "seg \<in> set (Split x s) \<Longrightarrow> x \<notin> set seg"
proof (induction s arbitrary: seg)
  case (Cons c s)
  then have "x \<notin> set (hd (Split x s))" by simp
  with Cons show ?case by (auto split: if_splits dest: list.set_sel(2) [rotated])
qed simp

lemma Index_Some_split: "Index s p = Some i \<Longrightarrow> \<exists>r. s = take i s @ p @ r \<and> i + length p \<le> length s"
proof (induction s arbitrary: i)
  case (Cons c s)
  show ?case
  proof (cases "prefix p (c # s)")
    case True
    with Cons.prems show ?thesis using prefix_length_le [OF True] by (auto simp: prefix_def)
  next
    case False
    with Cons.prems obtain j where j: "Index s p = Some j" "i = Suc j" by auto
    from Cons.IH [OF j(1)] obtain r where "s = take j s @ p @ r" "j + length p \<le> length s" by blast
    with j(2) show ?thesis by auto
  qed
qed (auto split: if_splits)

lemma Index_le: "s = a @ p @ r \<Longrightarrow> \<exists>i. Index s p = Some i \<and> i \<le> length a"
proof (induction a arbitrary: s)
  case Nil
  then have "prefix p s" by simp
  then show ?case by (cases s) auto
next
  case (Cons c a)
  then obtain i where "Index (a @ p @ r) p = Some i" "i \<le> length a" by blast
  with Cons.prems show ?case by auto
qed

lemma LastIndex_unique:
  assumes "\<And>u v. y = u @ v \<Longrightarrow> u \<noteq> [] \<Longrightarrow> \<not> prefix p v" and "prefix p y" and "p \<noteq> []"
  shows "LastIndex (x @ y) p = Some (length x)"
proof -
  have none: "LastIndex v p = None" if "\<And>u w. v = u @ w \<Longrightarrow> \<not> prefix p w" for v
    using that
  proof (induction v)
    case Nil
    then show ?case using assms(3) by simp
  next
    case (Cons c v)
    have "\<not> prefix p (c # v)" using Cons.prems [of "[]" "c # v"] by simp
    moreover have "LastIndex v p = None" using Cons.IH Cons.prems [of "c # u" w for u w] by force
    ultimately show ?case by simp
  qed
  obtain c y' where y: "y = c # y'" using assms(2,3) by (cases y) auto
  have "LastIndex y' p = None" by (rule none) (use assms(1) [of "c # u" w for u w] y in auto)
  with assms(2) y have "LastIndex y p = Some 0" by simp
  then show ?thesis by (induction x) auto
qed

lemma parse_digits_decimal [simp]: "parse_digits (decimal n) = Some n"
  by (simp add: parse_digits_def decimal_digits)

lemma decimal_hd_digit: "is_digit (hd (decimal n))"
  using decimal_digits [of n] by (cases "decimal n") auto

lemma ParseUint_decimal [simp]: "n < 2 ^ b \<Longrightarrow> ParseUint b (decimal n) = Some n"
  by (simp add: ParseUint_def)

lemma ParseInt_Itoa:
  assumes "- (2 ^ (b - 1)) \<le> i" and "i < 2 ^ (b - 1)"
  shows "ParseInt b (Itoa i) = Some i"
proof -
  have "hd (decimal (nat i)) \<noteq> CHR ''-''" "hd (decimal (nat i)) \<noteq> CHR ''+''"
    using decimal_hd_digit [of "nat i"] by (auto simp: is_digit_def inR_def)
  with assms show ?thesis by (auto simp: ParseInt_def Itoa_def Let_def)
qed

lemma Itoa_pos: "0 < i \<Longrightarrow> Itoa i = decimal (nat i)"
  by (simp add: Itoa_def)

lemma Itoa_inject: "0 < i \<Longrightarrow> 0 < j \<Longrightarrow> Itoa i = Itoa j \<longleftrightarrow> i = j"
  by (auto simp: Itoa_pos)

lemma decimal_no_dot: "CHR ''.'' \<notin> set (decimal n)"
  using decimal_digits [of n] by (auto simp: list_all_iff is_digit_def inR_def)

end
