(* ===== verification/GoEncoding.thy ===== *)
theory GoEncoding
  imports GoText Identity
begin

text \<open>
  The parts of \<open>encoding/base64\<close> and \<open>encoding/json\<close> the program uses directly: the standard base64 alphabet
  with padding, and the JSON text of strings, numbers and flat structures as \<open>json.Marshal\<close> writes them.
\<close>

section \<open>Base64\<close>

definition b64_char :: "nat \<Rightarrow> char" where
  "b64_char n =
    (if n < 26 then char_of (65 + n)
     else if n < 52 then char_of (71 + n)
     else if n < 62 then char_of (n - 4)
     else if n = 62 then CHR ''+'' else CHR ''/'')"

definition b64_value :: "char \<Rightarrow> nat option" where
  "b64_value c =
    (let n = of_char c :: nat in
     if 65 \<le> n \<and> n \<le> 90 then Some (n - 65)
     else if 97 \<le> n \<and> n \<le> 122 then Some (n - 71)
     else if 48 \<le> n \<and> n \<le> 57 then Some (n + 4)
     else if c = CHR ''+'' then Some 62
     else if c = CHR ''/'' then Some 63 else None)"

fun b64_encode_bytes :: "nat list \<Rightarrow> string" where
  "b64_encode_bytes [] = []"
| "b64_encode_bytes [a] = [b64_char (a div 4), b64_char (a mod 4 * 16), CHR ''='', CHR ''='']"
| "b64_encode_bytes [a, b] =
    [b64_char (a div 4), b64_char (a mod 4 * 16 + b div 16), b64_char (b mod 16 * 4), CHR ''='']"
| "b64_encode_bytes (a # b # c # bs) =
    [b64_char (a div 4), b64_char (a mod 4 * 16 + b div 16), b64_char (b mod 16 * 4 + c div 64), b64_char (c mod 64)] @
    b64_encode_bytes bs"

definition base64_encode :: "string \<Rightarrow> string" where
  "base64_encode s = b64_encode_bytes (map of_char s)"

text \<open>
  Decoding reads groups of four characters; only the last one may be padded. Line breaks are skipped and
  the unused bits of a padded group are not checked, as in \<open>StdEncoding\<close>.
\<close>

definition b64_group :: "nat \<Rightarrow> nat \<Rightarrow> nat \<Rightarrow> nat \<Rightarrow> nat list" where
  "b64_group i j k l = [i * 4 + j div 16, j mod 16 * 16 + k div 4, k mod 4 * 64 + l]"

fun b64_decode_chars :: "string \<Rightarrow> nat list option" where
  "b64_decode_chars [] = Some []"
| "b64_decode_chars (w # x # y # z # rest) =
    (case (b64_value w, b64_value x) of
       (Some i, Some j) \<Rightarrow>
        (case (b64_value y, b64_value z) of
           (Some k, Some l) \<Rightarrow> map_option ((@) (b64_group i j k l)) (b64_decode_chars rest)
         | (Some k, None) \<Rightarrow> if z = CHR ''='' \<and> rest = [] then Some (take 2 (b64_group i j k 0)) else None
         | (None, _) \<Rightarrow> if y = CHR ''='' \<and> z = CHR ''='' \<and> rest = [] then Some (take 1 (b64_group i j 0 0)) else None)
     | _ \<Rightarrow> None)"
| "b64_decode_chars _ = None"

definition base64_decode :: "string \<Rightarrow> string option" where
  "base64_decode s =
    map_option (map char_of) (b64_decode_chars (filter (\<lambda>c. c \<noteq> byte 10 \<and> c \<noteq> byte 13) s))"

lemma b64_value_char [simp]: "n < 64 \<Longrightarrow> b64_value (b64_char n) = Some n"
  by (auto simp: b64_char_def b64_value_def Let_def)

lemma b64_value_pad [simp]: "b64_value (CHR ''='') = None"
  by (simp add: b64_value_def)

lemma b64_group_bytes:
  assumes "a < 256" and "b < 256" and "c < 256"
  shows "b64_group (a div 4) (a mod 4 * 16 + b div 16) (b mod 16 * 4 + c div 64) (c mod 64) = [a, b, c]"
proof -
  have "(a mod 4 * 16 + b div 16) div 16 = a mod 4" "(a mod 4 * 16 + b div 16) mod 16 = b div 16"
    "(b mod 16 * 4 + c div 64) div 4 = b mod 16" "(b mod 16 * 4 + c div 64) mod 4 = c div 64"
    using assms by (auto simp: div_less_iff_less_mult)
  then show ?thesis by (simp add: b64_group_def)
qed

lemma b64_decode_encode: "\<forall>b\<in>set bs. b < 256 \<Longrightarrow> b64_decode_chars (b64_encode_bytes bs) = Some bs"
proof (induction bs rule: b64_encode_bytes.induct)
  case (2 a)
  then show ?case using b64_group_bytes [of a 0 0] by (simp add: div_less_iff_less_mult)
next
  case (3 a b)
  then have "a div 4 < 64" "a mod 4 * 16 + b div 16 < 64" "b mod 16 * 4 < 64" by (auto simp: div_less_iff_less_mult)
  then show ?case using 3 b64_group_bytes [of a b 0] by simp
next
  case (4 a b c bs)
  have "a div 4 < 64" "a mod 4 * 16 + b div 16 < 64" "b mod 16 * 4 + c div 64 < 64" "c mod 64 < 64"
    using 4(2) by (auto simp: div_less_iff_less_mult)
  then show ?case using 4 b64_group_bytes [of a b c] by simp
qed simp

lemma b64_char_visible: "32 < (of_char (b64_char n) :: nat)"
  by (auto simp: b64_char_def)

lemma b64_encode_visible: "c \<in> set (b64_encode_bytes bs) \<Longrightarrow> 32 < (of_char c :: nat)"
  by (induction bs rule: b64_encode_bytes.induct) (auto simp: b64_char_visible)

lemma b64_encode_ascii: "list_all (inR 0 127) (b64_encode_bytes bs)"
proof -
  have "inR 0 127 (b64_char n)" for n by (auto simp: b64_char_def inR_def)
  then show ?thesis by (induction bs rule: b64_encode_bytes.induct) (auto simp: inR_def)
qed

lemma b64_encode_chars: "c \<in> set (b64_encode_bytes bs) \<Longrightarrow> c \<noteq> byte 10 \<and> c \<noteq> byte 13"
  using b64_encode_visible [of c bs] by (auto simp: byte_def)

lemma base64_roundtrip: "base64_decode (base64_encode s) = Some s"
proof -
  have "filter (\<lambda>c. c \<noteq> byte 10 \<and> c \<noteq> byte 13) (base64_encode s) = base64_encode s"
    unfolding base64_encode_def by (rule filter_True) (use b64_encode_chars in blast)
  moreover have "map char_of (map of_char s :: nat list) = s" by (induction s) auto
  ultimately show ?thesis by (simp add: base64_decode_def b64_decode_encode base64_encode_def)
qed

lemma length_base64: "3 * length (base64_encode s) \<le> 4 * length s + 8"
proof -
  have "3 * length (b64_encode_bytes bs) \<le> 4 * length bs + 8" for bs
    by (induction bs rule: b64_encode_bytes.induct) auto
  from this [of "map of_char s"] show ?thesis by (simp add: base64_encode_def)
qed

section \<open>JSON text\<close>

definition json_escape :: "char \<Rightarrow> string" where
  "json_escape c =
    (let n = of_char c :: nat in
     if c = CHR ''\"'' \<or> c = byte 92 then [byte 92, c]
     else if n = 8 then [byte 92, CHR ''b''] else if n = 9 then [byte 92, CHR ''t'']
     else if n = 10 then [byte 92, CHR ''n''] else if n = 12 then [byte 92, CHR ''f'']
     else if n = 13 then [byte 92, CHR ''r'']
     else if n < 32 \<or> c = CHR ''<'' \<or> c = CHR ''>'' \<or> c = CHR ''&'' then byte 92 # ''u00'' @ hexs 2 n
     else [c])"

text \<open>The body of a string: well-formed runes are kept, the two line separators and invalid bytes are escaped.\<close>

function json_chars :: "string \<Rightarrow> string" where
  "json_chars s =
    (if s = [] then []
     else if rune_len s = 0 then byte 92 # ''ufffd'' @ json_chars (drop 1 s)
     else if rune_len s = 1 then json_escape (hd s) @ json_chars (drop 1 s)
     else if take 3 s = [byte 226, byte 128, byte 168] then byte 92 # ''u2028'' @ json_chars (drop 3 s)
     else if take 3 s = [byte 226, byte 128, byte 169] then byte 92 # ''u2029'' @ json_chars (drop 3 s)
     else take (rune_len s) s @ json_chars (drop (rune_len s) s))"
  by auto
termination
  by (relation "measure length") (auto simp: length_greater_0_conv [symmetric] simp del: length_greater_0_conv)

declare json_chars.simps [simp del]

definition json_string :: "string \<Rightarrow> string" where
  "json_string s = CHR ''\"'' # json_chars s @ [CHR ''\"'']"

text \<open>An object whose values are already encoded.\<close>

fun json_members :: "(string \<times> string) list \<Rightarrow> string" where
  "json_members [] = []"
| "json_members [(name, v)] = json_string name @ '':'' @ v"
| "json_members ((name, v) # ms) = json_string name @ '':'' @ v @ '','' @ json_members ms"

definition json_object :: "(string \<times> string) list \<Rightarrow> string" where
  "json_object ms = ''{'' @ json_members ms @ ''}''"

lemma length_json_escape: "length (json_escape c) \<le> 6"
  by (simp add: json_escape_def Let_def)

lemma length_json_chars: "length (json_chars s) \<le> 6 * length s"
proof (induction s rule: json_chars.induct)
  case (1 s)
  note len = rune_len_le [of s]
  consider "s = []" | "s \<noteq> []" "rune_len s = 0" | "s \<noteq> []" "rune_len s = 1"
    | "s \<noteq> []" "rune_len s > 1" "take 3 s = [byte 226, byte 128, byte 168]"
    | "s \<noteq> []" "rune_len s > 1" "take 3 s \<noteq> [byte 226, byte 128, byte 168]" "take 3 s = [byte 226, byte 128, byte 169]"
    | "s \<noteq> []" "rune_len s > 1" "take 3 s \<noteq> [byte 226, byte 128, byte 168]" "take 3 s \<noteq> [byte 226, byte 128, byte 169]"
    by linarith
  then show ?case
  proof cases
    case 1
    then show ?thesis by (simp add: json_chars.simps)
  next
    case 2
    then obtain n where n: "length s = Suc n" by (cases s) auto
    have "length (json_chars (drop 1 s)) \<le> 6 * n" using "1.IH"(1) 2 by (simp add: n)
    then show ?thesis using 2 by (subst json_chars.simps) (simp add: n)
  next
    case 3
    then obtain n where n: "length s = Suc n" by (cases s) auto
    have "length (json_chars (drop 1 s)) \<le> 6 * n" using "1.IH"(2) 3 by (simp add: n)
    then show ?thesis using 3 length_json_escape [of "hd s"] by (subst json_chars.simps) (simp add: n)
  next
    case 4
    then have "length s = 3 + length (drop 3 s)" by (metis append_take_drop_id length_append length_Cons list.size(3) numeral_3_eq_3)
    moreover have "length (json_chars (drop 3 s)) \<le> 6 * length (drop 3 s)" using "1.IH"(3) 4 by simp
    ultimately show ?thesis using 4 by (subst json_chars.simps) simp
  next
    case 5
    then have "length s = 3 + length (drop 3 s)" by (metis append_take_drop_id length_append length_Cons list.size(3) numeral_3_eq_3)
    moreover have "length (json_chars (drop 3 s)) \<le> 6 * length (drop 3 s)" using "1.IH"(4) 5 by simp
    ultimately show ?thesis using 5 by (subst json_chars.simps) simp
  next
    case 6
    then have "length (json_chars (drop (rune_len s) s)) \<le> 6 * (length s - rune_len s)" using "1.IH"(5) by simp
    then show ?thesis using 6 len by (subst json_chars.simps) simp
  qed
qed

lemma length_json_string: "length (json_string s) \<le> 6 * length s + 2"
  using length_json_chars [of s] by (simp add: json_string_def)

lemma length_json_members:
  "length (json_members ms) \<le> sum_list (map (\<lambda>(name, v). length (json_string name) + length v + 2) ms)"
  by (induction ms rule: json_members.induct) auto

end
