(* ===== verification/Envelope.thy ===== *)
theory Envelope
  imports GoEncoding
begin

text \<open>
  The native wire envelope: \<open>envelope.go\<close>, the typed encoding of \<open>decode.go\<close> and \<open>validateSource\<close> of
  \<open>builder.go\<close>. The JSON reader and writer and \<open>url.Parse\<close> are parameters collected in \<open>wire_lib\<close>; \<open>wire_laws\<close>
  says what is used of them. Headers are an association list in the order a map range visits them.
\<close>

section \<open>Envelopes\<close>

definition EnvelopeSpecVersion :: string where "EnvelopeSpecVersion = ''1.0''"
definition MaxEnvelopeBytes :: nat where "MaxEnvelopeBytes = 1048576"
definition DefaultMaxHeaders :: nat where "DefaultMaxHeaders = 64"
definition DefaultMaxHeaderBytes :: nat where "DefaultMaxHeaderBytes = 16384"

record envelope =
  ev_SpecVersion :: string
  ev_ID :: messageID
  ev_Kind :: kind
  ev_Name :: string
  ev_SchemaVersion :: int
  ev_Source :: string
  ev_Subject :: string
  ev_Time :: instant
  ev_CorrelationID :: messageID
  ev_CausationID :: messageID
  ev_Key :: string
  ev_ContentType :: string
  ev_DataEncoding :: dataEncoding
  ev_Schema :: string
  ev_Headers :: "(string \<times> string) list"
  ev_NotBefore :: instant
  ev_ExpiresAt :: instant
  ev_Data :: "string option"
  ev_DataBase64 :: "string option"

record wire_lib =
  wl_Valid :: "string \<Rightarrow> bool"
  wl_EncodeText :: "string \<Rightarrow> string"
  wl_DecodeText :: "string \<Rightarrow> string option"
  wl_Marshal :: "envelope \<Rightarrow> err + string"
  wl_Decode :: "string \<Rightarrow> err + envelope"
  wl_ParseURL :: "string \<Rightarrow> err option"

definition invalid_message :: "string \<Rightarrow> err" where
  "invalid_message t = Wrap t [Sentinel ErrInvalidMessage]"

definition Metadata :: "envelope \<Rightarrow> metadata" where
  "Metadata e =
    \<lparr>md_ID = ev_ID e, md_Kind = ev_Kind e, md_Name = ev_Name e, md_SchemaVersion = ev_SchemaVersion e,
     md_Source = ev_Source e, md_Subject = ev_Subject e, md_Time = ev_Time e,
     md_CorrelationID = ev_CorrelationID e, md_CausationID = ev_CausationID e, md_Key = ev_Key e,
     md_ContentType = ev_ContentType e, md_Schema = ev_Schema e, md_Headers = ev_Headers e,
     md_NotBefore = ev_NotBefore e, md_ExpiresAt = ev_ExpiresAt e\<rparr>"

definition validateSource :: "wire_lib \<Rightarrow> string \<Rightarrow> err option" where
  "validateSource L source =
    (if source = [] \<or> TrimSpace source \<noteq> source then Some (invalid_message ''source is required'')
     else case wl_ParseURL L source of
       Some e \<Rightarrow> Some (Wrap ''invalid source'' [Sentinel ErrInvalidMessage, e])
     | None \<Rightarrow> None)"

section \<open>Headers\<close>

text \<open>
  \<open>strings.EqualFold\<close> with a lower-case ASCII name: ASCII letters fold to lower case, and the two runes outside
  ASCII that fold to ASCII letters are U+017F (\<open>s\<close>) and U+212A (\<open>k\<close>).
\<close>

fun fold_ascii :: "string \<Rightarrow> string" where
  "fold_ascii [] = []"
| "fold_ascii (c # s) =
    (if c = byte 197 \<and> take 1 s = [byte 191] then CHR ''s'' # fold_ascii (drop 1 s)
     else if c = byte 226 \<and> take 2 s = [byte 132, byte 170] then CHR ''k'' # fold_ascii (drop 2 s)
     else lower_char c # fold_ascii s)"

definition EqualFold :: "string \<Rightarrow> string \<Rightarrow> bool" where
  "EqualFold s name \<longleftrightarrow> fold_ascii s = name"

definition has_line_break :: "string \<Rightarrow> bool" where
  "has_line_break s \<longleftrightarrow> byte 13 \<in> set s \<or> byte 10 \<in> set s"

fun check_headers :: "(string \<times> string) list \<Rightarrow> nat \<Rightarrow> bool \<Rightarrow> bool \<Rightarrow> err + nat" where
  "check_headers [] bytes traceParentSeen traceStateSeen = Inr bytes"
| "check_headers ((key, v) # headers) bytes traceParentSeen traceStateSeen =
    (if key = [] \<or> TrimSpace key \<noteq> key \<or> has_line_break key \<or> has_line_break v
     then Inl (invalid_message ''invalid header'')
     else if EqualFold key ''traceparent'' then
       (if traceParentSeen then Inl (invalid_message ''duplicate trace header'')
        else check_headers headers (bytes + length key + length v) True traceStateSeen)
     else if EqualFold key ''tracestate'' then
       (if traceStateSeen then Inl (invalid_message ''duplicate trace header'')
        else check_headers headers (bytes + length key + length v) traceParentSeen True)
     else check_headers headers (bytes + length key + length v) traceParentSeen traceStateSeen)"

definition validateHeaders :: "(string \<times> string) list \<Rightarrow> err option" where
  "validateHeaders headers =
    (if length headers > DefaultMaxHeaders then Some (invalid_message ''too many headers'')
     else case check_headers headers 0 False False of
       Inl e \<Rightarrow> Some e
     | Inr bytes \<Rightarrow>
        if bytes > DefaultMaxHeaderBytes then Some (invalid_message ''headers exceed byte limit'') else None)"

section \<open>Payloads and validation\<close>

definition ev_payload :: "wire_lib \<Rightarrow> envelope \<Rightarrow> err + string" where
  "ev_payload L e =
    (if ev_DataEncoding e = DataBinary then
       (case (ev_Data e, ev_DataBase64 e) of
          (None, Some encoded) \<Rightarrow>
           (case base64_decode encoded of
              None \<Rightarrow> Inl (Wrap ''decode dataBase64'' [Sentinel ErrInvalidMessage, Plain ''illegal base64 data''])
            | Some data \<Rightarrow> Inr data)
        | _ \<Rightarrow> Inl (invalid_message ''binary data requires dataBase64''))
     else if ev_DataEncoding e = DataText then
       (case (ev_Data e, ev_DataBase64 e) of
          (Some data, None) \<Rightarrow>
           (case wl_DecodeText L data of
              None \<Rightarrow> Inl (Wrap ''decode text data'' [Sentinel ErrInvalidMessage, Plain ''json: cannot unmarshal''])
            | Some v \<Rightarrow> Inr v)
        | _ \<Rightarrow> Inl (invalid_message ''text data requires data''))
     else if ev_DataEncoding e = DataJSON then
       (case (ev_Data e, ev_DataBase64 e) of
          (Some data, None) \<Rightarrow>
            if \<not> wl_Valid L data then Inl (invalid_message ''invalid JSON data'') else Inr data
        | _ \<Rightarrow> Inl (invalid_message ''JSON data requires data''))
     else Inl (invalid_message ''unknown data encoding''))"

definition Validate :: "wire_lib \<Rightarrow> envelope \<Rightarrow> err option" where
  "Validate L e =
    (if ev_SpecVersion e \<noteq> EnvelopeSpecVersion \<or> mid_IsZero (ev_ID e) \<or> \<not> kind_validWire (ev_Kind e) \<or>
        length (ev_Name e) = 0 \<or> length (ev_Name e) > maxDescriptorNameLength \<or> \<not> descriptorNamePattern (ev_Name e) \<or>
        ev_SchemaVersion e \<le> 0 \<or> IsZeroTime (ev_Time e) \<or> mid_IsZero (ev_CorrelationID e) \<or>
        ev_ContentType e = [] \<or> \<not> encoding_valid (ev_DataEncoding e)
     then Some (invalid_message ''incomplete envelope'')
     else case validateSource L (ev_Source e) of
       Some x \<Rightarrow> Some x
     | None \<Rightarrow>
        (case ev_payload L e of
           Inl x \<Rightarrow> Some x
         | Inr _ \<Rightarrow>
            if \<not> IsZeroTime (ev_NotBefore e) \<and> \<not> IsZeroTime (ev_ExpiresAt e) \<and> \<not> ev_ExpiresAt e > ev_NotBefore e
            then Some (invalid_message ''expiresAt must follow notBefore'')
            else validateHeaders (ev_Headers e)))"

definition Payload :: "wire_lib \<Rightarrow> envelope \<Rightarrow> (err + string) \<times> dataEncoding" where
  "Payload L e = (ev_payload L e, ev_DataEncoding e)"

section \<open>Encoding and decoding\<close>

definition bare_envelope :: "metadata \<Rightarrow> dataEncoding \<Rightarrow> envelope" where
  "bare_envelope m encoding =
    \<lparr>ev_SpecVersion = EnvelopeSpecVersion, ev_ID = md_ID m, ev_Kind = md_Kind m, ev_Name = md_Name m,
     ev_SchemaVersion = md_SchemaVersion m, ev_Source = md_Source m, ev_Subject = md_Subject m, ev_Time = md_Time m,
     ev_CorrelationID = md_CorrelationID m, ev_CausationID = md_CausationID m, ev_Key = md_Key m,
     ev_ContentType = md_ContentType m, ev_DataEncoding = encoding, ev_Schema = md_Schema m,
     ev_Headers = md_Headers m, ev_NotBefore = md_NotBefore m, ev_ExpiresAt = md_ExpiresAt m,
     ev_Data = None, ev_DataBase64 = None\<rparr>"

definition with_payload :: "wire_lib \<Rightarrow> string \<Rightarrow> dataEncoding \<Rightarrow> envelope \<Rightarrow> err + envelope" where
  "with_payload L payload encoding e =
    (if encoding = DataJSON then
       (let payload = (if length payload = 0 then ''null'' else payload) in
        if \<not> wl_Valid L payload then Inl (invalid_message ''codec returned invalid JSON'')
        else Inr (e\<lparr>ev_Data := Some payload\<rparr>))
     else if encoding = DataText then Inr (e\<lparr>ev_Data := Some (wl_EncodeText L payload)\<rparr>)
     else if encoding = DataBinary then Inr (e\<lparr>ev_DataBase64 := Some (base64_encode payload)\<rparr>)
     else Inl (invalid_message ''unknown data encoding''))"

definition envelopeFrom :: "wire_lib \<Rightarrow> metadata \<Rightarrow> string \<Rightarrow> dataEncoding \<Rightarrow> err + envelope" where
  "envelopeFrom L m payload encoding =
    (case with_payload L payload encoding (bare_envelope m encoding) of
       Inl x \<Rightarrow> Inl x
     | Inr e \<Rightarrow> (case Validate L e of Some x \<Rightarrow> Inl x | None \<Rightarrow> Inr e))"

definition MarshalEnvelope :: "wire_lib \<Rightarrow> metadata \<Rightarrow> string \<Rightarrow> dataEncoding \<Rightarrow> err + string" where
  "MarshalEnvelope L m payload encoding =
    (case envelopeFrom L m payload encoding of
       Inl x \<Rightarrow> Inl x
     | Inr e \<Rightarrow>
        (case wl_Marshal L e of
           Inl x \<Rightarrow> Inl (Wrap ''messenger: marshal envelope'' [x])
         | Inr data \<Rightarrow>
            if length data > MaxEnvelopeBytes then Inl (Wrap ''got bytes'' [Sentinel ErrEnvelopeTooLarge]) else Inr data))"

definition UnmarshalEnvelope :: "wire_lib \<Rightarrow> string \<Rightarrow> err + envelope" where
  "UnmarshalEnvelope L data =
    (if length data > MaxEnvelopeBytes then Inl (Wrap ''got bytes'' [Sentinel ErrEnvelopeTooLarge])
     else case wl_Decode L data of
       Inl x \<Rightarrow> Inl (Wrap ''decode envelope'' [Sentinel ErrInvalidMessage, x])
     | Inr e \<Rightarrow> (case Validate L e of Some x \<Rightarrow> Inl x | None \<Rightarrow> Inr e))"

definition CanonicalizeEnvelope :: "wire_lib \<Rightarrow> string \<Rightarrow> err + string" where
  "CanonicalizeEnvelope L data =
    (case UnmarshalEnvelope L data of
       Inl x \<Rightarrow> Inl x
     | Inr e \<Rightarrow>
        (case Payload L e of
           (Inl x, _) \<Rightarrow> Inl x
         | (Inr payload, encoding) \<Rightarrow> MarshalEnvelope L (Metadata e) payload encoding))"

section \<open>Typed messages\<close>

record 't typed_codec =
  tc_Encode :: "'t \<Rightarrow> err + string"
  tc_Decode :: "string \<Rightarrow> err + 't"
  tc_Encoding :: dataEncoding

definition encodeTypedEnvelope ::
  "wire_lib \<Rightarrow> descriptorInfo \<Rightarrow> 't typed_codec \<Rightarrow> metadata \<Rightarrow> 't \<Rightarrow> err + string" where
  "encodeTypedEnvelope L d codec m payload =
    (if md_Kind m \<noteq> di_Kind d \<or> md_Name m \<noteq> di_Name d \<or> md_SchemaVersion m \<noteq> di_SchemaVersion d \<or>
        md_ContentType m \<noteq> di_ContentType d \<or> md_Schema m \<noteq> di_Schema d
     then Inl (Wrap ''metadata does not match'' [Sentinel ErrDescriptorConflict])
     else case tc_Encode codec payload of
       Inl x \<Rightarrow> Inl x
     | Inr data \<Rightarrow> MarshalEnvelope L m data (tc_Encoding codec))"

definition validateEnvelopeDescriptor :: "envelope \<Rightarrow> descriptorInfo \<Rightarrow> err option" where
  "validateEnvelopeDescriptor e d =
    (if ev_Kind e \<noteq> di_Kind d \<or> ev_Name e \<noteq> di_Name d \<or> ev_SchemaVersion e \<noteq> di_SchemaVersion d \<or>
        ev_ContentType e \<noteq> di_ContentType d \<or> ev_DataEncoding e \<noteq> di_DataEncoding d \<or> ev_Schema e \<noteq> di_Schema d
     then Some (Wrap ''envelope does not match'' [Sentinel ErrDescriptorConflict]) else None)"

definition decodeMessage :: "wire_lib \<Rightarrow> descriptorInfo \<Rightarrow> 't typed_codec \<Rightarrow> string \<Rightarrow> err + metadata \<times> 't" where
  "decodeMessage L d codec data =
    (case UnmarshalEnvelope L data of
       Inl x \<Rightarrow> Inl x
     | Inr e \<Rightarrow>
        (case validateEnvelopeDescriptor e d of
           Some x \<Rightarrow> Inl x
         | None \<Rightarrow>
            (case Payload L e of
               (Inl x, _) \<Rightarrow> Inl x
             | (Inr payload, encoding) \<Rightarrow>
                if encoding \<noteq> tc_Encoding codec then Inl (Wrap ''payload encoding'' [Sentinel ErrDescriptorConflict])
                else case tc_Decode codec payload of Inl x \<Rightarrow> Inl x | Inr v \<Rightarrow> Inr (Metadata e, v))))"

section \<open>What is used of the JSON library\<close>

text \<open>
  \<open>wl_compact\<close> is what the writer does to embedded JSON: it is compacted and its HTML characters are escaped.
  An envelope whose strings are well-formed UTF-8 and whose times are in the years 1 to 9999 is decoded
  from its encoding up to that, the encoding does not change once the data is compact, and decoded
  envelopes have such strings and times. Texts survive encoding and decoding.
\<close>

definition wire_strings :: "envelope \<Rightarrow> string list" where
  "wire_strings e =
    [ev_SpecVersion e, ev_Kind e, ev_Name e, ev_Source e, ev_Subject e, ev_Key e, ev_ContentType e, ev_Schema e] @
    map fst (ev_Headers e) @ map snd (ev_Headers e) @ (case ev_DataBase64 e of None \<Rightarrow> [] | Some b \<Rightarrow> [b])"

definition wire_times :: "envelope \<Rightarrow> instant list" where
  "wire_times e = [ev_Time e, ev_NotBefore e, ev_ExpiresAt e]"

definition representable :: "(instant \<Rightarrow> bool) \<Rightarrow> envelope \<Rightarrow> bool" where
  "representable in_range e \<longleftrightarrow> list_all ValidString (wire_strings e) \<and> list_all in_range (wire_times e)"

definition compact_data :: "(string \<Rightarrow> string) \<Rightarrow> envelope \<Rightarrow> envelope" where
  "compact_data compact e = e\<lparr>ev_Data := map_option compact (ev_Data e)\<rparr>"

definition wire_laws :: "wire_lib \<Rightarrow> (string \<Rightarrow> string) \<Rightarrow> (instant \<Rightarrow> bool) \<Rightarrow> bool" where
  "wire_laws L compact in_range \<longleftrightarrow>
    (\<forall>e d. representable in_range e \<longrightarrow> wl_Marshal L e = Inr d \<longrightarrow>
      wl_Decode L d = Inr (compact_data compact e) \<and> wl_Marshal L (compact_data compact e) = Inr d) \<and>
    (\<forall>d e. wl_Decode L d = Inr e \<longrightarrow> representable in_range e) \<and>
    (\<forall>x. wl_Valid L x \<longrightarrow> x \<noteq> [] \<and> wl_Valid L (compact x)) \<and>
    (\<forall>x s. wl_DecodeText L x = Some s \<longrightarrow> ValidString s) \<and>
    (\<forall>s. ValidString s \<longrightarrow> wl_DecodeText L (wl_EncodeText L s) = Some s \<and> compact (wl_EncodeText L s) = wl_EncodeText L s)"

lemma wire_lawsD:
  assumes "wire_laws L compact in_range"
  shows "representable in_range e \<Longrightarrow> wl_Marshal L e = Inr d \<Longrightarrow>
      wl_Decode L d = Inr (compact_data compact e) \<and> wl_Marshal L (compact_data compact e) = Inr d"
    and "wl_Decode L d = Inr e \<Longrightarrow> representable in_range e"
    and "wl_Valid L x \<Longrightarrow> x \<noteq> [] \<and> wl_Valid L (compact x)"
    and "wl_DecodeText L x = Some s \<Longrightarrow> ValidString s"
    and "ValidString s \<Longrightarrow> wl_DecodeText L (wl_EncodeText L s) = Some s \<and> compact (wl_EncodeText L s) = wl_EncodeText L s"
  using assms unfolding wire_laws_def by blast+

section \<open>Canonical form\<close>

text \<open>The payload after a trip over the wire: JSON is compacted, text and bytes are unchanged.\<close>

definition carried :: "(string \<Rightarrow> string) \<Rightarrow> dataEncoding \<Rightarrow> string \<Rightarrow> string" where
  "carried compact encoding payload =
    (if encoding = DataJSON then compact (if payload = [] then ''null'' else payload) else payload)"

lemmas encoding_defs = DataJSON_def DataText_def DataBinary_def

lemma with_payload_fields:
  "with_payload L payload encoding (bare_envelope m encoding) = Inr e \<Longrightarrow>
    Metadata e = m \<and> ev_SpecVersion e = EnvelopeSpecVersion \<and> ev_DataEncoding e = encoding"
  by (auto simp: with_payload_def bare_envelope_def Metadata_def Let_def split: if_splits)

lemma envelopeFrom_facts:
  assumes "envelopeFrom L m payload encoding = Inr e"
  shows "with_payload L payload encoding (bare_envelope m encoding) = Inr e" and "Validate L e = None"
    and "Metadata e = m" and "ev_DataEncoding e = encoding"
  using assms with_payload_fields by (auto simp: envelopeFrom_def split: sum.splits option.splits)

lemma compact_fields [simp]:
  "Metadata (compact_data f e) = Metadata e" "ev_DataEncoding (compact_data f e) = ev_DataEncoding e"
  "ev_SpecVersion (compact_data f e) = ev_SpecVersion e"
  by (simp_all add: compact_data_def Metadata_def)

text \<open>Which payload an encoded envelope carries.\<close>

lemma payload_after_wire:
  assumes laws: "wire_laws L compact in_range"
    and made: "with_payload L payload encoding (bare_envelope m encoding) = Inr e"
    and utf8: "encoding = DataText \<Longrightarrow> ValidString payload"
  shows "ev_payload L (compact_data compact e) = Inr (carried compact encoding payload)"
proof -
  consider "encoding = DataJSON" | "encoding = DataText" | "encoding = DataBinary"
    using made by (auto simp: with_payload_def split: if_splits)
  then show ?thesis
  proof cases
    case 1
    then have "e = (bare_envelope m encoding)\<lparr>ev_Data := Some (if payload = [] then ''null'' else payload)\<rparr>"
      and "wl_Valid L (if payload = [] then ''null'' else payload)"
      using made by (auto simp: with_payload_def Let_def split: if_splits)
    then show ?thesis using wire_lawsD(3) [OF laws] 1
      by (simp add: ev_payload_def compact_data_def bare_envelope_def carried_def encoding_defs)
  next
    case 2
    then have "e = (bare_envelope m encoding)\<lparr>ev_Data := Some (wl_EncodeText L payload)\<rparr>"
      using made by (auto simp: with_payload_def encoding_defs)
    then show ?thesis using wire_lawsD(5) [OF laws utf8] 2
      by (simp add: ev_payload_def compact_data_def bare_envelope_def carried_def encoding_defs)
  next
    case 3
    then have "e = (bare_envelope m encoding)\<lparr>ev_DataBase64 := Some (base64_encode payload)\<rparr>"
      using made by (auto simp: with_payload_def encoding_defs)
    then show ?thesis using 3
      by (simp add: ev_payload_def compact_data_def bare_envelope_def carried_def encoding_defs base64_roundtrip)
  qed
qed

lemma payload_valid_text:
  assumes "wire_laws L compact in_range" and "ev_payload L e = Inr p" and "ev_DataEncoding e = DataText"
  shows "ValidString p"
  using assms wire_lawsD(4) [OF assms(1)] by (auto simp: ev_payload_def encoding_defs split: option.splits)

definition valid_metadata :: "wire_lib \<Rightarrow> metadata \<Rightarrow> bool" where
  "valid_metadata L m \<longleftrightarrow>
    \<not> mid_IsZero (md_ID m) \<and> kind_validWire (md_Kind m) \<and> length (md_Name m) \<noteq> 0 \<and>
    length (md_Name m) \<le> maxDescriptorNameLength \<and> descriptorNamePattern (md_Name m) \<and> 0 < md_SchemaVersion m \<and>
    \<not> IsZeroTime (md_Time m) \<and> \<not> mid_IsZero (md_CorrelationID m) \<and> md_ContentType m \<noteq> [] \<and>
    validateSource L (md_Source m) = None \<and>
    (IsZeroTime (md_NotBefore m) \<or> IsZeroTime (md_ExpiresAt m) \<or> md_NotBefore m < md_ExpiresAt m) \<and>
    validateHeaders (md_Headers m) = None"

lemma Validate_iff:
  "Validate L e = None \<longleftrightarrow>
    ev_SpecVersion e = EnvelopeSpecVersion \<and> encoding_valid (ev_DataEncoding e) \<and> valid_metadata L (Metadata e) \<and>
    (\<exists>p. ev_payload L e = Inr p)"
  by (auto simp: Validate_def valid_metadata_def Metadata_def not_less not_le split: option.split sum.split)

lemma representable_compact [simp]: "representable r (compact_data f e) = representable r e"
  by (simp add: representable_def wire_strings_def wire_times_def compact_data_def)

lemma ValidString_base64: "ValidString (base64_encode s)"
  unfolding base64_encode_def by (rule ValidString_ascii [OF b64_encode_ascii])

text \<open>An envelope rebuilt from decoded metadata can be written and read again.\<close>

lemma representable_rebuilt:
  assumes "representable r e" and "with_payload L payload encoding (bare_envelope (Metadata e) encoding) = Inr e'"
  shows "representable r e'"
proof -
  have "ValidString EnvelopeSpecVersion" by code_simp
  with assms show ?thesis
    by (auto simp: with_payload_def bare_envelope_def Metadata_def representable_def wire_strings_def wire_times_def
        Let_def ValidString_base64 list_all_append split: if_splits option.splits)
qed

text \<open>Marshalling and reading back.\<close>

lemma unmarshal_marshal:
  assumes laws: "wire_laws L compact r" and enc: "MarshalEnvelope L m payload encoding = Inr d"
    and rep: "\<And>e. with_payload L payload encoding (bare_envelope m encoding) = Inr e \<Longrightarrow> representable r e"
    and utf8: "encoding = DataText \<Longrightarrow> ValidString payload"
  obtains e0 e where "with_payload L payload encoding (bare_envelope m encoding) = Inr e0"
    and "e = compact_data compact e0" and "UnmarshalEnvelope L d = Inr e" and "Metadata e = m" and "ev_DataEncoding e = encoding"
    and "ev_payload L e = Inr (carried compact encoding payload)" and "wl_Marshal L e = Inr d"
    and "length d \<le> MaxEnvelopeBytes" and "Validate L e = None"
proof -
  obtain e0 where e0: "envelopeFrom L m payload encoding = Inr e0" and w: "wl_Marshal L e0 = Inr d"
    and len: "length d \<le> MaxEnvelopeBytes"
    using enc by (auto simp: MarshalEnvelope_def split: sum.splits if_splits)
  note F = envelopeFrom_facts [OF e0]
  let ?e = "compact_data compact e0"
  have wire: "wl_Decode L d = Inr ?e" "wl_Marshal L ?e = Inr d"
    using wire_lawsD(1) [OF laws rep [OF F(1)] w] by auto
  have pay: "ev_payload L ?e = Inr (carried compact encoding payload)"
    by (rule payload_after_wire [OF laws F(1) utf8])
  have val: "Validate L ?e = None" using F(2) pay by (simp add: Validate_iff)
  have "UnmarshalEnvelope L d = Inr ?e" using len wire(1) val by (simp add: UnmarshalEnvelope_def)
  then show ?thesis using that [of e0 ?e] pay wire(2) len F(1,3,4) val by simp
qed

lemma with_payload_carried:
  assumes laws: "wire_laws L compact r"
    and made: "with_payload L payload encoding (bare_envelope m encoding) = Inr e"
    and utf8: "encoding = DataText \<Longrightarrow> ValidString payload"
  shows "with_payload L (carried compact encoding payload) encoding (bare_envelope m encoding) = Inr (compact_data compact e)"
proof -
  consider "encoding = DataJSON" | "encoding = DataText" | "encoding = DataBinary"
    using made by (auto simp: with_payload_def split: if_splits)
  then show ?thesis
  proof cases
    case 1
    let ?p = "if payload = [] then ''null'' else payload"
    have e: "e = (bare_envelope m encoding)\<lparr>ev_Data := Some ?p\<rparr>" and v: "wl_Valid L ?p"
      using made 1 by (auto simp: with_payload_def Let_def split: if_splits)
    have "wl_Valid L (compact ?p)" using wire_lawsD(3) [OF laws v] by blast
    moreover from this have "compact ?p \<noteq> []" using wire_lawsD(3) [OF laws] by blast
    ultimately show ?thesis using 1
      by (simp add: with_payload_def carried_def compact_data_def bare_envelope_def e Let_def)
  next
    case 2
    then have "e = (bare_envelope m encoding)\<lparr>ev_Data := Some (wl_EncodeText L payload)\<rparr>"
      using made by (auto simp: with_payload_def encoding_defs)
    then show ?thesis using wire_lawsD(5) [OF laws utf8] 2
      by (simp add: with_payload_def carried_def compact_data_def bare_envelope_def encoding_defs)
  next
    case 3
    then have "e = (bare_envelope m encoding)\<lparr>ev_DataBase64 := Some (base64_encode payload)\<rparr>"
      using made by (auto simp: with_payload_def encoding_defs)
    then show ?thesis using 3
      by (simp add: with_payload_def carried_def compact_data_def bare_envelope_def encoding_defs)
  qed
qed

lemma marshal_again:
  assumes laws: "wire_laws L compact r" and enc: "MarshalEnvelope L m payload encoding = Inr d"
    and rep: "\<And>e. with_payload L payload encoding (bare_envelope m encoding) = Inr e \<Longrightarrow> representable r e"
    and utf8: "encoding = DataText \<Longrightarrow> ValidString payload"
  shows "MarshalEnvelope L m (carried compact encoding payload) encoding = Inr d"
proof -
  obtain e0 e where e0: "with_payload L payload encoding (bare_envelope m encoding) = Inr e0"
    and e: "e = compact_data compact e0" "wl_Marshal L e = Inr d" "length d \<le> MaxEnvelopeBytes" "Validate L e = None"
    using unmarshal_marshal [OF laws enc rep utf8] by metis
  have "envelopeFrom L m (carried compact encoding payload) encoding = Inr e"
    using with_payload_carried [OF laws e0 utf8] e by (simp add: envelopeFrom_def)
  then show ?thesis using e by (simp add: MarshalEnvelope_def)
qed

lemma unmarshal_representable:
  "wire_laws L compact r \<Longrightarrow> UnmarshalEnvelope L d = Inr e \<Longrightarrow> representable r e"
  using wire_lawsD(2) by (auto simp: UnmarshalEnvelope_def split: if_splits sum.splits option.splits)

lemma canonical_stable:
  assumes laws: "wire_laws L compact r" and canon: "CanonicalizeEnvelope L data = Inr c"
  obtains e e' p where "UnmarshalEnvelope L data = Inr e" and "UnmarshalEnvelope L c = Inr e'"
    and "Metadata e' = Metadata e" and "ev_DataEncoding e' = ev_DataEncoding e" and "ev_payload L e = Inr p"
    and "ev_payload L e' = Inr (carried compact (ev_DataEncoding e) p)" and "CanonicalizeEnvelope L c = Inr c"
proof -
  obtain e p where e: "UnmarshalEnvelope L data = Inr e" and p: "ev_payload L e = Inr p"
    and enc: "MarshalEnvelope L (Metadata e) p (ev_DataEncoding e) = Inr c"
    using canon by (auto simp: CanonicalizeEnvelope_def Payload_def split: sum.splits)
  have rep: "representable r e0" if "with_payload L p (ev_DataEncoding e) (bare_envelope (Metadata e) (ev_DataEncoding e)) = Inr e0" for e0
    using representable_rebuilt [OF unmarshal_representable [OF laws e] that] .
  have utf8: "ValidString p" if "ev_DataEncoding e = DataText" by (rule payload_valid_text [OF laws p that])
  obtain e' where e': "UnmarshalEnvelope L c = Inr e'" "Metadata e' = Metadata e"
    "ev_DataEncoding e' = ev_DataEncoding e" "ev_payload L e' = Inr (carried compact (ev_DataEncoding e) p)"
    using unmarshal_marshal [OF laws enc rep utf8] by metis
  have "CanonicalizeEnvelope L c = Inr c"
    using marshal_again [OF laws enc rep utf8] e' by (simp add: CanonicalizeEnvelope_def Payload_def)
  with that e e' p show ?thesis by blast
qed

lemma decode_encoded:
  assumes laws: "wire_laws L compact r" and enc: "encodeTypedEnvelope L d codec m v = Inr data"
    and info: "di_DataEncoding d = tc_Encoding codec"
    and codec: "\<And>b. tc_Encode codec v = Inr b \<Longrightarrow>
      tc_Decode codec (carried compact (tc_Encoding codec) b) = Inr v \<and> (tc_Encoding codec = DataText \<longrightarrow> ValidString b)"
    and rep: "representable r (bare_envelope m (tc_Encoding codec))"
  shows "decodeMessage L d codec data = Inr (m, v)"
proof -
  obtain b where b: "tc_Encode codec v = Inr b" and M: "MarshalEnvelope L m b (tc_Encoding codec) = Inr data"
    and same: "md_Kind m = di_Kind d" "md_Name m = di_Name d" "md_SchemaVersion m = di_SchemaVersion d"
      "md_ContentType m = di_ContentType d" "md_Schema m = di_Schema d"
    using enc by (auto simp: encodeTypedEnvelope_def split: if_splits sum.splits)
  let ?x = "tc_Encoding codec"
  have m: "Metadata (bare_envelope m ?x) = m" by (simp add: Metadata_def bare_envelope_def)
  have rep': "representable r e" if "with_payload L b ?x (bare_envelope m ?x) = Inr e" for e
    using representable_rebuilt [OF rep, of L b ?x e] that by (simp add: m)
  obtain e where e: "UnmarshalEnvelope L data = Inr e" "Metadata e = m" "ev_DataEncoding e = ?x"
    "ev_payload L e = Inr (carried compact ?x b)"
    using unmarshal_marshal [OF laws M rep'] codec [OF b] by metis
  have "ev_Kind e = md_Kind m" "ev_Name e = md_Name m" "ev_SchemaVersion e = md_SchemaVersion m"
    "ev_ContentType e = md_ContentType m" "ev_Schema e = md_Schema m"
    using e(2) by (auto simp: Metadata_def)
  then have "validateEnvelopeDescriptor e d = None"
    using same e(3) info by (simp add: validateEnvelopeDescriptor_def)
  then show ?thesis using e codec [OF b] by (simp add: decodeMessage_def Payload_def)
qed

section \<open>Properties\<close>

text \<open>A library that writes one envelope, as an instance of the laws.\<close>

definition sample_metadata :: metadata where
  "sample_metadata =
    \<lparr>md_ID = 7, md_Kind = KindCommand, md_Name = ''pay'', md_SchemaVersion = 1, md_Source = ''shop'', md_Subject = [],
     md_Time = 5, md_CorrelationID = 7, md_CausationID = 0, md_Key = [], md_ContentType = ''application/octet-stream'',
     md_Schema = [], md_Headers = [], md_NotBefore = 0, md_ExpiresAt = 0\<rparr>"

definition sample_envelope :: envelope where
  "sample_envelope = (bare_envelope sample_metadata DataBinary)\<lparr>ev_DataBase64 := Some (base64_encode ''hi'')\<rparr>"

definition sample_wire :: wire_lib where
  "sample_wire =
    \<lparr>wl_Valid = (\<lambda>x. x \<noteq> []), wl_EncodeText = id, wl_DecodeText = (\<lambda>s. if ValidString s then Some s else None),
     wl_Marshal = (\<lambda>e. if e = sample_envelope then Inr ''E'' else Inl (Plain ''unsupported'')),
     wl_Decode = (\<lambda>d. if d = ''E'' then Inr sample_envelope else Inl (Plain ''syntax'')), wl_ParseURL = (\<lambda>_. None)\<rparr>"

definition sample_codec :: "string typed_codec" where
  "sample_codec = \<lparr>tc_Encode = Inr, tc_Decode = Inr, tc_Encoding = DataBinary\<rparr>"

definition sample_info :: descriptorInfo where
  "sample_info = \<lparr>di_Kind = KindCommand, di_Name = ''pay'', di_SchemaVersion = 1,
     di_ContentType = ''application/octet-stream'', di_DataEncoding = DataBinary, di_Schema = []\<rparr>"

lemma sample_wire_strings: "list_all ValidString (wire_strings (bare_envelope sample_metadata DataBinary))"
  by (simp add: wire_strings_def bare_envelope_def sample_metadata_def EnvelopeSpecVersion_def KindCommand_def
      ValidString_ascii inR_def)

lemma sample_representable: "representable (\<lambda>_. True) sample_envelope"
  using sample_wire_strings ValidString_base64
  by (simp add: representable_def sample_envelope_def wire_strings_def wire_times_def bare_envelope_def)

lemma sample_wire_laws: "wire_laws sample_wire id (\<lambda>_. True)"
proof -
  have "compact_data id sample_envelope = sample_envelope" by (simp add: compact_data_def option.map_id0)
  then show ?thesis using sample_representable by (auto simp: wire_laws_def sample_wire_def)
qed

lemma sample_valid: "Validate sample_wire sample_envelope = None"
proof -
  have "TrimSpace ''shop'' = ''shop''" by (simp add: TrimSpace_graphic inR_def)
  moreover have "descriptorNamePattern ''pay''" by code_simp
  ultimately show ?thesis
    by (simp add: Validate_def sample_envelope_def bare_envelope_def sample_metadata_def mid_IsZero_def kind_validWire_def
        maxDescriptorNameLength_def encoding_valid_def validateSource_def sample_wire_def ev_payload_def
        base64_roundtrip validateHeaders_def DefaultMaxHeaders_def encoding_defs del: descriptorNamePattern.simps)
qed

lemma sample_marshal: "MarshalEnvelope sample_wire sample_metadata ''hi'' DataBinary = Inr ''E''"
proof -
  have "envelopeFrom sample_wire sample_metadata ''hi'' DataBinary = Inr sample_envelope"
    using sample_valid by (simp add: envelopeFrom_def with_payload_def encoding_defs sample_envelope_def)
  moreover have "wl_Marshal sample_wire sample_envelope = Inr ''E''" by (simp add: sample_wire_def)
  ultimately show ?thesis by (simp add: MarshalEnvelope_def MaxEnvelopeBytes_def)
qed

lemma sample_unmarshal: "UnmarshalEnvelope sample_wire ''E'' = Inr sample_envelope"
proof -
  have "wl_Decode sample_wire ''E'' = Inr sample_envelope" by (simp add: sample_wire_def)
  then show ?thesis using sample_valid by (simp add: UnmarshalEnvelope_def MaxEnvelopeBytes_def)
qed

lemma sample_payload: "ev_payload sample_wire sample_envelope = Inr ''hi''"
  by (simp add: ev_payload_def sample_envelope_def bare_envelope_def base64_roundtrip encoding_defs)

lemma sample_fields: "Metadata sample_envelope = sample_metadata" "ev_DataEncoding sample_envelope = DataBinary"
  by (simp_all add: sample_envelope_def bare_envelope_def Metadata_def)

lemma sample_canonical: "CanonicalizeEnvelope sample_wire ''E'' = Inr ''E''"
  using sample_unmarshal sample_payload sample_marshal sample_fields by (simp add: CanonicalizeEnvelope_def Payload_def)

lemma sample_encoded: "encodeTypedEnvelope sample_wire sample_info sample_codec sample_metadata ''hi'' = Inr ''E''"
  using sample_marshal by (simp add: encodeTypedEnvelope_def sample_info_def sample_codec_def sample_metadata_def)





end
