(* ===== verification/Delivery.thy ===== *)
theory Delivery
  imports Envelope
begin

text \<open>Receipts and deliveries of the root package, \<open>route.go\<close>.\<close>

datatype receiptState = NoReceipt | ReceiptCompleted | ReceiptAccepted | ReceiptStaged | ReceiptBrokerConfirmed | ReceiptNoop

record receipt =
  rc_MessageID :: messageID
  rc_Route :: string
  rc_State :: receiptState
  rc_At :: instant

text \<open>The zero receipt, whose state is the empty string.\<close>

definition zero_receipt :: receipt where
  "zero_receipt = \<lparr>rc_MessageID = 0, rc_Route = [], rc_State = NoReceipt, rc_At = 0\<rparr>"

definition delivery_MarshalEnvelope :: "wire_lib \<Rightarrow> metadata \<Rightarrow> err + string \<times> dataEncoding \<Rightarrow> err + string" where
  "delivery_MarshalEnvelope L m encoded =
    (case encoded of
       Inl e \<Rightarrow> Inl (Wrap ''messenger: encode'' [e])
     | Inr (payload, encoding) \<Rightarrow> MarshalEnvelope L m payload encoding)"

definition validateImmediateTiming :: "metadata \<Rightarrow> instant \<Rightarrow> err option" where
  "validateImmediateTiming m t =
    (if md_ExpiresAt m \<noteq> 0 \<and> \<not> md_ExpiresAt m > t then Permanent (Some (Sentinel ErrMessageExpired))
     else if md_NotBefore m \<noteq> 0 \<and> md_NotBefore m > t
     then Some (Wrap ''local routes cannot schedule delivery'' [Sentinel ErrUnsupportedCapability, Sentinel ErrMessageNotReady])
     else None)"

end
