(* ===== verification/Invocation.thy ===== *)
theory Invocation
  imports Batch
begin

text \<open>
  Running a handler behind its middlewares: \<open>batchruntime.Invoke\<close> and the \<open>invokeMiddlewares\<close> of the Kafka and
  NATS adapters. A context is nil or an identity whose error (\<open>Err()\<close>) depends on the moment, so \<open>ctx_err\<close> reads it
  off the world \<open>'w\<close>; the root package uses the same middlewares on contexts of another type \<open>'c\<close>. A middleware is arbitrary sequential code that changes the world, may call the next
  function any number of times, may recover its panic, and returns or panics itself: a tree of its calls.
\<close>

section \<open>Middlewares\<close>

type_synonym gocontext = "nat option"

datatype 'r outcome = Returned 'r | Panicked

datatype ('w, 'c, 'r) gprog =
    Return 'w 'r
  | Panic 'w
  | Next 'w "'c option" "'w \<Rightarrow> 'r outcome \<Rightarrow> ('w, 'c, 'r) gprog"

type_synonym ('w, 'r) prog = "('w, nat, 'r) gprog"
type_synonym ('w, 'r) middleware = "gocontext \<Rightarrow> 'w \<Rightarrow> ('w, 'r) prog"
type_synonym ('w, 'r) terminal = "nat \<Rightarrow> 'w \<Rightarrow> 'r outcome \<times> 'w"

text \<open>The variables captured around the chain, and a log of the handler's invocations.\<close>

record 'r capture =
  cp_terminalCtx :: gocontext
  cp_completionErr :: "err option"
  cp_log :: "(nat \<times> 'r outcome) list"

definition no_capture :: "'r capture" where
  "no_capture = \<lparr>cp_terminalCtx = None, cp_completionErr = None, cp_log = []\<rparr>"

type_synonym ('w, 'c, 'r, 'l) gstage = "'c option \<Rightarrow> 'w \<Rightarrow> 'l \<Rightarrow> 'r outcome \<times> 'w \<times> 'l"
type_synonym ('w, 'r) stage = "('w, nat, 'r, 'r capture) gstage"

text \<open>
  One middleware around the rest of the chain. The flag is the atomic \<open>called\<close> of the source: the second and
  later calls of next return \<open>dup\<close> without running anything.
\<close>

primrec guarded :: "'r \<Rightarrow> ('w, 'c, 'r) gprog \<Rightarrow> ('w, 'c, 'r, 'l) gstage \<Rightarrow> bool \<Rightarrow> 'l \<Rightarrow> 'r outcome \<times> 'w \<times> 'l" where
  "guarded dup (Return w r) wrapped called cp = (Returned r, w, cp)"
| "guarded dup (Panic w) wrapped called cp = (Panicked, w, cp)"
| "guarded dup (Next w c k) wrapped called cp =
    (if called then guarded dup (k w (Returned dup)) wrapped True cp
     else case wrapped c w cp of (r, w', cp') \<Rightarrow> guarded dup (k w' r) wrapped True cp')"

section \<open>Batch invocation\<close>

definition twice_batch :: "batchResult \<times> err option" where
  "twice_batch = ([], Some (invalid_batch ''middleware called next more than once''))"

definition batch_terminal ::
  "('w \<Rightarrow> nat \<Rightarrow> err option) \<Rightarrow> ('w, batchResult \<times> err option) terminal \<Rightarrow> ('w, batchResult \<times> err option) stage" where
  "batch_terminal ctx_err handler nextCtx w cp =
    (case nextCtx of
       None \<Rightarrow> (Returned ([], Some (invalid_batch ''middleware supplied a nil context'')), w, cp)
     | Some c \<Rightarrow>
        (case handler c w of
           (out, w') \<Rightarrow>
            (let cp = cp\<lparr>cp_terminalCtx := Some c, cp_log := cp_log cp @ [(c, out)]\<rparr> in
             case out of
               Panicked \<Rightarrow> (Panicked, w', cp)
             | Returned (result, handlerErr) \<Rightarrow>
                (let completionErr = HandlerCompletionError (Ctx (ctx_err w' c)) handlerErr;
                     result = (if completionErr \<noteq> None \<and> handlerErr = None then [] else result)
                 in (Returned (result, completionErr), w', cp\<lparr>cp_completionErr := completionErr\<rparr>)))))"

fun batch_chain ::
  "('w, batchResult \<times> err option) middleware list \<Rightarrow> ('w, batchResult \<times> err option) stage \<Rightarrow>
    ('w, batchResult \<times> err option) stage" where
  "batch_chain [] terminal = terminal"
| "batch_chain (m # ms) terminal = (\<lambda>c w cp. guarded twice_batch (m c w) (batch_chain ms terminal) False cp)"

text \<open>The checks after the chain has returned.\<close>

definition fail_with :: "err option \<Rightarrow> batchResult \<times> err option \<Rightarrow> batchResult \<times> err option" where
  "fail_with failure returned =
    (if failure \<noteq> None then ([], if snd returned = None then failure else snd returned) else returned)"

definition settle_batch ::
  "('w \<Rightarrow> nat \<Rightarrow> err option) \<Rightarrow> 'w \<Rightarrow> 'r capture \<Rightarrow> batchResult \<times> err option \<Rightarrow> batchResult \<times> err option" where
  "settle_batch ctx_err w cp returned =
    (let late = (case cp_terminalCtx cp of None \<Rightarrow> None | Some c \<Rightarrow> ctx_err w c);
         (result, e) = fail_with (cp_completionErr cp) (fail_with late returned)
     in case e of
          None \<Rightarrow> (result, None)
        | Some x \<Rightarrow>
           if result \<noteq> []
           then ([], Some (Wrap ''non-empty result with top-level error'' [Sentinel ErrInvalidBatchResult, x]))
           else (result, Some x))"

definition Invoke ::
  "('w \<Rightarrow> nat \<Rightarrow> err option) \<Rightarrow> gocontext \<Rightarrow> string \<Rightarrow> ('w, batchResult \<times> err option) terminal option \<Rightarrow>
    ('w, batchResult \<times> err option) middleware option list \<Rightarrow> 'w \<Rightarrow>
    (batchResult \<times> err option) \<times> 'w \<times> (batchResult \<times> err option) capture" where
  "Invoke ctx_err c handlerID handler middlewares w =
    (case handler of
       None \<Rightarrow> (([], Some (invalid_batch ''incomplete batch invocation'')), w, no_capture)
     | Some h \<Rightarrow>
        if c = None \<or> handlerID = [] then (([], Some (invalid_batch ''incomplete batch invocation'')), w, no_capture)
        else if None \<in> set middlewares then (([], Some (invalid_batch ''nil batch middleware'')), w, no_capture)
        else (case batch_chain (map the middlewares) (batch_terminal ctx_err h) c w no_capture of
                (Panicked, w', cp) \<Rightarrow> (([], Some (PanicError handlerID)), w', cp)
              | (Returned returned, w', cp) \<Rightarrow> (settle_batch ctx_err w' cp returned, w', cp)))"

section \<open>Single-message invocation\<close>

definition message_terminal ::
  "('w \<Rightarrow> nat \<Rightarrow> err option) \<Rightarrow> ('w, err option) terminal \<Rightarrow> nat \<Rightarrow> 'w \<Rightarrow> err option capture \<Rightarrow>
    err option outcome \<times> 'w \<times> err option capture" where
  "message_terminal ctx_err handler c w cp =
    (case handler c w of
       (out, w') \<Rightarrow>
        (let cp = cp\<lparr>cp_terminalCtx := Some c, cp_log := cp_log cp @ [(c, out)]\<rparr> in
         case out of
           Panicked \<Rightarrow> (Panicked, w', cp)
         | Returned handlerErr \<Rightarrow> (Returned (HandlerCompletionError (Ctx (ctx_err w' c)) handlerErr), w', cp)))"

fun invoke :: "('w \<Rightarrow> nat \<Rightarrow> err option) \<Rightarrow> ('w, err option) terminal \<Rightarrow> ('w, err option) middleware list \<Rightarrow>
    ('w, err option) stage" where
  "invoke ctx_err handler ms None w cp =
    (Returned (Some (Wrap ''middleware supplied a nil context'' [Sentinel ErrInvalidMessage])), w, cp)"
| "invoke ctx_err handler [] (Some c) w cp = message_terminal ctx_err handler c w cp"
| "invoke ctx_err handler (m # ms) (Some c) w cp =
    guarded (Some (Wrap ''middleware called next more than once'' [Sentinel ErrInvalidMessage])) (m (Some c) w)
      (invoke ctx_err handler ms) False cp"

definition invokeMiddlewares ::
  "('w \<Rightarrow> nat \<Rightarrow> err option) \<Rightarrow> gocontext \<Rightarrow> string \<Rightarrow> ('w, err option) terminal \<Rightarrow> ('w, err option) middleware list \<Rightarrow> 'w \<Rightarrow>
    err option \<times> 'w \<times> err option capture" where
  "invokeMiddlewares ctx_err c handlerID handler middlewares w =
    (case invoke ctx_err handler middlewares c w no_capture of
       (Panicked, w', cp) \<Rightarrow> (Some (PanicError handlerID), w', cp)
     | (Returned e, w', cp) \<Rightarrow>
        (case cp_terminalCtx cp of
           None \<Rightarrow> (e, w', cp)
         | Some t \<Rightarrow> if e \<noteq> None then (e, w', cp) else (ctx_err w' t, w', cp)))"

section \<open>The handler runs at most once\<close>

text \<open>
  A stage is guarded by a relation between the captures before and after it. The relation is kept by a middleware
  when it holds between a capture and itself: the middleware adds at most one run of the wrapped stage.
\<close>

lemma guarded_called: "snd (snd (guarded dup p wrapped True cp)) = cp"
proof (induction p)
  case (Next w c k)
  then show ?case using Next.IH [OF rangeI rangeI] by simp
qed simp_all

lemma guarded_rel:
  assumes "\<And>c w cp. R cp (snd (snd (wrapped c w cp)))" and "\<And>cp. R cp cp"
  shows "R cp (snd (snd (guarded dup p wrapped False cp)))"
proof (cases p)
  case (Next w c k)
  then show ?thesis using assms(1) [of cp c w] by (simp add: guarded_called case_prod_beta)
qed (use assms(2) in simp_all)

text \<open>Nothing ran, or the handler ran once more and the captured variables are those of that run.\<close>

definition ran_at_most_once :: "('r outcome \<Rightarrow> err option \<Rightarrow> bool) \<Rightarrow> 'r capture \<Rightarrow> 'r capture \<Rightarrow> bool" where
  "ran_at_most_once good cp cp' \<longleftrightarrow> cp' = cp \<or>
    (\<exists>c out. cp_log cp' = cp_log cp @ [(c, out)] \<and> cp_terminalCtx cp' = Some c \<and> good out (cp_completionErr cp'))"

lemma ran_refl [simp]: "ran_at_most_once good cp cp"
  by (simp add: ran_at_most_once_def)

text \<open>A batch handler that returned an error has left it in the captured completion error.\<close>

definition batch_good :: "(batchResult \<times> err option) outcome \<Rightarrow> err option \<Rightarrow> bool" where
  "batch_good out completion \<longleftrightarrow> (\<forall>r e. out = Returned (r, Some e) \<longrightarrow> completion = Some e)"

lemma batch_terminal_once: "ran_at_most_once batch_good cp (snd (snd (batch_terminal ctx_err h c w cp)))"
  by (auto simp: batch_terminal_def ran_at_most_once_def batch_good_def HandlerCompletionError_def Let_def
      split: option.split outcome.split prod.split)

lemma batch_chain_once:
  "ran_at_most_once batch_good cp (snd (snd (batch_chain ms (batch_terminal ctx_err h) c w cp)))"
proof (induction ms arbitrary: c w cp)
  case (Cons m ms)
  show ?case unfolding batch_chain.simps by (rule guarded_rel) (rule Cons.IH, rule ran_refl)
qed (simp add: batch_terminal_once)

lemma message_once: "ran_at_most_once (\<lambda>_ _. True) cp (snd (snd (invoke ctx_err h ms c w cp)))"
proof (induction ms arbitrary: c w cp)
  case Nil
  show ?case
    by (cases c) (auto simp: message_terminal_def ran_at_most_once_def Let_def split: outcome.split prod.split)
next
  case (Cons m ms)
  show ?case
  proof (cases c)
    case (Some x)
    show ?thesis unfolding Some invoke.simps by (rule guarded_rel) (rule Cons.IH, rule ran_refl)
  qed simp
qed

section \<open>What a returned nil means\<close>

lemma fail_with_None: "snd (fail_with failure returned) = None \<longleftrightarrow> failure = None \<and> snd returned = None"
  by (cases failure) (auto simp: fail_with_def)

lemma settle_batch_facts:
  assumes "settle_batch ctx_err w cp returned = (items, e)"
  shows "(e \<noteq> None \<longrightarrow> items = []) \<and>
    (e = None \<longrightarrow> cp_completionErr cp = None \<and> (\<forall>c. cp_terminalCtx cp = Some c \<longrightarrow> ctx_err w c = None))"
proof -
  define late where "late = (case cp_terminalCtx cp of None \<Rightarrow> None | Some c \<Rightarrow> ctx_err w c)"
  obtain result x where fw: "fail_with (cp_completionErr cp) (fail_with late returned) = (result, x)" by force
  have out: "e \<noteq> None \<longrightarrow> items = []" "e = None \<longleftrightarrow> x = None"
    using assms by (auto simp: settle_batch_def late_def [symmetric] fw split: option.splits if_splits)
  have "x = None \<longrightarrow> cp_completionErr cp = None \<and> late = None"
    using fail_with_None [of "cp_completionErr cp" "fail_with late returned"] fail_with_None [of late returned] fw by auto
  then show ?thesis using out by (auto simp: late_def)
qed

lemma Invoke_refused:
  assumes "handler = None \<or> c = None \<or> handlerID = [] \<or> None \<in> set ms"
  shows "\<exists>x. Invoke ctx_err c handlerID handler ms w = (([], Some x), w, no_capture)"
  using assms by (cases handler) (auto simp: Invoke_def)

lemma Invoke_run:
  assumes "None \<notin> set ms" and "handlerID \<noteq> []"
    and "batch_chain (map the ms) (batch_terminal ctx_err h) (Some c) w no_capture = (out, w1, cp1)"
  shows "Invoke ctx_err (Some c) handlerID (Some h) ms w =
    (case out of Panicked \<Rightarrow> ([], Some (PanicError handlerID)) | Returned r \<Rightarrow> settle_batch ctx_err w1 cp1 r, w1, cp1)"
  using assms by (simp add: Invoke_def split: outcome.split)

lemma Invoke_cases:
  assumes "Invoke ctx_err c handlerID handler ms w = ((items, e), w', cp)"
  shows "ran_at_most_once batch_good no_capture cp \<and>
    (e \<noteq> None \<and> items = [] \<or> (\<exists>r. settle_batch ctx_err w' cp r = (items, e)))"
proof (cases "handler = None \<or> c = None \<or> handlerID = [] \<or> None \<in> set ms")
  case True
  from Invoke_refused [OF this, of ctx_err w] assms show ?thesis by auto
next
  case False
  then obtain h x where hx: "handler = Some h" "c = Some x" by auto
  obtain out w1 cp1 where run: "batch_chain (map the ms) (batch_terminal ctx_err h) c w no_capture = (out, w1, cp1)"
    by (metis surj_pair)
  have once: "ran_at_most_once batch_good no_capture cp1"
    using batch_chain_once [of no_capture "map the ms" ctx_err h c w] by (simp add: run)
  have "((items, e), w', cp) =
      (case out of Panicked \<Rightarrow> ([], Some (PanicError handlerID)) | Returned r \<Rightarrow> settle_batch ctx_err w1 cp1 r, w1, cp1)"
    using Invoke_run [of ms handlerID ctx_err h x w out w1 cp1] False run assms by (simp add: hx)
  then show ?thesis using once by (cases out) auto
qed

lemma Invoke_facts:
  assumes "Invoke ctx_err c handlerID handler ms w = ((items, e), w', cp)"
  shows "length (cp_log cp) \<le> 1" and "e \<noteq> None \<Longrightarrow> items = []"
    and "e = None \<Longrightarrow> cp_log cp = [(t, out)] \<Longrightarrow> ctx_err w' t = None \<and> (\<forall>r x. out \<noteq> Returned (r, Some x))"
proof -
  note C = Invoke_cases [OF assms]
  then have once: "ran_at_most_once batch_good no_capture cp" by (rule conjunct1)
  then show "length (cp_log cp) \<le> 1" by (auto simp: ran_at_most_once_def no_capture_def)
  show "e \<noteq> None \<Longrightarrow> items = []" using C settle_batch_facts [of ctx_err w' cp _ items e] by auto
  assume e: "e = None" and log: "cp_log cp = [(t, out)]"
  with C obtain r where s: "settle_batch ctx_err w' cp r = (items, e)" by blast
  from once log have t: "cp_terminalCtx cp = Some t" and g: "batch_good out (cp_completionErr cp)"
    by (auto simp: ran_at_most_once_def no_capture_def)
  from settle_batch_facts [OF s] e t have "cp_completionErr cp = None" "ctx_err w' t = None" by auto
  with g show "ctx_err w' t = None \<and> (\<forall>r x. out \<noteq> Returned (r, Some x))" by (auto simp: batch_good_def)
qed

lemma invokeMiddlewares_facts:
  assumes "invokeMiddlewares ctx_err c handlerID handler ms w = (e, w', cp)"
  shows "length (cp_log cp) \<le> 1" and "e = None \<Longrightarrow> cp_log cp = [(t, out)] \<Longrightarrow> ctx_err w' t = None"
proof -
  obtain out1 w1 cp1 where run: "invoke ctx_err handler ms c w no_capture = (out1, w1, cp1)" by (metis surj_pair)
  have once: "ran_at_most_once (\<lambda>_ _. True) no_capture cp1"
    using message_once [of no_capture ctx_err handler ms c w] by (simp add: run)
  have cp: "cp = cp1 \<and> w' = w1" using assms
    by (cases out1) (auto simp: invokeMiddlewares_def run split: option.splits if_splits)
  show "length (cp_log cp) \<le> 1" using once cp by (auto simp: ran_at_most_once_def no_capture_def)
  assume "e = None" and "cp_log cp = [(t, out)]"
  with once cp have "cp_terminalCtx cp1 = Some t" by (auto simp: ran_at_most_once_def no_capture_def)
  with assms cp \<open>e = None\<close> show "ctx_err w' t = None"
    by (cases out1) (auto simp: invokeMiddlewares_def run split: if_splits)
qed

section \<open>Properties\<close>

text \<open>With no middleware the invocation is the handler's own result, turned into a failure by a panic or an ended context.\<close>

lemma Invoke_direct:
  assumes "handlerID \<noteq> []"
  shows "fst (Invoke ctx_err (Some c) handlerID (Some h) [] w) =
    (case h c w of
       (Panicked, w1) \<Rightarrow> ([], Some (PanicError handlerID))
     | (Returned (r, x), w1) \<Rightarrow>
        (case HandlerCompletionError (Ctx (ctx_err w1 c)) x of None \<Rightarrow> (r, None) | Some y \<Rightarrow> ([], Some y)))"
  using assms
  by (auto simp: Invoke_def batch_terminal_def no_capture_def settle_batch_def fail_with_def HandlerCompletionError_def Let_def
      split: prod.split outcome.split option.split)

lemma invokeMiddlewares_direct:
  "fst (invokeMiddlewares ctx_err (Some c) handlerID h [] w) =
    (case h c w of
       (Panicked, w1) \<Rightarrow> Some (PanicError handlerID)
     | (Returned x, w1) \<Rightarrow> HandlerCompletionError (Ctx (ctx_err w1 c)) x)"
  by (auto simp: invokeMiddlewares_def message_terminal_def no_capture_def HandlerCompletionError_def Let_def
      split: prod.split outcome.split option.split)


text \<open>A middleware that calls next twice and hides the refusal, around a handler that fails.\<close>

definition stubborn :: "(nat, batchResult \<times> err option) middleware" where
  "stubborn c w = Next w c (\<lambda>w _. Next w c (\<lambda>w _. Return w ([], None)))"

definition failing_handler :: "(nat, batchResult \<times> err option) terminal" where
  "failing_handler c w = (Returned ([], Some (Plain ''boom'')), w + 1)"


end
