(* ===== verification/Handlers.thy ===== *)
theory Handlers
  imports Delivery Invocation "HOL-Library.Sublist"
begin

text \<open>
  Handlers, deliveries and bindings of the root package: \<open>handler.go\<close>, the context helpers of \<open>message.go\<close>,
  \<open>observer.go\<close>, and the part of \<open>builder.go\<close> and \<open>messenger.go\<close> that turns a registered handler into a delivery.

  A context is nil (\<open>None\<close>) or has an identity, which decides about its cancellation, and the message metadata it
  carries. A value of type \<open>any\<close> is nil or a dynamic type with a value; \<open>reflect.Type\<close> distinguishes concrete types
  and interfaces, and an interface lists the types that implement it. Handlers, middlewares, observers, clocks
  and identifier generators are arbitrary functions on the application state \<open>'w\<close>; next to it the world keeps the log of
  the handlers that were called.
\<close>

section \<open>Contexts and values\<close>

record mctx =
  mc_id :: nat
  mc_metadata :: "metadata option"

definition MetadataFromContext :: "mctx option \<Rightarrow> metadata option" where
  "MetadataFromContext ctx = (case ctx of None \<Rightarrow> None | Some c \<Rightarrow> mc_metadata c)"

definition ContextWithMetadata :: "mctx \<Rightarrow> metadata \<Rightarrow> mctx" where
  "ContextWithMetadata c m = c\<lparr>mc_metadata := Some m\<rparr>"

definition zero_metadata :: metadata where
  "zero_metadata =
    \<lparr>md_ID = 0, md_Kind = [], md_Name = [], md_SchemaVersion = 0, md_Source = [], md_Subject = [], md_Time = 0,
     md_CorrelationID = 0, md_CausationID = 0, md_Key = [], md_ContentType = [], md_Schema = [], md_Headers = [],
     md_NotBefore = 0, md_ExpiresAt = 0\<rparr>"

definition context_metadata :: "mctx \<Rightarrow> metadata" where
  "context_metadata c = (case MetadataFromContext (Some c) of None \<Rightarrow> zero_metadata | Some m \<Rightarrow> m)"

datatype gotype = Concrete nat | Interface "nat list"

type_synonym 'v any = "(nat \<times> 'v) option"

definition payloadAs :: "gotype \<Rightarrow> 'v any \<Rightarrow> 'v any option" where
  "payloadAs T payload =
    (case payload of
       None \<Rightarrow> (case T of Interface _ \<Rightarrow> Some None | Concrete _ \<Rightarrow> None)
     | Some (dynamic, v) \<Rightarrow>
        if (case T of Concrete n \<Rightarrow> dynamic = n | Interface implementers \<Rightarrow> dynamic \<in> set implementers)
        then Some payload else None)"

text \<open>The values a variable of static type \<open>T\<close> can hold, converted to \<open>any\<close>.\<close>

definition has_type :: "gotype \<Rightarrow> 'v any \<Rightarrow> bool" where
  "has_type T payload \<longleftrightarrow> payloadAs T payload \<noteq> None"

lemma payloadAs_has_type: "has_type T payload \<Longrightarrow> payloadAs T payload = Some payload"
  by (auto simp: has_type_def payloadAs_def split: option.splits gotype.splits if_splits)

section \<open>Handlers\<close>

type_synonym 'w context_handler = "mctx \<Rightarrow> 'w \<Rightarrow> err option outcome \<times> 'w"
type_synonym ('w, 'v) msg_handler = "mctx \<Rightarrow> metadata \<times> 'v any \<Rightarrow> 'w \<Rightarrow> err option outcome \<times> 'w"
type_synonym ('w, 'v) erased_handler = "'v any \<Rightarrow> err + 'w context_handler"

record 'v localQueryResult =
  qr_value :: "'v any"
  qr_type :: "gotype option"
  qr_present :: bool

definition zero_query_result :: "'v localQueryResult" where
  "zero_query_result = \<lparr>qr_value = None, qr_type = None, qr_present = False\<rparr>"

type_synonym ('w, 'v) context_query_handler = "mctx \<Rightarrow> 'w \<Rightarrow> ('v localQueryResult \<times> err option) outcome \<times> 'w"
type_synonym ('w, 'v) queryHandler = "mctx \<Rightarrow> metadata \<times> 'v any \<Rightarrow> 'w \<Rightarrow> ('v any \<times> err option) outcome \<times> 'w"
type_synonym ('w, 'v) erased_query_handler = "'v any \<Rightarrow> err + ('w, 'v) context_query_handler"

fun ChainHandler :: "'h option \<Rightarrow> ('h \<Rightarrow> 'h option) option list \<Rightarrow> 'h option" where
  "ChainHandler None middlewares = None"
| "ChainHandler (Some h) [] = Some h"
| "ChainHandler (Some h) (m # ms) =
    (case ChainHandler (Some h) ms of
       None \<Rightarrow> None
     | Some wrapped \<Rightarrow> (case m of None \<Rightarrow> None | Some f \<Rightarrow> f wrapped))"

definition HandlePayload :: "(mctx \<Rightarrow> 'v any \<Rightarrow> 'w \<Rightarrow> 'r) option \<Rightarrow> (mctx \<Rightarrow> metadata \<times> 'v any \<Rightarrow> 'w \<Rightarrow> 'r) option" where
  "HandlePayload h = map_option (\<lambda>f c msg. f c (snd msg)) h"

text \<open>What the builder stores: the payload is checked against the type of the descriptor, the metadata comes from the context.\<close>

definition erase_handler :: "gotype \<Rightarrow> ('w, 'v) msg_handler \<Rightarrow> ('w, 'v) erased_handler" where
  "erase_handler T h payload =
    (case payloadAs T payload of
       None \<Rightarrow> Inl (Wrap ''payload type'' [Sentinel ErrDescriptorConflict])
     | Some typed \<Rightarrow> Inr (\<lambda>c. h c (context_metadata c, typed)))"

definition query_result :: "gotype \<Rightarrow> ('v any \<times> err option) outcome \<Rightarrow> ('v localQueryResult \<times> err option) outcome" where
  "query_result R out =
    (case out of
       Panicked \<Rightarrow> Panicked
     | Returned (result, Some e) \<Rightarrow> Returned (zero_query_result\<lparr>qr_type := Some R\<rparr>, Some e)
     | Returned (result, None) \<Rightarrow> Returned (\<lparr>qr_value = result, qr_type = Some R, qr_present = True\<rparr>, None))"

definition erase_query_handler :: "gotype \<Rightarrow> gotype \<Rightarrow> ('w, 'v) queryHandler \<Rightarrow> ('w, 'v) erased_query_handler" where
  "erase_query_handler T R h payload =
    (case payloadAs T payload of
       None \<Rightarrow> Inl (Wrap ''query payload type'' [Sentinel ErrDescriptorConflict])
     | Some typed \<Rightarrow>
        Inr (\<lambda>c w. case h c (context_metadata c, typed) w of (out, w') \<Rightarrow> (query_result R out, w')))"

section \<open>Observers\<close>

datatype operation =
    OperationDeliver | OperationExpire | OperationHandle | OperationBatchHandle | OperationQuery | OperationService
  | OperationBrokerAck | OperationOffsetCommit | OperationRetryHandoff | OperationDLQHandoff

text \<open>The fields the root package fills in.\<close>

record core_observation =
  cob_Operation :: operation
  cob_MessageID :: messageID
  cob_Kind :: kind
  cob_Name :: string
  cob_SchemaVersion :: int
  cob_Route :: string
  cob_HandlerID :: string
  cob_ServiceID :: string
  cob_State :: receiptState
  cob_StartedAt :: instant
  cob_Duration :: duration
  cob_Err :: "err option"

type_synonym 'w observer = "mctx \<Rightarrow> core_observation \<Rightarrow> 'w \<Rightarrow> unit outcome \<times> 'w"

definition callObserver :: "mctx \<Rightarrow> core_observation \<Rightarrow> 'w observer \<Rightarrow> 'w \<Rightarrow> 'w" where
  "callObserver c x observer w = snd (observer c x w)"

definition newObserverSet :: "'w observer list \<Rightarrow> 'w observer list option" where
  "newObserverSet observers = (if observers = [] then None else Some observers)"

definition observe :: "mctx \<Rightarrow> 'w observer list option \<Rightarrow> core_observation \<Rightarrow> 'w \<Rightarrow> 'w" where
  "observe c set_of x w = (case set_of of None \<Rightarrow> w | Some observers \<Rightarrow> fold (callObserver c x) observers w)"

definition message_observation :: "operation \<Rightarrow> metadata \<Rightarrow> instant \<Rightarrow> err option \<Rightarrow> core_observation" where
  "message_observation op m started e =
    \<lparr>cob_Operation = op, cob_MessageID = md_ID m, cob_Kind = md_Kind m, cob_Name = md_Name m,
     cob_SchemaVersion = md_SchemaVersion m, cob_Route = [], cob_HandlerID = [], cob_ServiceID = [], cob_State = NoReceipt,
     cob_StartedAt = started, cob_Duration = 0, cob_Err = e\<rparr>"

section \<open>The world and the middleware chain\<close>

record 'v hcall =
  cl_handler :: string
  cl_ctx :: mctx
  cl_payload :: "'v any"
  cl_result :: "err option outcome"

record ('w, 'v) mworld =
  mw_state :: 'w
  mw_calls :: "'v hcall list"

definition on_state :: "('w \<Rightarrow> 'a \<times> 'w) \<Rightarrow> ('w, 'v) mworld \<Rightarrow> 'a \<times> ('w, 'v) mworld" where
  "on_state f cw = (case f (mw_state cw) of (x, w) \<Rightarrow> (x, cw\<lparr>mw_state := w\<rparr>))"

definition observe_at :: "mctx \<Rightarrow> 'w observer list option \<Rightarrow> core_observation \<Rightarrow> ('w, 'v) mworld \<Rightarrow> ('w, 'v) mworld" where
  "observe_at c observers x cw = cw\<lparr>mw_state := observe c observers x (mw_state cw)\<rparr>"

text \<open>An observation after an operation: the clock is read for its duration only when somebody observes.\<close>

definition observe_since ::
  "('w \<Rightarrow> instant \<times> 'w) \<Rightarrow> mctx \<Rightarrow> 'w observer list option \<Rightarrow> core_observation \<Rightarrow> ('w, 'v) mworld \<Rightarrow> ('w, 'v) mworld" where
  "observe_since clock c observers x cw =
    (if observers = None then cw
     else case on_state clock cw of
       (finished, cw') \<Rightarrow> observe_at c observers (x\<lparr>cob_Duration := finished - cob_StartedAt x\<rparr>) cw')"

type_synonym 'w core_middleware = "mctx \<Rightarrow> metadata \<Rightarrow> string \<Rightarrow> 'w \<Rightarrow> ('w, mctx, err option) gprog"
type_synonym ('w, 'l) terminal_stage = "mctx \<Rightarrow> 'w \<Rightarrow> 'l \<Rightarrow> err option outcome \<times> 'w \<times> 'l"

fun middleware_chain ::
  "metadata \<Rightarrow> string \<Rightarrow> ('w, 'l) terminal_stage \<Rightarrow> 'w core_middleware list \<Rightarrow> ('w, mctx, err option, 'l) gstage" where
  "middleware_chain m handlerID handler ms None w l = (Returned (Some (invalid_message ''middleware supplied a nil context'')), w, l)"
| "middleware_chain m handlerID handler [] (Some c) w l = handler (ContextWithMetadata c m) w l"
| "middleware_chain m handlerID handler (f # fs) (Some c) w l =
    guarded (Some (invalid_message ''middleware called next more than once'')) (f c m handlerID w)
      (middleware_chain m handlerID handler fs) False l"

definition invokeMiddleware ::
  "metadata \<Rightarrow> string \<Rightarrow> ('w, 'l) terminal_stage \<Rightarrow> 'w core_middleware list \<Rightarrow> mctx \<Rightarrow> 'w \<Rightarrow> 'l \<Rightarrow> err option \<times> 'w \<times> 'l" where
  "invokeMiddleware m handlerID handler middlewares c w l =
    (case (if middlewares = [] then handler c w l else middleware_chain m handlerID handler middlewares (Some c) w l) of
       (Panicked, w', l') \<Rightarrow> (Some (PanicError handlerID), w', l')
     | (Returned e, w', l') \<Rightarrow> (e, w', l'))"

text \<open>The handler of a binding as the end of the chain, with the log of its calls.\<close>

definition logged :: "string \<Rightarrow> 'v any \<Rightarrow> 'w context_handler \<Rightarrow> ('w, 'v hcall list) terminal_stage" where
  "logged handlerID payload handler c w calls =
    (case handler c w of
       (out, w') \<Rightarrow> (out, w', calls @ [\<lparr>cl_handler = handlerID, cl_ctx = c, cl_payload = payload, cl_result = out\<rparr>]))"

text \<open>The end of the chain of a query, which also fills in the captured result variable.\<close>

definition query_effect ::
  "('v localQueryResult \<times> err option) outcome \<Rightarrow> 'v localQueryResult \<Rightarrow> err option outcome \<times> 'v localQueryResult" where
  "query_effect out captured = (case out of Panicked \<Rightarrow> (Panicked, captured) | Returned (result, e) \<Rightarrow> (Returned e, result))"

definition logged_query ::
  "string \<Rightarrow> 'v any \<Rightarrow> ('w, 'v) context_query_handler \<Rightarrow> ('w, 'v hcall list \<times> 'v localQueryResult) terminal_stage" where
  "logged_query handlerID payload handler c w l =
    (case handler c w of
       (out, w') \<Rightarrow>
        (case query_effect out (snd l) of
           (r, captured) \<Rightarrow>
            (r, w', (fst l @ [\<lparr>cl_handler = handlerID, cl_ctx = c, cl_payload = payload, cl_result = r\<rparr>], captured))))"

section \<open>Bindings and their deliveries\<close>

record 'v descriptorRegistration =
  dr_info :: descriptorInfo
  dr_payloadType :: gotype
  dr_encode :: "'v any \<Rightarrow> err + string \<times> dataEncoding"

record ('w, 'v) delivery =
  dl_metadata :: metadata
  dl_handlers :: nat
  dl_encode :: "err + string \<times> dataEncoding"
  dl_invoke :: "(mctx \<Rightarrow> ('w, 'v) mworld \<Rightarrow> err option \<times> ('w, 'v) mworld) option"
  dl_onExpire :: "(mctx \<Rightarrow> err \<Rightarrow> ('w, 'v) mworld \<Rightarrow> ('w, 'v) mworld) option"

definition delivery_Invoke :: "('w, 'v) delivery \<Rightarrow> mctx option \<Rightarrow> ('w, 'v) mworld \<Rightarrow> err option \<times> ('w, 'v) mworld" where
  "delivery_Invoke d ctx cw =
    (case (ctx, dl_invoke d) of
       (Some c, Some f) \<Rightarrow> f (ContextWithMetadata c (dl_metadata d)) cw
     | _ \<Rightarrow> (Some (invalid_message ''invalid delivery invocation''), cw))"

definition reportExpiry :: "('w, 'v) delivery \<Rightarrow> mctx \<Rightarrow> err \<Rightarrow> ('w, 'v) mworld \<Rightarrow> ('w, 'v) mworld" where
  "reportExpiry d c e cw = (case dl_onExpire d of None \<Rightarrow> cw | Some f \<Rightarrow> f c e cw)"

text \<open>An interface value that may be nil, or hold a nil pointer.\<close>

datatype 'a go_iface = NilIface | NilPtr | Held 'a

text \<open>The routes of a binding are used through their names and the two delivery methods.\<close>

record service =
  sv_pointer :: nat

record ('w, 'v) croute =
  rt_Name :: string
  rt_local :: bool
  rt_service :: "(string \<times> service go_iface) option"
  rt_Deliver :: "mctx option \<Rightarrow> ('w, 'v) delivery \<Rightarrow> ('w, 'v) mworld \<Rightarrow> (receipt \<times> err option) \<times> ('w, 'v) mworld"
  rt_DeliverBatch ::
    "(mctx \<Rightarrow> ('w, 'v) delivery list \<Rightarrow> ('w, 'v) mworld \<Rightarrow> (receipt list \<times> err option) \<times> ('w, 'v) mworld) option"

definition expiryObserver ::
  "('w \<Rightarrow> instant \<times> 'w) \<Rightarrow> 'w observer list option \<Rightarrow> metadata \<Rightarrow> string \<Rightarrow>
    (mctx \<Rightarrow> err \<Rightarrow> ('w, 'v) mworld \<Rightarrow> ('w, 'v) mworld) option" where
  "expiryObserver wall observers m route =
    (if observers = None then None
     else Some (\<lambda>c e cw. case on_state wall cw of
       (t, cw') \<Rightarrow> observe_at c observers ((message_observation OperationExpire m t (Some e))\<lparr>cob_Route := route\<rparr>) cw'))"

text \<open>What every binding shares: the observers, the clock, the middlewares and the wall clock of the process.\<close>

record 'w binding_env =
  be_observer :: "'w observer list option"
  be_clock :: "'w \<Rightarrow> instant \<times> 'w"
  be_middleware :: "'w core_middleware list"
  be_wall :: "'w \<Rightarrow> instant \<times> 'w"

record ('w, 'v) commandBinding =
  cb_descriptor :: "'v descriptorRegistration"
  cb_handlerID :: string
  cb_handler :: "('w, 'v) erased_handler option"
  cb_route :: "('w, 'v) croute option"

record ('w, 'v) eventSubscriber =
  es_id :: string
  es_handler :: "('w, 'v) erased_handler"

record ('w, 'v) eventBinding =
  eb_descriptor :: "'v descriptorRegistration"
  eb_subscribers :: "('w, 'v) eventSubscriber list"
  eb_route :: "('w, 'v) croute option"

text \<open>One handler call with its observation, shared by commands and events.\<close>

definition invoke_handler ::
  "'w binding_env \<Rightarrow> metadata \<Rightarrow> string \<Rightarrow> 'v any \<Rightarrow> 'w context_handler \<Rightarrow> mctx \<Rightarrow> ('w, 'v) mworld \<Rightarrow>
    err option \<times> ('w, 'v) mworld" where
  "invoke_handler env m handlerID payload handler c cw =
    (case on_state (be_clock env) cw of
       (started, cw) \<Rightarrow>
        (case invokeMiddleware m handlerID (logged handlerID payload handler) (be_middleware env) c (mw_state cw) (mw_calls cw) of
           (e, w, calls) \<Rightarrow>
            (e, observe_since (be_clock env) c (be_observer env)
                  ((message_observation OperationHandle m started e)\<lparr>cob_HandlerID := handlerID\<rparr>)
                  \<lparr>mw_state = w, mw_calls = calls\<rparr>)))"

definition command_invoke ::
  "'w binding_env \<Rightarrow> ('w, 'v) commandBinding \<Rightarrow> metadata \<Rightarrow> 'v any \<Rightarrow> mctx \<Rightarrow> ('w, 'v) mworld \<Rightarrow> err option \<times> ('w, 'v) mworld" where
  "command_invoke env b m payload c cw =
    (case cb_handler b of
       None \<Rightarrow> (Some (Wrap ''command'' [Sentinel ErrHandlerNotFound]), cw)
     | Some erased \<Rightarrow>
        (case erased payload of
           Inl e \<Rightarrow> (Some e, cw)
         | Inr handler \<Rightarrow> invoke_handler env m (cb_handlerID b) payload handler c cw))"

definition command_delivery ::
  "'w binding_env \<Rightarrow> ('w, 'v) commandBinding \<Rightarrow> string \<Rightarrow> metadata \<Rightarrow> 'v any \<Rightarrow> ('w, 'v) delivery" where
  "command_delivery env b route m payload =
    \<lparr>dl_metadata = m, dl_handlers = (if cb_handler b \<noteq> None then 1 else 0), dl_encode = dr_encode (cb_descriptor b) payload,
     dl_invoke = Some (command_invoke env b m payload),
     dl_onExpire = expiryObserver (be_wall env) (be_observer env) m route\<rparr>"

fun event_invoke ::
  "'w binding_env \<Rightarrow> ('w, 'v) eventSubscriber list \<Rightarrow> metadata \<Rightarrow> 'v any \<Rightarrow> mctx \<Rightarrow> ('w, 'v) mworld \<Rightarrow>
    err option list \<times> ('w, 'v) mworld" where
  "event_invoke env [] m payload c cw = ([], cw)"
| "event_invoke env (s # ss) m payload c cw =
    (case es_handler s payload of
       Inl e \<Rightarrow> (case event_invoke env ss m payload c cw of (es, cw') \<Rightarrow> (Some e # es, cw'))
     | Inr handler \<Rightarrow>
        (case invoke_handler env m (es_id s) payload handler c cw of
           (e, cw') \<Rightarrow> (case event_invoke env ss m payload c cw' of (es, cw'') \<Rightarrow> (e # es, cw''))))"

definition event_delivery ::
  "'w binding_env \<Rightarrow> ('w, 'v) eventBinding \<Rightarrow> string \<Rightarrow> metadata \<Rightarrow> 'v any \<Rightarrow> ('w, 'v) delivery" where
  "event_delivery env b route m payload =
    \<lparr>dl_metadata = m, dl_handlers = length (eb_subscribers b), dl_encode = dr_encode (eb_descriptor b) payload,
     dl_invoke = Some (\<lambda>c cw. case event_invoke env (eb_subscribers b) m payload c cw of (es, cw') \<Rightarrow> (errors_Join es, cw')),
     dl_onExpire = expiryObserver (be_wall env) (be_observer env) m route\<rparr>"

section \<open>Queries\<close>

record ('w, 'v) localQueryCall =
  qc_metadata :: metadata
  qc_invoke :: "(mctx \<Rightarrow> ('w, 'v) mworld \<Rightarrow> ('v localQueryResult \<times> err option) \<times> ('w, 'v) mworld) option"

record ('w, 'v) localQueryRoute =
  qt_Name :: string
  qt_service :: "(string \<times> service go_iface) option"
  qt_query :: "mctx option \<Rightarrow> ('w, 'v) localQueryCall \<Rightarrow> ('w, 'v) mworld \<Rightarrow>
    ('v localQueryResult \<times> err option) \<times> ('w, 'v) mworld"

record ('w, 'v) queryBinding =
  qb_descriptor :: "'v descriptorRegistration"
  qb_resultType :: gotype
  qb_handlerID :: string
  qb_handler :: "('w, 'v) erased_query_handler option"
  qb_route :: "('w, 'v) localQueryRoute option"

definition run_query ::
  "'w binding_env \<Rightarrow> metadata \<Rightarrow> string \<Rightarrow> string \<Rightarrow> 'v any \<Rightarrow> ('w, 'v) context_query_handler \<Rightarrow> mctx \<Rightarrow> ('w, 'v) mworld \<Rightarrow>
    ('v localQueryResult \<times> err option) \<times> ('w, 'v) mworld" where
  "run_query env m route handlerID payload handler c cw =
    (case on_state (be_clock env) cw of
       (started, cw) \<Rightarrow>
        (case invokeMiddleware m handlerID (logged_query handlerID payload handler) (be_middleware env) c (mw_state cw)
                (mw_calls cw, zero_query_result) of
           (returned, w, (calls, result)) \<Rightarrow>
            (let e = (if returned = None \<and> \<not> qr_present result then Some (Sentinel ErrQueryResultMissing) else returned) in
             ((result, e),
              observe_since (be_clock env) c (be_observer env)
                ((message_observation OperationHandle m started e)\<lparr>cob_Route := route, cob_HandlerID := handlerID\<rparr>)
                \<lparr>mw_state = w, mw_calls = calls\<rparr>))))"

definition query_call ::
  "'w binding_env \<Rightarrow> ('w, 'v) erased_query_handler \<Rightarrow> string \<Rightarrow> string \<Rightarrow> metadata \<Rightarrow> 'v any \<Rightarrow> ('w, 'v) localQueryCall" where
  "query_call env erased route handlerID m payload =
    \<lparr>qc_metadata = m,
     qc_invoke = Some (\<lambda>c cw.
       case erased payload of
         Inl e \<Rightarrow> ((zero_query_result, Some e), cw)
       | Inr handler \<Rightarrow> run_query env m route handlerID payload handler c cw)\<rparr>"

definition queryResultAs :: "gotype \<Rightarrow> 'v localQueryResult \<Rightarrow> err + 'v any" where
  "queryResultAs R result =
    (if \<not> qr_present result then Inl (Sentinel ErrQueryResultMissing)
     else if qr_type result \<noteq> Some R then Inl (Wrap ''query result type'' [Sentinel ErrDescriptorConflict])
     else case qr_value result of
       None \<Rightarrow> Inr None
     | Some v \<Rightarrow>
        (case payloadAs R (Some v) of
           None \<Rightarrow> Inl (Wrap ''query result value'' [Sentinel ErrDescriptorConflict])
         | Some typed \<Rightarrow> Inr typed))"

section \<open>What a delivery runs\<close>

text \<open>A call for the message: the handler sees its metadata in the context, and its payload.\<close>

definition call_of :: "metadata \<Rightarrow> 'v any \<Rightarrow> string \<Rightarrow> 'v hcall \<Rightarrow> bool" where
  "call_of m payload handlerID call \<longleftrightarrow>
    cl_handler call = handlerID \<and> mc_metadata (cl_ctx call) = Some m \<and> cl_payload call = payload"

lemma mc_metadata_ContextWithMetadata [simp]: "mc_metadata (ContextWithMetadata c m) = Some m"
  by (simp add: ContextWithMetadata_def)

lemma context_metadata_Some: "mc_metadata c = Some m \<Longrightarrow> context_metadata c = m"
  by (simp add: context_metadata_def MetadataFromContext_def)

lemma middleware_chain_rel:
  assumes "\<And>c w l. mc_metadata c = Some m \<Longrightarrow> R l (snd (snd (handler c w l)))" and "\<And>l. R l l"
  shows "R l (snd (snd (middleware_chain m handlerID handler fs ctx w l)))"
proof (induction fs arbitrary: ctx w l)
  case Nil
  show ?case by (cases ctx) (simp_all add: assms)
next
  case (Cons f fs)
  show ?case
  proof (cases ctx)
    case (Some c)
    show ?thesis unfolding Some middleware_chain.simps by (rule guarded_rel) (rule Cons.IH, rule assms(2))
  qed (simp add: assms(2))
qed

lemma invokeMiddleware_rel:
  assumes "\<And>c w l. mc_metadata c = Some m \<Longrightarrow> R l (snd (snd (handler c w l)))" and "\<And>l. R l l"
    and "mc_metadata c = Some m"
  shows "R l (snd (snd (invokeMiddleware m handlerID handler fs c w l)))"
  using middleware_chain_rel [of m R handler l handlerID fs "Some c" w, OF assms(1,2)] assms(1) [OF assms(3), of l w]
  by (auto simp: invokeMiddleware_def split: prod.split outcome.split)

definition at_most_one :: "('a \<Rightarrow> bool) \<Rightarrow> 'a list \<Rightarrow> 'a list \<Rightarrow> bool" where
  "at_most_one P xs ys \<longleftrightarrow> ys = xs \<or> (\<exists>y. P y \<and> ys = xs @ [y])"

lemma logged_calls:
  assumes "mc_metadata c = Some m"
  shows "at_most_one (call_of m payload handlerID) l (snd (snd (invokeMiddleware m handlerID (logged handlerID payload h) fs c w l)))"
  by (rule invokeMiddleware_rel [OF _ _ assms])
    (auto simp: at_most_one_def logged_def call_of_def split: prod.split)

lemma mw_calls_on_state [simp]: "mw_calls (snd (on_state f cw)) = mw_calls cw"
  by (simp add: on_state_def split: prod.split)

lemma mw_calls_observe [simp]: "mw_calls (observe_at c os x cw) = mw_calls cw" "mw_calls (observe_since clock c os x cw) = mw_calls cw"
  by (simp_all add: observe_at_def observe_since_def on_state_def split: prod.split)

lemma invoke_handler_calls:
  assumes "mc_metadata c = Some m"
  shows "at_most_one (call_of m payload handlerID) (mw_calls cw) (mw_calls (snd (invoke_handler env m handlerID payload h c cw)))"
proof -
  obtain started cw1 where s: "on_state (be_clock env) cw = (started, cw1)" by force
  then have "mw_calls cw1 = mw_calls cw" by (metis mw_calls_on_state snd_conv)
  then show ?thesis
    using logged_calls [OF assms, of payload handlerID "mw_calls cw1" h "be_middleware env" "mw_state cw1"]
    by (auto simp: invoke_handler_def s split: prod.split)
qed

text \<open>Without middlewares the handler is called, and its error is the result.\<close>

definition completion :: "string \<Rightarrow> err option outcome \<Rightarrow> err option" where
  "completion handlerID out = (case out of Panicked \<Rightarrow> Some (PanicError handlerID) | Returned e \<Rightarrow> e)"

lemma invoke_handler_plain:
  assumes "be_middleware env = []" and "mc_metadata c = Some m"
  shows "\<exists>call. call_of m payload handlerID call \<and>
      mw_calls (snd (invoke_handler env m handlerID payload h c cw)) = mw_calls cw @ [call] \<and>
      fst (invoke_handler env m handlerID payload h c cw) = completion handlerID (cl_result call)"
  using assms
  by (auto simp: invoke_handler_def on_state_def invokeMiddleware_def logged_def call_of_def completion_def
      split: prod.split outcome.split)

lemma event_invoke_length: "length (fst (event_invoke env ss m payload c cw)) = length ss"
  by (induction ss arbitrary: cw) (auto simp: case_prod_beta split: sum.split)

text \<open>The calls an event adds: for every subscriber at most one, in the order of the subscriptions.\<close>

lemma event_invoke_calls:
  assumes "mc_metadata c = Some m"
  shows "\<exists>added. mw_calls (snd (event_invoke env ss m payload c cw)) = mw_calls cw @ added \<and>
    subseq (map cl_handler added) (map es_id ss) \<and> (\<forall>call \<in> set added. call_of m payload (cl_handler call) call)"
proof (induction ss arbitrary: cw)
  case (Cons s ss)
  show ?case
  proof (cases "es_handler s payload")
    case (Inl e)
    then show ?thesis using Cons.IH [of cw] by (force simp: case_prod_beta)
  next
    case (Inr h)
    let ?cw = "snd (invoke_handler env m (es_id s) payload h c cw)"
    obtain added where a: "mw_calls (snd (event_invoke env ss m payload c ?cw)) = mw_calls ?cw @ added"
      "subseq (map cl_handler added) (map es_id ss)" "\<forall>call \<in> set added. call_of m payload (cl_handler call) call"
      using Cons.IH [of ?cw] by blast
    have r: "mw_calls (snd (event_invoke env (s # ss) m payload c cw)) = mw_calls (snd (event_invoke env ss m payload c ?cw))"
      by (simp add: Inr case_prod_beta)
    from invoke_handler_calls [OF assms, of payload "es_id s" cw env h] show ?thesis
    proof (unfold at_most_one_def, elim disjE exE conjE)
      assume "mw_calls ?cw = mw_calls cw"
      with a r show ?thesis by (intro exI [of _ added]) auto
    next
      fix call assume "call_of m payload (es_id s) call" "mw_calls ?cw = mw_calls cw @ [call]"
      with a r show ?thesis by (intro exI [of _ "call # added"]) (auto simp: call_of_def)
    qed
  qed
qed simp

text \<open>Without middlewares every subscriber that accepts the payload is called once, whatever the others return.\<close>

lemma event_invoke_plain:
  assumes "be_middleware env = []" and "mc_metadata c = Some m" and "\<And>s. s \<in> set ss \<Longrightarrow> \<exists>h. es_handler s payload = Inr h"
  shows "\<exists>added. mw_calls (snd (event_invoke env ss m payload c cw)) = mw_calls cw @ added \<and> map cl_handler added = map es_id ss \<and>
    fst (event_invoke env ss m payload c cw) = map (\<lambda>call. completion (cl_handler call) (cl_result call)) added"
  using assms(3)
proof (induction ss arbitrary: cw)
  case (Cons s ss)
  then obtain h where h: "es_handler s payload = Inr h" by force
  let ?cw = "snd (invoke_handler env m (es_id s) payload h c cw)"
  obtain call where c: "call_of m payload (es_id s) call" "mw_calls ?cw = mw_calls cw @ [call]"
    "fst (invoke_handler env m (es_id s) payload h c cw) = completion (es_id s) (cl_result call)"
    using invoke_handler_plain [OF assms(1,2), of payload "es_id s" h cw] by blast
  obtain added where "mw_calls (snd (event_invoke env ss m payload c ?cw)) = mw_calls ?cw @ added" "map cl_handler added = map es_id ss"
    "fst (event_invoke env ss m payload c ?cw) = map (\<lambda>call. completion (cl_handler call) (cl_result call)) added"
    using Cons.IH [of ?cw] Cons.prems by auto
  with c h show ?case by (intro exI [of _ "call # added"]) (simp add: call_of_def case_prod_beta)
qed simp

lemma errors_Join_None: "errors_Join es = None \<longleftrightarrow> (\<forall>e \<in> set es. e = None)"
  by (induction es) (auto simp: errors_Join_def List.map_filter_def split: list.splits)

end
