(* ===== verification/Topology.thy ===== *)
theory Topology
  imports Handlers "HOL-Library.Product_Lexorder" "HOL-Library.Multiset"
begin

text \<open>
  The builder and the topology manifest: \<open>builder.go\<close>, \<open>manifest.go\<close>, the typed descriptors of \<open>descriptor.go\<close> and
  the construction of the runtime. Go's maps are tables; the order of a table is the iteration order of one run, so a
  statement about every permutation of the tables is a statement about every iteration order. Errors of declarations
  are collected and reported by \<open>Build\<close>. A nil interface and a nil pointer in an interface are told apart by \<open>go_iface\<close>.
  The default clock and the UUID generator are parameters; loggers and panic reporters are not part of the model.
\<close>

section \<open>Stable identifiers and descriptors\<close>

definition stable_char :: "char \<Rightarrow> bool" where
  "stable_char c \<longleftrightarrow> is_lower c \<or> inR 65 90 c \<or> is_digit c \<or> c \<in> set ''._:-/''"

definition validStableID :: "string \<Rightarrow> bool" where
  "validStableID s \<longleftrightarrow> s \<noteq> [] \<and> length s \<le> maxDescriptorNameLength \<and> TrimSpace s = s \<and> list_all stable_char s"

record 'v tcodec =
  co_wire :: codec
  co_Encode :: "'v any \<Rightarrow> err + string"

record 'v typed_descriptor =
  td_info :: descriptorInfo
  td_type :: gotype
  td_codec :: "'v tcodec"

definition new_typed :: "kind \<Rightarrow> gotype \<Rightarrow> string \<Rightarrow> int \<Rightarrow> 'v tcodec option \<Rightarrow> err + 'v typed_descriptor" where
  "new_typed k T name schemaVersion codec =
    (case codec of
       None \<Rightarrow> Inl (Wrap ''descriptor'' [Sentinel ErrInvalidDescriptor])
     | Some co \<Rightarrow>
        (case newDescriptor k name schemaVersion [] (Some (co_wire co)) of
           Inl e \<Rightarrow> Inl e
         | Inr info \<Rightarrow> Inr \<lparr>td_info = info, td_type = T, td_codec = co\<rparr>))"

definition NewCommand :: "gotype \<Rightarrow> string \<Rightarrow> int \<Rightarrow> 'v tcodec option \<Rightarrow> err + 'v typed_descriptor" where
  "NewCommand = new_typed KindCommand"

definition NewEvent :: "gotype \<Rightarrow> string \<Rightarrow> int \<Rightarrow> 'v tcodec option \<Rightarrow> err + 'v typed_descriptor" where
  "NewEvent = new_typed KindEvent"

definition NewQuery :: "gotype \<Rightarrow> gotype \<Rightarrow> string \<Rightarrow> int \<Rightarrow> 'v tcodec option \<Rightarrow> err + 'v typed_descriptor \<times> gotype" where
  "NewQuery Q R name schemaVersion codec =
    (case new_typed KindQuery Q name schemaVersion codec of Inl e \<Rightarrow> Inl e | Inr d \<Rightarrow> Inr (d, R))"

definition WithSchema :: "string \<Rightarrow> 'v typed_descriptor \<Rightarrow> 'v typed_descriptor" where
  "WithSchema schema d = d\<lparr>td_info := (td_info d)\<lparr>di_Schema := schema\<rparr>\<rparr>"

definition eraseDescriptor :: "'v typed_descriptor \<Rightarrow> 'v descriptorRegistration" where
  "eraseDescriptor d =
    \<lparr>dr_info = td_info d, dr_payloadType = td_type d,
     dr_encode = (\<lambda>payload.
       case payloadAs (td_type d) payload of
         None \<Rightarrow> Inl (Wrap ''payload'' [Sentinel ErrDescriptorConflict])
       | Some typed \<Rightarrow>
          (case co_Encode (td_codec d) typed of
             Inl e \<Rightarrow> Inl e
           | Inr bytes \<Rightarrow> Inr (bytes, codec_Encoding (co_wire (td_codec d)))))\<rparr>"

definition sameDescriptor :: "'v descriptorRegistration \<Rightarrow> descriptorInfo \<Rightarrow> gotype \<Rightarrow> bool" where
  "sameDescriptor existing info T \<longleftrightarrow> dr_info existing = info \<and> dr_payloadType existing = T"

section \<open>The builder\<close>

type_synonym descriptorKey = "kind \<times> string \<times> int"
type_synonym ('w, 'v) commandRegistration = "('w, 'v) commandBinding"
type_synonym ('w, 'v) eventRegistration = "('w, 'v) eventBinding"
type_synonym ('w, 'v) queryRegistration = "('w, 'v) queryBinding"

type_synonym 'w propagator = "mctx \<Rightarrow> (string \<times> string) list \<Rightarrow> 'w \<Rightarrow> (string \<times> string) list \<times> 'w"

record ('w, 'v) builder =
  bd_source :: string
  bd_idGenerator :: "'w \<Rightarrow> (err + messageID) \<times> 'w"
  bd_clock :: "'w \<Rightarrow> instant \<times> 'w"
  bd_observers :: "'w observer list"
  bd_propagator :: "'w propagator option"
  bd_shutdownTimeout :: duration
  bd_middlewares :: "'w core_middleware list"
  bd_commands :: "(descriptorKey, ('w, 'v) commandRegistration) table"
  bd_events :: "(descriptorKey, ('w, 'v) eventRegistration) table"
  bd_queries :: "(descriptorKey, ('w, 'v) queryRegistration) table"
  bd_services :: "(string, service) table"
  bd_errors :: "err list"

definition addError :: "string \<Rightarrow> sentinel \<Rightarrow> ('w, 'v) builder \<Rightarrow> ('w, 'v) builder" where
  "addError t s b = b\<lparr>bd_errors := bd_errors b @ [Wrap t [Sentinel s]]\<rparr>"

definition defaultRuntimeShutdownTimeout :: duration where
  "defaultRuntimeShutdownTimeout = 30000000000"

text \<open>Options. A nil option, observer, clock, generator or propagator is an error.\<close>

datatype 'w option_call =
    NilOption
  | WithSource string
  | WithIDGenerator "('w \<Rightarrow> (err + messageID) \<times> 'w) option"
  | WithClock "('w \<Rightarrow> instant \<times> 'w) option"
  | WithObserver "'w observer option"
  | WithContextPropagator "'w propagator option"
  | WithRuntimeShutdownTimeout duration

fun apply_option :: "'w option_call \<Rightarrow> ('w, 'v) builder \<Rightarrow> ('w, 'v) builder" where
  "apply_option NilOption b = addError ''nil builder option'' ErrInvalidMessage b"
| "apply_option (WithSource source) b = b\<lparr>bd_source := source\<rparr>"
| "apply_option (WithIDGenerator g) b =
    (case g of None \<Rightarrow> addError ''nil ID generator'' ErrInvalidMessage b | Some f \<Rightarrow> b\<lparr>bd_idGenerator := f\<rparr>)"
| "apply_option (WithClock c) b =
    (case c of None \<Rightarrow> addError ''nil clock'' ErrInvalidMessage b | Some f \<Rightarrow> b\<lparr>bd_clock := f\<rparr>)"
| "apply_option (WithObserver x) b =
    (case x of None \<Rightarrow> addError ''nil observer'' ErrInvalidMessage b | Some f \<Rightarrow> b\<lparr>bd_observers := bd_observers b @ [f]\<rparr>)"
| "apply_option (WithContextPropagator p) b =
    (case p of None \<Rightarrow> addError ''nil context propagator'' ErrInvalidMessage b | Some f \<Rightarrow> b\<lparr>bd_propagator := Some f\<rparr>)"
| "apply_option (WithRuntimeShutdownTimeout t) b =
    (if t \<le> 0 then addError ''runtime shutdown timeout must be positive'' ErrInvalidMessage b else b\<lparr>bd_shutdownTimeout := t\<rparr>)"

definition NewBuilder ::
  "('w \<Rightarrow> (err + messageID) \<times> 'w) \<Rightarrow> ('w \<Rightarrow> instant \<times> 'w) \<Rightarrow> 'w option_call list \<Rightarrow> ('w, 'v) builder" where
  "NewBuilder uuid wall options =
    fold apply_option options
      \<lparr>bd_source = [], bd_idGenerator = uuid, bd_clock = wall, bd_observers = [], bd_propagator = None,
       bd_shutdownTimeout = defaultRuntimeShutdownTimeout, bd_middlewares = [], bd_commands = [], bd_events = [],
       bd_queries = [], bd_services = [], bd_errors = []\<rparr>"

fun UseMiddleware :: "'w core_middleware option list \<Rightarrow> ('w, 'v) builder \<Rightarrow> ('w, 'v) builder" where
  "UseMiddleware [] b = b"
| "UseMiddleware (None # ms) b = UseMiddleware ms (addError ''nil middleware'' ErrInvalidMessage b)"
| "UseMiddleware (Some m # ms) b = UseMiddleware ms (b\<lparr>bd_middlewares := bd_middlewares b @ [m]\<rparr>)"

subsection \<open>Registrations\<close>

definition new_command :: "'v typed_descriptor \<Rightarrow> ('w, 'v) commandRegistration" where
  "new_command d = \<lparr>cb_descriptor = eraseDescriptor d, cb_handlerID = [], cb_handler = None, cb_route = None\<rparr>"

definition ensureCommand ::
  "'v typed_descriptor \<Rightarrow> ('w, 'v) builder \<Rightarrow> ('w, 'v) commandRegistration option \<times> ('w, 'v) builder" where
  "ensureCommand d b =
    (case map_of (bd_commands b) (keyFor (td_info d)) of
       Some r \<Rightarrow>
        if \<not> sameDescriptor (cb_descriptor r) (td_info d) (td_type d)
        then (None, addError ''command'' ErrDescriptorConflict b)
        else (Some r, b)
     | None \<Rightarrow> (Some (new_command d), b\<lparr>bd_commands := tb_add (keyFor (td_info d)) (new_command d) (bd_commands b)\<rparr>))"

definition set_command ::
  "'v typed_descriptor \<Rightarrow> (('w, 'v) commandRegistration \<Rightarrow> ('w, 'v) commandRegistration) \<Rightarrow> ('w, 'v) builder \<Rightarrow> ('w, 'v) builder" where
  "set_command d f b = b\<lparr>bd_commands := tb_update ((=) (keyFor (td_info d))) f (bd_commands b)\<rparr>"

definition new_event :: "'v typed_descriptor \<Rightarrow> ('w, 'v) eventRegistration" where
  "new_event d = \<lparr>eb_descriptor = eraseDescriptor d, eb_subscribers = [], eb_route = None\<rparr>"

definition ensureEvent ::
  "'v typed_descriptor \<Rightarrow> ('w, 'v) builder \<Rightarrow> ('w, 'v) eventRegistration option \<times> ('w, 'v) builder" where
  "ensureEvent d b =
    (case map_of (bd_events b) (keyFor (td_info d)) of
       Some r \<Rightarrow>
        if \<not> sameDescriptor (eb_descriptor r) (td_info d) (td_type d)
        then (None, addError ''event'' ErrDescriptorConflict b)
        else (Some r, b)
     | None \<Rightarrow> (Some (new_event d), b\<lparr>bd_events := tb_add (keyFor (td_info d)) (new_event d) (bd_events b)\<rparr>))"

definition set_event ::
  "'v typed_descriptor \<Rightarrow> (('w, 'v) eventRegistration \<Rightarrow> ('w, 'v) eventRegistration) \<Rightarrow> ('w, 'v) builder \<Rightarrow> ('w, 'v) builder" where
  "set_event d f b = b\<lparr>bd_events := tb_update ((=) (keyFor (td_info d))) f (bd_events b)\<rparr>"

definition new_query :: "'v typed_descriptor \<Rightarrow> gotype \<Rightarrow> ('w, 'v) queryRegistration" where
  "new_query d resultType =
    \<lparr>qb_descriptor = eraseDescriptor d, qb_resultType = resultType, qb_handlerID = [], qb_handler = None, qb_route = None\<rparr>"

definition ensureQuery ::
  "'v typed_descriptor \<Rightarrow> gotype \<Rightarrow> gotype \<Rightarrow> ('w, 'v) builder \<Rightarrow> ('w, 'v) queryRegistration option \<times> ('w, 'v) builder" where
  "ensureQuery d resultType R b =
    (case map_of (bd_queries b) (keyFor (td_info d)) of
       Some r \<Rightarrow>
        if \<not> sameDescriptor (qb_descriptor r) (td_info d) (td_type d) \<or> qb_resultType r \<noteq> resultType \<or> resultType \<noteq> R
        then (None, addError ''query'' ErrDescriptorConflict b)
        else (Some r, b)
     | None \<Rightarrow> (Some (new_query d resultType), b\<lparr>bd_queries := tb_add (keyFor (td_info d)) (new_query d resultType) (bd_queries b)\<rparr>))"

definition set_query ::
  "'v typed_descriptor \<Rightarrow> (('w, 'v) queryRegistration \<Rightarrow> ('w, 'v) queryRegistration) \<Rightarrow> ('w, 'v) builder \<Rightarrow> ('w, 'v) builder" where
  "set_query d f b = b\<lparr>bd_queries := tb_update ((=) (keyFor (td_info d))) f (bd_queries b)\<rparr>"

definition addService :: "string \<Rightarrow> service go_iface \<Rightarrow> ('w, 'v) builder \<Rightarrow> ('w, 'v) builder" where
  "addService serviceID sv b =
    (if \<not> validStableID serviceID \<or> sv = NilIface then addError ''invalid service'' ErrServiceConflict b
     else case sv of
       Held x \<Rightarrow>
        (case map_of (bd_services b) serviceID of
           Some existing \<Rightarrow>
            if sv_pointer x \<noteq> 0 \<and> sv_pointer existing = sv_pointer x then b
            else addError serviceID ErrServiceConflict b
         | None \<Rightarrow> b\<lparr>bd_services := tb_add serviceID x (bd_services b)\<rparr>)
     | _ \<Rightarrow> addError ''nil service'' ErrServiceConflict b)"

definition addRouteService :: "(string \<times> service go_iface) option \<Rightarrow> ('w, 'v) builder \<Rightarrow> ('w, 'v) builder" where
  "addRouteService provider b = (case provider of None \<Rightarrow> b | Some (serviceID, sv) \<Rightarrow> addService serviceID sv b)"

subsection \<open>Declarations\<close>

definition HandleCommand ::
  "'v typed_descriptor \<Rightarrow> string \<Rightarrow> ('w, 'v) msg_handler option \<Rightarrow> ('w, 'v) builder \<Rightarrow> ('w, 'v) builder" where
  "HandleCommand d handlerID handler b =
    (case ensureCommand d b of
       (None, b) \<Rightarrow> b
     | (Some r, b) \<Rightarrow>
        (case handler of
           None \<Rightarrow> addError ''invalid handler'' ErrHandlerConflict b
         | Some h \<Rightarrow>
            if \<not> validStableID handlerID then addError ''invalid handler'' ErrHandlerConflict b
            else if cb_handler r \<noteq> None then addError ''command'' ErrHandlerConflict b
            else set_command d (\<lambda>r. r\<lparr>cb_handlerID := handlerID, cb_handler := Some (erase_handler (td_type d) h)\<rparr>) b))"

definition HandleQuery ::
  "'v typed_descriptor \<Rightarrow> gotype \<Rightarrow> gotype \<Rightarrow> string \<Rightarrow> ('w, 'v) queryHandler option \<Rightarrow> ('w, 'v) builder \<Rightarrow> ('w, 'v) builder" where
  "HandleQuery d resultType R handlerID handler b =
    (case ensureQuery d resultType R b of
       (None, b) \<Rightarrow> b
     | (Some r, b) \<Rightarrow>
        (case handler of
           None \<Rightarrow> addError ''invalid query handler'' ErrHandlerConflict b
         | Some h \<Rightarrow>
            if \<not> validStableID handlerID then addError ''invalid query handler'' ErrHandlerConflict b
            else if qb_handler r \<noteq> None then addError ''query'' ErrHandlerConflict b
            else set_query d (\<lambda>r. r\<lparr>qb_handlerID := handlerID, qb_handler := Some (erase_query_handler (td_type d) resultType h)\<rparr>) b))"

definition Subscribe ::
  "'v typed_descriptor \<Rightarrow> string \<Rightarrow> ('w, 'v) msg_handler option \<Rightarrow> ('w, 'v) builder \<Rightarrow> ('w, 'v) builder" where
  "Subscribe d subscriptionID handler b =
    (case ensureEvent d b of
       (None, b) \<Rightarrow> b
     | (Some r, b) \<Rightarrow>
        (case handler of
           None \<Rightarrow> addError ''invalid subscription'' ErrHandlerConflict b
         | Some h \<Rightarrow>
            if \<not> validStableID subscriptionID then addError ''invalid subscription'' ErrHandlerConflict b
            else if subscriptionID \<in> set (map es_id (eb_subscribers r)) then addError ''duplicate subscription'' ErrHandlerConflict b
            else set_event d
              (\<lambda>r. r\<lparr>eb_subscribers := eb_subscribers r @ [\<lparr>es_id = subscriptionID, es_handler = erase_handler (td_type d) h\<rparr>]\<rparr>) b))"

definition validateRoute :: "string \<Rightarrow> ('r \<Rightarrow> string) \<Rightarrow> 'r go_iface \<Rightarrow> ('w, 'v) builder \<Rightarrow> 'r option \<times> ('w, 'v) builder" where
  "validateRoute what name route b =
    (case route of
       Held r \<Rightarrow>
        if \<not> validStableID (name r) then (None, addError (''invalid '' @ what @ '' name'') ErrRouteNotFound b)
        else (Some r, b)
     | _ \<Rightarrow> (None, addError (''nil '' @ what) ErrRouteNotFound b))"

definition RouteCommand :: "'v typed_descriptor \<Rightarrow> ('w, 'v) croute go_iface \<Rightarrow> ('w, 'v) builder \<Rightarrow> ('w, 'v) builder" where
  "RouteCommand d route b =
    (case ensureCommand d b of
       (None, b) \<Rightarrow> b
     | (Some r, b) \<Rightarrow>
        (case validateRoute ''route'' rt_Name route b of
           (None, b) \<Rightarrow> b
         | (Some x, b) \<Rightarrow>
            if cb_route r \<noteq> None then addError ''command'' ErrRouteConflict b
            else addRouteService (rt_service x) (set_command d (\<lambda>r. r\<lparr>cb_route := Some x\<rparr>) b)))"

definition RouteEvent :: "'v typed_descriptor \<Rightarrow> ('w, 'v) croute go_iface \<Rightarrow> ('w, 'v) builder \<Rightarrow> ('w, 'v) builder" where
  "RouteEvent d route b =
    (case ensureEvent d b of
       (None, b) \<Rightarrow> b
     | (Some r, b) \<Rightarrow>
        (case validateRoute ''route'' rt_Name route b of
           (None, b) \<Rightarrow> b
         | (Some x, b) \<Rightarrow>
            if eb_route r \<noteq> None then addError ''event'' ErrRouteConflict b
            else addRouteService (rt_service x) (set_event d (\<lambda>r. r\<lparr>eb_route := Some x\<rparr>) b)))"

definition RouteQuery ::
  "'v typed_descriptor \<Rightarrow> gotype \<Rightarrow> gotype \<Rightarrow> ('w, 'v) localQueryRoute go_iface \<Rightarrow> ('w, 'v) builder \<Rightarrow> ('w, 'v) builder" where
  "RouteQuery d resultType R route b =
    (case ensureQuery d resultType R b of
       (None, b) \<Rightarrow> b
     | (Some r, b) \<Rightarrow>
        (case validateRoute ''query route'' qt_Name route b of
           (None, b) \<Rightarrow> b
         | (Some x, b) \<Rightarrow>
            if qb_route r \<noteq> None then addError ''query'' ErrRouteConflict b
            else addRouteService (qt_service x) (set_query d (\<lambda>r. r\<lparr>qb_route := Some x\<rparr>) b)))"

definition Use :: "string \<Rightarrow> service go_iface \<Rightarrow> ('w, 'v) builder \<Rightarrow> ('w, 'v) builder" where
  "Use = addService"

section \<open>Manifests\<close>

definition ManifestSpecVersion :: string where
  "ManifestSpecVersion = ''1.0''"

record manifestDescriptor =
  mf_info :: descriptorInfo
  mf_Route :: string
  mf_HandlerIDs :: "string list"

record manifest =
  mn_SpecVersion :: string
  mn_Source :: string
  mn_Descriptors :: "manifestDescriptor list"
  mn_Services :: "string list"

fun check_ids :: "sentinel \<Rightarrow> string list \<Rightarrow> string list \<Rightarrow> err option" where
  "check_ids s seen [] = None"
| "check_ids s seen (x # xs) =
    (if \<not> validStableID x then Some (Wrap ''invalid manifest entry'' [Sentinel s])
     else if x \<in> set seen then Some (Wrap ''duplicate manifest entry'' [Sentinel s])
     else check_ids s (x # seen) xs)"

definition validateManifestDescriptor :: "manifestDescriptor \<Rightarrow> err option" where
  "validateManifestDescriptor d =
    (let info = mf_info d in
     if \<not> kind_valid (di_Kind info) \<or> length (di_Name info) > maxDescriptorNameLength \<or> \<not> descriptorNamePattern (di_Name info) \<or>
        di_SchemaVersion info \<le> 0 \<or> di_ContentType info = [] \<or> \<not> encoding_valid (di_DataEncoding info)
     then Some (Wrap ''manifest descriptor'' [Sentinel ErrInvalidDescriptor])
     else if mf_Route d \<noteq> [] \<and> \<not> validStableID (mf_Route d)
     then Some (Wrap ''invalid manifest route'' [Sentinel ErrRouteConflict])
     else if (di_Kind info = KindCommand \<or> di_Kind info = KindQuery) \<and> length (mf_HandlerIDs d) > 1
     then Some (Wrap ''has multiple handlers'' [Sentinel ErrHandlerConflict])
     else if di_Kind info = KindQuery \<and> mf_Route d = [] then Some (Wrap ''query'' [Sentinel ErrRouteNotFound])
     else if di_Kind info = KindQuery \<and> length (mf_HandlerIDs d) = 0 then Some (Wrap ''query'' [Sentinel ErrHandlerNotFound])
     else check_ids ErrHandlerConflict [] (mf_HandlerIDs d))"

definition validateManifestServices :: "string list \<Rightarrow> err option" where
  "validateManifestServices = check_ids ErrServiceConflict []"

fun check_descriptors :: "descriptorKey list \<Rightarrow> manifestDescriptor list \<Rightarrow> err option" where
  "check_descriptors seen [] = None"
| "check_descriptors seen (d # ds) =
    (case validateManifestDescriptor d of
       Some e \<Rightarrow> Some e
     | None \<Rightarrow>
        if keyFor (mf_info d) \<in> set seen then Some (Wrap ''duplicate manifest descriptor'' [Sentinel ErrDescriptorConflict])
        else check_descriptors (keyFor (mf_info d) # seen) ds)"

definition manifest_Validate :: "wire_lib \<Rightarrow> manifest \<Rightarrow> err option" where
  "manifest_Validate L m =
    (if mn_SpecVersion m \<noteq> ManifestSpecVersion then Some (invalid_message ''manifest specVersion'')
     else case validateSource L (mn_Source m) of
       Some e \<Rightarrow> Some e
     | None \<Rightarrow>
        (case check_descriptors [] (mn_Descriptors m) of
           Some e \<Rightarrow> Some e
         | None \<Rightarrow> validateManifestServices (mn_Services m)))"

definition command_manifest :: "('w, 'v) commandBinding \<Rightarrow> manifestDescriptor" where
  "command_manifest b =
    \<lparr>mf_info = dr_info (cb_descriptor b), mf_Route = (case cb_route b of None \<Rightarrow> [] | Some r \<Rightarrow> rt_Name r),
     mf_HandlerIDs = (if cb_handlerID b \<noteq> [] then [cb_handlerID b] else [])\<rparr>"

definition event_manifest :: "('w, 'v) eventBinding \<Rightarrow> manifestDescriptor" where
  "event_manifest b =
    \<lparr>mf_info = dr_info (eb_descriptor b), mf_Route = (case eb_route b of None \<Rightarrow> [] | Some r \<Rightarrow> rt_Name r),
     mf_HandlerIDs = map es_id (eb_subscribers b)\<rparr>"

definition query_manifest :: "('w, 'v) queryBinding \<Rightarrow> manifestDescriptor" where
  "query_manifest b =
    \<lparr>mf_info = dr_info (qb_descriptor b), mf_Route = qt_Name (the (qb_route b)), mf_HandlerIDs = [qb_handlerID b]\<rparr>"

definition buildManifest ::
  "string \<Rightarrow> ('w, 'v) commandBinding list \<Rightarrow> ('w, 'v) eventBinding list \<Rightarrow> ('w, 'v) queryBinding list \<Rightarrow> string list \<Rightarrow> manifest" where
  "buildManifest source commands events queries services =
    \<lparr>mn_SpecVersion = ManifestSpecVersion, mn_Source = source,
     mn_Descriptors = sort_key (\<lambda>d. keyFor (mf_info d))
       (map command_manifest commands @ map event_manifest events @ map query_manifest queries),
     mn_Services = sort services\<rparr>"

section \<open>\<open>Build\<close>\<close>

record ('w, 'v) messenger =
  ms_source :: string
  ms_idGenerator :: "'w \<Rightarrow> (err + messageID) \<times> 'w"
  ms_clock :: "'w \<Rightarrow> instant \<times> 'w"
  ms_observer :: "'w observer list option"
  ms_propagator :: "'w propagator option"
  ms_env :: "'w binding_env"
  ms_commands :: "(descriptorKey, ('w, 'v) commandBinding) table"
  ms_events :: "(descriptorKey, ('w, 'v) eventBinding) table"
  ms_queries :: "(descriptorKey, ('w, 'v) queryBinding) table"
  ms_manifest :: manifest

record runtime_config =
  rn_services :: "(string \<times> service) list"
  rn_shutdownTimeout :: duration

definition newRuntime :: "(string \<times> service) list \<Rightarrow> duration \<Rightarrow> runtime_config" where
  "newRuntime services shutdownTimeout =
    \<lparr>rn_services = sort_key fst services,
     rn_shutdownTimeout = (if shutdownTimeout \<le> 0 then defaultRuntimeShutdownTimeout else shutdownTimeout)\<rparr>"

definition check_command :: "('w, 'v) commandRegistration \<Rightarrow> err list" where
  "check_command r =
    (case cb_route r of
       Some x \<Rightarrow> if rt_local x \<and> cb_handler r = None then [Wrap ''local command'' [Sentinel ErrHandlerNotFound]] else []
     | None \<Rightarrow> [])"

definition check_query :: "('w, 'v) queryRegistration \<Rightarrow> err list" where
  "check_query r =
    (if qb_handler r = None then [Wrap ''query'' [Sentinel ErrHandlerNotFound]] else []) @
    (if qb_route r = None then [Wrap ''query'' [Sentinel ErrRouteNotFound]] else [])"

definition build_errors :: "wire_lib \<Rightarrow> ('w, 'v) builder \<Rightarrow> err list" where
  "build_errors L b =
    bd_errors b @ (case validateSource L (bd_source b) of None \<Rightarrow> [] | Some e \<Rightarrow> [e]) @
    concat (map (check_command \<circ> snd) (bd_commands b)) @ concat (map (check_query \<circ> snd) (bd_queries b))"

definition builder_Build ::
  "wire_lib \<Rightarrow> ('w \<Rightarrow> instant \<times> 'w) \<Rightarrow> ('w, 'v) builder \<Rightarrow>
    (err + ('w, 'v) messenger \<times> runtime_config) \<times> ('w, 'v) builder" where
  "builder_Build L wall b =
    (case errors_Join (map Some (build_errors L b)) of
       Some e \<Rightarrow> Inl e
     | None \<Rightarrow>
        let observer = newObserverSet (bd_observers b) in
        Inr (\<lparr>ms_source = bd_source b, ms_idGenerator = bd_idGenerator b, ms_clock = bd_clock b, ms_observer = observer,
              ms_propagator = bd_propagator b,
              ms_env = \<lparr>be_observer = observer, be_clock = bd_clock b, be_middleware = bd_middlewares b, be_wall = wall\<rparr>,
              ms_commands = bd_commands b, ms_events = bd_events b, ms_queries = bd_queries b,
              ms_manifest = buildManifest (bd_source b) (map snd (bd_commands b)) (map snd (bd_events b)) (map snd (bd_queries b))
                (map fst (bd_services b))\<rparr>,
             newRuntime (bd_services b) (bd_shutdownTimeout b)),
     b\<lparr>bd_errors := build_errors L b\<rparr>)"

text \<open>A sequence of declarations on a builder.\<close>

datatype ('w, 'v) decl =
    DeclMiddleware "'w core_middleware option list"
  | DeclHandleCommand "'v typed_descriptor" string "('w, 'v) msg_handler option"
  | DeclHandleQuery "'v typed_descriptor" gotype string "('w, 'v) queryHandler option"
  | DeclSubscribe "'v typed_descriptor" string "('w, 'v) msg_handler option"
  | DeclRouteCommand "'v typed_descriptor" "('w, 'v) croute go_iface"
  | DeclRouteEvent "'v typed_descriptor" "('w, 'v) croute go_iface"
  | DeclRouteQuery "'v typed_descriptor" gotype "('w, 'v) localQueryRoute go_iface"
  | DeclUse string "service go_iface"

fun declare_one :: "('w, 'v) decl \<Rightarrow> ('w, 'v) builder \<Rightarrow> ('w, 'v) builder" where
  "declare_one (DeclMiddleware ms) = UseMiddleware ms"
| "declare_one (DeclHandleCommand d i h) = HandleCommand d i h"
| "declare_one (DeclHandleQuery d R i h) = HandleQuery d R R i h"
| "declare_one (DeclSubscribe d i h) = Subscribe d i h"
| "declare_one (DeclRouteCommand d r) = RouteCommand d r"
| "declare_one (DeclRouteEvent d r) = RouteEvent d r"
| "declare_one (DeclRouteQuery d R r) = RouteQuery d R R r"
| "declare_one (DeclUse i sv) = Use i sv"

section \<open>The invariant of the builder\<close>

text \<open>Descriptors come from their constructors; only the schema can be changed afterwards.\<close>

definition constructed :: "kind \<Rightarrow> 'v typed_descriptor \<Rightarrow> bool" where
  "constructed k d \<longleftrightarrow>
    (\<exists>T name schemaVersion codec d0 schema. new_typed k T name schemaVersion codec = Inr d0 \<and> (d = d0 \<or> d = WithSchema schema d0))"

text \<open>A query handler returns values of the result type of its descriptor, as Go's type checker demands.\<close>

definition returns :: "gotype \<Rightarrow> ('w, 'v) queryHandler \<Rightarrow> bool" where
  "returns R h \<longleftrightarrow> (\<forall>c msg w v e w'. h c msg w = (Returned (v, e), w') \<longrightarrow> has_type R v)"

fun declared_ok :: "('w, 'v) decl \<Rightarrow> bool" where
  "declared_ok (DeclHandleCommand d i h) = constructed KindCommand d"
| "declared_ok (DeclHandleQuery d R i h) \<longleftrightarrow> constructed KindQuery d \<and> (case h of None \<Rightarrow> True | Some f \<Rightarrow> returns R f)"
| "declared_ok (DeclSubscribe d i h) = constructed KindEvent d"
| "declared_ok (DeclRouteCommand d r) = constructed KindCommand d"
| "declared_ok (DeclRouteEvent d r) = constructed KindEvent d"
| "declared_ok (DeclRouteQuery d R r) = constructed KindQuery d"
| "declared_ok _ = True"

definition info_ok :: "kind \<Rightarrow> descriptorInfo \<Rightarrow> bool" where
  "info_ok k info \<longleftrightarrow> di_Kind info = k \<and> kind_valid k \<and> length (di_Name info) \<le> maxDescriptorNameLength \<and>
    descriptorNamePattern (di_Name info) \<and> 0 < di_SchemaVersion info \<and> di_ContentType info \<noteq> [] \<and> encoding_valid (di_DataEncoding info)"

lemma constructed_info: "constructed k d \<Longrightarrow> info_ok k (td_info d)"
  by (auto simp: constructed_def new_typed_def newDescriptor_def info_ok_def WithSchema_def split: option.splits if_splits)

definition accepts :: "gotype \<Rightarrow> ('v any \<Rightarrow> err + 'h) \<Rightarrow> bool" where
  "accepts T f \<longleftrightarrow> (\<forall>payload. has_type T payload \<longrightarrow> (\<exists>h. f payload = Inr h))"

lemma accepts_erased [simp]: "accepts T (erase_handler T h)" "accepts T (erase_query_handler T R q)"
  by (auto simp: accepts_def erase_handler_def erase_query_handler_def dest: payloadAs_has_type)

definition command_ok :: "descriptorKey \<Rightarrow> ('w, 'v) commandRegistration \<Rightarrow> bool" where
  "command_ok key r \<longleftrightarrow>
    (let d = cb_descriptor r in
     key = keyFor (dr_info d) \<and> info_ok KindCommand (dr_info d) \<and>
     (case cb_handler r of None \<Rightarrow> cb_handlerID r = [] | Some f \<Rightarrow> validStableID (cb_handlerID r) \<and> accepts (dr_payloadType d) f) \<and>
     (case cb_route r of None \<Rightarrow> True | Some x \<Rightarrow> validStableID (rt_Name x)))"

definition event_ok :: "descriptorKey \<Rightarrow> ('w, 'v) eventRegistration \<Rightarrow> bool" where
  "event_ok key r \<longleftrightarrow>
    (let d = eb_descriptor r in
     key = keyFor (dr_info d) \<and> info_ok KindEvent (dr_info d) \<and> distinct (map es_id (eb_subscribers r)) \<and>
     list_all (\<lambda>s. validStableID (es_id s) \<and> accepts (dr_payloadType d) (es_handler s)) (eb_subscribers r) \<and>
     (case eb_route r of None \<Rightarrow> True | Some x \<Rightarrow> validStableID (rt_Name x)))"

definition query_ok :: "descriptorKey \<Rightarrow> ('w, 'v) queryRegistration \<Rightarrow> bool" where
  "query_ok key r \<longleftrightarrow>
    (let d = qb_descriptor r in
     key = keyFor (dr_info d) \<and> info_ok KindQuery (dr_info d) \<and>
     (case qb_handler r of None \<Rightarrow> True
      | Some f \<Rightarrow> validStableID (qb_handlerID r) \<and> (\<exists>h. f = erase_query_handler (dr_payloadType d) (qb_resultType r) h \<and>
          returns (qb_resultType r) h)) \<and>
     (case qb_route r of None \<Rightarrow> True | Some x \<Rightarrow> validStableID (qt_Name x)))"

definition table_ok :: "('k \<Rightarrow> 'r \<Rightarrow> bool) \<Rightarrow> ('k, 'r) table \<Rightarrow> bool" where
  "table_ok P t \<longleftrightarrow> wf_table t \<and> (\<forall>k r. map_of t k = Some r \<longrightarrow> P k r)"

definition builder_ok :: "('w, 'v) builder \<Rightarrow> bool" where
  "builder_ok b \<longleftrightarrow> table_ok command_ok (bd_commands b) \<and> table_ok event_ok (bd_events b) \<and> table_ok query_ok (bd_queries b) \<and>
    table_ok (\<lambda>i _. validStableID i) (bd_services b)"

lemma table_ok_Nil [simp]: "table_ok P []"
  by (simp add: table_ok_def)

lemma table_ok_lookup: "table_ok P t \<Longrightarrow> map_of t k = Some r \<Longrightarrow> P k r"
  by (simp add: table_ok_def)

lemma table_okI: "wf_table t \<Longrightarrow> (\<And>k r. map_of t k = Some r \<Longrightarrow> P k r) \<Longrightarrow> table_ok P t"
  by (simp add: table_ok_def)

lemma table_ok_wf: "table_ok P t \<Longrightarrow> wf_table t"
  by (simp add: table_ok_def)

lemma table_ok_add:
  assumes "table_ok P t" and "map_of t k = None" and "P k r"
  shows "table_ok P (tb_add k r t)"
proof (rule table_okI)
  show "wf_table (tb_add k r t)" by (rule wf_tb_add) (use assms table_ok_wf in \<open>auto simp: tb_has_def\<close>)
  show "P j s" if "map_of (tb_add k r t) j = Some s" for j s
    using that assms(3) table_ok_lookup [OF assms(1), of j] by (simp add: table_simps split: option.splits if_splits)
qed

lemma table_ok_update:
  assumes "table_ok P t" and "\<And>r. map_of t k = Some r \<Longrightarrow> P k r \<Longrightarrow> P k (f r)"
  shows "table_ok P (tb_update ((=) k) f t)"
proof (rule table_okI)
  show "wf_table (tb_update ((=) k) f t)" using assms(1) by (simp add: table_ok_wf)
  show "P j s" if "map_of (tb_update ((=) k) f t) j = Some s" for j s
  proof (cases "j = k")
    case True
    with that obtain r where "map_of t k = Some r" "s = f r" by (auto simp: table_simps)
    with assms(2) table_ok_lookup [OF assms(1)] True show ?thesis by blast
  qed (use that table_ok_lookup [OF assms(1)] in \<open>simp add: table_simps\<close>)
qed

lemma table_ok_set: "table_ok P t \<Longrightarrow> (k, r) \<in> set t \<Longrightarrow> P k r"
  using table_ok_lookup [of P t k r] table_ok_wf [of P t] by (simp add: wf_table_def)

subsection \<open>Every declaration keeps it\<close>

lemma erased_fields [simp]: "dr_info (eraseDescriptor d) = td_info d" "dr_payloadType (eraseDescriptor d) = td_type d"
  by (simp_all add: eraseDescriptor_def)

lemma addError_ok [simp]: "builder_ok (addError t s b) = builder_ok b"
  by (simp add: addError_def builder_ok_def)

lemma addError_tables [simp]:
  "bd_commands (addError t s b) = bd_commands b" "bd_events (addError t s b) = bd_events b" "bd_queries (addError t s b) = bd_queries b"
  "bd_services (addError t s b) = bd_services b"
  by (simp_all add: addError_def)

lemma new_registration_ok:
  "constructed KindCommand d \<Longrightarrow> command_ok (keyFor (td_info d)) (new_command d)"
  "constructed KindEvent d \<Longrightarrow> event_ok (keyFor (td_info d)) (new_event d)"
  "constructed KindQuery d \<Longrightarrow> query_ok (keyFor (td_info d)) (new_query d R)"
  by (simp_all add: command_ok_def event_ok_def query_ok_def new_command_def new_event_def new_query_def Let_def constructed_info)

lemma ensureCommand_ok:
  assumes "builder_ok b" and "constructed KindCommand d" and "ensureCommand d b = (res, b')"
  shows "builder_ok b'"
    "res = Some r \<Longrightarrow> map_of (bd_commands b') (keyFor (td_info d)) = Some r \<and> dr_payloadType (cb_descriptor r) = td_type d"
  using assms new_registration_ok(1) [OF assms(2)]
  by (auto simp: ensureCommand_def builder_ok_def sameDescriptor_def table_simps new_command_def intro: table_ok_add
      split: option.splits if_splits)

lemma ensureEvent_ok:
  assumes "builder_ok b" and "constructed KindEvent d" and "ensureEvent d b = (res, b')"
  shows "builder_ok b'"
    "res = Some r \<Longrightarrow> map_of (bd_events b') (keyFor (td_info d)) = Some r \<and> dr_payloadType (eb_descriptor r) = td_type d"
  using assms new_registration_ok(2) [OF assms(2)]
  by (auto simp: ensureEvent_def builder_ok_def sameDescriptor_def table_simps new_event_def intro: table_ok_add
      split: option.splits if_splits)

lemma ensureQuery_ok:
  assumes "builder_ok b" and "constructed KindQuery d" and "ensureQuery d R R b = (res, b')"
  shows "builder_ok b'"
    "res = Some r \<Longrightarrow> map_of (bd_queries b') (keyFor (td_info d)) = Some r \<and> dr_payloadType (qb_descriptor r) = td_type d \<and> qb_resultType r = R"
  using assms new_registration_ok(3) [OF assms(2), of R]
  by (auto simp: ensureQuery_def builder_ok_def sameDescriptor_def table_simps new_query_def intro: table_ok_add
      split: option.splits if_splits)

lemma set_ok:
  "builder_ok b \<Longrightarrow> (\<And>r. map_of (bd_commands b) (keyFor (td_info d)) = Some r \<Longrightarrow> command_ok (keyFor (td_info d)) r \<Longrightarrow>
    command_ok (keyFor (td_info d)) (f r)) \<Longrightarrow> builder_ok (set_command d f b)"
  "builder_ok b \<Longrightarrow> (\<And>r. map_of (bd_events b) (keyFor (td_info d)) = Some r \<Longrightarrow> event_ok (keyFor (td_info d)) r \<Longrightarrow>
    event_ok (keyFor (td_info d)) (g r)) \<Longrightarrow> builder_ok (set_event d g b)"
  "builder_ok b \<Longrightarrow> (\<And>r. map_of (bd_queries b) (keyFor (td_info d)) = Some r \<Longrightarrow> query_ok (keyFor (td_info d)) r \<Longrightarrow>
    query_ok (keyFor (td_info d)) (q r)) \<Longrightarrow> builder_ok (set_query d q b)"
  by (simp_all add: builder_ok_def set_command_def set_event_def set_query_def table_ok_update)

lemma addService_ok: "builder_ok b \<Longrightarrow> builder_ok (addService i sv b)"
  by (auto simp: addService_def builder_ok_def addError_def intro: table_ok_add split: go_iface.splits option.splits)

lemma addRouteService_ok: "builder_ok b \<Longrightarrow> builder_ok (addRouteService p b)"
  by (auto simp: addRouteService_def addService_ok split: option.split)

lemma UseMiddleware_ok: "builder_ok b \<Longrightarrow> builder_ok (UseMiddleware ms b)"
  by (induction ms b rule: UseMiddleware.induct) (simp_all add: builder_ok_def addError_def)

lemma validateRoute_ok:
  "validateRoute what name route b = (res, b') \<Longrightarrow> builder_ok b \<Longrightarrow> builder_ok b'"
  "validateRoute what name route b = (Some x, b') \<Longrightarrow> b' = b \<and> validStableID (name x)"
  by (auto simp: validateRoute_def split: go_iface.splits if_splits)

lemma registered_ok:
  "command_ok k r \<Longrightarrow> dr_payloadType (cb_descriptor r) = T \<Longrightarrow> validStableID i \<Longrightarrow>
    command_ok k (r\<lparr>cb_handlerID := i, cb_handler := Some (erase_handler T h)\<rparr>)"
  "command_ok k r \<Longrightarrow> validStableID (rt_Name x) \<Longrightarrow> command_ok k (r\<lparr>cb_route := Some x\<rparr>)"
  "event_ok k e \<Longrightarrow> dr_payloadType (eb_descriptor e) = T \<Longrightarrow> validStableID i \<Longrightarrow> i \<notin> set (map es_id (eb_subscribers e)) \<Longrightarrow>
    event_ok k (e\<lparr>eb_subscribers := eb_subscribers e @ [\<lparr>es_id = i, es_handler = erase_handler T h\<rparr>]\<rparr>)"
  "event_ok k e \<Longrightarrow> validStableID (rt_Name x) \<Longrightarrow> event_ok k (e\<lparr>eb_route := Some x\<rparr>)"
  "query_ok k q \<Longrightarrow> dr_payloadType (qb_descriptor q) = T \<Longrightarrow> qb_resultType q = R \<Longrightarrow> validStableID i \<Longrightarrow> returns R g \<Longrightarrow>
    query_ok k (q\<lparr>qb_handlerID := i, qb_handler := Some (erase_query_handler T R g)\<rparr>)"
  "query_ok k q \<Longrightarrow> validStableID (qt_Name y) \<Longrightarrow> query_ok k (q\<lparr>qb_route := Some y\<rparr>)"
  by (auto simp: command_ok_def event_ok_def query_ok_def Let_def split: option.splits)

text \<open>A declaration looks its registration up, may refuse it, and otherwise updates it.\<close>

lemma HandleCommand_ok:
  assumes b: "builder_ok b" and d: "constructed KindCommand d"
  shows "builder_ok (HandleCommand d i h b)"
proof -
  obtain res b' where e: "ensureCommand d b = (res, b')" by force
  note ok = ensureCommand_ok [OF b d e]
  have "builder_ok (set_command d (\<lambda>r. r\<lparr>cb_handlerID := i, cb_handler := Some (erase_handler (td_type d) f)\<rparr>) b')"
    if "res = Some r" "validStableID i" for r f
    by (rule set_ok(1) [OF ok(1)], rule registered_ok(1)) (use ok(2) [OF that(1)] that(2) in auto)
  then show ?thesis using ok(1) by (simp add: HandleCommand_def e split: option.split)
qed

lemma HandleQuery_ok:
  assumes b: "builder_ok b" and d: "constructed KindQuery d" and h: "case h of None \<Rightarrow> True | Some f \<Rightarrow> returns R f"
  shows "builder_ok (HandleQuery d R R i h b)"
proof -
  obtain res b' where e: "ensureQuery d R R b = (res, b')" by force
  note ok = ensureQuery_ok [OF b d e]
  have "builder_ok (set_query d (\<lambda>r. r\<lparr>qb_handlerID := i, qb_handler := Some (erase_query_handler (td_type d) R f)\<rparr>) b')"
    if "res = Some r" "validStableID i" "returns R f" for r f
    by (rule set_ok(3) [OF ok(1)], rule registered_ok(5)) (use ok(2) [OF that(1)] that(2,3) in auto)
  then show ?thesis using ok(1) h by (simp add: HandleQuery_def e split: option.splits)
qed

lemma Subscribe_ok:
  assumes b: "builder_ok b" and d: "constructed KindEvent d"
  shows "builder_ok (Subscribe d i h b)"
proof -
  obtain res b' where e: "ensureEvent d b = (res, b')" by force
  note ok = ensureEvent_ok [OF b d e]
  have "builder_ok (set_event d
      (\<lambda>r. r\<lparr>eb_subscribers := eb_subscribers r @ [\<lparr>es_id = i, es_handler = erase_handler (td_type d) f\<rparr>]\<rparr>) b')"
    if "res = Some r" "validStableID i" "i \<notin> set (map es_id (eb_subscribers r))" for r f
    by (rule set_ok(2) [OF ok(1)], rule registered_ok(3)) (use ok(2) [OF that(1)] that(2,3) in auto)
  then show ?thesis using ok(1) by (simp add: Subscribe_def e split: option.split)
qed

lemma RouteCommand_ok:
  assumes b: "builder_ok b" and d: "constructed KindCommand d"
  shows "builder_ok (RouteCommand d route b)"
proof -
  obtain res b' where e: "ensureCommand d b = (res, b')" by force
  obtain x b'' where v: "validateRoute ''route'' rt_Name route b' = (x, b'')" by force
  note ok = ensureCommand_ok(1) [OF b d e] validateRoute_ok(1) [OF v]
  have "builder_ok (addRouteService p (set_command d (\<lambda>r. r\<lparr>cb_route := x\<rparr>) b''))" if "x = Some y" for y p
    by (rule addRouteService_ok, rule set_ok(1)) (use ok validateRoute_ok(2) [OF v [unfolded that]] that in \<open>auto intro: registered_ok(2)\<close>)
  then show ?thesis using ok by (auto simp: RouteCommand_def e v split: option.split)
qed

lemma RouteEvent_ok:
  assumes b: "builder_ok b" and d: "constructed KindEvent d"
  shows "builder_ok (RouteEvent d route b)"
proof -
  obtain res b' where e: "ensureEvent d b = (res, b')" by force
  obtain x b'' where v: "validateRoute ''route'' rt_Name route b' = (x, b'')" by force
  note ok = ensureEvent_ok(1) [OF b d e] validateRoute_ok(1) [OF v]
  have "builder_ok (addRouteService p (set_event d (\<lambda>r. r\<lparr>eb_route := x\<rparr>) b''))" if "x = Some y" for y p
    by (rule addRouteService_ok, rule set_ok(2)) (use ok validateRoute_ok(2) [OF v [unfolded that]] that in \<open>auto intro: registered_ok(4)\<close>)
  then show ?thesis using ok by (auto simp: RouteEvent_def e v split: option.split)
qed

lemma RouteQuery_ok:
  assumes b: "builder_ok b" and d: "constructed KindQuery d"
  shows "builder_ok (RouteQuery d R R route b)"
proof -
  obtain res b' where e: "ensureQuery d R R b = (res, b')" by force
  obtain x b'' where v: "validateRoute ''query route'' qt_Name route b' = (x, b'')" by force
  note ok = ensureQuery_ok(1) [OF b d e] validateRoute_ok(1) [OF v]
  have "builder_ok (addRouteService p (set_query d (\<lambda>r. r\<lparr>qb_route := x\<rparr>) b''))" if "x = Some y" for y p
    by (rule addRouteService_ok, rule set_ok(3)) (use ok validateRoute_ok(2) [OF v [unfolded that]] that in \<open>auto intro: registered_ok(6)\<close>)
  then show ?thesis using ok by (auto simp: RouteQuery_def e v split: option.split)
qed

lemma declare_one_ok: "declared_ok x \<Longrightarrow> builder_ok b \<Longrightarrow> builder_ok (declare_one x b)"
  by (cases x) (simp_all add: UseMiddleware_ok HandleCommand_ok HandleQuery_ok Subscribe_ok RouteCommand_ok RouteEvent_ok
      RouteQuery_ok Use_def addService_ok)

lemma declare_all_ok: "list_all declared_ok ds \<Longrightarrow> builder_ok b \<Longrightarrow> builder_ok (fold declare_one ds b)"
  by (induction ds arbitrary: b) (simp_all add: declare_one_ok)

lemma apply_option_ok: "builder_ok b \<Longrightarrow> builder_ok (apply_option x b)"
  by (cases x) (simp_all add: builder_ok_def split: option.split)

lemma NewBuilder_ok: "builder_ok (NewBuilder uuid wall options)"
proof -
  have "builder_ok (fold apply_option options b)" if "builder_ok b" for b :: "('a, 'b) builder"
    using that by (induction options arbitrary: b) (simp_all add: apply_option_ok)
  then show ?thesis by (simp add: NewBuilder_def builder_ok_def)
qed

section \<open>Conflicting declarations\<close>

text \<open>What a declaration claims: one handler and one route per command and query, one route per event, and
  every subscription identifier once per event.\<close>

datatype claim =
    CommandHandler descriptorKey | CommandRoute descriptorKey | EventRoute descriptorKey | Subscription descriptorKey string
  | QueryHandler descriptorKey | QueryRoute descriptorKey

fun claim_of :: "('w, 'v) decl \<Rightarrow> claim option" where
  "claim_of (DeclHandleCommand d i h) = Some (CommandHandler (keyFor (td_info d)))"
| "claim_of (DeclHandleQuery d R i h) = Some (QueryHandler (keyFor (td_info d)))"
| "claim_of (DeclSubscribe d i h) = Some (Subscription (keyFor (td_info d)) i)"
| "claim_of (DeclRouteCommand d r) = Some (CommandRoute (keyFor (td_info d)))"
| "claim_of (DeclRouteEvent d r) = Some (EventRoute (keyFor (td_info d)))"
| "claim_of (DeclRouteQuery d R r) = Some (QueryRoute (keyFor (td_info d)))"
| "claim_of _ = None"

definition holds_in :: "('k, 'r) table \<Rightarrow> 'k \<Rightarrow> ('r \<Rightarrow> bool) \<Rightarrow> bool" where
  "holds_in t k P \<longleftrightarrow> (case map_of t k of None \<Rightarrow> False | Some r \<Rightarrow> P r)"

fun claim_taken :: "('w, 'v) builder \<Rightarrow> claim \<Rightarrow> bool" where
  "claim_taken b (CommandHandler k) = holds_in (bd_commands b) k (\<lambda>r. cb_handler r \<noteq> None)"
| "claim_taken b (CommandRoute k) = holds_in (bd_commands b) k (\<lambda>r. cb_route r \<noteq> None)"
| "claim_taken b (EventRoute k) = holds_in (bd_events b) k (\<lambda>r. eb_route r \<noteq> None)"
| "claim_taken b (Subscription k i) = holds_in (bd_events b) k (\<lambda>r. i \<in> set (map es_id (eb_subscribers r)))"
| "claim_taken b (QueryHandler k) = holds_in (bd_queries b) k (\<lambda>r. qb_handler r \<noteq> None)"
| "claim_taken b (QueryRoute k) = holds_in (bd_queries b) k (\<lambda>r. qb_route r \<noteq> None)"

text \<open>How a builder may change: errors and claims are only added.\<close>

definition grows :: "('w, 'v) builder \<Rightarrow> ('w, 'v) builder \<Rightarrow> bool" where
  "grows b b' \<longleftrightarrow> prefix (bd_errors b) (bd_errors b') \<and> (\<forall>c. claim_taken b c \<longrightarrow> claim_taken b' c)"

lemma grows_refl [simp]: "grows b b"
  by (simp add: grows_def)

lemma grows_trans: "grows a b \<Longrightarrow> grows b c \<Longrightarrow> grows a c"
  unfolding grows_def by (blast intro: prefix_order.trans)

lemma claim_taken_cong:
  "bd_commands b' = bd_commands b \<Longrightarrow> bd_events b' = bd_events b \<Longrightarrow> bd_queries b' = bd_queries b \<Longrightarrow> claim_taken b' c = claim_taken b c"
  by (cases c) simp_all

lemma grows_same_tables:
  "bd_commands b' = bd_commands b \<Longrightarrow> bd_events b' = bd_events b \<Longrightarrow> bd_queries b' = bd_queries b \<Longrightarrow>
    prefix (bd_errors b) (bd_errors b') \<Longrightarrow> grows b b'"
  by (simp add: grows_def claim_taken_cong [of b' b])

lemma grows_addError [simp]: "grows b (addError t s b)"
  by (rule grows_same_tables) (simp_all add: addError_def)

lemma grows_addService: "grows b (addService i sv b)"
  by (rule grows_same_tables) (auto simp: addService_def addError_def split: go_iface.split option.split)

lemma grows_addRouteService: "grows b (addRouteService p b)"
  by (auto simp: addRouteService_def grows_addService split: option.split)

lemma grows_UseMiddleware: "grows b (UseMiddleware ms b)"
proof (induction ms b rule: UseMiddleware.induct)
  case (2 ms b)
  then show ?case by (auto intro: grows_trans [OF grows_addError])
next
  case (3 m ms b)
  have "grows b (b\<lparr>bd_middlewares := bd_middlewares b @ [m]\<rparr>)" by (rule grows_same_tables) simp_all
  with 3 show ?case by (auto intro: grows_trans)
qed simp

lemma holds_in_add: "holds_in t k P \<Longrightarrow> holds_in (tb_add j r t) k P"
  by (auto simp: holds_in_def table_simps split: option.splits)

lemma holds_in_update: "holds_in t k P \<Longrightarrow> (\<And>r. P r \<Longrightarrow> P (f r)) \<Longrightarrow> holds_in (tb_update ((=) j) f t) k P"
  by (auto simp: holds_in_def table_simps split: option.splits)

lemma holds_in_updated: "map_of t k \<noteq> None \<Longrightarrow> (\<And>r. P (f r)) \<Longrightarrow> holds_in (tb_update ((=) k) f t) k P"
  by (auto simp: holds_in_def table_simps)

lemma ensure_grows:
  "ensureCommand d b = (res, b') \<Longrightarrow> grows b b'" "ensureEvent d b = (res2, b') \<Longrightarrow> grows b b'" "ensureQuery d R R' b = (res3, b') \<Longrightarrow> grows b b'"
  by (auto simp: ensureCommand_def ensureEvent_def ensureQuery_def grows_def addError_def intro!: holds_in_add
      elim!: claim_taken.elims split: option.splits if_splits)

lemma validateRoute_grows: "validateRoute what name route b = (res, b') \<Longrightarrow> grows b b'"
  by (auto simp: validateRoute_def split: go_iface.splits if_splits)

text \<open>A declaration without an error made a new claim.\<close>

definition honours :: "('w, 'v) builder \<Rightarrow> ('w, 'v) builder \<Rightarrow> claim \<Rightarrow> bool" where
  "honours b b' c \<longleftrightarrow> grows b b' \<and> (bd_errors b' = bd_errors b \<longrightarrow> \<not> claim_taken b c \<and> claim_taken b' c)"

lemma errors_addError [simp]: "bd_errors (addError t s b) \<noteq> bd_errors b" "bd_errors (addError t s b) = bd_errors b @ [Wrap t [Sentinel s]]"
  by (simp_all add: addError_def)

lemma honours_error: "grows b b' \<Longrightarrow> honours b (addError t s b') c"
  by (auto simp: honours_def grows_def claim_taken_cong [of "addError t s b'" b'] prefix_def)

lemma honours_grows: "honours b b' c \<Longrightarrow> grows b' b'' \<Longrightarrow> honours b b'' c"
  by (auto simp: honours_def grows_def prefix_def intro: prefix_order.trans)

lemma honoursI: "grows b b1 \<Longrightarrow> grows b1 b2 \<Longrightarrow> \<not> claim_taken b c \<Longrightarrow> claim_taken b2 c \<Longrightarrow> honours b b2 c"
  by (auto simp: honours_def intro: grows_trans)

lemma ensure_refused:
  "ensureCommand d b = (None, b') \<Longrightarrow> honours b b' c" "ensureEvent d b = (None, b') \<Longrightarrow> honours b b' c"
  "ensureQuery d R R' b = (None, b') \<Longrightarrow> honours b b' c"
  by (auto simp: ensureCommand_def ensureEvent_def ensureQuery_def split: option.splits if_splits intro!: honours_error)

lemma ensure_claims:
  "ensureCommand d b = (Some r, b') \<Longrightarrow> map_of (bd_commands b') (keyFor (td_info d)) = Some r \<and>
    (claim_taken b (CommandHandler (keyFor (td_info d))) \<longleftrightarrow> cb_handler r \<noteq> None) \<and>
    (claim_taken b (CommandRoute (keyFor (td_info d))) \<longleftrightarrow> cb_route r \<noteq> None)"
  "ensureEvent d b = (Some e, b') \<Longrightarrow> map_of (bd_events b') (keyFor (td_info d)) = Some e \<and>
    (claim_taken b (Subscription (keyFor (td_info d)) i) \<longleftrightarrow> i \<in> set (map es_id (eb_subscribers e))) \<and>
    (claim_taken b (EventRoute (keyFor (td_info d))) \<longleftrightarrow> eb_route e \<noteq> None)"
  "ensureQuery d R R' b = (Some q, b') \<Longrightarrow> map_of (bd_queries b') (keyFor (td_info d)) = Some q \<and>
    (claim_taken b (QueryHandler (keyFor (td_info d))) \<longleftrightarrow> qb_handler q \<noteq> None) \<and>
    (claim_taken b (QueryRoute (keyFor (td_info d))) \<longleftrightarrow> qb_route q \<noteq> None)"
  by (auto simp: ensureCommand_def ensureEvent_def ensureQuery_def holds_in_def table_simps new_command_def new_event_def new_query_def
      split: option.splits if_splits)

lemma set_grows:
  "(\<And>r. cb_handler r \<noteq> None \<Longrightarrow> cb_handler (f r) \<noteq> None) \<Longrightarrow> (\<And>r. cb_route r \<noteq> None \<Longrightarrow> cb_route (f r) \<noteq> None) \<Longrightarrow>
    grows b (set_command d f b)"
  "(\<And>e i. i \<in> set (map es_id (eb_subscribers e)) \<Longrightarrow> i \<in> set (map es_id (eb_subscribers (g e)))) \<Longrightarrow>
    (\<And>e. eb_route e \<noteq> None \<Longrightarrow> eb_route (g e) \<noteq> None) \<Longrightarrow> grows b (set_event d g b)"
  "(\<And>q. qb_handler q \<noteq> None \<Longrightarrow> qb_handler (k q) \<noteq> None) \<Longrightarrow> (\<And>q. qb_route q \<noteq> None \<Longrightarrow> qb_route (k q) \<noteq> None) \<Longrightarrow>
    grows b (set_query d k b)"
  unfolding grows_def set_command_def set_event_def set_query_def
  by (intro conjI allI impI; (elim claim_taken.elims)?; simp add: holds_in_update)+

lemma HandleCommand_honours: "honours b (HandleCommand d i h b) (CommandHandler (keyFor (td_info d)))"
proof -
  obtain res b' where e: "ensureCommand d b = (res, b')" by force
  note g = ensure_grows(1) [OF e]
  show ?thesis
  proof (cases res)
    case (Some r)
    note c = ensure_claims(1) [OF e [unfolded Some]]
    have "honours b (set_command d (\<lambda>r. r\<lparr>cb_handlerID := i, cb_handler := Some f\<rparr>) b') (CommandHandler (keyFor (td_info d)))"
      if "cb_handler r = None" for f
      by (rule honoursI [OF g set_grows(1)]) (use c that in \<open>simp_all add: set_command_def holds_in_updated\<close>)
    then show ?thesis using honours_error [OF g] by (simp add: HandleCommand_def e Some split: option.split)
  qed (use ensure_refused(1) e in \<open>simp add: HandleCommand_def\<close>)
qed

lemma HandleQuery_honours: "honours b (HandleQuery d R R' i h b) (QueryHandler (keyFor (td_info d)))"
proof -
  obtain res b' where e: "ensureQuery d R R' b = (res, b')" by force
  note g = ensure_grows(3) [OF e]
  show ?thesis
  proof (cases res)
    case (Some r)
    note c = ensure_claims(3) [OF e [unfolded Some]]
    have "honours b (set_query d (\<lambda>r. r\<lparr>qb_handlerID := i, qb_handler := Some f\<rparr>) b') (QueryHandler (keyFor (td_info d)))"
      if "qb_handler r = None" for f
      by (rule honoursI [OF g set_grows(3)]) (use c that in \<open>simp_all add: set_query_def holds_in_updated\<close>)
    then show ?thesis using honours_error [OF g] by (simp add: HandleQuery_def e Some split: option.split)
  qed (use ensure_refused(3) e in \<open>simp add: HandleQuery_def\<close>)
qed

lemma Subscribe_honours: "honours b (Subscribe d i h b) (Subscription (keyFor (td_info d)) i)"
proof -
  obtain res b' where e: "ensureEvent d b = (res, b')" by force
  note g = ensure_grows(2) [OF e]
  show ?thesis
  proof (cases res)
    case (Some r)
    note c = ensure_claims(2) [OF e [unfolded Some], of i]
    have "honours b (set_event d (\<lambda>r. r\<lparr>eb_subscribers := eb_subscribers r @ [\<lparr>es_id = i, es_handler = f\<rparr>]\<rparr>) b')
        (Subscription (keyFor (td_info d)) i)" if "i \<notin> set (map es_id (eb_subscribers r))" for f
      by (rule honoursI [OF g set_grows(2)]) (use c that in \<open>auto simp: set_event_def holds_in_updated\<close>)
    then show ?thesis using honours_error [OF g] by (simp add: Subscribe_def e Some split: option.split)
  qed (use ensure_refused(2) e in \<open>simp add: Subscribe_def\<close>)
qed

lemma validateRoute_refused: "validateRoute what name route b' = (None, b'') \<Longrightarrow> grows b b' \<Longrightarrow> honours b b'' c"
  by (auto simp: validateRoute_def honours_error split: go_iface.splits if_splits)

lemma RouteCommand_honours: "honours b (RouteCommand d route b) (CommandRoute (keyFor (td_info d)))"
proof -
  obtain res b' where e: "ensureCommand d b = (res, b')" by force
  obtain x b'' where v: "validateRoute ''route'' rt_Name route b' = (x, b'')" by force
  note g = ensure_grows(1) [OF e]
  show ?thesis
  proof (cases res)
    case (Some r)
    note c = ensure_claims(1) [OF e [unfolded Some]]
    show ?thesis
    proof (cases x)
      case x: (Some y)
      have "honours b (set_command d (\<lambda>r. r\<lparr>cb_route := Some y\<rparr>) b') (CommandRoute (keyFor (td_info d)))" if "cb_route r = None"
        by (rule honoursI [OF g set_grows(1)]) (use c that in \<open>simp_all add: set_command_def holds_in_updated\<close>)
      with validateRoute_ok(2) [OF v [unfolded x]] honours_error [OF g] show ?thesis
        by (auto simp: RouteCommand_def e v Some x intro: honours_grows [OF _ grows_addRouteService])
    qed (use validateRoute_refused [OF _ g] v in \<open>simp add: RouteCommand_def e Some\<close>)
  qed (use ensure_refused(1) e in \<open>simp add: RouteCommand_def\<close>)
qed

lemma RouteEvent_honours: "honours b (RouteEvent d route b) (EventRoute (keyFor (td_info d)))"
proof -
  obtain res b' where e: "ensureEvent d b = (res, b')" by force
  obtain x b'' where v: "validateRoute ''route'' rt_Name route b' = (x, b'')" by force
  note g = ensure_grows(2) [OF e]
  show ?thesis
  proof (cases res)
    case (Some r)
    note c = ensure_claims(2) [OF e [unfolded Some]]
    show ?thesis
    proof (cases x)
      case x: (Some y)
      have "honours b (set_event d (\<lambda>r. r\<lparr>eb_route := Some y\<rparr>) b') (EventRoute (keyFor (td_info d)))" if "eb_route r = None"
        by (rule honoursI [OF g set_grows(2)]) (use c that in \<open>simp_all add: set_event_def holds_in_updated\<close>)
      with validateRoute_ok(2) [OF v [unfolded x]] honours_error [OF g] show ?thesis
        by (auto simp: RouteEvent_def e v Some x intro: honours_grows [OF _ grows_addRouteService])
    qed (use validateRoute_refused [OF _ g] v in \<open>simp add: RouteEvent_def e Some\<close>)
  qed (use ensure_refused(2) e in \<open>simp add: RouteEvent_def\<close>)
qed

lemma RouteQuery_honours: "honours b (RouteQuery d R R' route b) (QueryRoute (keyFor (td_info d)))"
proof -
  obtain res b' where e: "ensureQuery d R R' b = (res, b')" by force
  obtain x b'' where v: "validateRoute ''query route'' qt_Name route b' = (x, b'')" by force
  note g = ensure_grows(3) [OF e]
  show ?thesis
  proof (cases res)
    case (Some r)
    note c = ensure_claims(3) [OF e [unfolded Some]]
    show ?thesis
    proof (cases x)
      case x: (Some y)
      have "honours b (set_query d (\<lambda>r. r\<lparr>qb_route := Some y\<rparr>) b') (QueryRoute (keyFor (td_info d)))" if "qb_route r = None"
        by (rule honoursI [OF g set_grows(3)]) (use c that in \<open>simp_all add: set_query_def holds_in_updated\<close>)
      with validateRoute_ok(2) [OF v [unfolded x]] honours_error [OF g] show ?thesis
        by (auto simp: RouteQuery_def e v Some x intro: honours_grows [OF _ grows_addRouteService])
    qed (use validateRoute_refused [OF _ g] v in \<open>simp add: RouteQuery_def e Some\<close>)
  qed (use ensure_refused(3) e in \<open>simp add: RouteQuery_def\<close>)
qed

lemma declare_one_honours: "claim_of x = Some c \<Longrightarrow> honours b (declare_one x b) c"
  by (cases x) (auto simp: HandleCommand_honours HandleQuery_honours Subscribe_honours RouteCommand_honours RouteEvent_honours
      RouteQuery_honours)

lemma declare_one_grows: "grows b (declare_one x b)"
proof (cases "claim_of x")
  case None
  then show ?thesis by (cases x) (auto simp: grows_UseMiddleware grows_addService Use_def)
qed (use declare_one_honours honours_def in blast)

lemma declare_all_grows: "grows b (fold declare_one ds b)"
  by (induction ds arbitrary: b) (auto intro: grows_trans declare_one_grows)

lemma claims_distinct:
  assumes "bd_errors (fold declare_one ds b) = bd_errors b"
  shows "distinct (List.map_filter claim_of ds) \<and> (\<forall>c \<in> set (List.map_filter claim_of ds). \<not> claim_taken b c \<and> claim_taken (fold declare_one ds b) c)"
  using assms
proof (induction ds arbitrary: b)
  case (Cons x ds)
  let ?b = "declare_one x b"
  have p: "prefix (bd_errors b) (bd_errors ?b)" "prefix (bd_errors ?b) (bd_errors (fold declare_one ds ?b))"
    using declare_one_grows [of b x] declare_all_grows [of ?b ds] by (auto simp: grows_def)
  with Cons.prems have e: "bd_errors ?b = bd_errors b" "bd_errors (fold declare_one ds ?b) = bd_errors ?b"
    by (auto simp: prefix_order.eq_iff)
  note IH = Cons.IH [OF e(2)]
  have kept: "claim_taken b c \<Longrightarrow> claim_taken ?b c" "claim_taken ?b c \<Longrightarrow> claim_taken (fold declare_one ds ?b) c" for c
    using declare_one_grows [of b x] declare_all_grows [of ?b ds] by (auto simp: grows_def)
  show ?case
  proof (cases "claim_of x")
    case None
    with IH kept show ?thesis by (auto simp: map_filter_simps)
  next
    case (Some c)
    from declare_one_honours [OF this, of b] e(1) have "\<not> claim_taken b c" "claim_taken ?b c" by (auto simp: honours_def)
    with Some IH kept show ?thesis by (auto simp: map_filter_simps)
  qed
qed (simp add: map_filter_simps)

section \<open>The manifest\<close>

lemma check_ids_None: "check_ids s seen xs = None \<longleftrightarrow> list_all validStableID xs \<and> distinct xs \<and> set xs \<inter> set seen = {}"
  by (induction s seen xs rule: check_ids.induct) auto

lemma check_descriptors_None:
  "check_descriptors seen ds = None \<longleftrightarrow>
    list_all (\<lambda>d. validateManifestDescriptor d = None) ds \<and> distinct (map (\<lambda>d. keyFor (mf_info d)) ds) \<and>
    (\<lambda>d. keyFor (mf_info d)) ` set ds \<inter> set seen = {}"
  by (induction seen ds rule: check_descriptors.induct) (auto split: option.split)

lemma validStableID_nonempty: "validStableID s \<Longrightarrow> s \<noteq> []"
  by (simp add: validStableID_def)

lemma command_manifest_ok: "command_ok k r \<Longrightarrow> validateManifestDescriptor (command_manifest r) = None"
  by (auto simp: command_ok_def validateManifestDescriptor_def command_manifest_def info_ok_def Let_def check_ids_None KindCommand_def KindQuery_def
      split: option.splits)

lemma event_manifest_ok: "event_ok k r \<Longrightarrow> validateManifestDescriptor (event_manifest r) = None"
  by (auto simp: event_ok_def validateManifestDescriptor_def event_manifest_def info_ok_def Let_def check_ids_None list_all_iff
      KindCommand_def KindQuery_def KindEvent_def split: option.splits)

lemma query_manifest_ok:
  "query_ok k r \<Longrightarrow> qb_handler r \<noteq> None \<Longrightarrow> qb_route r \<noteq> None \<Longrightarrow> validateManifestDescriptor (query_manifest r) = None"
  by (auto simp: query_ok_def validateManifestDescriptor_def query_manifest_def info_ok_def Let_def check_ids_None
      KindCommand_def KindQuery_def dest: validStableID_nonempty)

text \<open>The entries of the manifest before they are sorted.\<close>

definition entries :: "('w, 'v) builder \<Rightarrow> manifestDescriptor list" where
  "entries b = map (command_manifest \<circ> snd) (bd_commands b) @ map (event_manifest \<circ> snd) (bd_events b) @
    map (query_manifest \<circ> snd) (bd_queries b)"

lemma manifest_keys:
  "command_ok k r \<Longrightarrow> keyFor (mf_info (command_manifest r)) = k \<and> fst k = KindCommand"
  "event_ok k e \<Longrightarrow> keyFor (mf_info (event_manifest e)) = k \<and> fst k = KindEvent"
  "query_ok k q \<Longrightarrow> keyFor (mf_info (query_manifest q)) = k \<and> fst k = KindQuery"
  by (simp_all add: command_ok_def event_ok_def query_ok_def Let_def command_manifest_def event_manifest_def query_manifest_def
      info_ok_def keyFor_def)

lemma table_keys:
  assumes "table_ok P t" and "\<And>k r. P k r \<Longrightarrow> f r = k \<and> Q k"
  shows "map (f \<circ> snd) t = map fst t \<and> (\<forall>k \<in> set (map fst t). Q k)"
proof -
  have "f r = k \<and> Q k" if "(k, r) \<in> set t" for k r by (rule assms(2) [OF table_ok_set [OF assms(1) that]])
  then show ?thesis by force
qed

lemma entries_distinct:
  assumes "builder_ok b"
  shows "distinct (map (\<lambda>d. keyFor (mf_info d)) (entries b))"
proof -
  let ?key = "\<lambda>d. keyFor (mf_info d)"
  have c: "map ((?key \<circ> command_manifest) \<circ> snd) (bd_commands b) = map fst (bd_commands b) \<and> (\<forall>k \<in> set (map fst (bd_commands b)). fst k = KindCommand)"
    by (rule table_keys [of command_ok]) (use assms in \<open>simp_all add: builder_ok_def manifest_keys\<close>)
  have e: "map ((?key \<circ> event_manifest) \<circ> snd) (bd_events b) = map fst (bd_events b) \<and> (\<forall>k \<in> set (map fst (bd_events b)). fst k = KindEvent)"
    by (rule table_keys [of event_ok]) (use assms in \<open>simp_all add: builder_ok_def manifest_keys\<close>)
  have q: "map ((?key \<circ> query_manifest) \<circ> snd) (bd_queries b) = map fst (bd_queries b) \<and> (\<forall>k \<in> set (map fst (bd_queries b)). fst k = KindQuery)"
    by (rule table_keys [of query_ok]) (use assms in \<open>simp_all add: builder_ok_def manifest_keys\<close>)
  have "map ?key (entries b) = map fst (bd_commands b) @ map fst (bd_events b) @ map fst (bd_queries b)"
    using c e q by (simp add: entries_def comp_assoc)
  moreover have "distinct (map fst (bd_commands b))" "distinct (map fst (bd_events b))" "distinct (map fst (bd_queries b))"
    using assms by (auto simp: builder_ok_def dest!: table_ok_wf simp: wf_table_def)
  moreover have "set (map fst (bd_commands b)) \<inter> set (map fst (bd_events b)) = {}"
    "set (map fst (bd_commands b)) \<inter> set (map fst (bd_queries b)) = {}" "set (map fst (bd_events b)) \<inter> set (map fst (bd_queries b)) = {}"
    using c e q by (fastforce simp: KindCommand_def KindEvent_def KindQuery_def)+
  ultimately show ?thesis by (simp add: Int_Un_distrib)
qed

lemma build_errors_Nil:
  "build_errors L b = [] \<longleftrightarrow> bd_errors b = [] \<and> validateSource L (bd_source b) = None \<and>
    (\<forall>r \<in> snd ` set (bd_commands b). check_command r = []) \<and> (\<forall>r \<in> snd ` set (bd_queries b). check_query r = [])"
  by (auto simp: build_errors_def split: option.split)

lemma errors_Join_Some [simp]: "errors_Join (map Some es) = None \<longleftrightarrow> es = []"
  by (cases es) (auto simp: errors_Join_None)

lemma Build_succeeds: "build_errors L b = [] \<Longrightarrow> \<exists>m rt. fst (builder_Build L wall b) = Inr (m, rt)"
  by (simp add: builder_Build_def Let_def errors_Join_def List.map_filter_def)

lemma Build_Inr:
  assumes "fst (builder_Build L wall b) = Inr (m, rt)"
  shows "build_errors L b = []" "rt = newRuntime (bd_services b) (bd_shutdownTimeout b)"
    "ms_commands m = bd_commands b" "ms_events m = bd_events b" "ms_queries m = bd_queries b"
    "ms_manifest m = \<lparr>mn_SpecVersion = ManifestSpecVersion, mn_Source = bd_source b,
      mn_Descriptors = sort_key (\<lambda>d. keyFor (mf_info d)) (entries b), mn_Services = sort (map fst (bd_services b))\<rparr>"
  using assms
  by (auto simp: builder_Build_def Let_def buildManifest_def entries_def comp_assoc simp flip: map_map
      split: option.splits)

lemma sort_key_unique:
  assumes "distinct (map f xs)" and "distinct (map f ys)" and "set xs = set ys"
  shows "sort_key f xs = sort_key f ys"
proof (rule map_sorted_distinct_set_unique)
  show "inj_on f (set (sort_key f xs) \<union> set (sort_key f ys))" using assms by (simp add: distinct_map)
  show "distinct (map f (sort_key f xs))" "distinct (map f (sort_key f ys))" using assms by (simp_all add: distinct_map)
qed (use assms in simp_all)

lemma sort_fst: "sort (map fst t) = map fst (sort_key fst t)"
proof -
  have "sorted (map fst (sort_key fst t))" by simp
  moreover have "mset (map fst (sort_key fst t)) = mset (map fst t)" by simp
  ultimately show ?thesis by (simp add: properties_for_sort)
qed

text \<open>The same maps, iterated in another order.\<close>

definition reordered :: "('w, 'v) builder \<Rightarrow> ('w, 'v) builder \<Rightarrow> bool" where
  "reordered b b' \<longleftrightarrow> (\<exists>c e q s.
    b' = b\<lparr>bd_commands := c, bd_events := e, bd_queries := q, bd_services := s\<rparr> \<and>
    wf_table c \<and> set c = set (bd_commands b) \<and> wf_table e \<and> set e = set (bd_events b) \<and>
    wf_table q \<and> set q = set (bd_queries b) \<and> wf_table s \<and> set s = set (bd_services b))"

lemma table_ok_reordered: "table_ok P t \<Longrightarrow> wf_table t' \<Longrightarrow> set t' = set t \<Longrightarrow> table_ok P t'"
  by (rule table_okI) (auto dest!: map_of_SomeD intro: table_ok_set)

lemma reordered_ok: "reordered b b' \<Longrightarrow> builder_ok b \<Longrightarrow> builder_ok b'"
  by (auto simp: reordered_def builder_ok_def elim: table_ok_reordered)

lemma reordered_entries: "reordered b b' \<Longrightarrow> set (entries b') = set (entries b)"
  by (auto simp: reordered_def entries_def)

lemma reordered_build:
  assumes b: "builder_ok b" and r: "reordered b b'" and m: "fst (builder_Build L wall b) = Inr (m, rt)"
  shows "\<exists>m'. fst (builder_Build L wall b') = Inr (m', rt) \<and> ms_manifest m' = ms_manifest m"
proof -
  have "build_errors L b' = []" using Build_Inr(1) [OF m] r by (auto simp: build_errors_Nil reordered_def)
  then obtain m' rt' where m': "fst (builder_Build L wall b') = Inr (m', rt')" using Build_succeeds by blast
  have s: "wf_table (bd_services b)" "wf_table (bd_services b')" "set (bd_services b') = set (bd_services b)"
    "bd_shutdownTimeout b' = bd_shutdownTimeout b" "bd_source b' = bd_source b"
    using b r by (auto simp: builder_ok_def reordered_def dest: table_ok_wf)
  then have services: "sort_key fst (bd_services b') = sort_key fst (bd_services b)" by (intro sort_key_unique) (simp_all add: wf_table_def)
  have "sort_key (\<lambda>d. keyFor (mf_info d)) (entries b') = sort_key (\<lambda>d. keyFor (mf_info d)) (entries b)"
    by (rule sort_key_unique) (use entries_distinct reordered_ok [OF r b] b reordered_entries [OF r] in simp_all)
  then show ?thesis using m' Build_Inr(2,6) [OF m] Build_Inr(2,6) [OF m'] services s by (simp add: sort_fst newRuntime_def)
qed

lemma built_manifest_valid:
  assumes b: "builder_ok b" and m: "fst (builder_Build L wall b) = Inr (m, rt)"
  shows "manifest_Validate L (ms_manifest m) = None"
proof -
  have e: "validateSource L (bd_source b) = None" "\<forall>r \<in> snd ` set (bd_queries b). check_query r = []"
    using Build_Inr(1) [OF m] by (simp_all add: build_errors_Nil)
  have "validateManifestDescriptor (command_manifest r) = None" if "(k, r) \<in> set (bd_commands b)" for k r
    using that b by (auto simp: builder_ok_def intro: command_manifest_ok table_ok_set)
  moreover have "validateManifestDescriptor (event_manifest r) = None" if "(k, r) \<in> set (bd_events b)" for k r
    using that b by (auto simp: builder_ok_def intro: event_manifest_ok table_ok_set)
  moreover have "validateManifestDescriptor (query_manifest r) = None" if "(k, r) \<in> set (bd_queries b)" for k r
  proof -
    have "check_query r = []" using e(2) that by force
    then have "qb_handler r \<noteq> None" "qb_route r \<noteq> None" by (auto simp: check_query_def split: if_splits)
    then show ?thesis using that b by (auto simp: builder_ok_def intro: query_manifest_ok table_ok_set)
  qed
  ultimately have d: "list_all (\<lambda>d. validateManifestDescriptor d = None) (entries b)" by (auto simp: entries_def list_all_iff)
  have "list_all validStableID (map fst (bd_services b))" "distinct (map fst (bd_services b))"
    using b table_ok_set [of "\<lambda>i _. validStableID i" "bd_services b"] table_ok_wf [of "\<lambda>i _. validStableID i" "bd_services b"]
    by (auto simp: builder_ok_def list_all_iff wf_table_def)
  then have "validateManifestServices (sort (map fst (bd_services b))) = None"
    by (simp add: validateManifestServices_def check_ids_None list_all_iff)
  moreover have "check_descriptors [] (sort_key (\<lambda>d. keyFor (mf_info d)) (entries b)) = None"
    using d entries_distinct [OF b] by (simp add: check_descriptors_None list_all_iff distinct_map)
  ultimately show ?thesis using e by (simp add: manifest_Validate_def Build_Inr(6) [OF m])
qed

section \<open>Properties\<close>

definition noop_handler :: "('w, 'v) msg_handler" where
  "noop_handler c msg w = (Returned None, w)"

definition sample_croute :: "('w, 'v) croute" where
  "sample_croute = \<lparr>rt_Name = ''local.sync'', rt_local = True, rt_service = None,
    rt_Deliver = (\<lambda>_ _ cw. ((zero_receipt, None), cw)), rt_DeliverBatch = None\<rparr>"

definition sample_tcodec :: "'v tcodec" where
  "sample_tcodec = \<lparr>co_wire = \<lparr>codec_ContentType = ''text/plain'', codec_Encoding = DataText\<rparr>, co_Encode = (\<lambda>_. Inr ''hi'')\<rparr>"

definition sample_descriptor :: "'v typed_descriptor" where
  "sample_descriptor =
    \<lparr>td_info = \<lparr>di_Kind = KindCommand, di_Name = ''pay'', di_SchemaVersion = 1, di_ContentType = ''text/plain'',
       di_DataEncoding = DataText, di_Schema = []\<rparr>, td_type = Concrete 0, td_codec = sample_tcodec\<rparr>"

definition sample_declarations :: "(unit, unit) decl list" where
  "sample_declarations =
    [DeclHandleCommand sample_descriptor ''pay'' (Some noop_handler), DeclRouteCommand sample_descriptor (Held sample_croute)]"

definition sample_builder :: "(unit, unit) builder" where
  "sample_builder = NewBuilder (\<lambda>w. (Inr 1, w)) (\<lambda>w. (1, w)) [WithSource ''svc'']"

lemma sample_constructed: "constructed KindCommand sample_descriptor"
  unfolding constructed_def
  by (intro exI [of _ "Concrete 0"] exI [of _ "''pay''"] exI [of _ 1] exI [of _ "Some sample_tcodec"] exI [of _ sample_descriptor] exI [of _ "[]"])
    (simp add: new_typed_def newDescriptor_def sample_tcodec_def sample_descriptor_def kind_valid_def maxDescriptorNameLength_def
      is_lower_def is_alnum_def inR_def encoding_valid_def)

lemma sample_ids: "validStableID ''pay''" "validStableID ''local.sync''"
  by (simp_all add: validStableID_def maxDescriptorNameLength_def TrimSpace_graphic stable_char_def is_lower_def inR_def)

lemma sample_source: "validateSource sample_wire ''svc'' = None"
  by (simp add: validateSource_def sample_wire_def TrimSpace_graphic inR_def)

lemma sample_declared:
  "fold declare_one sample_declarations sample_builder =
    sample_builder\<lparr>bd_commands := [(keyFor (td_info (sample_descriptor :: unit typed_descriptor)),
      \<lparr>cb_descriptor = eraseDescriptor sample_descriptor, cb_handlerID = ''pay'',
       cb_handler = Some (erase_handler (Concrete 0) noop_handler), cb_route = Some sample_croute\<rparr>)]\<rparr>"
  by (simp add: sample_declarations_def sample_builder_def NewBuilder_def HandleCommand_def RouteCommand_def ensureCommand_def
      new_command_def set_command_def validateRoute_def sample_ids sample_croute_def tb_add_def tb_update_def sameDescriptor_def
      addRouteService_def sample_descriptor_def keyFor_def)



end
