(* ===== verification/Messenger.thy ===== *)
theory Messenger
  imports Topology
begin

text \<open>
  The messenger of the root package: \<open>messenger.go\<close> and \<open>messenger_batch.go\<close>. A messenger is what \<open>Build\<close> returns. The
  generic parameter of a call is the static type of the descriptor, payloads are values of type \<open>any\<close>. Calls
  that do not return an error of their own end in the \<open>Deliver\<close>, \<open>DeliverBatch\<close> or \<open>query\<close> method of the configured route.
\<close>

section \<open>Metadata of outgoing messages\<close>

record outgoingMetadata =
  om_ID :: messageID
  om_Subject :: string
  om_Time :: instant
  om_CorrelationID :: messageID
  om_CausationID :: messageID
  om_Key :: string
  om_Headers :: "(string \<times> string) list"
  om_NotBefore :: instant
  om_ExpiresAt :: instant

definition zero_outgoing :: outgoingMetadata where
  "zero_outgoing = \<lparr>om_ID = 0, om_Subject = [], om_Time = 0, om_CorrelationID = 0, om_CausationID = 0, om_Key = [],
    om_Headers = [], om_NotBefore = 0, om_ExpiresAt = 0\<rparr>"

definition validateMetadata :: "metadata \<Rightarrow> err option" where
  "validateMetadata m =
    (if mid_IsZero (md_ID m) \<or> mid_IsZero (md_CorrelationID m) \<or> IsZeroTime (md_Time m) \<or> \<not> kind_valid (md_Kind m) \<or>
        md_Name m = [] \<or> md_SchemaVersion m \<le> 0 \<or> md_Source m = [] \<or> md_ContentType m = []
     then Some (invalid_message ''incomplete metadata'')
     else if \<not> IsZeroTime (md_NotBefore m) \<and> \<not> IsZeroTime (md_ExpiresAt m) \<and> \<not> md_ExpiresAt m > md_NotBefore m
     then Some (invalid_message ''expiresAt must follow notBefore'')
     else validateHeaders (md_Headers m))"

text \<open>The lineage of a message, from explicit values or from the message being handled.\<close>

definition correlation :: "outgoingMetadata \<Rightarrow> metadata option \<Rightarrow> messageID \<Rightarrow> messageID" where
  "correlation out parent i =
    (let c = (case parent of
                None \<Rightarrow> om_CorrelationID out
              | Some p \<Rightarrow>
                 if mid_IsZero (om_CorrelationID out)
                 then (if mid_IsZero (md_CorrelationID p) then md_ID p else md_CorrelationID p)
                 else om_CorrelationID out)
     in if mid_IsZero c then i else c)"

definition causation :: "outgoingMetadata \<Rightarrow> metadata option \<Rightarrow> messageID" where
  "causation out parent =
    (case parent of
       None \<Rightarrow> om_CausationID out
     | Some p \<Rightarrow> if mid_IsZero (om_CausationID out) then md_ID p else om_CausationID out)"

definition assemble ::
  "string \<Rightarrow> descriptorInfo \<Rightarrow> outgoingMetadata \<Rightarrow> metadata option \<Rightarrow> instant \<Rightarrow> messageID \<Rightarrow> (string \<times> string) list \<Rightarrow> metadata" where
  "assemble source info out parent t i headers =
    \<lparr>md_ID = i, md_Kind = di_Kind info, md_Name = di_Name info, md_SchemaVersion = di_SchemaVersion info, md_Source = source,
     md_Subject = om_Subject out, md_Time = t, md_CorrelationID = correlation out parent i, md_CausationID = causation out parent,
     md_Key = om_Key out, md_ContentType = di_ContentType info, md_Schema = di_Schema info, md_Headers = headers,
     md_NotBefore = om_NotBefore out, md_ExpiresAt = om_ExpiresAt out\<rparr>"

definition newMetadata ::
  "('w, 'v) messenger \<Rightarrow> mctx \<Rightarrow> descriptorInfo \<Rightarrow> outgoingMetadata \<Rightarrow> ('w, 'v) mworld \<Rightarrow> (err + metadata) \<times> ('w, 'v) mworld" where
  "newMetadata m c info out cw =
    (case (if IsZeroTime (om_Time out) then on_state (ms_clock m) cw else (om_Time out, cw)) of
       (t, cw) \<Rightarrow>
        (case (if mid_IsZero (om_ID out) then on_state (ms_idGenerator m) cw else (Inr (om_ID out), cw)) of
           (Inl e, cw) \<Rightarrow> (Inl e, cw)
         | (Inr i, cw) \<Rightarrow>
            (case (case ms_propagator m of
                     None \<Rightarrow> (om_Headers out, cw)
                   | Some inject \<Rightarrow> on_state (inject c (om_Headers out)) cw) of
               (headers, cw) \<Rightarrow>
                (let md = assemble (ms_source m) info out (MetadataFromContext (Some c)) t i headers in
                 case validateMetadata md of
                   Some e \<Rightarrow> (Inl e, cw)
                 | None \<Rightarrow> (Inr md, cw)))))"

section \<open>Receipts\<close>

definition normalizeReceipt ::
  "('w \<Rightarrow> instant \<times> 'w) \<Rightarrow> receipt \<Rightarrow> metadata \<Rightarrow> string \<Rightarrow> ('w, 'v) mworld \<Rightarrow> (receipt \<times> err option) \<times> ('w, 'v) mworld" where
  "normalizeReceipt clock receipt md name cw =
    (let r = (if mid_IsZero (rc_MessageID receipt) then receipt\<lparr>rc_MessageID := md_ID md\<rparr> else receipt) in
     if rc_MessageID r \<noteq> md_ID md then ((r, Some (invalid_message ''route changed message identity'')), cw)
     else
       let r = (if rc_Route r = [] then r\<lparr>rc_Route := name\<rparr> else r) in
       if rc_Route r \<noteq> name \<or> rc_State r = NoReceipt then ((r, Some (invalid_message ''invalid receipt from route'')), cw)
       else case on_state clock cw of (t, cw) \<Rightarrow> ((r\<lparr>rc_At := t\<rparr>, None), cw))"

definition deliver ::
  "('w, 'v) messenger \<Rightarrow> mctx \<Rightarrow> ('w, 'v) croute \<Rightarrow> ('w, 'v) delivery \<Rightarrow> ('w, 'v) mworld \<Rightarrow>
    (receipt \<times> err option) \<times> ('w, 'v) mworld" where
  "deliver m c route d cw =
    (case on_state (ms_clock m) cw of
       (started, cw) \<Rightarrow>
        (case (case rt_Deliver route (Some c) d cw of
                 ((receipt, None), cw) \<Rightarrow> normalizeReceipt (ms_clock m) receipt (dl_metadata d) (rt_Name route) cw
               | (failed, cw) \<Rightarrow> (failed, cw)) of
           ((receipt, e), cw) \<Rightarrow>
            ((receipt, e),
             observe_since (ms_clock m) c (ms_observer m)
               ((message_observation OperationDeliver (dl_metadata d) started e)
                 \<lparr>cob_Route := rt_Name route, cob_State := rc_State receipt\<rparr>) cw)))"

section \<open>Sending and publishing\<close>

definition SendMessage ::
  "('w, 'v) messenger \<Rightarrow> mctx option \<Rightarrow> 'v typed_descriptor \<Rightarrow> outgoingMetadata \<Rightarrow> 'v any \<Rightarrow> ('w, 'v) mworld \<Rightarrow>
    (receipt \<times> err option) \<times> ('w, 'v) mworld" where
  "SendMessage m ctx d out payload cw =
    (case ctx of
       None \<Rightarrow> ((zero_receipt, Some (invalid_message ''nil context'')), cw)
     | Some c \<Rightarrow>
        (case map_of (ms_commands m) (keyFor (td_info d)) of
           None \<Rightarrow> ((zero_receipt, Some (Wrap ''command'' [Sentinel ErrDescriptorConflict])), cw)
         | Some b \<Rightarrow>
            if \<not> sameDescriptor (cb_descriptor b) (td_info d) (td_type d)
            then ((zero_receipt, Some (Wrap ''command'' [Sentinel ErrDescriptorConflict])), cw)
            else case cb_route b of
              None \<Rightarrow> ((zero_receipt, Some (Wrap ''command'' [Sentinel ErrRouteNotFound])), cw)
            | Some route \<Rightarrow>
               (case newMetadata m c (td_info d) out cw of
                  (Inl e, cw) \<Rightarrow> ((zero_receipt, Some e), cw)
                | (Inr md, cw) \<Rightarrow> deliver m c route (command_delivery (ms_env m) b (rt_Name route) md payload) cw)))"

definition Send ::
  "('w, 'v) messenger \<Rightarrow> mctx option \<Rightarrow> 'v typed_descriptor \<Rightarrow> 'v any \<Rightarrow> ('w, 'v) mworld \<Rightarrow> (receipt \<times> err option) \<times> ('w, 'v) mworld" where
  "Send m ctx d payload = SendMessage m ctx d zero_outgoing payload"

definition PublishMessage ::
  "('w, 'v) messenger \<Rightarrow> mctx option \<Rightarrow> 'v typed_descriptor \<Rightarrow> outgoingMetadata \<Rightarrow> 'v any \<Rightarrow> ('w, 'v) mworld \<Rightarrow>
    (receipt \<times> err option) \<times> ('w, 'v) mworld" where
  "PublishMessage m ctx d out payload cw =
    (case ctx of
       None \<Rightarrow> ((zero_receipt, Some (invalid_message ''nil context'')), cw)
     | Some c \<Rightarrow>
        (case map_of (ms_events m) (keyFor (td_info d)) of
           None \<Rightarrow> ((zero_receipt, Some (Wrap ''event'' [Sentinel ErrDescriptorConflict])), cw)
         | Some b \<Rightarrow>
            if \<not> sameDescriptor (eb_descriptor b) (td_info d) (td_type d)
            then ((zero_receipt, Some (Wrap ''event'' [Sentinel ErrDescriptorConflict])), cw)
            else case eb_route b of
              None \<Rightarrow> ((zero_receipt, Some (Wrap ''event'' [Sentinel ErrRouteNotFound])), cw)
            | Some route \<Rightarrow>
               (case newMetadata m c (td_info d) out cw of
                  (Inl e, cw) \<Rightarrow> ((zero_receipt, Some e), cw)
                | (Inr md, cw) \<Rightarrow> deliver m c route (event_delivery (ms_env m) b (rt_Name route) md payload) cw)))"

definition Publish ::
  "('w, 'v) messenger \<Rightarrow> mctx option \<Rightarrow> 'v typed_descriptor \<Rightarrow> 'v any \<Rightarrow> ('w, 'v) mworld \<Rightarrow> (receipt \<times> err option) \<times> ('w, 'v) mworld" where
  "Publish m ctx d payload = PublishMessage m ctx d zero_outgoing payload"

section \<open>Batches\<close>

fun batch_deliveries ::
  "('w, 'v) messenger \<Rightarrow> mctx \<Rightarrow> descriptorInfo \<Rightarrow> (metadata \<Rightarrow> 'v any \<Rightarrow> ('w, 'v) delivery) \<Rightarrow> messageID list \<Rightarrow>
    (outgoingMetadata \<times> 'v any) list \<Rightarrow> ('w, 'v) mworld \<Rightarrow> (err + ('w, 'v) delivery list) \<times> ('w, 'v) mworld" where
  "batch_deliveries m c info bind seen [] cw = (Inr [], cw)"
| "batch_deliveries m c info bind seen ((out, payload) # items) cw =
    (case newMetadata m c info out cw of
       (Inl e, cw) \<Rightarrow> (Inl (Wrap ''batch item'' [e]), cw)
     | (Inr md, cw) \<Rightarrow>
        if md_ID md \<in> set seen then (Inl (invalid_message ''duplicate message ID in batch''), cw)
        else (case batch_deliveries m c info bind (md_ID md # seen) items cw of
                (Inl e, cw) \<Rightarrow> (Inl e, cw)
              | (Inr ds, cw) \<Rightarrow> (Inr (bind md payload # ds), cw)))"

fun normalize_receipts ::
  "('w \<Rightarrow> instant \<times> 'w) \<Rightarrow> string \<Rightarrow> receipt list \<Rightarrow> ('w, 'v) delivery list \<Rightarrow> ('w, 'v) mworld \<Rightarrow>
    (receipt list \<times> err option) \<times> ('w, 'v) mworld" where
  "normalize_receipts clock name (r # rs) (d # ds) cw =
    (case normalizeReceipt clock r (dl_metadata d) name cw of
       ((r', Some e), cw) \<Rightarrow> ((r' # rs, Some (Wrap ''batch receipt'' [e])), cw)
     | ((r', None), cw) \<Rightarrow>
        (case normalize_receipts clock name rs ds cw of ((rs', e), cw) \<Rightarrow> ((r' # rs', e), cw)))"
| "normalize_receipts clock name rs ds cw = ((rs, None), cw)"

fun first_unencodable :: "wire_lib \<Rightarrow> ('w, 'v) delivery list \<Rightarrow> err option" where
  "first_unencodable L [] = None"
| "first_unencodable L (d # ds) =
    (case delivery_MarshalEnvelope L (dl_metadata d) (dl_encode d) of
       Inl e \<Rightarrow> Some (Wrap ''batch delivery'' [e])
     | Inr _ \<Rightarrow> first_unencodable L ds)"

fun observe_batch ::
  "('w, 'v) messenger \<Rightarrow> mctx \<Rightarrow> string \<Rightarrow> instant \<Rightarrow> err option \<Rightarrow> receipt list \<Rightarrow> ('w, 'v) delivery list \<Rightarrow>
    ('w, 'v) mworld \<Rightarrow> ('w, 'v) mworld" where
  "observe_batch m c name started e rs [] cw = cw"
| "observe_batch m c name started e rs (d # ds) cw =
    observe_batch m c name started e (drop 1 rs) ds
      (observe_since (ms_clock m) c (ms_observer m)
        ((message_observation OperationDeliver (dl_metadata d) started e)
          \<lparr>cob_Route := name, cob_State := (case rs of [] \<Rightarrow> NoReceipt | r # _ \<Rightarrow> rc_State r)\<rparr>) cw)"

definition deliverBatch ::
  "wire_lib \<Rightarrow> ('w, 'v) messenger \<Rightarrow> mctx \<Rightarrow> string \<Rightarrow>
    (mctx \<Rightarrow> ('w, 'v) delivery list \<Rightarrow> ('w, 'v) mworld \<Rightarrow> (receipt list \<times> err option) \<times> ('w, 'v) mworld) \<Rightarrow>
    ('w, 'v) delivery list \<Rightarrow> ('w, 'v) mworld \<Rightarrow> (receipt list \<times> err option) \<times> ('w, 'v) mworld" where
  "deliverBatch L m c name route ds cw =
    (case first_unencodable L ds of
       Some e \<Rightarrow> (([], Some e), cw)
     | None \<Rightarrow>
        (case on_state (ms_clock m) cw of
           (started, cw) \<Rightarrow>
            (case (case route c ds cw of
                     ((receipts, Some e), cw) \<Rightarrow> ((receipts, Some e), cw)
                   | ((receipts, None), cw) \<Rightarrow>
                      if length receipts \<noteq> length ds
                      then ((receipts, Some (invalid_message ''batch route returned another number of receipts'')), cw)
                      else normalize_receipts (ms_clock m) name receipts ds cw) of
               ((receipts, e), cw) \<Rightarrow> ((receipts, e), observe_batch m c name started e receipts ds cw))))"

definition send_batch ::
  "wire_lib \<Rightarrow> ('w, 'v) messenger \<Rightarrow> mctx \<Rightarrow> string \<Rightarrow> descriptorInfo \<Rightarrow> ('w, 'v) croute option \<Rightarrow>
    (string \<Rightarrow> metadata \<Rightarrow> 'v any \<Rightarrow> ('w, 'v) delivery) \<Rightarrow> (outgoingMetadata \<times> 'v any) list \<Rightarrow> ('w, 'v) mworld \<Rightarrow>
    (receipt list \<times> err option) \<times> ('w, 'v) mworld" where
  "send_batch L m c what info route bind items cw =
    (case route of
       None \<Rightarrow> (([], Some (Wrap what [Sentinel ErrRouteNotFound])), cw)
     | Some r \<Rightarrow>
        (case rt_DeliverBatch r of
           None \<Rightarrow> (([], Some (Wrap ''route does not support batches'' [Sentinel ErrUnsupportedCapability])), cw)
         | Some batch \<Rightarrow>
            (case batch_deliveries m c info (bind (rt_Name r)) [] items cw of
               (Inl e, cw) \<Rightarrow> (([], Some e), cw)
             | (Inr ds, cw) \<Rightarrow> deliverBatch L m c (rt_Name r) batch ds cw)))"

definition SendMessageBatch ::
  "wire_lib \<Rightarrow> ('w, 'v) messenger \<Rightarrow> mctx option \<Rightarrow> 'v typed_descriptor \<Rightarrow> (outgoingMetadata \<times> 'v any) list \<Rightarrow> ('w, 'v) mworld \<Rightarrow>
    (receipt list \<times> err option) \<times> ('w, 'v) mworld" where
  "SendMessageBatch L m ctx d items cw =
    (case ctx of
       None \<Rightarrow> (([], Some (invalid_message ''nil context'')), cw)
     | Some c \<Rightarrow>
        if items = [] then (([], Some (invalid_message ''empty command batch'')), cw)
        else case map_of (ms_commands m) (keyFor (td_info d)) of
          None \<Rightarrow> (([], Some (Wrap ''command'' [Sentinel ErrDescriptorConflict])), cw)
        | Some b \<Rightarrow>
           if \<not> sameDescriptor (cb_descriptor b) (td_info d) (td_type d)
           then (([], Some (Wrap ''command'' [Sentinel ErrDescriptorConflict])), cw)
           else send_batch L m c ''command'' (td_info d) (cb_route b) (command_delivery (ms_env m) b) items cw)"

definition PublishMessageBatch ::
  "wire_lib \<Rightarrow> ('w, 'v) messenger \<Rightarrow> mctx option \<Rightarrow> 'v typed_descriptor \<Rightarrow> (outgoingMetadata \<times> 'v any) list \<Rightarrow> ('w, 'v) mworld \<Rightarrow>
    (receipt list \<times> err option) \<times> ('w, 'v) mworld" where
  "PublishMessageBatch L m ctx d items cw =
    (case ctx of
       None \<Rightarrow> (([], Some (invalid_message ''nil context'')), cw)
     | Some c \<Rightarrow>
        if items = [] then (([], Some (invalid_message ''empty event batch'')), cw)
        else case map_of (ms_events m) (keyFor (td_info d)) of
          None \<Rightarrow> (([], Some (Wrap ''event'' [Sentinel ErrDescriptorConflict])), cw)
        | Some b \<Rightarrow>
           if \<not> sameDescriptor (eb_descriptor b) (td_info d) (td_type d)
           then (([], Some (Wrap ''event'' [Sentinel ErrDescriptorConflict])), cw)
           else send_batch L m c ''event'' (td_info d) (eb_route b) (event_delivery (ms_env m) b) items cw)"

definition SendBatch ::
  "wire_lib \<Rightarrow> ('w, 'v) messenger \<Rightarrow> mctx option \<Rightarrow> 'v typed_descriptor \<Rightarrow> 'v any list \<Rightarrow> ('w, 'v) mworld \<Rightarrow>
    (receipt list \<times> err option) \<times> ('w, 'v) mworld" where
  "SendBatch L m ctx d payloads = SendMessageBatch L m ctx d (map (Pair zero_outgoing) payloads)"

definition PublishBatch ::
  "wire_lib \<Rightarrow> ('w, 'v) messenger \<Rightarrow> mctx option \<Rightarrow> 'v typed_descriptor \<Rightarrow> 'v any list \<Rightarrow> ('w, 'v) mworld \<Rightarrow>
    (receipt list \<times> err option) \<times> ('w, 'v) mworld" where
  "PublishBatch L m ctx d payloads = PublishMessageBatch L m ctx d (map (Pair zero_outgoing) payloads)"

section \<open>Queries\<close>

definition messenger_Query ::
  "('w, 'v) messenger \<Rightarrow> mctx option \<Rightarrow> 'v typed_descriptor \<Rightarrow> gotype \<Rightarrow> gotype \<Rightarrow> 'v any \<Rightarrow> ('w, 'v) mworld \<Rightarrow>
    (err + 'v any) \<times> ('w, 'v) mworld" where
  "messenger_Query m ctx d resultType R payload cw =
    (case ctx of
       None \<Rightarrow> (Inl (invalid_message ''nil context''), cw)
     | Some c \<Rightarrow>
        (case map_of (ms_queries m) (keyFor (td_info d)) of
           None \<Rightarrow> (Inl (Wrap ''query'' [Sentinel ErrDescriptorConflict]), cw)
         | Some b \<Rightarrow>
            if \<not> sameDescriptor (qb_descriptor b) (td_info d) (td_type d) \<or> qb_resultType b \<noteq> R \<or> resultType \<noteq> R
            then (Inl (Wrap ''query'' [Sentinel ErrDescriptorConflict]), cw)
            else case qb_handler b of
              None \<Rightarrow> (Inl (Wrap ''query'' [Sentinel ErrHandlerNotFound]), cw)
            | Some erased \<Rightarrow>
               (case qb_route b of
                  None \<Rightarrow> (Inl (Wrap ''query'' [Sentinel ErrRouteNotFound]), cw)
                | Some route \<Rightarrow>
                   (case newMetadata m c (td_info d) zero_outgoing cw of
                      (Inl e, cw) \<Rightarrow> (Inl e, cw)
                    | (Inr md, cw) \<Rightarrow>
                       (case on_state (ms_clock m) cw of
                          (started, cw) \<Rightarrow>
                           (case qt_query route (Some c) (query_call (ms_env m) erased (qt_Name route) (qb_handlerID b) md payload) cw of
                              ((result, e), cw) \<Rightarrow>
                               (let answer = (case e of Some x \<Rightarrow> Inl x | None \<Rightarrow> queryResultAs R result) in
                                (answer,
                                 observe_since (ms_clock m) c (ms_observer m)
                                   ((message_observation OperationQuery md started (case answer of Inl x \<Rightarrow> Some x | Inr _ \<Rightarrow> None))
                                     \<lparr>cob_Route := qt_Name route, cob_HandlerID := qb_handlerID b\<rparr>) cw))))))))"

end
