(* ===== verification/LocalRoute.thy ===== *)
theory LocalRoute
  imports Messenger
begin

text \<open>
  The local routes of \<open>local.go\<close>: synchronous delivery and queries through a GoBus instance, and the admission of the
  asynchronous route. The bus is not part of the repository. It is a parameter: \<open>dispatch\<close> stands for \<open>Bus.Dispatch\<close> with
  the executor the route registers, \<open>dispatchResult\<close> for \<open>DispatchResult\<close>; what is relied on is stated by \<open>bus_law\<close>.
  The lifecycle of the asynchronous route is the subject of its own theory.
\<close>

section \<open>The synchronous route\<close>

definition localCall_Execute ::
  "('w \<Rightarrow> instant \<times> 'w) \<Rightarrow> ('w, 'v) delivery \<Rightarrow> mctx \<Rightarrow> ('w, 'v) mworld \<Rightarrow> err option \<times> ('w, 'v) mworld" where
  "localCall_Execute wall d c cw =
    (if IsZeroTime (md_ExpiresAt (dl_metadata d)) then delivery_Invoke d (Some c) cw
     else case on_state wall cw of
       (t, cw) \<Rightarrow>
        if \<not> md_ExpiresAt (dl_metadata d) > t
        then (let e = PermanentError (Sentinel ErrMessageExpired) in (Some e, reportExpiry d c e cw))
        else delivery_Invoke d (Some c) cw)"

type_synonym ('w, 'v, 'r) executor = "mctx \<Rightarrow> ('w, 'v) mworld \<Rightarrow> 'r \<times> ('w, 'v) mworld"
type_synonym ('w, 'v, 'r) bus = "('w, 'v, 'r) executor \<Rightarrow> ('w, 'v, 'r) executor"

definition local_sync_name :: string where
  "local_sync_name = ''local.sync''"

definition local_receipt ::
  "('w \<Rightarrow> instant \<times> 'w) \<Rightarrow> messageID \<Rightarrow> string \<Rightarrow> receiptState \<Rightarrow> ('w, 'v) mworld \<Rightarrow> (receipt \<times> err option) \<times> ('w, 'v) mworld" where
  "local_receipt wall i name st cw =
    (case on_state wall cw of (t, cw) \<Rightarrow> ((\<lparr>rc_MessageID = i, rc_Route = name, rc_State = st, rc_At = t\<rparr>, None), cw))"

definition sync_Deliver ::
  "('w, 'v, err option) bus \<Rightarrow> ('w \<Rightarrow> instant \<times> 'w) \<Rightarrow> mctx option \<Rightarrow> ('w, 'v) delivery \<Rightarrow> ('w, 'v) mworld \<Rightarrow>
    (receipt \<times> err option) \<times> ('w, 'v) mworld" where
  "sync_Deliver dispatch wall ctx d cw =
    (case ctx of
       None \<Rightarrow> ((zero_receipt, Some (invalid_message ''local sync delivery'')), cw)
     | Some c \<Rightarrow>
        (case on_state wall cw of
           (t, cw) \<Rightarrow>
            (case validateImmediateTiming (dl_metadata d) t of
               Some e \<Rightarrow> ((zero_receipt, Some e), cw)
             | None \<Rightarrow>
                if md_Kind (dl_metadata d) = KindEvent \<and> dl_handlers d = 0
                then local_receipt wall (md_ID (dl_metadata d)) local_sync_name ReceiptNoop cw
                else case dispatch (localCall_Execute wall d) c cw of
                  (Some e, cw) \<Rightarrow> ((zero_receipt, Some e), cw)
                | (None, cw) \<Rightarrow> local_receipt wall (md_ID (dl_metadata d)) local_sync_name ReceiptCompleted cw)))"

definition sync_route :: "('w, 'v, err option) bus \<Rightarrow> ('w \<Rightarrow> instant \<times> 'w) \<Rightarrow> ('w, 'v) croute" where
  "sync_route dispatch wall =
    \<lparr>rt_Name = local_sync_name, rt_local = True, rt_service = None, rt_Deliver = sync_Deliver dispatch wall, rt_DeliverBatch = None\<rparr>"

text \<open>Query invocation errors carry a marker that the route removes again.\<close>

definition invocation_mark :: string where
  "invocation_mark = ''localQueryInvocationError''"

fun as_invocation :: "err \<Rightarrow> err option" where
  "as_invocation (Wrap t [e]) = (if t = invocation_mark then Some e else None)"
| "as_invocation _ = None"

definition unwrapLocalQueryInvocationError :: "err \<Rightarrow> err option" where
  "unwrapLocalQueryInvocationError e = errors_As as_invocation e"

definition localQueryCall_Execute ::
  "('w, 'v) localQueryCall \<Rightarrow> ('w, 'v, 'v localQueryResult \<times> err option) executor" where
  "localQueryCall_Execute call c cw =
    (case qc_invoke call of
       None \<Rightarrow> ((zero_query_result, Some (invalid_message ''empty local query call'')), cw)
     | Some f \<Rightarrow>
        (case f (ContextWithMetadata c (qc_metadata call)) cw of
           ((result, e), cw) \<Rightarrow> ((result, map_option (\<lambda>x. Wrap invocation_mark [x]) e), cw)))"

definition sync_query ::
  "('w, 'v, 'v localQueryResult \<times> err option) bus \<Rightarrow> mctx option \<Rightarrow> ('w, 'v) localQueryCall \<Rightarrow> ('w, 'v) mworld \<Rightarrow>
    ('v localQueryResult \<times> err option) \<times> ('w, 'v) mworld" where
  "sync_query dispatchResult ctx call cw =
    (case ctx of
       None \<Rightarrow> ((zero_query_result, Some (invalid_message ''local sync query'')), cw)
     | Some c \<Rightarrow>
        if qc_invoke call = None then ((zero_query_result, Some (invalid_message ''local sync query'')), cw)
        else case dispatchResult (localQueryCall_Execute call) c cw of
          ((result, None), cw) \<Rightarrow> ((result, None), cw)
        | ((result, Some e), cw) \<Rightarrow>
           (case unwrapLocalQueryInvocationError e of
              Some x \<Rightarrow> ((result, Some x), cw)
            | None \<Rightarrow> ((result, Some e), cw)))"

definition sync_query_route :: "('w, 'v, 'v localQueryResult \<times> err option) bus \<Rightarrow> ('w, 'v) localQueryRoute" where
  "sync_query_route dispatchResult = \<lparr>qt_Name = local_sync_name, qt_service = None, qt_query = sync_query dispatchResult\<rparr>"

text \<open>The documented behaviour of the bus: a dispatch runs the registered executor and returns what it returned, or refuses with
  an error of its own without running anything.\<close>

definition bus_law :: "('w, 'v, err option) bus \<Rightarrow> bool" where
  "bus_law dispatch \<longleftrightarrow> (\<forall>f c cw. dispatch f c cw = f c cw \<or> (\<exists>e. dispatch f c cw = (Some e, cw)))"

definition bus_result_law :: "('w, 'v, 'v localQueryResult \<times> err option) bus \<Rightarrow> bool" where
  "bus_result_law dispatchResult \<longleftrightarrow>
    (\<forall>f c cw. dispatchResult f c cw = f c cw \<or>
      (\<exists>e. dispatchResult f c cw = ((zero_query_result, Some e), cw) \<and> unwrapLocalQueryInvocationError e = None))"

section \<open>Stamping metadata\<close>

text \<open>The metadata of a message: what the descriptor and the builder fix, the identity and the lineage.\<close>

definition stamped :: "('w, 'v) messenger \<Rightarrow> mctx \<Rightarrow> descriptorInfo \<Rightarrow> outgoingMetadata \<Rightarrow> metadata \<Rightarrow> bool" where
  "stamped m c info out md \<longleftrightarrow> validateMetadata md = None \<and>
    (\<exists>t i headers. md = assemble (ms_source m) info out (mc_metadata c) t i headers \<and>
      (om_ID out = 0 \<or> i = om_ID out) \<and> (om_Time out = 0 \<or> t = om_Time out) \<and>
      (ms_propagator m = None \<longrightarrow> headers = om_Headers out))"

lemma newMetadata_stamped: "newMetadata m c info out cw = (Inr md, cw') \<Longrightarrow> stamped m c info out md"
  by (auto simp: newMetadata_def stamped_def Let_def MetadataFromContext_def mid_IsZero_def on_state_def
      split: prod.splits sum.splits option.splits if_splits)

lemma newMetadata_calls: "newMetadata m c info out cw = (res, cw') \<Longrightarrow> mw_calls cw' = mw_calls cw"
  by (auto simp: newMetadata_def Let_def on_state_def split: prod.splits sum.splits option.splits if_splits)

lemma stamped_fields:
  assumes "stamped m c info out md"
  shows "md_Kind md = di_Kind info" "md_Name md = di_Name info" "md_Source md = ms_source m" "md_ID md \<noteq> 0"
  using assms by (auto simp: stamped_def assemble_def validateMetadata_def mid_IsZero_def split: if_splits)

section \<open>What a local delivery runs\<close>

lemma expiry_calls: "dl_onExpire d = expiryObserver wall' os md name \<Longrightarrow> mw_calls (reportExpiry d c e cw) = mw_calls cw"
  by (auto simp: reportExpiry_def expiryObserver_def split: prod.split) (metis mw_calls_on_state snd_conv)

text \<open>An executor of a delivery either invokes it once in a context that carries its metadata, or leaves the log alone and fails.\<close>

lemma execute_cases:
  assumes "dl_onExpire d = expiryObserver wall' os md name"
  shows "(\<exists>c' cw'. mc_metadata c' = Some (dl_metadata d) \<and> mw_calls cw' = mw_calls cw \<and>
      localCall_Execute wall d c cw = (case dl_invoke d of Some f \<Rightarrow> f c' cw' | None \<Rightarrow> (Some (invalid_message ''invalid delivery invocation''), cw'))) \<or>
    (fst (localCall_Execute wall d c cw) \<noteq> None \<and> mw_calls (snd (localCall_Execute wall d c cw)) = mw_calls cw)"
proof -
  have inv: "\<exists>c' cw''. mc_metadata c' = Some (dl_metadata d) \<and> mw_calls cw'' = mw_calls cw' \<and>
      delivery_Invoke d (Some c) cw' = (case dl_invoke d of Some f \<Rightarrow> f c' cw'' | None \<Rightarrow> (Some (invalid_message ''invalid delivery invocation''), cw''))"
    for cw'
    by (rule exI [of _ "ContextWithMetadata c (dl_metadata d)"], rule exI [of _ cw']) (simp add: delivery_Invoke_def split: option.split)
  obtain t cw1 where t: "on_state wall cw = (t, cw1)" by force
  then have c1: "mw_calls cw1 = mw_calls cw" by (metis mw_calls_on_state snd_conv)
  show ?thesis
    using inv [of cw] inv [of cw1] c1 expiry_calls [OF assms] by (simp add: localCall_Execute_def t Let_def)
qed

definition receipt_for :: "metadata \<Rightarrow> string \<Rightarrow> receiptState \<Rightarrow> receipt \<Rightarrow> bool" where
  "receipt_for md name st r \<longleftrightarrow> rc_MessageID r = md_ID md \<and> rc_Route r = name \<and> rc_State r = st"

text \<open>The three ways a synchronous delivery goes: nobody to call, one invocation, or a refusal.\<close>

definition sync_outcome ::
  "('w, 'v) delivery \<Rightarrow> ('w, 'v, err option) executor \<Rightarrow> ('w, 'v) mworld \<Rightarrow> receipt \<Rightarrow> err option \<Rightarrow> 'v hcall list \<Rightarrow> bool" where
  "sync_outcome d f cw receipt e calls \<longleftrightarrow>
    (md_Kind (dl_metadata d) = KindEvent \<and> dl_handlers d = 0 \<and> e = None \<and>
      receipt_for (dl_metadata d) local_sync_name ReceiptNoop receipt \<and> calls = mw_calls cw) \<or>
    (\<not> (md_Kind (dl_metadata d) = KindEvent \<and> dl_handlers d = 0) \<and>
      (\<exists>c' cw0. mc_metadata c' = Some (dl_metadata d) \<and> mw_calls cw0 = mw_calls cw \<and> calls = mw_calls (snd (f c' cw0)) \<and>
        (e = None \<longleftrightarrow> fst (f c' cw0) = None) \<and>
        (e = None \<longrightarrow> receipt_for (dl_metadata d) local_sync_name ReceiptCompleted receipt))) \<or>
    (e \<noteq> None \<and> calls = mw_calls cw)"

lemma sync_ran:
  assumes "mc_metadata c' = Some (dl_metadata d)" and "mw_calls cw0 = mw_calls cw" and "calls = mw_calls (snd (f c' cw0))"
    and "e = None \<longleftrightarrow> fst (f c' cw0) = None" and "e = None \<longrightarrow> receipt_for (dl_metadata d) local_sync_name ReceiptCompleted receipt"
    and "\<not> (md_Kind (dl_metadata d) = KindEvent \<and> dl_handlers d = 0)"
  shows "sync_outcome d f cw receipt e calls"
  unfolding sync_outcome_def by (rule disjI2, rule disjI1, intro conjI exI [of _ c'] exI [of _ cw0]) (fact assms)+

lemma local_receipt_facts:
  "local_receipt wall i name st cw = ((receipt, e), cw') \<Longrightarrow>
    e = None \<and> rc_MessageID receipt = i \<and> rc_Route receipt = name \<and> rc_State receipt = st \<and> mw_calls cw' = mw_calls cw"
  by (auto simp: local_receipt_def on_state_def split: prod.splits)

lemma sync_Deliver_outcome:
  assumes law: "bus_law dispatch" and x: "dl_onExpire d = expiryObserver wall' os md name" and f: "dl_invoke d = Some f"
    and r: "sync_Deliver dispatch wall (Some c) d cw = ((receipt, e), cw')"
  shows "sync_outcome d f cw receipt e (mw_calls cw')"
proof -
  obtain t cw1 where t: "on_state wall cw = (t, cw1)" by force
  then have c1: "mw_calls cw1 = mw_calls cw" by (metis mw_calls_on_state snd_conv)
  let ?event = "md_Kind (dl_metadata d) = KindEvent \<and> dl_handlers d = 0"
  show ?thesis
  proof (cases "validateImmediateTiming (dl_metadata d) t")
    case None
    show ?thesis
    proof (cases ?event)
      case True
      then show ?thesis using r None t c1 by (auto simp: sync_Deliver_def sync_outcome_def receipt_for_def dest!: local_receipt_facts)
    next
      case False
      obtain out cw2 where o: "dispatch (localCall_Execute wall d) c cw1 = (out, cw2)" by force
      have res: "e = out \<and> mw_calls cw' = mw_calls cw2 \<and> (e = None \<longrightarrow> receipt_for (dl_metadata d) local_sync_name ReceiptCompleted receipt)"
        using r None t False by (auto simp: sync_Deliver_def o receipt_for_def dest!: local_receipt_facts split: option.splits)
      from law [unfolded bus_law_def] have "dispatch (localCall_Execute wall d) c cw1 = localCall_Execute wall d c cw1 \<or>
          (\<exists>x. dispatch (localCall_Execute wall d) c cw1 = (Some x, cw1))" by blast
      then show ?thesis
      proof
        assume "dispatch (localCall_Execute wall d) c cw1 = localCall_Execute wall d c cw1"
        with o have o': "localCall_Execute wall d c cw1 = (out, cw2)" by simp
        from execute_cases [OF x, where cw = cw1 and c = c and wall = wall] show ?thesis unfolding o' f
        proof (elim disjE exE conjE)
          fix c' cw0 assume "mc_metadata c' = Some (dl_metadata d)" "mw_calls cw0 = mw_calls cw1"
            "(out, cw2) = (case Some f of None \<Rightarrow> (Some (invalid_message ''invalid delivery invocation''), cw0) | Some f \<Rightarrow> f c' cw0)"
          moreover from this(3) have "f c' cw0 = (out, cw2)" by simp
          ultimately show ?thesis using res False c1 by (intro sync_ran [of c' d cw0]) simp_all
        qed (use res c1 in \<open>auto simp: sync_outcome_def\<close>)
      qed (use res o c1 in \<open>auto simp: sync_outcome_def\<close>)
    qed
  qed (use r t c1 in \<open>auto simp: sync_Deliver_def sync_outcome_def\<close>)
qed

lemma normalized_receipt:
  assumes "receipt_for md name st r" and "st \<noteq> NoReceipt" and "normalizeReceipt clock r md name cw = ((r', e), cw')"
  shows "e = None \<and> receipt_for md name st r' \<and> mw_calls cw' = mw_calls cw"
  using assms
  by (auto simp: normalizeReceipt_def receipt_for_def mid_IsZero_def Let_def on_state_def split: prod.splits if_splits)

text \<open>The messenger only adds its own reading of the clock to a receipt of the route.\<close>

lemma deliver_outcome:
  assumes law: "bus_law dispatch" and x: "dl_onExpire d = expiryObserver wall' os md name" and f: "dl_invoke d = Some f"
    and r: "deliver m c (sync_route dispatch wall) d cw = ((receipt, e), cw')"
  shows "sync_outcome d f cw receipt e (mw_calls cw')"
proof -
  obtain started cw1 where s: "on_state (ms_clock m) cw = (started, cw1)" by force
  then have c1: "mw_calls cw1 = mw_calls cw" by (metis mw_calls_on_state snd_conv)
  obtain receipt1 e1 cw2 where d: "sync_Deliver dispatch wall (Some c) d cw1 = ((receipt1, e1), cw2)" by (metis surj_pair)
  note out = sync_Deliver_outcome [OF law x f d]
  show ?thesis
  proof (cases e1)
    case (Some y)
    with r d s have "receipt = receipt1" "e = e1" "mw_calls cw' = mw_calls cw2" by (auto simp: deliver_def sync_route_def)
    with out c1 show ?thesis by (simp add: sync_outcome_def)
  next
    case None
    obtain receipt2 e2 cw3 where n: "normalizeReceipt (ms_clock m) receipt1 (dl_metadata d) local_sync_name cw2 = ((receipt2, e2), cw3)"
      by (metis surj_pair)
    with r d s None have r2: "receipt = receipt2" "e = e2" "mw_calls cw' = mw_calls cw3" by (auto simp: deliver_def sync_route_def)
    have "receipt_for (dl_metadata d) local_sync_name ReceiptNoop receipt1 \<or> receipt_for (dl_metadata d) local_sync_name ReceiptCompleted receipt1"
      using out None by (auto simp: sync_outcome_def)
    then have "e2 = None" "mw_calls cw3 = mw_calls cw2"
      "receipt_for (dl_metadata d) local_sync_name st receipt1 \<Longrightarrow> st \<in> {ReceiptNoop, ReceiptCompleted} \<Longrightarrow>
        receipt_for (dl_metadata d) local_sync_name st receipt2" for st
      using normalized_receipt [OF _ _ n] by (auto)
    with out None c1 r2 show ?thesis by (auto simp: sync_outcome_def)
  qed
qed

section \<open>Sending and publishing through the synchronous route\<close>

lemma built_command:
  assumes "builder_ok b" and "fst (builder_Build L wall b) = Inr (m, rt)" and "map_of (ms_commands m) k = Some r"
  shows "command_ok k r" "cb_route r = Some x \<Longrightarrow> rt_local x \<Longrightarrow> cb_handler r \<noteq> None"
proof -
  have r: "map_of (bd_commands b) k = Some r" using assms(3) by (simp add: Build_Inr(3) [OF assms(2)])
  then show "command_ok k r" using assms(1) by (auto simp: builder_ok_def intro: table_ok_lookup)
  have "check_command r = []" using Build_Inr(1) [OF assms(2)] map_of_SomeD [OF r] by (force simp: build_errors_Nil)
  then show "cb_route r = Some x \<Longrightarrow> rt_local x \<Longrightarrow> cb_handler r \<noteq> None" by (auto simp: check_command_def split: if_splits)
qed

lemma built_event:
  assumes "builder_ok b" and "fst (builder_Build L wall b) = Inr (m, rt)" and "map_of (ms_events m) k = Some r"
  shows "event_ok k r"
  using assms by (auto simp: Build_Inr(4) [OF assms(2)] builder_ok_def intro: table_ok_lookup)

text \<open>
  What one local call did: handlers out of \<open>ids\<close> were called, in this order and each at most once, with the payload and the
  stamped metadata. A nil error comes with the receipt; without middlewares it also means that every handler
  was called and returned nil.
\<close>

definition delivered_to ::
  "string list \<Rightarrow> ('w, 'v) messenger \<Rightarrow> mctx \<Rightarrow> descriptorInfo \<Rightarrow> outgoingMetadata \<Rightarrow> 'v any \<Rightarrow> ('w, 'v) mworld \<Rightarrow>
    (receipt \<times> err option) \<times> ('w, 'v) mworld \<Rightarrow> bool" where
  "delivered_to ids m c info out payload cw res \<longleftrightarrow>
    (case res of ((receipt, e), cw') \<Rightarrow>
      \<exists>md added. mw_calls cw' = mw_calls cw @ added \<and> subseq (map cl_handler added) ids \<and>
        (\<forall>call \<in> set added. call_of md payload (cl_handler call) call) \<and>
        (added \<noteq> [] \<or> e = None \<longrightarrow> stamped m c info out md) \<and>
        (e = None \<longrightarrow> receipt_for md local_sync_name (if ids = [] then ReceiptNoop else ReceiptCompleted) receipt) \<and>
        (e = None \<and> be_middleware (ms_env m) = [] \<longrightarrow>
          map cl_handler added = ids \<and> (\<forall>call \<in> set added. cl_result call = Returned None)))"

lemma delivered_error: "e \<noteq> None \<Longrightarrow> mw_calls cw' = mw_calls cw \<Longrightarrow> delivered_to ids m c info out payload cw ((receipt, e), cw')"
  by (auto simp: delivered_to_def intro!: exI [of _ "[]"])

text \<open>From the outcome of a delivery, given what its invocation does.\<close>

lemma delivered_from_outcome:
  assumes out: "sync_outcome d f cw receipt e (mw_calls cw')" and md: "stamped m c info out md" "dl_metadata d = md"
    and none: "md_Kind md = KindEvent \<and> dl_handlers d = 0 \<longleftrightarrow> ids = []"
    and run: "\<And>c cw0. mc_metadata c = Some md \<Longrightarrow> \<exists>added. mw_calls (snd (f c cw0)) = mw_calls cw0 @ added \<and>
      subseq (map cl_handler added) ids \<and> (\<forall>call \<in> set added. call_of md payload (cl_handler call) call) \<and>
      (fst (f c cw0) = None \<and> be_middleware (ms_env m) = [] \<longrightarrow>
        map cl_handler added = ids \<and> (\<forall>call \<in> set added. cl_result call = Returned None))"
  shows "delivered_to ids m c info out payload cw ((receipt, e), cw')"
  using out unfolding sync_outcome_def
proof (elim disjE exE conjE)
  assume "md_Kind (dl_metadata d) = KindEvent" "dl_handlers d = 0" "e = None" "mw_calls cw' = mw_calls cw"
    "receipt_for (dl_metadata d) local_sync_name ReceiptNoop receipt"
  with none md show ?thesis unfolding delivered_to_def by (intro case_prodI exI [of _ md] exI [of _ "[]"]) auto
next
  fix c' cw0
  assume a: "mc_metadata c' = Some (dl_metadata d)" "mw_calls cw0 = mw_calls cw" "mw_calls cw' = mw_calls (snd (f c' cw0))"
    "(e = None) = (fst (f c' cw0) = None)" "e = None \<longrightarrow> receipt_for (dl_metadata d) local_sync_name ReceiptCompleted receipt"
    "\<not> (md_Kind (dl_metadata d) = KindEvent \<and> dl_handlers d = 0)"
  from run [of c' cw0] a md obtain added where "mw_calls (snd (f c' cw0)) = mw_calls cw0 @ added"
      "subseq (map cl_handler added) ids" "\<forall>call \<in> set added. call_of md payload (cl_handler call) call"
      "fst (f c' cw0) = None \<and> be_middleware (ms_env m) = [] \<longrightarrow>
        map cl_handler added = ids \<and> (\<forall>call \<in> set added. cl_result call = Returned None)" by auto
  with a md none show ?thesis unfolding delivered_to_def by (intro case_prodI exI [of _ md] exI [of _ added]) auto
qed (simp add: delivered_error)

lemma completion_None [simp]: "completion i out = None \<longleftrightarrow> out = Returned None"
  by (simp add: completion_def split: outcome.split)

lemma command_invoke_run:
  assumes "cb_handler b = Some f" and "f payload = Inr h" and "mc_metadata c = Some md"
  shows "\<exists>added. mw_calls (snd (command_invoke env b md payload c cw)) = mw_calls cw @ added \<and>
      subseq (map cl_handler added) [cb_handlerID b] \<and> (\<forall>call \<in> set added. call_of md payload (cl_handler call) call) \<and>
      (fst (command_invoke env b md payload c cw) = None \<and> be_middleware env = [] \<longrightarrow>
        map cl_handler added = [cb_handlerID b] \<and> (\<forall>call \<in> set added. cl_result call = Returned None))"
proof (cases "be_middleware env = []")
  case True
  then obtain call where "call_of md payload (cb_handlerID b) call"
      "mw_calls (snd (invoke_handler env md (cb_handlerID b) payload h c cw)) = mw_calls cw @ [call]"
      "fst (invoke_handler env md (cb_handlerID b) payload h c cw) = completion (cb_handlerID b) (cl_result call)"
    using invoke_handler_plain [OF _ assms(3)] by blast
  with assms show ?thesis by (intro exI [of _ "[call]"]) (auto simp: command_invoke_def call_of_def)
next
  case False
  from invoke_handler_calls [OF assms(3), of payload "cb_handlerID b" cw env h] show ?thesis
    unfolding at_most_one_def
  proof (elim disjE exE conjE)
    fix call assume "call_of md payload (cb_handlerID b) call"
      "mw_calls (snd (invoke_handler env md (cb_handlerID b) payload h c cw)) = mw_calls cw @ [call]"
    with assms False show ?thesis by (intro exI [of _ "[call]"]) (auto simp: command_invoke_def call_of_def)
  qed (use assms False in \<open>auto simp: command_invoke_def intro!: exI [of _ "[]"]\<close>)
qed

lemma event_invoke_run:
  assumes "\<And>s. s \<in> set ss \<Longrightarrow> \<exists>h. es_handler s payload = Inr h" and "mc_metadata c = Some md"
  shows "\<exists>added. mw_calls (snd (event_invoke env ss md payload c cw)) = mw_calls cw @ added \<and>
      subseq (map cl_handler added) (map es_id ss) \<and> (\<forall>call \<in> set added. call_of md payload (cl_handler call) call) \<and>
      (errors_Join (fst (event_invoke env ss md payload c cw)) = None \<and> be_middleware env = [] \<longrightarrow>
        map cl_handler added = map es_id ss \<and> (\<forall>call \<in> set added. cl_result call = Returned None))"
proof -
  obtain added where a: "mw_calls (snd (event_invoke env ss md payload c cw)) = mw_calls cw @ added"
    "subseq (map cl_handler added) (map es_id ss)" "\<forall>call \<in> set added. call_of md payload (cl_handler call) call"
    using event_invoke_calls [OF assms(2)] by blast
  moreover have "map cl_handler added = map es_id ss \<and> (\<forall>call \<in> set added. cl_result call = Returned None)"
    if "be_middleware env = []" "errors_Join (fst (event_invoke env ss md payload c cw)) = None"
    using event_invoke_plain [OF that(1) assms(2,1), of ss cw] a(1) that(2) by (auto simp: errors_Join_None)
  ultimately show ?thesis by (intro exI [of _ added]) simp
qed

lemma send_delivered:
  assumes b: "builder_ok b" "fst (builder_Build L wall' b) = Inr (m, rt)" and law: "bus_law dispatch"
    and r: "map_of (ms_commands m) (keyFor (td_info d)) = Some r" "cb_route r = Some (sync_route dispatch wall)"
    and p: "has_type (td_type d) payload"
  shows "delivered_to [cb_handlerID r] m c (td_info d) out payload cw (SendMessage m (Some c) d out payload cw)"
proof (cases "sameDescriptor (cb_descriptor r) (td_info d) (td_type d)")
  case True
  obtain md cw1 where n: "newMetadata m c (td_info d) out cw = (md, cw1)" by force
  have c1: "mw_calls cw1 = mw_calls cw" by (rule newMetadata_calls [OF n])
  show ?thesis
  proof (cases md)
    case (Inr md')
    note ok = built_command [OF b r(1)]
    have "cb_handler r \<noteq> None" by (rule ok(2) [OF r(2)]) (simp add: sync_route_def)
    then obtain f where f: "cb_handler r = Some f" by blast
    with ok(1) True p obtain h where h: "f payload = Inr h"
      by (fastforce simp: command_ok_def Let_def accepts_def sameDescriptor_def)
    have st: "stamped m c (td_info d) out md'" using newMetadata_stamped n Inr by blast
    then have k: "md_Kind md' \<noteq> KindEvent"
      using stamped_fields(1) [OF st] True ok(1)
      by (auto simp: command_ok_def Let_def info_ok_def sameDescriptor_def KindCommand_def KindEvent_def)
    let ?d = "command_delivery (ms_env m) r local_sync_name md' payload"
    obtain receipt e cw2 where dl: "deliver m c (sync_route dispatch wall) ?d cw1 = ((receipt, e), cw2)" by (metis surj_pair)
    have o: "sync_outcome ?d (command_invoke (ms_env m) r md' payload) cw1 receipt e (mw_calls cw2)"
      by (rule deliver_outcome [OF law _ _ dl]) (simp_all add: command_delivery_def)
    have "delivered_to [cb_handlerID r] m c (td_info d) out payload cw1 ((receipt, e), cw2)"
      by (rule delivered_from_outcome [OF o st _ _ command_invoke_run [OF f h]]) (use k in \<open>simp_all add: command_delivery_def\<close>)
    then show ?thesis using r True n Inr dl c1 by (simp add: SendMessage_def delivered_to_def sync_route_def)
  qed (use r True n c1 in \<open>simp add: SendMessage_def delivered_error\<close>)
qed (use r in \<open>simp add: SendMessage_def delivered_error\<close>)

lemma publish_delivered:
  assumes b: "builder_ok b" "fst (builder_Build L wall' b) = Inr (m, rt)" and law: "bus_law dispatch"
    and r: "map_of (ms_events m) (keyFor (td_info d)) = Some r" "eb_route r = Some (sync_route dispatch wall)"
    and p: "has_type (td_type d) payload"
  shows "delivered_to (map es_id (eb_subscribers r)) m c (td_info d) out payload cw (PublishMessage m (Some c) d out payload cw)"
proof (cases "sameDescriptor (eb_descriptor r) (td_info d) (td_type d)")
  case True
  obtain md cw1 where n: "newMetadata m c (td_info d) out cw = (md, cw1)" by force
  have c1: "mw_calls cw1 = mw_calls cw" by (rule newMetadata_calls [OF n])
  show ?thesis
  proof (cases md)
    case (Inr md')
    note ok = built_event [OF b r(1)]
    then have h: "s \<in> set (eb_subscribers r) \<Longrightarrow> \<exists>h. es_handler s payload = Inr h" for s
      using True p by (auto simp: event_ok_def Let_def accepts_def sameDescriptor_def list_all_iff)
    have st: "stamped m c (td_info d) out md'" using newMetadata_stamped n Inr by blast
    then have k: "md_Kind md' = KindEvent"
      using stamped_fields(1) [OF st] True ok by (auto simp: event_ok_def Let_def info_ok_def sameDescriptor_def)
    let ?d = "event_delivery (ms_env m) r local_sync_name md' payload"
    let ?f = "\<lambda>c cw. case event_invoke (ms_env m) (eb_subscribers r) md' payload c cw of (es, cw') \<Rightarrow> (errors_Join es, cw')"
    obtain receipt e cw2 where dl: "deliver m c (sync_route dispatch wall) ?d cw1 = ((receipt, e), cw2)" by (metis surj_pair)
    have o: "sync_outcome ?d ?f cw1 receipt e (mw_calls cw2)"
      by (rule deliver_outcome [OF law _ _ dl]) (simp_all add: event_delivery_def)
    have "delivered_to (map es_id (eb_subscribers r)) m c (td_info d) out payload cw1 ((receipt, e), cw2)"
      by (rule delivered_from_outcome [OF o st])
        (use k event_invoke_run [OF h, where env = "ms_env m"] in \<open>simp_all add: event_delivery_def case_prod_beta\<close>)
    then show ?thesis using r True n Inr dl c1 by (simp add: PublishMessage_def delivered_to_def sync_route_def)
  qed (use r True n c1 in \<open>simp add: PublishMessage_def delivered_error\<close>)
qed (use r in \<open>simp add: PublishMessage_def delivered_error\<close>)

section \<open>Queries through the synchronous route\<close>

text \<open>One run of a query handler: the call in the log and what it left in the captured result.\<close>

definition query_ran ::
  "metadata \<Rightarrow> 'v any \<Rightarrow> string \<Rightarrow> ('w, 'v) context_query_handler \<Rightarrow> 'v hcall list \<times> 'v localQueryResult \<Rightarrow>
    'v hcall list \<times> 'v localQueryResult \<Rightarrow> bool" where
  "query_ran md payload handlerID h l l' \<longleftrightarrow>
    (\<exists>call c w out w'. call_of md payload handlerID call \<and> mc_metadata c = Some md \<and> h c w = (out, w') \<and>
      fst l' = fst l @ [call] \<and> query_effect out (snd l) = (cl_result call, snd l'))"

lemma logged_query_ran:
  assumes "mc_metadata c = Some md"
  shows "query_ran md payload i h l (snd (snd (logged_query i payload h c w l)))"
proof -
  obtain out w' where h: "h c w = (out, w')" by force
  obtain r captured where q: "query_effect out (snd l) = (r, captured)" by force
  show ?thesis unfolding query_ran_def
    by (intro exI [of _ "\<lparr>cl_handler = i, cl_ctx = c, cl_payload = payload, cl_result = r\<rparr>"] exI [of _ c] exI [of _ w] exI [of _ out]
        exI [of _ w'])
      (simp add: logged_query_def h q call_of_def assms)
qed

lemma invoke_query_ran:
  assumes "mc_metadata c = Some md"
  shows "snd (snd (invokeMiddleware md i (logged_query i payload h) fs c w l)) = l \<or>
    query_ran md payload i h l (snd (snd (invokeMiddleware md i (logged_query i payload h) fs c w l)))"
  by (rule invokeMiddleware_rel [where R = "\<lambda>l l'. l' = l \<or> query_ran md payload i h l l'", OF _ _ assms])
    (simp_all add: logged_query_ran)

lemma invoke_query_plain:
  assumes "mc_metadata c = Some md" and "invokeMiddleware md i (logged_query i payload h) [] c w (calls, r0) = (e, w', (calls', r))"
  shows "\<exists>call out w1. h c w = (out, w1) \<and> calls' = calls @ [call] \<and> query_effect out r0 = (cl_result call, r) \<and>
    (cl_result call = Returned None \<longrightarrow> e = None)"
  using assms by (fastforce simp: invokeMiddleware_def logged_query_def split: prod.splits outcome.splits)

text \<open>
  What one query did: at most one call of the handler, with the payload and the stamped metadata. A value is returned only
  when the handler ran and returned it; without middlewares a successful run always gives its value.
\<close>

definition answered ::
  "('w, 'v) queryHandler \<Rightarrow> string \<Rightarrow> ('w, 'v) messenger \<Rightarrow> mctx \<Rightarrow> descriptorInfo \<Rightarrow> 'v any \<Rightarrow> ('w, 'v) mworld \<Rightarrow>
    (err + 'v any) \<times> ('w, 'v) mworld \<Rightarrow> bool" where
  "answered h handlerID m c info payload cw res \<longleftrightarrow>
    (\<exists>md added. mw_calls (snd res) = mw_calls cw @ added \<and> length added \<le> 1 \<and>
      (\<forall>call \<in> set added. stamped m c info zero_outgoing md \<and> call_of md payload handlerID call) \<and>
      (case fst res of
         Inr v \<Rightarrow> added \<noteq> [] \<and> (\<exists>c' w w'. mc_metadata c' = Some md \<and> h c' (md, payload) w = (Returned (v, None), w'))
       | Inl e \<Rightarrow> be_middleware (ms_env m) = [] \<longrightarrow> (\<forall>call \<in> set added. cl_result call \<noteq> Returned None)))"

lemma answered_error: "mw_calls cw' = mw_calls cw \<Longrightarrow> answered h i m c info payload cw (Inl e, cw')"
  by (auto simp: answered_def intro!: exI [of _ "[]"])

lemma queryResultAs_typed:
  "has_type R v \<Longrightarrow> queryResultAs R \<lparr>qr_value = v, qr_type = Some R, qr_present = True\<rparr> = Inr v"
  by (auto simp: queryResultAs_def payloadAs_has_type split: option.split)

text \<open>The invocation of a query, with the answer the messenger makes of it.\<close>

definition answer_of :: "gotype \<Rightarrow> 'v localQueryResult \<times> err option \<Rightarrow> err + 'v any" where
  "answer_of R re = (case snd re of Some x \<Rightarrow> Inl x | None \<Rightarrow> queryResultAs R (fst re))"

lemma value_returned:
  assumes "query_effect (query_result R out) zero_query_result = (x, r)" and "qr_present r"
  shows "\<exists>v. out = Returned (v, None) \<and> r = \<lparr>qr_value = v, qr_type = Some R, qr_present = True\<rparr>"
  using assms by (auto simp: query_effect_def query_result_def zero_query_result_def split: outcome.splits option.splits prod.splits)

lemma success_returned:
  assumes "query_effect (query_result R out) zero_query_result = (Returned None, r)"
  shows "\<exists>v. out = Returned (v, None) \<and> r = \<lparr>qr_value = v, qr_type = Some R, qr_present = True\<rparr>"
  using assms by (auto simp: query_effect_def query_result_def split: outcome.splits option.splits prod.splits)

lemma answer_Inr: "answer_of R re = Inr v \<Longrightarrow> snd re = None \<and> qr_present (fst re) \<and> queryResultAs R (fst re) = Inr v"
  by (auto simp: answer_of_def queryResultAs_def split: option.splits if_splits)

lemma ran_answered:
  assumes st: "stamped m c info zero_outgoing md" and R: "returns R h"
    and H: "\<And>c w. mc_metadata c = Some md \<Longrightarrow> H c w = (query_result R (fst (h c (md, payload) w)), snd (h c (md, payload) w))"
    and ran: "query_ran md payload i H (mw_calls cw, zero_query_result) (mw_calls cw', r)"
    and re: "re = (r, e)"
    and plain: "\<And>call x. be_middleware (ms_env m) = [] \<Longrightarrow> mw_calls cw' = mw_calls cw @ [call] \<Longrightarrow> answer_of R re = Inl x \<Longrightarrow>
      cl_result call \<noteq> Returned None"
  shows "answered h i m c info payload cw (answer_of R re, cw')"
proof -
  from ran obtain call c2 w2 out w2' where q: "call_of md payload i call" "mc_metadata c2 = Some md" "H c2 w2 = (out, w2')"
      "mw_calls cw' = mw_calls cw @ [call]" "query_effect out zero_query_result = (cl_result call, r)"
    unfolding query_ran_def fst_conv snd_conv by blast
  have o: "out = query_result R (fst (h c2 (md, payload) w2))" using H [OF q(2), of w2] q(3) by simp
  have inr: "\<exists>c' w w'. mc_metadata c' = Some md \<and> h c' (md, payload) w = (Returned (v, None), w')" if "answer_of R re = Inr v" for v
  proof -
    from answer_Inr [OF that] have p: "qr_present r" "queryResultAs R r = Inr v" by (simp_all add: re)
    from value_returned [OF q(5) [unfolded o] p(1)] obtain u
      where u: "fst (h c2 (md, payload) w2) = Returned (u, None)" "r = \<lparr>qr_value = u, qr_type = Some R, qr_present = True\<rparr>" by blast
    then have h2: "h c2 (md, payload) w2 = (Returned (u, None), snd (h c2 (md, payload) w2))" by (metis prod.collapse)
    with R have "has_type R u" unfolding returns_def by blast
    with u(2) p(2) have "u = v" by (simp add: queryResultAs_typed)
    with h2 q(2) show ?thesis by blast
  qed
  show ?thesis unfolding answered_def
    using q(1,4) st inr plain [OF _ q(4)] by (intro exI [of _ md] exI [of _ "[call]"]) (simp split: sum.split)
qed

lemma run_query_answered:
  assumes st: "stamped m c info zero_outgoing md" and mc: "mc_metadata c' = Some md" and R: "returns R h"
    and H: "\<And>c w. mc_metadata c = Some md \<Longrightarrow> H c w = (query_result R (fst (h c (md, payload) w)), snd (h c (md, payload) w))"
    and run: "run_query (ms_env m) md route i payload H c' cw = (re, cw')"
  shows "answered h i m c info payload cw (answer_of R re, cw')"
proof -
  obtain started cw1 where s: "on_state (be_clock (ms_env m)) cw = (started, cw1)" by force
  then have c1: "mw_calls cw1 = mw_calls cw" by (metis mw_calls_on_state snd_conv)
  obtain e w calls r where v: "invokeMiddleware md i (logged_query i payload H) (be_middleware (ms_env m)) c' (mw_state cw1)
      (mw_calls cw, zero_query_result) = (e, w, (calls, r))" by (metis surj_pair)
  have res: "re = (r, if e = None \<and> \<not> qr_present r then Some (Sentinel ErrQueryResultMissing) else e)" "mw_calls cw' = calls"
    using run by (auto simp: run_query_def s c1 v Let_def)
  have "(calls, r) = (mw_calls cw, zero_query_result) \<or> query_ran md payload i H (mw_calls cw, zero_query_result) (calls, r)"
    using invoke_query_ran [OF mc, of i payload H "be_middleware (ms_env m)" "mw_state cw1" "(mw_calls cw, zero_query_result)"]
    unfolding v snd_conv .
  then show ?thesis
  proof
    assume none: "(calls, r) = (mw_calls cw, zero_query_result)"
    then have "\<exists>x. answer_of R re = Inl x" by (simp add: res answer_of_def zero_query_result_def split: option.split)
    then show ?thesis using none res(2) answered_error by auto
  next
    assume "query_ran md payload i H (mw_calls cw, zero_query_result) (calls, r)"
    then have ran: "query_ran md payload i H (mw_calls cw, zero_query_result) (mw_calls cw', r)" by (simp add: res(2))
    show ?thesis
    proof (rule ran_answered [OF st R _ ran])
      show "H c w = (query_result R (fst (h c (md, payload) w)), snd (h c (md, payload) w))" if "mc_metadata c = Some md" for c w
        by (rule H [OF that])
      show "re = (r, snd re)" by (simp add: res)
      fix call x assume mw: "be_middleware (ms_env m) = []" and call: "mw_calls cw' = mw_calls cw @ [call]" and inl: "answer_of R re = Inl x"
      show "cl_result call \<noteq> Returned None"
      proof
        assume ok: "cl_result call = Returned None"
        from invoke_query_plain [OF mc v [unfolded mw]] obtain call' out w1 where p: "H c' (mw_state cw1) = (out, w1)"
          "calls = mw_calls cw @ [call']" "query_effect out zero_query_result = (cl_result call', r)" "cl_result call' = Returned None \<longrightarrow> e = None"
          by blast
        have "call' = call" using p(2) call res(2) by simp
        then have p': "query_effect out zero_query_result = (Returned None, r)" "e = None" using p(3,4) ok by simp_all
        have o: "out = query_result R (fst (h c' (md, payload) (mw_state cw1)))" using H [OF mc, of "mw_state cw1"] p(1) by simp
        from success_returned [OF p'(1) [unfolded o]] obtain u where u: "fst (h c' (md, payload) (mw_state cw1)) = Returned (u, None)"
          "r = \<lparr>qr_value = u, qr_type = Some R, qr_present = True\<rparr>" by blast
        then have "h c' (md, payload) (mw_state cw1) = (Returned (u, None), snd (h c' (md, payload) (mw_state cw1)))" by (metis prod.collapse)
        with R have "has_type R u" unfolding returns_def by blast
        with u(2) p'(2) inl show False by (simp add: answer_of_def res queryResultAs_typed)
      qed
    qed
  qed
qed

lemma erased_query:
  assumes "erase_query_handler T R h payload = Inr H" and "mc_metadata c = Some md"
  shows "H c w = (query_result R (fst (h c (md, payload) w)), snd (h c (md, payload) w))"
  using assms
  by (auto simp: erase_query_handler_def context_metadata_Some payloadAs_def case_prod_beta split: option.splits if_splits gotype.splits)

lemma unwrap_marked [simp]: "unwrapLocalQueryInvocationError (Wrap invocation_mark [x]) = Some x"
  by (simp add: unwrapLocalQueryInvocationError_def errors_As_def)

text \<open>The route hands the invocation's result through, or refuses.\<close>

lemma sync_query_cases:
  assumes law: "bus_result_law dispatchResult" and f: "qc_invoke call = Some f"
    and q: "sync_query dispatchResult (Some c) call cw = (re, cw')"
  shows "(re, cw') = f (ContextWithMetadata c (qc_metadata call)) cw \<or> (\<exists>e. snd re = Some e \<and> cw' = cw)"
proof -
  obtain result e cw1 where r: "f (ContextWithMetadata c (qc_metadata call)) cw = ((result, e), cw1)" by (metis surj_pair)
  from law [unfolded bus_result_law_def] have "dispatchResult (localQueryCall_Execute call) c cw = localQueryCall_Execute call c cw \<or>
      (\<exists>e. dispatchResult (localQueryCall_Execute call) c cw = ((zero_query_result, Some e), cw) \<and> unwrapLocalQueryInvocationError e = None)"
    by blast
  then show ?thesis
  proof
    assume "dispatchResult (localQueryCall_Execute call) c cw = localQueryCall_Execute call c cw"
    then show ?thesis using q f r by (cases e) (simp_all add: sync_query_def localQueryCall_Execute_def)
  qed (use q f in \<open>auto simp: sync_query_def\<close>)
qed

lemma query_answered:
  assumes b: "builder_ok b" "fst (builder_Build L wall' b) = Inr (m, rt)" and law: "bus_result_law dispatchResult"
    and r: "map_of (ms_queries m) (keyFor (td_info d)) = Some r" "qb_route r = Some (sync_query_route dispatchResult)"
    and p: "has_type (td_type d) payload"
    and same: "sameDescriptor (qb_descriptor r) (td_info d) (td_type d)" "qb_resultType r = R"
  shows "\<exists>h. qb_handler r = Some (erase_query_handler (td_type d) R h) \<and>
    answered h (qb_handlerID r) m c (td_info d) payload cw (messenger_Query m (Some c) d R R payload cw)"
proof -
  have r': "map_of (bd_queries b) (keyFor (td_info d)) = Some r" using r(1) by (simp add: Build_Inr(5) [OF b(2)])
  then have ok: "query_ok (keyFor (td_info d)) r" using b(1) by (auto simp: builder_ok_def intro: table_ok_lookup)
  have "check_query r = []" using Build_Inr(1) [OF b(2)] map_of_SomeD [OF r'] by (force simp: build_errors_Nil)
  then have "qb_handler r \<noteq> None" by (auto simp: check_query_def split: if_splits)
  with ok same obtain h where h: "qb_handler r = Some (erase_query_handler (td_type d) R h)" "returns R h"
    by (auto simp: query_ok_def Let_def sameDescriptor_def)
  obtain H where H: "erase_query_handler (td_type d) R h payload = Inr H"
    using payloadAs_has_type [OF p] by (simp add: erase_query_handler_def)
  obtain md cw1 where n: "newMetadata m c (td_info d) zero_outgoing cw = (md, cw1)" by force
  have c1: "mw_calls cw1 = mw_calls cw" by (rule newMetadata_calls [OF n])
  have "answered h (qb_handlerID r) m c (td_info d) payload cw (messenger_Query m (Some c) d R R payload cw)"
  proof (cases md)
    case (Inr md')
    obtain started cw2 where s: "on_state (ms_clock m) cw1 = (started, cw2)" by force
    then have c2: "mw_calls cw2 = mw_calls cw" using c1 by (metis mw_calls_on_state snd_conv)
    let ?call = "query_call (ms_env m) (erase_query_handler (td_type d) R h) local_sync_name (qb_handlerID r) md' payload"
    obtain re cw3 where q: "sync_query dispatchResult (Some c) ?call cw2 = (re, cw3)" by (metis surj_pair)
    have ans: "fst (messenger_Query m (Some c) d R R payload cw) = answer_of R re"
      "mw_calls (snd (messenger_Query m (Some c) d R R payload cw)) = mw_calls cw3"
      using r same h n Inr s q by (auto simp: messenger_Query_def sync_query_route_def answer_of_def Let_def split: prod.splits option.splits)
    let ?f = "\<lambda>c cw. run_query (ms_env m) md' local_sync_name (qb_handlerID r) payload H c cw"
    have "qc_invoke ?call = Some ?f" "qc_metadata ?call = md'" by (simp_all add: query_call_def H)
    from sync_query_cases [OF law this(1) q] this(2) have "(re, cw3) = ?f (ContextWithMetadata c md') cw2 \<or> (\<exists>e. snd re = Some e \<and> cw3 = cw2)"
      by simp
    then have "answered h (qb_handlerID r) m c (td_info d) payload cw2 (answer_of R re, cw3)"
    proof
      assume "(re, cw3) = ?f (ContextWithMetadata c md') cw2"
      then have run: "?f (ContextWithMetadata c md') cw2 = (re, cw3)" by simp
      have st: "stamped m c (td_info d) zero_outgoing md'" using newMetadata_stamped n Inr by blast
      show ?thesis by (rule run_query_answered [OF st _ h(2) erased_query [OF H] run]) simp_all
    qed (auto simp: answer_of_def intro: answered_error)
    then show ?thesis using ans c2 by (simp add: answered_def)
  qed (use r same h n c1 in \<open>simp add: messenger_Query_def answered_error\<close>)
  with h(1) show ?thesis by blast
qed

section \<open>Properties\<close>


text \<open>A topology with one local command, sent once.\<close>

definition direct_bus :: "('w, 'v, 'r) bus" where
  "direct_bus f = f"

definition local_declarations :: "(unit, unit) decl list" where
  "local_declarations =
    [DeclHandleCommand sample_descriptor ''pay'' (Some noop_handler),
     DeclRouteCommand sample_descriptor (Held (sync_route direct_bus (\<lambda>w. (1, w))))]"

definition local_builder :: "(unit, unit) builder" where
  "local_builder = fold declare_one local_declarations sample_builder"

definition local_messenger :: "(unit, unit) messenger" where
  "local_messenger = fst (projr (fst (builder_Build sample_wire (\<lambda>w. (1, w)) local_builder)))"

lemma local_declared:
  "local_builder = sample_builder\<lparr>bd_commands := [(keyFor (td_info (sample_descriptor :: unit typed_descriptor)),
      \<lparr>cb_descriptor = eraseDescriptor sample_descriptor, cb_handlerID = ''pay'',
       cb_handler = Some (erase_handler (Concrete 0) noop_handler), cb_route = Some (sync_route direct_bus (\<lambda>w. (1, w)))\<rparr>)]\<rparr>"
  by (simp add: local_builder_def local_declarations_def sample_builder_def NewBuilder_def HandleCommand_def RouteCommand_def ensureCommand_def
      new_command_def set_command_def validateRoute_def sample_ids sync_route_def local_sync_name_def tb_add_def tb_update_def sameDescriptor_def
      addRouteService_def sample_descriptor_def keyFor_def)

lemma local_built: "\<exists>rt. fst (builder_Build sample_wire (\<lambda>w. (1, w)) local_builder) = Inr (local_messenger, rt)"
proof -
  have "build_errors sample_wire local_builder = []"
    by (simp add: build_errors_Nil local_declared) (simp add: sample_builder_def NewBuilder_def sample_source check_command_def)
  then show ?thesis using Build_succeeds [of sample_wire local_builder "\<lambda>w. (1, w)"] by (auto simp: local_messenger_def)
qed

lemma local_command:
  "map_of (ms_commands local_messenger) (keyFor (td_info sample_descriptor)) =
    Some \<lparr>cb_descriptor = eraseDescriptor sample_descriptor, cb_handlerID = ''pay'',
      cb_handler = Some (erase_handler (Concrete 0) noop_handler), cb_route = Some (sync_route direct_bus (\<lambda>w. (1, w)))\<rparr>"
  using local_built Build_Inr(3) by (fastforce simp: local_declared sample_descriptor_def)

definition local_world :: "(unit, unit) mworld" where
  "local_world = \<lparr>mw_state = (), mw_calls = []\<rparr>"


end
