(* ===== verification/KafkaTopics.thy ===== *)
theory KafkaTopics
  imports GoText Identity
begin

text \<open>
  The naming scheme of the Kafka adapter: \<open>adapters/kafka/topic.go\<close>. A source topic is
  namespace, kind, descriptor name and version, joined by dots; the topics of one consumer append the
  reserved segment \<open>gm\<close>, the consumer and a role. Everything here is pure. The lemmas show that the
  scheme is unambiguous: a name determines what it was made from, and \<open>validateSourceTopicName\<close>, which
  has to search for the kind in a name, accepts exactly the names the scheme makes.
\<close>

section \<open>Validation\<close>

definition kafka_config_err :: "string \<Rightarrow> err" where
  "kafka_config_err t = Wrap t [Sentinel KafkaErrInvalidConfig]"

definition maxKafkaNameBytes :: nat where "maxKafkaNameBytes = 249"
definition serviceSegment :: string where "serviceSegment = ''gm''"
definition serviceMarker :: string where "serviceMarker = ''.'' @ serviceSegment @ ''.''"
definition transactionIDPrefix :: string where "transactionIDPrefix = ''gm.tx.v1.''"

abbreviation dot :: char where
  "dot \<equiv> CHR ''.''"

definition kafkaIdentifierByte :: "char \<Rightarrow> bool" where
  "kafkaIdentifierByte c \<longleftrightarrow> inR 97 122 c \<or> inR 65 90 c \<or> inR 48 57 c \<or> c = dot \<or> c = CHR ''-''"

definition validateKafkaToken :: "string \<Rightarrow> string \<Rightarrow> err option" where
  "validateKafkaToken role value =
    (if value = [] \<or> TrimSpace value \<noteq> value then Some (kafka_config_err role)
     else if \<not> list_all kafkaIdentifierByte value then Some (kafka_config_err role)
     else None)"

definition validateKafkaIdentifier :: "string \<Rightarrow> string \<Rightarrow> err option" where
  "validateKafkaIdentifier role value =
    (if length value = 0 \<or> length value > maxKafkaNameBytes \<or> TrimSpace value \<noteq> value
     then Some (kafka_config_err role)
     else if \<not> list_all kafkaIdentifierByte value then Some (kafka_config_err role)
     else None)"

definition validateTopicName :: "string \<Rightarrow> err option" where
  "validateTopicName value =
    (case validateKafkaIdentifier ''topic'' value of
       Some e \<Rightarrow> Some e
     | None \<Rightarrow> if value = ''.'' \<or> value = ''..'' then Some (kafka_config_err ''reserved topic'') else None)"

definition validateConsumerID :: "string \<Rightarrow> err option" where
  "validateConsumerID value = validateKafkaToken ''consumer ID'' value"

definition validateInstanceID :: "string \<Rightarrow> err option" where
  "validateInstanceID value = validateKafkaIdentifier ''instance ID'' value"

definition validateNamespace :: "string \<Rightarrow> err option" where
  "validateNamespace value =
    (case validateKafkaToken ''namespace'' value of
       Some e \<Rightarrow> Some e
     | None \<Rightarrow>
        if list_ex (\<lambda>segment. segment = KindCommand \<or> segment = KindEvent \<or> segment = serviceSegment) (Split dot value)
        then Some (kafka_config_err ''reserved namespace segment'') else None)"

definition validateDescriptorName :: "string \<Rightarrow> err option" where
  "validateDescriptorName value =
    (if list_ex (\<lambda>segment. segment = serviceSegment) (Split dot value)
     then Some (kafka_config_err ''reserved descriptor segment'') else None)"

section \<open>Source topics\<close>

definition topic_text :: "string \<Rightarrow> kind \<Rightarrow> string \<Rightarrow> int \<Rightarrow> string" where
  "topic_text namespace k name version =
    namespace @ ''.'' @ k @ ''.'' @ name @ ''.v'' @ Itoa version"

definition Topic :: "string \<Rightarrow> descriptorInfo \<Rightarrow> err + string" where
  "Topic namespace d =
    (case validateNamespace namespace of
       Some e \<Rightarrow> Inl e
     | None \<Rightarrow>
        if di_Kind d \<noteq> KindCommand \<and> di_Kind d \<noteq> KindEvent \<or> di_Name d = [] \<or> di_SchemaVersion d \<le> 0
        then Inl (kafka_config_err ''descriptor topic'')
        else case validateDescriptorName (di_Name d) of
          Some e \<Rightarrow> Inl e
        | None \<Rightarrow>
           (let topic = topic_text namespace (di_Kind d) (di_Name d) (di_SchemaVersion d) in
            case validateTopicName topic of Some e \<Rightarrow> Inl e | None \<Rightarrow> Inr topic))"

definition bare_info :: "kind \<Rightarrow> string \<Rightarrow> int \<Rightarrow> descriptorInfo" where
  "bare_info k name version =
    \<lparr>di_Kind = k, di_Name = name, di_SchemaVersion = version, di_ContentType = [], di_DataEncoding = 0, di_Schema = []\<rparr>"

text \<open>The test at one occurrence of the kind, and the search over the occurrences.\<close>

definition kind_marker :: "kind \<Rightarrow> string" where
  "kind_marker k = ''.'' @ k @ ''.''"

definition source_match :: "kind \<Rightarrow> string \<Rightarrow> nat \<Rightarrow> bool" where
  "source_match k value index =
    (let namespace = take index value; tail = drop (index + length (kind_marker k)) value in
     case LastIndex tail ''.v'' of
       None \<Rightarrow> False
     | Some versionIndex \<Rightarrow>
        versionIndex > 0 \<and>
        (case Atoi (drop (versionIndex + 2) tail) of
           None \<Rightarrow> False
         | Some version \<Rightarrow>
            version > 0 \<and> Topic namespace (bare_info k (take versionIndex tail) version) = Inr value))"

function source_search :: "kind \<Rightarrow> string \<Rightarrow> nat \<Rightarrow> bool" where
  "source_search k value offset =
    (if offset < length value then
       (case Index (drop offset value) (kind_marker k) of
          None \<Rightarrow> False
        | Some relative \<Rightarrow>
           source_match k value (offset + relative) \<or>
           source_search k value (offset + relative + length (kind_marker k)))
     else False)"
  by auto
termination
  by (relation "measure (\<lambda>(k, value, offset). length value - offset)") (auto simp: kind_marker_def)

declare source_search.simps [simp del]

definition validateSourceTopicName :: "string \<Rightarrow> err option" where
  "validateSourceTopicName value =
    (if source_search KindCommand value 0 \<or> source_search KindEvent value 0 then None
     else Some (kafka_config_err ''source topic does not match namespace.kind.descriptor.vN''))"

definition sourceTopicMatchesMetadata :: "string \<Rightarrow> metadata \<Rightarrow> err option" where
  "sourceTopicMatchesMetadata sourceTopic m =
    (let expectedSuffix = ''.'' @ md_Kind m @ ''.'' @ md_Name m @ ''.v'' @ Itoa (md_SchemaVersion m);
         mismatch = Some (Wrap ''Kafka source topic does not match envelope descriptor'' [Sentinel ErrInvalidMessage])
     in if \<not> HasSuffix sourceTopic expectedSuffix then mismatch
        else case Topic (TrimSuffix sourceTopic expectedSuffix) (bare_info (md_Kind m) (md_Name m) (md_SchemaVersion m)) of
          Inl _ \<Rightarrow> mismatch
        | Inr expected \<Rightarrow> if expected \<noteq> sourceTopic then mismatch else None)"

section \<open>Consumer names\<close>

definition consumerTopic :: "string \<Rightarrow> string \<Rightarrow> string \<Rightarrow> err + string" where
  "consumerTopic sourceTopic consumerID role =
    (case validateSourceTopicName sourceTopic of
       Some e \<Rightarrow> Inl e
     | None \<Rightarrow>
        (case validateConsumerID consumerID of
           Some e \<Rightarrow> Inl e
         | None \<Rightarrow>
            (let topic = sourceTopic @ serviceMarker @ consumerID @ ''.'' @ role in
             case validateTopicName topic of Some e \<Rightarrow> Inl e | None \<Rightarrow> Inr topic)))"

definition retryTopic :: "string \<Rightarrow> string \<Rightarrow> int \<Rightarrow> err + string" where
  "retryTopic sourceTopic consumerID tier =
    (if tier < 0 then Inl (kafka_config_err ''negative retry tier'')
     else consumerTopic sourceTopic consumerID (''retry.t'' @ Itoa tier))"

definition replayTopic :: "string \<Rightarrow> string \<Rightarrow> err + string" where
  "replayTopic sourceTopic consumerID = consumerTopic sourceTopic consumerID ''replay''"

definition dlqTopic :: "string \<Rightarrow> string \<Rightarrow> err + string" where
  "dlqTopic sourceTopic consumerID = consumerTopic sourceTopic consumerID ''dlq''"

definition consumerGroup :: "string \<Rightarrow> string \<Rightarrow> err + string" where
  "consumerGroup sourceTopic consumerID =
    (case validateSourceTopicName sourceTopic of
       Some e \<Rightarrow> Inl e
     | None \<Rightarrow>
        (case validateConsumerID consumerID of
           Some e \<Rightarrow> Inl e
         | None \<Rightarrow>
            (let grp = sourceTopic @ serviceMarker @ consumerID in
             case validateKafkaIdentifier ''consumer group'' grp of Some e \<Rightarrow> Inl e | None \<Rightarrow> Inr grp)))"

text \<open>\<open>hex.EncodeToString\<close>.\<close>

definition hex_encode :: "string \<Rightarrow> string" where
  "hex_encode s = concat (map (\<lambda>c. hexs 2 (of_char c)) s)"

text \<open>The digest \<open>H\<close> stands for SHA-256.\<close>

definition transactionalID :: "(string \<Rightarrow> string) \<Rightarrow> string \<Rightarrow> string \<Rightarrow> int \<Rightarrow> err + string" where
  "transactionalID H grp instanceID worker =
    (if worker < 0 then Inl (kafka_config_err ''negative worker index'')
     else case validateKafkaIdentifier ''transactional group'' grp of
       Some e \<Rightarrow> Inl e
     | None \<Rightarrow>
        (case validateInstanceID instanceID of
           Some e \<Rightarrow> Inl e
         | None \<Rightarrow>
            (let workerID = Itoa worker;
                 digest = H (grp @ [byte 0] @ instanceID @ [byte 0] @ workerID);
                 identifier = transactionIDPrefix @ hex_encode digest @ ''.w'' @ workerID
             in case validateKafkaIdentifier ''transactional ID'' identifier of
                  Some e \<Rightarrow> Inl e | None \<Rightarrow> Inr identifier)))"

definition groupInstanceID :: "string \<Rightarrow> int \<Rightarrow> err + string" where
  "groupInstanceID instanceID worker =
    (if worker < 0 then Inl (kafka_config_err ''negative worker index'')
     else case validateInstanceID instanceID of
       Some e \<Rightarrow> Inl e
     | None \<Rightarrow>
        (let identifier = instanceID @ ''.w'' @ Itoa worker in
         case validateKafkaIdentifier ''group instance ID'' identifier of Some e \<Rightarrow> Inl e | None \<Rightarrow> Inr identifier))"

section \<open>Record keys\<close>

definition expectedRecordKey :: "metadata \<Rightarrow> string" where
  "expectedRecordKey m = (if md_Key m \<noteq> [] then md_Key m else mid_String (md_ID m))"

definition validateRecordKey :: "string \<Rightarrow> metadata \<Rightarrow> err option" where
  "validateRecordKey key m =
    (if key \<noteq> expectedRecordKey m
     then Some (Wrap ''Kafka record key does not match envelope key'' [Sentinel ErrInvalidMessage]) else None)"

section \<open>Segments\<close>

definition source_segments :: "string \<Rightarrow> kind \<Rightarrow> string \<Rightarrow> int \<Rightarrow> string list" where
  "source_segments namespace k name version =
    Split dot namespace @ [k] @ Split dot name @ [CHR ''v'' # Itoa version]"

definition kind_like :: "string \<Rightarrow> bool" where
  "kind_like s \<longleftrightarrow> s = KindCommand \<or> s = KindEvent"

lemma kind_no_dot: "kind_like k \<Longrightarrow> dot \<notin> set k"
  by (auto simp: kind_like_def KindCommand_def KindEvent_def)

lemma version_no_dot: "0 < version \<Longrightarrow> dot \<notin> set (CHR ''v'' # Itoa version)"
  using decimal_no_dot [of "nat version"] by (auto simp: Itoa_pos)

lemma Split_topic_text:
  assumes "kind_like k" and "0 < version"
  shows "Split dot (topic_text namespace k name version) = source_segments namespace k name version"
proof -
  have "topic_text namespace k name version =
      namespace @ dot # (k @ dot # (name @ dot # (CHR ''v'' # Itoa version)))"
    by (simp add: topic_text_def)
  then show ?thesis
    by (simp add: Split_append source_segments_def Split_single [OF kind_no_dot [OF assms(1)]]
        Split_single [OF version_no_dot [OF assms(2)]] del: Split.simps)
qed

lemma Topic_facts:
  assumes "Topic namespace d = Inr t"
  shows "t = topic_text namespace (di_Kind d) (di_Name d) (di_SchemaVersion d)"
    and "kind_like (di_Kind d)" and "0 < di_SchemaVersion d" and "di_Name d \<noteq> []"
    and "\<forall>s\<in>set (Split dot namespace). \<not> kind_like s \<and> s \<noteq> serviceSegment"
    and "serviceSegment \<notin> set (Split dot (di_Name d))"
  using assms
  by (auto simp: Topic_def validateNamespace_def validateDescriptorName_def kind_like_def list_ex_iff Let_def
      split: option.splits if_splits)

lemma Topic_bare: "Topic ns (bare_info (di_Kind d) (di_Name d) (di_SchemaVersion d)) = Topic ns d"
  unfolding Topic_def bare_info_def by (simp only: descriptorInfo.select_convs)

text \<open>A list is cut at its first element of a kind in one way only.\<close>

lemma first_cut_unique:
  assumes "xs @ k # ys = xs' @ k' # ys'" and "\<forall>x\<in>set xs. \<not> P x" and "\<forall>x\<in>set xs'. \<not> P x" and "P k" and "P k'"
  shows "xs = xs' \<and> k = k' \<and> ys = ys'"
  using assms
proof (induction xs arbitrary: xs')
  case Nil
  then show ?case by (cases xs') auto
next
  case (Cons x xs)
  then show ?case by (cases xs') auto
qed

lemma topic_text_inject:
  assumes "topic_text ns k name v = topic_text ns' k' name' v'"
    and "kind_like k" "kind_like k'" and "0 < v" "0 < v'"
    and "\<forall>s\<in>set (Split dot ns). \<not> kind_like s" "\<forall>s\<in>set (Split dot ns'). \<not> kind_like s"
  shows "ns = ns' \<and> k = k' \<and> name = name' \<and> v = v'"
proof -
  have "source_segments ns k name v = source_segments ns' k' name' v'"
    using assms(1) Split_topic_text [OF assms(2,4)] Split_topic_text [OF assms(3,5)] by metis
  then have "Split dot ns @ k # (Split dot name @ [CHR ''v'' # Itoa v]) =
      Split dot ns' @ k' # (Split dot name' @ [CHR ''v'' # Itoa v'])"
    by (simp add: source_segments_def)
  from first_cut_unique [OF this assms(6,7,2,3)]
  have "Split dot ns = Split dot ns'" "k = k'" "Split dot name = Split dot name'" "Itoa v = Itoa v'" by auto
  then show ?thesis using Split_inject Itoa_inject [OF assms(4,5)] by blast
qed

lemma Topic_inject:
  assumes "Topic ns d = Inr t" and "Topic ns' d' = Inr t"
  shows "ns = ns' \<and> keyFor d = keyFor d'"
  using topic_text_inject [of ns "di_Kind d" "di_Name d" "di_SchemaVersion d" ns' "di_Kind d'" "di_Name d'" "di_SchemaVersion d'"]
    Topic_facts [OF assms(1)] Topic_facts [OF assms(2)] by (simp add: keyFor_def)

section \<open>The search accepts exactly the source topics\<close>

text \<open>The first occurrence of the kind in a source topic follows the namespace.\<close>

lemma kind_index:
  assumes "kind_like k" and "\<forall>s\<in>set (Split dot ns). \<not> kind_like s"
  shows "Index (ns @ kind_marker k @ r) (kind_marker k) = Some (length ns)"
proof -
  let ?v = "ns @ kind_marker k @ r"
  obtain i where i: "Index ?v (kind_marker k) = Some i" "i \<le> length ns"
    using Index_le [of ?v ns "kind_marker k" r] by blast
  from Index_Some_split [OF i(1)] obtain r' where r': "?v = take i ?v @ kind_marker k @ r'" by blast
  have "i = length ns"
  proof (rule ccontr)
    assume "i \<noteq> length ns"
    with i(2) have lt: "i < length ns" by simp
    define a b where "a = take i ns" and "b = drop i ns"
    have ns: "ns = a @ b" and "b \<noteq> []" using lt by (simp_all add: a_def b_def)
    have "?v = a @ kind_marker k @ r'" using r' lt by (simp add: a_def)
    then have "b @ kind_marker k @ r = kind_marker k @ r'" by (simp only: ns append_assoc same_append_eq)
    with \<open>b \<noteq> []\<close> obtain u where u: "b = dot # u" "u @ dot # (k @ dot # r) = k @ dot # r'"
      by (cases b) (auto simp: kind_marker_def)
    from arg_cong [OF u(2), of "Split dot"] have "Split dot u @ Split dot (k @ dot # r) = k # Split dot r'"
      by (simp add: Split_append Split_single [OF kind_no_dot [OF assms(1)]] del: Split.simps)
    then have "k \<in> set (Split dot u)" by (cases "Split dot u") auto
    then have "k \<in> set (Split dot ns)" by (simp add: ns u(1) Split_append del: Split.simps)
    with assms show False by blast
  qed
  with i(1) show ?thesis by simp
qed

lemma version_index:
  assumes "0 < version"
  shows "LastIndex (name @ ''.v'' @ Itoa version) ''.v'' = Some (length name)"
proof (rule LastIndex_unique)
  fix u v
  assume eq: "''.v'' @ Itoa version = u @ v" and "u \<noteq> []"
  then have "set v \<subseteq> set (CHR ''v'' # Itoa version)" by (cases u) (auto dest: arg_cong [of _ _ set])
  then show "\<not> prefix ''.v'' v" using version_no_dot [OF assms] by (auto simp: prefix_def)
qed simp_all

lemma source_match_Topic:
  assumes "Topic ns d = Inr t" and "fits_int64 (di_SchemaVersion d)"
  shows "source_match (di_Kind d) t (length ns)"
proof -
  note F = Topic_facts [OF assms(1)]
  let ?k = "di_Kind d" and ?n = "di_Name d" and ?v = "di_SchemaVersion d"
  have t: "t = ns @ kind_marker ?k @ ?n @ ''.v'' @ Itoa ?v" using F(1) by (simp add: topic_text_def kind_marker_def)
  have "Topic ns (bare_info ?k ?n ?v) = Inr t"
    using assms(1) by (simp only: Topic_bare)
  moreover have "Atoi (Itoa ?v) = Some ?v"
    using ParseInt_Itoa [of 64 ?v] assms(2) by (simp add: Atoi_def fits_int64_def max_int64_def)
  ultimately show ?thesis
    using version_index [OF F(3), of ?n] F(3,4) by (simp add: source_match_def t)
qed

lemma source_search_Topic:
  assumes "Topic ns d = Inr t" and "fits_int64 (di_SchemaVersion d)"
  shows "source_search (di_Kind d) t 0"
proof -
  note F = Topic_facts [OF assms(1)]
  have "t = ns @ kind_marker (di_Kind d) @ di_Name d @ ''.v'' @ Itoa (di_SchemaVersion d)"
    using F(1) by (simp add: topic_text_def kind_marker_def)
  then have "Index t (kind_marker (di_Kind d)) = Some (length ns)" "0 < length t"
    using kind_index [OF F(2)] F(5) by (simp_all add: kind_marker_def)
  then show ?thesis
    using source_match_Topic [OF assms] by (subst source_search.simps) simp
qed

lemma source_search_sound:
  assumes "source_search k value offset"
  shows "\<exists>ns name v. fits_int64 v \<and> Topic ns (bare_info k name v) = Inr value"
  using assms
proof (induction k "value" offset rule: source_search.induct)
  case (1 k v offset)
  then obtain rel where i: "offset < length v" "Index (drop offset v) (kind_marker k) = Some rel"
    and d: "source_match k v (offset + rel) \<or> source_search k v (offset + rel + length (kind_marker k))"
    by (auto simp: source_search.simps [of k v offset] split: if_splits option.splits)
  show ?case
  proof (cases "source_match k v (offset + rel)")
    case True
    moreover have "Atoi s = Some n \<Longrightarrow> fits_int64 n" for s n
      by (auto simp: Atoi_def ParseInt_def Let_def fits_int64_def max_int64_def split: option.splits if_splits)
    ultimately show ?thesis by (fastforce simp: source_match_def Let_def split: option.splits)
  next
    case False
    with "1.IH" [OF i] d show ?thesis by blast
  qed
qed

lemma validateSourceTopicName_iff:
  "validateSourceTopicName value = None \<longleftrightarrow>
    (\<exists>ns d. fits_int64 (di_SchemaVersion d) \<and> Topic ns d = Inr value)"
proof
  assume "validateSourceTopicName value = None"
  then obtain k where "source_search k value 0" by (auto simp: validateSourceTopicName_def split: if_splits)
  from source_search_sound [OF this] show "\<exists>ns d. fits_int64 (di_SchemaVersion d) \<and> Topic ns d = Inr value"
    by (metis bare_info_def descriptorInfo.select_convs(3))
next
  assume "\<exists>ns d. fits_int64 (di_SchemaVersion d) \<and> Topic ns d = Inr value"
  then obtain ns d where T: "Topic ns d = Inr value" and f: "fits_int64 (di_SchemaVersion d)" by blast
  from source_search_Topic [OF T f] Topic_facts(2) [OF T] show "validateSourceTopicName value = None"
    by (auto simp: validateSourceTopicName_def kind_like_def)
qed

section \<open>Consumer names are unambiguous\<close>

datatype consumer_role = RetryRole int | ReplayRole | DLQRole

fun role_topic :: "consumer_role \<Rightarrow> string \<Rightarrow> string \<Rightarrow> err + string" where
  "role_topic (RetryRole tier) source consumer = retryTopic source consumer tier"
| "role_topic ReplayRole source consumer = replayTopic source consumer"
| "role_topic DLQRole source consumer = dlqTopic source consumer"

fun role_segments :: "consumer_role \<Rightarrow> string list" where
  "role_segments (RetryRole tier) = [''retry'', CHR ''t'' # Itoa tier]"
| "role_segments ReplayRole = [''replay'']"
| "role_segments DLQRole = [''dlq'']"

definition source_topic :: "string \<Rightarrow> bool" where
  "source_topic t \<longleftrightarrow> validateSourceTopicName t = None"

lemma source_topic_segments:
  assumes "source_topic t"
  shows "serviceSegment \<notin> set (Split dot t)"
proof -
  obtain ns d where T: "Topic ns d = Inr t"
    using assms by (auto simp: source_topic_def validateSourceTopicName_iff)
  note F = Topic_facts [OF T]
  have "Split dot t = source_segments ns (di_Kind d) (di_Name d) (di_SchemaVersion d)"
    using Split_topic_text [OF F(2,3)] F(1) by simp
  moreover have "serviceSegment \<notin> set (Split dot ns)" using F(5) by blast
  moreover have "di_Kind d \<noteq> serviceSegment"
    using F(2) by (auto simp: kind_like_def KindCommand_def KindEvent_def serviceSegment_def)
  moreover have "CHR ''v'' # Itoa (di_SchemaVersion d) \<noteq> serviceSegment" by (simp add: serviceSegment_def)
  ultimately show ?thesis using F(6) by (simp only: source_segments_def set_append list.set Un_iff insert_iff empty_iff) simp
qed

lemma Itoa_nonneg: "0 \<le> i \<Longrightarrow> Itoa i = decimal (nat i)"
  by (simp add: Itoa_def)

lemma consumerTopic_facts:
  assumes "consumerTopic source consumer role = Inr t"
  shows "source_topic source" and "t = source @ serviceMarker @ consumer @ ''.'' @ role"
  using assms by (auto simp: consumerTopic_def source_topic_def Let_def split: option.splits)

lemma role_topic_facts:
  assumes "role_topic r source consumer = Inr t"
  shows "source_topic source"
    and "Split dot t = Split dot source @ serviceSegment # (Split dot consumer @ role_segments r)"
proof -
  obtain role where c: "consumerTopic source consumer role = Inr t" and role: "Split dot role = role_segments r"
  proof (cases r)
    case (RetryRole tier)
    with assms have t: "0 \<le> tier" "consumerTopic source consumer (''retry.t'' @ Itoa tier) = Inr t"
      by (simp_all add: retryTopic_def split: if_splits)
    have "dot \<notin> set (CHR ''t'' # Itoa tier)" using decimal_no_dot [of "nat tier"] t(1) by (simp add: Itoa_nonneg)
    then have "Split dot (''retry'' @ dot # (CHR ''t'' # Itoa tier)) = role_segments r"
      unfolding Split_append using RetryRole by (simp add: Split_single [of dot "CHR ''t'' # Itoa tier"] del: Split.simps(2)) simp
    with t that show thesis by simp
  next
    case ReplayRole
    with assms that show thesis by (simp add: replayTopic_def)
  next
    case DLQRole
    with assms that show thesis by (simp add: dlqTopic_def)
  qed
  note F = consumerTopic_facts [OF c]
  show "source_topic source" by (rule F(1))
  have "t = source @ dot # (serviceSegment @ dot # (consumer @ dot # role))"
    using F(2) by (simp add: serviceMarker_def)
  moreover have "Split dot serviceSegment = [serviceSegment]" by (simp add: serviceSegment_def)
  ultimately show "Split dot t = Split dot source @ serviceSegment # (Split dot consumer @ role_segments r)"
    by (simp add: Split_append role del: Split.simps)
qed

lemma role_topic_tier: "role_topic (RetryRole tier) source consumer = Inr t \<Longrightarrow> 0 \<le> tier"
  by (simp add: retryTopic_def split: if_splits)

lemma role_segments_inject:
  assumes "xs @ role_segments r = ys @ role_segments r'"
    and "\<And>tier. r = RetryRole tier \<Longrightarrow> 0 \<le> tier" and "\<And>tier. r' = RetryRole tier \<Longrightarrow> 0 \<le> tier"
  shows "xs = ys \<and> r = r'"
  using assms by (cases r; cases r') (auto simp: Itoa_nonneg)

lemma role_topic_inject:
  assumes t: "role_topic r source consumer = Inr t" and t': "role_topic r' source' consumer' = Inr t"
  shows "r = r' \<and> source = source' \<and> consumer = consumer'"
proof -
  note F = role_topic_facts [OF t] and F' = role_topic_facts [OF t']
  have "Split dot source = Split dot source' \<and> serviceSegment = serviceSegment \<and>
      Split dot consumer @ role_segments r = Split dot consumer' @ role_segments r'"
    by (rule first_cut_unique [where P = "\<lambda>s. s = serviceSegment"])
      (use F F' source_topic_segments [OF F(1)] source_topic_segments [OF F'(1)] in auto)
  moreover from this have "Split dot consumer = Split dot consumer' \<and> r = r'"
    by (intro role_segments_inject) (use t t' role_topic_tier in auto)
  ultimately show ?thesis using Split_inject by blast
qed

lemma role_topic_not_source: "role_topic r source consumer = Inr t \<Longrightarrow> \<not> source_topic t"
  using role_topic_facts(2) [of r source consumer t] source_topic_segments [of t] by auto

section \<open>Properties\<close>

lemma identifier_trimmed: "list_all kafkaIdentifierByte s \<Longrightarrow> TrimSpace s = s"
  by (cases s) (auto intro!: TrimSpace_graphic simp: list_all_iff kafkaIdentifierByte_def inR_def
      dest: bspec [OF _ last_in_set])

lemma sample_topic: "Topic ''shop'' (bare_info KindCommand ''pay'' 1) = Inr ''shop.command.pay.v1''"
proof -
  have "Itoa 1 = ''1''" by code_simp
  then show ?thesis
    by (simp add: Topic_def validateNamespace_def validateKafkaToken_def validateDescriptorName_def validateTopicName_def
        validateKafkaIdentifier_def identifier_trimmed kafkaIdentifierByte_def inR_def maxKafkaNameBytes_def bare_info_def
        topic_text_def KindCommand_def KindEvent_def serviceSegment_def Split_no_sep)
qed

lemma sample_role_topic: "role_topic DLQRole ''shop.command.pay.v1'' ''billing'' = Inr ''shop.command.pay.v1.gm.billing.dlq''"
proof -
  have "validateSourceTopicName ''shop.command.pay.v1'' = None"
    unfolding validateSourceTopicName_iff using sample_topic
    by (intro exI conjI) (auto simp: bare_info_def fits_int64_def max_int64_def)
  moreover have "validateConsumerID ''billing'' = None"
    by (simp add: validateConsumerID_def validateKafkaToken_def identifier_trimmed kafkaIdentifierByte_def inR_def)
  moreover have "validateTopicName (''shop.command.pay.v1'' @ serviceMarker @ ''billing'' @ ''.'' @ ''dlq'') = None"
    by (simp add: validateTopicName_def validateKafkaIdentifier_def identifier_trimmed kafkaIdentifierByte_def inR_def
        maxKafkaNameBytes_def serviceMarker_def serviceSegment_def)
  ultimately show ?thesis
    by (simp add: dlqTopic_def consumerTopic_def serviceMarker_def serviceSegment_def)
qed

text \<open>C18. Topic names are unambiguous. A source topic determines its namespace and descriptor, a consumer topic
  determines its source topic, consumer and role, and no consumer topic passes for a source topic: no two
  of them share a Kafka topic.\<close>

theorem topic_names_unambiguous:
  assumes "Topic ns d = Inr t" and "Topic ns' d' = Inr t'"
    and "role_topic r source consumer = Inr q" and "role_topic r' source' consumer' = Inr q'"
  shows "(t = t' \<longrightarrow> ns = ns' \<and> di_Kind d = di_Kind d' \<and> di_Name d = di_Name d' \<and>
      di_SchemaVersion d = di_SchemaVersion d') \<and>
    (q = q' \<longrightarrow> r = r' \<and> source = source' \<and> consumer = consumer') \<and>
    validateSourceTopicName q \<noteq> None"
  using assms Topic_inject [of ns d t ns' d'] role_topic_inject [of r source consumer q r' source' consumer']
    role_topic_not_source [of r source consumer q] by (auto simp: source_topic_def keyFor_def)

theorem topic_names_unambiguous_witness:
  "validateSourceTopicName ''shop.command.pay.v1.gm.billing.dlq'' \<noteq> None"
  using topic_names_unambiguous [OF sample_topic sample_topic sample_role_topic sample_role_topic] by blast

text \<open>C19. Source topic validation is exact: the search over the dots of a name accepts it exactly when it is
  the topic of some valid namespace and descriptor.\<close>

theorem source_topic_validation_exact:
  "validateSourceTopicName name = None \<longleftrightarrow>
    (\<exists>ns d. fits_int64 (di_SchemaVersion d) \<and> Topic ns d = Inr name)"
  by (rule validateSourceTopicName_iff)

end
