(* ===== verification/KafkaRetry.thy ===== *)
theory KafkaRetry
  imports KafkaTopics
begin

text \<open>
  Control metadata, retry delays and timeouts of the Kafka adapter: \<open>adapters/kafka/control.go\<close> and
  the pure decisions of \<open>adapters/kafka/consumer.go\<close>. A record of the Kafka client is the record
  \<open>krecord\<close>. The text form of an instant (\<open>time.RFC3339Nano\<close>) is a pair of parameters, the formatter
  and the parser of the \<open>time\<close> package; \<open>rfc3339\<close> says what is used of them. Random numbers come from a
  parameter that returns a number below its argument, or fails.
\<close>

section \<open>Records and control metadata\<close>

type_synonym header = "string \<times> string"

record krecord =
  kr_Topic :: string
  kr_Partition :: int
  kr_Offset :: int
  kr_LeaderEpoch :: int
  kr_Key :: string
  kr_Value :: string
  kr_Headers :: "header list"
  kr_Timestamp :: instant

record sourcePosition =
  sp_topic :: string
  sp_partition :: int
  sp_offset :: int

record controlMetadata =
  cm_source :: sourcePosition
  cm_attempt :: nat
  cm_notBefore :: instant
  cm_attemptGeneration :: string

definition headerSourceTopic :: string where "headerSourceTopic = ''gomessenger-source-topic''"
definition headerSourcePartition :: string where "headerSourcePartition = ''gomessenger-source-partition''"
definition headerSourceOffset :: string where "headerSourceOffset = ''gomessenger-source-offset''"
definition headerAttempt :: string where "headerAttempt = ''gomessenger-attempt''"
definition headerNotBefore :: string where "headerNotBefore = ''gomessenger-not-before''"
definition headerAttemptGeneration :: string where "headerAttemptGeneration = ''gomessenger-attempt-generation''"
definition replayIDPrefix :: string where "replayIDPrefix = ''gm-replay-''"

definition reservedHeaders :: "string list" where
  "reservedHeaders = [headerSourceTopic, headerSourcePartition, headerSourceOffset, headerAttempt, headerNotBefore,
     headerAttemptGeneration]"

lemmas header_defs = headerSourceTopic_def headerSourcePartition_def headerSourceOffset_def headerAttempt_def
  headerNotBefore_def headerAttemptGeneration_def

definition kafka_invalid :: "string \<Rightarrow> err" where
  "kafka_invalid t = Wrap t [Sentinel ErrInvalidMessage]"

definition sourceControl :: "krecord \<Rightarrow> controlMetadata" where
  "sourceControl r =
    \<lparr>cm_source = \<lparr>sp_topic = kr_Topic r, sp_partition = kr_Partition r, sp_offset = kr_Offset r\<rparr>, cm_attempt = 0,
     cm_notBefore = 0, cm_attemptGeneration = []\<rparr>"

text \<open>The header loop: the collected values, or the error of the first offending header.\<close>

fun collect_headers :: "header list \<Rightarrow> (string, string) table \<Rightarrow> err + (string, string) table" where
  "collect_headers [] values = Inr values"
| "collect_headers ((name, content) # headers) values =
    (let key = ToLower name in
     if key \<notin> set reservedHeaders then Inl (kafka_invalid ''unexpected Kafka record header'')
     else if tb_has values key then Inl (kafka_invalid ''duplicate Kafka record header'')
     else if length content > 512 then Inl (kafka_invalid ''Kafka control header is too large'')
     else collect_headers headers (tb_add key content values))"

definition header_value :: "(string, string) table \<Rightarrow> string \<Rightarrow> string" where
  "header_value values key = (case map_of values key of None \<Rightarrow> [] | Some v \<Rightarrow> v)"

definition decode_position :: "(string, string) table \<Rightarrow> err + sourcePosition" where
  "decode_position values =
    (case validateTopicName (header_value values headerSourceTopic) of
       Some e \<Rightarrow> Inl e
     | None \<Rightarrow>
        (case ParseInt 32 (header_value values headerSourcePartition) of
           None \<Rightarrow> Inl (kafka_invalid ''invalid source partition'')
         | Some prt \<Rightarrow>
            if prt < 0 then Inl (kafka_invalid ''invalid source partition'')
            else (case ParseInt 64 (header_value values headerSourceOffset) of
                    None \<Rightarrow> Inl (kafka_invalid ''invalid source offset'')
                  | Some off \<Rightarrow>
                     if off < 0 then Inl (kafka_invalid ''invalid source offset'')
                     else Inr \<lparr>sp_topic = header_value values headerSourceTopic, sp_partition = prt, sp_offset = off\<rparr>)))"

definition decode_not_before :: "(string \<Rightarrow> instant option) \<Rightarrow> (string, string) table \<Rightarrow> err + instant" where
  "decode_not_before parse values =
    (let v = header_value values headerNotBefore in
     if v = [] then Inr 0
     else (case parse v of None \<Rightarrow> Inl (kafka_invalid ''invalid retry not-before'') | Some t \<Rightarrow> Inr t))"

definition decodeControlHeaders :: "(string \<Rightarrow> instant option) \<Rightarrow> header list \<Rightarrow> err + controlMetadata" where
  "decodeControlHeaders parse headers =
    (case collect_headers headers [] of
       Inl e \<Rightarrow> Inl e
     | Inr values \<Rightarrow>
        if list_ex (\<lambda>required. header_value values required = [])
            [headerSourceTopic, headerSourcePartition, headerSourceOffset, headerAttempt]
        then Inl (kafka_invalid ''missing Kafka control header'')
        else (case decode_position values of
          Inl e \<Rightarrow> Inl e
        | Inr source \<Rightarrow>
           (case ParseUint 64 (header_value values headerAttempt) of
              None \<Rightarrow> Inl (kafka_invalid ''invalid handler attempt'')
            | Some attempt \<Rightarrow>
               (case decode_not_before parse values of
                  Inl e \<Rightarrow> Inl e
                | Inr notBefore \<Rightarrow>
                   (let generation = header_value values headerAttemptGeneration in
                    if TrimSpace generation \<noteq> generation \<or> length generation > 128
                    then Inl (kafka_invalid ''invalid attempt generation'')
                    else Inr \<lparr>cm_source = source, cm_attempt = attempt, cm_notBefore = notBefore,
                              cm_attemptGeneration = generation\<rparr>)))))"

definition controlHeaders :: "(instant \<Rightarrow> string) \<Rightarrow> controlMetadata \<Rightarrow> header list" where
  "controlHeaders format m =
    [(headerSourceTopic, sp_topic (cm_source m)),
     (headerSourcePartition, Itoa (sp_partition (cm_source m))),
     (headerSourceOffset, Itoa (sp_offset (cm_source m))),
     (headerAttempt, decimal (cm_attempt m))] @
    (if cm_notBefore m \<noteq> 0 then [(headerNotBefore, format (cm_notBefore m))] else []) @
    (if cm_attemptGeneration m \<noteq> [] then [(headerAttemptGeneration, cm_attemptGeneration m)] else [])"

definition parseControl ::
  "(string \<Rightarrow> instant option) \<Rightarrow> krecord \<Rightarrow> string \<Rightarrow> string \<Rightarrow> string list \<Rightarrow> err + controlMetadata" where
  "parseControl parse r source replay retries =
    (if kr_Topic r = source then
       (if list_ex (\<lambda>(name, _). ToLower name \<in> set reservedHeaders) (kr_Headers r)
        then Inl (kafka_invalid ''reserved control header on source topic'')
        else Inr (sourceControl r))
     else if kr_Topic r = replay then
       (case decodeControlHeaders parse (kr_Headers r) of
          Inl e \<Rightarrow> Inl e
        | Inr m \<Rightarrow>
           if \<not> HasPrefix (cm_attemptGeneration m) replayIDPrefix
           then Inl (kafka_invalid ''replay has no valid attempt generation'') else Inr m)
     else if kr_Topic r \<notin> set retries then Inl (kafka_invalid ''unexpected consumer topic'')
     else decodeControlHeaders parse (kr_Headers r))"

section \<open>Retry delays\<close>

text \<open>The doubling loop; its first argument is the number of iterations left.\<close>

fun backoff :: "nat \<Rightarrow> duration \<Rightarrow> duration \<Rightarrow> duration" where
  "backoff 0 delay maximum = delay"
| "backoff (Suc n) delay maximum =
    (if delay < maximum then
       (if delay > go_div maximum 2 then maximum else backoff n (int64 (delay * 2)) maximum)
     else delay)"

definition retryDelay :: "(int \<Rightarrow> int option) \<Rightarrow> duration \<Rightarrow> duration \<Rightarrow> nat \<Rightarrow> duration" where
  "retryDelay random base maximum attempt =
    (let doubled = backoff (attempt - 1) base maximum;
         delay = (if doubled > maximum then maximum else doubled)
     in if delay \<le> 1 then delay
        else (case random delay of None \<Rightarrow> delay | Some n \<Rightarrow> int64 (n + 1)))"

fun retry_tier_from :: "nat \<Rightarrow> duration list \<Rightarrow> duration \<Rightarrow> nat option" where
  "retry_tier_from i [] delay = None"
| "retry_tier_from i (tier # tiers) delay = (if delay \<le> tier then Some i else retry_tier_from (Suc i) tiers delay)"

definition retryTier :: "duration list \<Rightarrow> duration \<Rightarrow> int" where
  "retryTier tiers delay =
    (case retry_tier_from 0 tiers delay of Some i \<Rightarrow> int i | None \<Rightarrow> int (length tiers) - 1)"

definition validateRetryTiers :: "duration list \<Rightarrow> err option" where
  "validateRetryTiers tiers =
    (if list_ex (\<lambda>i. tiers ! i \<le> 0 \<or> i > 0 \<and> tiers ! i \<le> tiers ! (i - 1)) [0..<length tiers]
     then Some (kafka_config_err ''retry tiers must be positive and strictly increasing'') else None)"

definition retryDue :: "instant \<Rightarrow> instant \<Rightarrow> instant \<Rightarrow> err + instant" where
  "retryDue notBefore expiresAt now =
    (if expiresAt \<noteq> 0 \<and> \<not> expiresAt > now then Inl (Sentinel KafkaErrMessageExpired)
     else if notBefore = 0 \<or> \<not> notBefore > now then Inr 0
     else if expiresAt \<noteq> 0 \<and> \<not> expiresAt > notBefore then Inl (Sentinel KafkaErrMessageExpired)
     else Inr notBefore)"

section \<open>Timeouts\<close>

definition defaultConsumerRebalanceTimeout :: duration where
  "defaultConsumerRebalanceTimeout = 60 * 1000000000"

definition defaultBatchRebalanceSafetyMargin :: duration where
  "defaultBatchRebalanceSafetyMargin = 5 * 1000000000"

definition maxKafkaRebalanceTimeout :: duration where
  "maxKafkaRebalanceTimeout = 2147483647 * 1000000"

definition handlerTransactionTimeout :: "duration \<Rightarrow> duration \<Rightarrow> duration" where
  "handlerTransactionTimeout handlerTimeout finalizationTimeout =
    (if handlerTimeout > int64 (max_int64 - finalizationTimeout) then max_int64
     else int64 (handlerTimeout + finalizationTimeout))"

definition consumerRebalanceTimeout :: "duration \<Rightarrow> duration" where
  "consumerRebalanceTimeout operationTimeout = max defaultConsumerRebalanceTimeout operationTimeout"

definition batchConsumerRebalanceTimeout :: "duration \<Rightarrow> duration \<Rightarrow> duration \<Rightarrow> duration \<Rightarrow> err + duration" where
  "batchConsumerRebalanceTimeout batchMaxWait handlerTimeout finalizationTimeout operationTimeout =
    (if batchMaxWait < 0 \<or> handlerTimeout < 0 \<or> finalizationTimeout < 0 \<or> operationTimeout < 0
     then Inl (kafka_config_err ''negative timeout in batch rebalance calculation'')
     else
       let handlerTx = handlerTransactionTimeout handlerTimeout finalizationTimeout in
       if batchMaxWait > maxKafkaRebalanceTimeout then Inl (kafka_config_err ''batch MaxWait'')
       else
         let remaining = int64 (maxKafkaRebalanceTimeout - batchMaxWait) in
         if handlerTx > remaining then Inl (kafka_config_err ''batch handler transaction timeout'')
         else
           let remaining = int64 (remaining - handlerTx); totalBrokerTimeout = int64 (2 * operationTimeout) in
           if totalBrokerTimeout > remaining then Inl (kafka_config_err ''batch broker operation timeout'')
           else
             let remaining = int64 (remaining - totalBrokerTimeout) in
             if defaultBatchRebalanceSafetyMargin > remaining then Inl (kafka_config_err ''batch rebalance budget'')
             else
               let budget = int64 (int64 (int64 (batchMaxWait + handlerTx) + totalBrokerTimeout) + defaultBatchRebalanceSafetyMargin)
               in Inr (max defaultConsumerRebalanceTimeout budget))"

section \<open>Control metadata round trips\<close>

text \<open>
  What is used of the \<open>time\<close> package: an instant of the years 1 to 9999 is formatted as a short text that is not
  empty and parses back to it.
\<close>

definition rfc3339_range :: "instant \<Rightarrow> bool" where
  "rfc3339_range t \<longleftrightarrow> 0 \<le> t \<and> t < 3652059 * 86400 * 1000000000"

definition rfc3339 :: "(instant \<Rightarrow> string) \<Rightarrow> (string \<Rightarrow> instant option) \<Rightarrow> bool" where
  "rfc3339 format parse \<longleftrightarrow>
    (\<forall>t. rfc3339_range t \<longrightarrow> format t \<noteq> [] \<and> length (format t) \<le> 512 \<and> parse (format t) = Some t)"

definition valid_control :: "controlMetadata \<Rightarrow> bool" where
  "valid_control m \<longleftrightarrow>
    validateTopicName (sp_topic (cm_source m)) = None \<and>
    0 \<le> sp_partition (cm_source m) \<and> sp_partition (cm_source m) < 2 ^ 31 \<and>
    0 \<le> sp_offset (cm_source m) \<and> sp_offset (cm_source m) < 2 ^ 63 \<and> cm_attempt m < 2 ^ 64 \<and>
    TrimSpace (cm_attemptGeneration m) = cm_attemptGeneration m \<and> length (cm_attemptGeneration m) \<le> 128"

lemma ToLower_lower: "list_all (\<lambda>c. of_char c < (128 :: nat) \<and> \<not> inR 65 90 c) s \<Longrightarrow> ToLower s = s"
proof (induction s)
  case (Cons c s)
  then have "c \<noteq> byte 196" "c \<noteq> byte 226" by (auto simp: byte_def)
  with Cons show ?case by (simp add: lower_char_def)
qed simp

lemma ToLower_reserved: "k \<in> set reservedHeaders \<Longrightarrow> ToLower k = k"
  by (rule ToLower_lower) (auto simp: reservedHeaders_def header_defs inR_def)

lemma distinct_reserved: "distinct reservedHeaders"
  by (simp add: reservedHeaders_def header_defs)

lemma collect_headers_ok:
  assumes "\<forall>(k, v)\<in>set hs. k \<in> set reservedHeaders \<and> length v \<le> 512"
    and "distinct (map fst (values @ hs))"
  shows "collect_headers hs values = Inr (values @ hs)"
  using assms
proof (induction hs arbitrary: "values")
  case (Cons kv hs)
  obtain k v where kv: "kv = (k, v)" by force
  have "\<not> tb_has values k" using Cons.prems(2) by (auto simp: kv tb_has_def map_of_eq_None_iff)
  moreover have "collect_headers hs (values @ [kv]) = Inr ((values @ [kv]) @ hs)"
    using Cons.prems by (intro Cons.IH) auto
  ultimately show ?case
    using Cons.prems(1) by (simp add: kv Let_def ToLower_reserved tb_add_def)
qed simp

lemma decimal_length: "0 < k \<Longrightarrow> n < 10 ^ k \<Longrightarrow> length (decimal n) \<le> k"
proof (induction k arbitrary: n)
  case (Suc k)
  show ?case
  proof (cases "n < 10")
    case False
    with Suc.prems have "0 < k" by (cases k) auto
    moreover have "n div 10 < 10 ^ k" using Suc.prems by (simp add: less_mult_imp_div_less)
    ultimately show ?thesis using Suc.IH [of "n div 10"] False by (subst decimal.simps) simp
  qed (simp add: decimal.simps)
qed simp

lemma length_decimal_64: "n < 2 ^ 64 \<Longrightarrow> length (decimal n) \<le> 512"
  using decimal_length [of 20 n] by simp

lemma length_Itoa_64: "0 \<le> i \<Longrightarrow> i < 2 ^ 63 \<Longrightarrow> length (Itoa i) \<le> 512"
  using length_decimal_64 [of "nat i"] by (simp add: Itoa_def nat_less_iff)

lemma length_topic: "validateTopicName t = None \<Longrightarrow> length t \<le> 512"
  by (auto simp: validateTopicName_def validateKafkaIdentifier_def maxKafkaNameBytes_def split: if_splits)

lemma topic_nonempty: "validateTopicName t = None \<Longrightarrow> t \<noteq> []"
  by (auto simp: validateTopicName_def validateKafkaIdentifier_def split: if_splits)

lemma Itoa_nonempty [simp]: "Itoa i \<noteq> []"
  by (simp add: Itoa_def)

lemma collect_controlHeaders:
  assumes "valid_control m" and "rfc3339 format parse" and "rfc3339_range (cm_notBefore m)"
  shows "collect_headers (controlHeaders format m) [] = Inr (controlHeaders format m)"
proof -
  have "\<forall>(k, v)\<in>set (controlHeaders format m). k \<in> set reservedHeaders \<and> length v \<le> 512"
    using assms by (auto simp: controlHeaders_def valid_control_def reservedHeaders_def rfc3339_def
        length_decimal_64 length_topic intro!: length_Itoa_64 intro: order_trans)
  moreover have "distinct (map fst (controlHeaders format m))"
    using distinct_reserved by (auto simp: controlHeaders_def reservedHeaders_def)
  ultimately show ?thesis using collect_headers_ok [of "controlHeaders format m" "[]"] by simp
qed

lemma control_values:
  "header_value (controlHeaders format m) headerSourceTopic = sp_topic (cm_source m)"
  "header_value (controlHeaders format m) headerSourcePartition = Itoa (sp_partition (cm_source m))"
  "header_value (controlHeaders format m) headerSourceOffset = Itoa (sp_offset (cm_source m))"
  "header_value (controlHeaders format m) headerAttempt = decimal (cm_attempt m)"
  "header_value (controlHeaders format m) headerNotBefore =
    (if cm_notBefore m = 0 then [] else format (cm_notBefore m))"
  "header_value (controlHeaders format m) headerAttemptGeneration = cm_attemptGeneration m"
  by (simp_all add: header_value_def controlHeaders_def header_defs)

lemma decode_position_control:
  assumes "valid_control m"
  shows "decode_position (controlHeaders format m) = Inr (cm_source m)"
  using assms ParseInt_Itoa [of 32 "sp_partition (cm_source m)"] ParseInt_Itoa [of 64 "sp_offset (cm_source m)"]
  by (simp add: decode_position_def control_values valid_control_def)

lemma decode_not_before_control:
  assumes "rfc3339 format parse" and "rfc3339_range (cm_notBefore m)"
  shows "decode_not_before parse (controlHeaders format m) = Inr (cm_notBefore m)"
  using assms by (auto simp: decode_not_before_def control_values rfc3339_def)

lemma decode_controlHeaders:
  assumes valid: "valid_control m" and time: "rfc3339 format parse" "rfc3339_range (cm_notBefore m)"
  shows "decodeControlHeaders parse (controlHeaders format m) = Inr m"
  using valid topic_nonempty
  by (simp add: decodeControlHeaders_def collect_controlHeaders [OF assms] decode_position_control [OF valid]
      decode_not_before_control [OF time] control_values valid_control_def)

text \<open>The decoder is also sound: what it accepts is well-formed control metadata.\<close>

lemma ParseInt_bounds: "ParseInt b s = Some i \<Longrightarrow> - (2 ^ (b - 1)) \<le> i \<and> i < 2 ^ (b - 1)"
  by (simp add: ParseInt_def Let_def split: option.splits if_splits)

lemma ParseUint_bounds: "ParseUint b s = Some n \<Longrightarrow> n < 2 ^ b"
  by (simp add: ParseUint_def split: option.splits if_splits)

lemma decode_position_valid:
  "decode_position values = Inr p \<Longrightarrow>
    validateTopicName (sp_topic p) = None \<and> 0 \<le> sp_partition p \<and> sp_partition p < 2 ^ 31 \<and>
    0 \<le> sp_offset p \<and> sp_offset p < 2 ^ 63"
  using ParseInt_bounds [of 32] ParseInt_bounds [of 64]
  by (fastforce simp: decode_position_def split: option.splits if_splits)

lemma decodeControlHeaders_valid: "decodeControlHeaders parse headers = Inr m \<Longrightarrow> valid_control m"
  using ParseUint_bounds [of 64]
  by (auto simp: decodeControlHeaders_def valid_control_def Let_def
      dest: decode_position_valid split: sum.splits option.splits if_splits)

section \<open>Bounds of delays and tiers\<close>

lemma backoff_bounds:
  assumes "0 < delay" and "0 < maximum" and "maximum \<le> max_int64" and "delay \<le> max_int64"
  shows "0 < backoff n delay maximum \<and> backoff n delay maximum \<le> max_int64"
  using assms
proof (induction n arbitrary: delay)
  case (Suc n)
  show ?case
  proof (cases "delay < maximum \<and> \<not> delay > go_div maximum 2")
    case True
    then have "int64 (delay * 2) = delay * 2"
      using Suc.prems by (intro int64_fits fits_int64_nonneg) auto
    with True show ?thesis using Suc.IH [of "delay * 2"] Suc.prems by auto
  qed (use Suc.prems in auto)
qed simp

lemma backoff_exact:
  assumes "0 < base" and "base \<le> maximum" and "maximum \<le> max_int64"
  shows "backoff n base maximum = min maximum (base * 2 ^ n)"
  using assms
proof (induction n arbitrary: base)
  case (Suc n)
  show ?case
  proof (cases "base < maximum \<and> \<not> base > go_div maximum 2")
    case True
    then have *: "base * 2 \<le> maximum" using Suc.prems by auto
    then have "int64 (base * 2) = base * 2"
      using Suc.prems by (intro int64_fits fits_int64_nonneg) auto
    with True show ?thesis using Suc.IH [of "base * 2"] Suc.prems * by (simp add: ac_simps)
  next
    case False
    then have "maximum \<le> base * 2" using Suc.prems by auto
    also have "base * 2 * 1 \<le> base * 2 * 2 ^ n" using Suc.prems(1) by (intro mult_left_mono) auto
    finally have "maximum \<le> base * 2 ^ Suc n" by (simp add: ac_simps)
    then show ?thesis using False Suc.prems by (auto simp: min_def)
  qed
qed (simp add: min_def)

lemma retryDelay_range:
  assumes "0 < base" and "base \<le> maximum" and "maximum \<le> max_int64"
    and random: "\<And>n v. random n = Some v \<Longrightarrow> 0 \<le> v \<and> v < n"
  shows "0 < retryDelay random base maximum attempt \<and>
    retryDelay random base maximum attempt \<le> min maximum (base * 2 ^ (attempt - 1))"
proof -
  define d where "d = min maximum (base * 2 ^ (attempt - 1))"
  have pos: "0 < d" "d \<le> maximum" using assms(1,2) by (auto simp: d_def)
  have eq: "retryDelay random base maximum attempt =
      (if d \<le> 1 then d else (case random d of None \<Rightarrow> d | Some n \<Rightarrow> int64 (n + 1)))"
    using pos(2) by (simp only: retryDelay_def backoff_exact [OF assms(1-3)] d_def [symmetric] Let_def not_less if_not_P)
  have "int64 (v + 1) = v + 1 \<and> 0 < v + 1 \<and> v + 1 \<le> d" if "random d = Some v" for v
    using random [OF that] pos assms(3) by (auto intro!: int64_fits fits_int64_nonneg)
  then show ?thesis using pos(1) unfolding d_def [symmetric] eq by (auto split: option.split)
qed

lemma retry_tier_from_Some:
  "retry_tier_from i tiers delay = Some k \<longleftrightarrow>
    (\<exists>j < length tiers. k = i + j \<and> delay \<le> tiers ! j \<and> (\<forall>l < j. tiers ! l < delay))"
proof (induction tiers arbitrary: i)
  case (Cons t tiers)
  show ?case
  proof (cases "delay \<le> t")
    case True
    then show ?thesis by (auto simp: nth_Cons split: nat.splits) (metis not_less not_less_zero neq0_conv nth_Cons_0 old.nat.exhaust)+
  next
    case False
    then show ?thesis by (auto simp: Cons.IH Ex_less_Suc2 All_less_Suc2)
  qed
qed simp

lemma retry_tier_from_None: "retry_tier_from i tiers delay = None \<longleftrightarrow> (\<forall>t\<in>set tiers. t < delay)"
  by (induction tiers arbitrary: i) auto

lemma validateRetryTiers_iff:
  "validateRetryTiers tiers = None \<longleftrightarrow> sorted_wrt (<) tiers \<and> (\<forall>t\<in>set tiers. 0 < t)"
proof
  assume "validateRetryTiers tiers = None"
  then have step: "0 < tiers ! i" "0 < i \<Longrightarrow> tiers ! (i - 1) < tiers ! i" if "i < length tiers" for i
    using that by (auto simp: validateRetryTiers_def list_ex_iff not_le split: if_splits dest!: bspec [where x = i])
  have "sorted_wrt (<) tiers"
    using step(2) [of "Suc _"] by (auto simp: sorted_wrt_iff_nth_Suc_transp)
  with step(1) show "sorted_wrt (<) tiers \<and> (\<forall>t\<in>set tiers. 0 < t)" by (auto simp: in_set_conv_nth)
next
  assume "sorted_wrt (<) tiers \<and> (\<forall>t\<in>set tiers. 0 < t)"
  then have "i = 0 \<or> tiers ! (i - 1) < tiers ! i" if "i < length tiers" for i
    using that sorted_wrt_nth_less [of "(<)" tiers "i - 1" i] by (cases i) auto
  with \<open>_ \<and> _\<close> show "validateRetryTiers tiers = None"
    by (auto simp: validateRetryTiers_def list_ex_iff not_le)
qed

section \<open>Timeout arithmetic\<close>

lemma handlerTransactionTimeout_saturates:
  assumes "0 \<le> h" and "0 \<le> f" and "h \<le> max_int64" and "f \<le> max_int64"
  shows "handlerTransactionTimeout h f = min max_int64 (h + f)"
proof -
  have "int64 (max_int64 - f) = max_int64 - f" using assms by (intro int64_fits fits_int64_nonneg) auto
  moreover have "int64 (h + f) = h + f" if "h + f \<le> max_int64"
    using assms that by (intro int64_fits fits_int64_nonneg) auto
  ultimately show ?thesis by (auto simp: handlerTransactionTimeout_def min_def)
qed

lemma batchConsumerRebalanceTimeout_covers:
  assumes ok: "batchConsumerRebalanceTimeout w h f p = Inr budget"
    and range: "w \<le> max_int64" "h \<le> max_int64" "f \<le> max_int64" "2 * p \<le> max_int64"
  shows "w + (h + f) + 2 * p + defaultBatchRebalanceSafetyMargin \<le> budget \<and> budget \<le> maxKafkaRebalanceTimeout"
proof -
  define tx where "tx = min max_int64 (h + f)"
  have nonneg: "0 \<le> w" "0 \<le> h" "0 \<le> f" "0 \<le> p"
    using ok by (auto simp: batchConsumerRebalanceTimeout_def split: if_splits)
  have tx: "handlerTransactionTimeout h f = tx"
    using nonneg range by (simp add: handlerTransactionTimeout_saturates tx_def)
  have "0 \<le> tx" using nonneg by (simp add: tx_def max_int64_def)
  have w: "w \<le> maxKafkaRebalanceTimeout" and r1: "tx \<le> int64 (maxKafkaRebalanceTimeout - w)"
    and r2: "int64 (2 * p) \<le> int64 (int64 (maxKafkaRebalanceTimeout - w) - tx)"
    and r3: "defaultBatchRebalanceSafetyMargin \<le>
      int64 (int64 (int64 (maxKafkaRebalanceTimeout - w) - tx) - int64 (2 * p))"
    and budget: "budget = max defaultConsumerRebalanceTimeout
      (int64 (int64 (int64 (w + tx) + int64 (2 * p)) + defaultBatchRebalanceSafetyMargin))"
    using ok nonneg by (auto simp: batchConsumerRebalanceTimeout_def tx Let_def split: if_splits)
  have p: "int64 (2 * p) = 2 * p" using nonneg range by (intro int64_fits fits_int64_nonneg) auto
  have 1: "int64 (maxKafkaRebalanceTimeout - w) = maxKafkaRebalanceTimeout - w"
    using nonneg w by (intro int64_fits) (simp add: fits_int64_def max_int64_def maxKafkaRebalanceTimeout_def)
  have 2: "int64 (maxKafkaRebalanceTimeout - w - tx) = maxKafkaRebalanceTimeout - w - tx"
    using nonneg w r1 \<open>0 \<le> tx\<close> unfolding 1
    by (intro int64_fits) (simp add: fits_int64_def max_int64_def maxKafkaRebalanceTimeout_def)
  have 3: "int64 (maxKafkaRebalanceTimeout - w - tx - 2 * p) = maxKafkaRebalanceTimeout - w - tx - 2 * p"
    using nonneg w r1 r2 \<open>0 \<le> tx\<close> unfolding 1 2 p
    by (intro int64_fits) (simp add: fits_int64_def max_int64_def maxKafkaRebalanceTimeout_def)
  have fits: "w + tx + 2 * p + defaultBatchRebalanceSafetyMargin \<le> maxKafkaRebalanceTimeout"
    using r3 unfolding 1 2 3 p by simp
  have "int64 x = x" if "0 \<le> x" "x \<le> maxKafkaRebalanceTimeout" for x
    using that by (intro int64_fits) (simp add: fits_int64_def max_int64_def maxKafkaRebalanceTimeout_def)
  then have "budget = max defaultConsumerRebalanceTimeout (w + tx + 2 * p + defaultBatchRebalanceSafetyMargin)"
    using fits nonneg \<open>0 \<le> tx\<close> by (simp add: budget p defaultBatchRebalanceSafetyMargin_def)
  moreover have "tx = h + f"
    using fits nonneg by (auto simp: tx_def min_def max_int64_def maxKafkaRebalanceTimeout_def
        defaultBatchRebalanceSafetyMargin_def split: if_splits)
  ultimately show ?thesis using fits
    by (simp add: maxKafkaRebalanceTimeout_def defaultConsumerRebalanceTimeout_def)
qed

section \<open>Properties\<close>

text \<open>C20. Control metadata survives the broker. The headers written for a hand-off decode to the same metadata,
  and whatever the decoder accepts is well formed: a valid source topic, a position and an attempt number
  within their integer types, and a bounded trimmed generation.\<close>

theorem control_roundtrip:
  assumes "valid_control m" and "rfc3339 format parse" and "rfc3339_range (cm_notBefore m)"
  shows "decodeControlHeaders parse (controlHeaders format m) = Inr m \<and>
    (\<forall>headers m'. decodeControlHeaders parse headers = Inr m' \<longrightarrow> valid_control m')"
  using decode_controlHeaders [OF assms] decodeControlHeaders_valid by blast

definition sample_control :: controlMetadata where
  "sample_control = \<lparr>cm_source = \<lparr>sp_topic = ''shop.command.pay.v1'', sp_partition = 3, sp_offset = 41\<rparr>, cm_attempt = 2,
     cm_notBefore = 1000, cm_attemptGeneration = ''gm-replay-1''\<rparr>"

lemma sample_control_valid: "valid_control sample_control" "rfc3339_range (cm_notBefore sample_control)"
proof -
  have "TrimSpace ''gm-replay-1'' = ''gm-replay-1''" by (simp add: TrimSpace_graphic inR_def)
  then show "valid_control sample_control"
    by (simp add: valid_control_def sample_control_def validateTopicName_def validateKafkaIdentifier_def
        identifier_trimmed kafkaIdentifierByte_def inR_def maxKafkaNameBytes_def)
qed (simp add: sample_control_def rfc3339_range_def)

text \<open>Decimal numbers of nanoseconds are one representation of instants with the assumed round trip.\<close>

lemma sample_rfc3339: "rfc3339 Itoa (ParseInt 128)"
  unfolding rfc3339_def
proof (intro allI impI conjI)
  fix t
  assume r: "rfc3339_range t"
  then show "ParseInt 128 (Itoa t) = Some t" by (intro ParseInt_Itoa) (auto simp: rfc3339_range_def)
  have "length (decimal (nat t)) \<le> 21" using r by (intro decimal_length) (auto simp: rfc3339_range_def nat_less_iff)
  then show "length (Itoa t) \<le> 512" using r by (simp add: Itoa_nonneg rfc3339_range_def)
qed simp

theorem control_roundtrip_witness:
  "decodeControlHeaders (ParseInt 128) (controlHeaders Itoa sample_control) = Inr sample_control"
  using control_roundtrip [OF sample_control_valid(1) sample_rfc3339 sample_control_valid(2)] by blast

text \<open>C21. Retry delays are positive and bounded. Whatever the random source answers, the delay before the
  next attempt is positive and at most the exponential bound \<open>base * 2 ^ (attempt - 1)\<close> capped by the
  maximum; the doubling never leaves the 64-bit range.\<close>

theorem retry_delay_bounds:
  assumes "0 < base" and "base \<le> maximum" and "maximum \<le> max_int64"
    and "\<And>n v. random n = Some v \<Longrightarrow> 0 \<le> v \<and> v < n"
  shows "0 < retryDelay random base maximum attempt \<and>
    retryDelay random base maximum attempt \<le> min maximum (base * 2 ^ (attempt - 1))"
  using assms by (rule retryDelay_range)

definition largest_draw :: "int \<Rightarrow> int option" where
  "largest_draw n = (if 0 < n then Some (n - 1) else None)"

theorem retry_delay_bounds_witness:
  "0 < retryDelay largest_draw 1000 max_int64 60 \<and> retryDelay largest_draw 1000 max_int64 60 \<le> max_int64"
proof -
  have "0 < retryDelay largest_draw 1000 max_int64 60 \<and>
      retryDelay largest_draw 1000 max_int64 60 \<le> min max_int64 (1000 * 2 ^ (60 - 1))"
    by (rule retry_delay_bounds) (auto simp: max_int64_def largest_draw_def split: if_splits)
  then show ?thesis by linarith
qed

lemma rebalance_budget_overflow:
  "batchConsumerRebalanceTimeout 1000000000 30000000000 5000000000 max_int64 = Inr 60000000000"
  by code_simp

text \<open>C22. The rebalance budget of a batch worker covers its work, up to an overflow. Unless doubling the operation
  timeout leaves the 64-bit range, a computed budget is at least the wait, the handler transaction, two
  broker operations and the safety margin together, and within what Kafka accepts. Without that proviso the
  doubling wraps around: the largest operation timeout passes the check against the maximum, and the
  budget returned is one minute.\<close>

theorem rebalance_budget_covers:
  assumes "batchConsumerRebalanceTimeout w h f p = Inr budget"
    and "w \<le> max_int64" and "h \<le> max_int64" and "f \<le> max_int64" and "2 * p \<le> max_int64"
  shows "w + (h + f) + 2 * p + defaultBatchRebalanceSafetyMargin \<le> budget \<and> budget \<le> maxKafkaRebalanceTimeout \<and>
    batchConsumerRebalanceTimeout 1000000000 30000000000 5000000000 max_int64 = Inr 60000000000"
  using batchConsumerRebalanceTimeout_covers [OF assms] rebalance_budget_overflow by blast

theorem rebalance_budget_covers_witness:
  "batchConsumerRebalanceTimeout 1000000000 30000000000 5000000000 15000000000 = Inr 71000000000 \<and>
    1000000000 + (30000000000 + 5000000000) + 2 * 15000000000 + defaultBatchRebalanceSafetyMargin \<le> 71000000000"
proof -
  have run: "batchConsumerRebalanceTimeout 1000000000 30000000000 5000000000 15000000000 = Inr 71000000000"
    by code_simp
  with rebalance_budget_covers [OF run] show ?thesis by (simp add: max_int64_def)
qed

end
