(* ===== verification/AdapterFailure.thy ===== *)
theory AdapterFailure
  imports Failure
begin

text \<open>
  Safe failure texts of the broker adapters, \<open>adapters/kafka/failure.go\<close> and \<open>adapters/nats/failure.go\<close>. The two
  files are the same code with the adapter's own prefix and its own expiry and readiness errors, which are the
  parameters here.
\<close>

record adapter =
  ad_prefix :: string
  ad_expired :: sentinel
  ad_notReady :: sentinel

definition kafka_adapter :: adapter where
  "kafka_adapter = \<lparr>ad_prefix = ''messenger/kafka'', ad_expired = KafkaErrMessageExpired, ad_notReady = KafkaErrMessageNotReady\<rparr>"

definition nats_adapter :: adapter where
  "nats_adapter = \<lparr>ad_prefix = ''messenger/nats'', ad_expired = NatsErrMessageExpired, ad_notReady = NatsErrMessageNotReady\<rparr>"

definition operationFailureText :: "adapter \<Rightarrow> string" where
  "operationFailureText a = ad_prefix a @ '': operation failed''"

definition adapter_panicText :: "adapter \<Rightarrow> string \<Rightarrow> string" where
  "adapter_panicText a handlerID =
    (if handlerID = [] then ad_prefix a @ '': handler panicked''
     else ad_prefix a @ '': handler '' @ handlerID @ '' panicked'')"

definition adapter_defaultSanitizer :: "adapter \<Rightarrow> err \<Rightarrow> string" where
  "adapter_defaultSanitizer a e =
    (case errors_As as_panic e of
       Some h \<Rightarrow> adapter_panicText a h
     | None \<Rightarrow>
        if errors_Is e ContextCanceled then ''context canceled''
        else if errors_Is e ContextDeadlineExceeded then ''context deadline exceeded''
        else if errors_Is e ErrEnvelopeTooLarge then ''messenger: envelope too large''
        else if errors_Is e ErrDescriptorConflict then ''messenger: descriptor conflict''
        else if errors_Is e (ad_expired a) then ad_prefix a @ '': message expired''
        else if errors_Is e (ad_notReady a) then ad_prefix a @ '': message is not ready''
        else if errors_Is e ErrInvalidMessage then ''messenger: invalid message''
        else operationFailureText a)"

definition adapter_sanitizeFailure :: "adapter \<Rightarrow> sanitizer \<Rightarrow> err option \<Rightarrow> string" where
  "adapter_sanitizeFailure a sanitizer e =
    (case e of
       None \<Rightarrow> []
     | Some x \<Rightarrow>
        let chosen = (case sanitizer of None \<Rightarrow> (\<lambda>y. Some (adapter_defaultSanitizer a y)) | Some f \<Rightarrow> f);
            safe = TrimSpace (callFailureSanitizer chosen x)
        in if safe = [] then operationFailureText a else ToValidUTF8 safe replacement_rune)"

definition adapter_sanitizeError :: "adapter \<Rightarrow> sanitizer \<Rightarrow> err option \<Rightarrow> err option" where
  "adapter_sanitizeError a sanitizer e =
    (case e of None \<Rightarrow> None | Some x \<Rightarrow> Some (SanitizedError x (adapter_sanitizeFailure a sanitizer e)))"

definition boundedFailureText :: "adapter \<Rightarrow> sanitizer \<Rightarrow> err option \<Rightarrow> int \<Rightarrow> string" where
  "boundedFailureText a sanitizer e limit =
    (if limit \<le> 0 then []
     else let safe = adapter_sanitizeFailure a sanitizer e in
       if int (length safe) \<le> limit then safe else take (rune_boundary safe (nat limit)) safe)"

definition handlerCompletionError :: "ctx \<Rightarrow> err option \<Rightarrow> err option" where
  "handlerCompletionError c handlerErr = HandlerCompletionError c handlerErr"

text \<open>The functions of the NATS package.\<close>

definition nats_handlerPanicText :: "string \<Rightarrow> string" where
  "nats_handlerPanicText = adapter_panicText nats_adapter"

definition nats_defaultSanitizer :: "err \<Rightarrow> string" where
  "nats_defaultSanitizer = adapter_defaultSanitizer nats_adapter"

definition nats_handlerCompletionError :: "ctx \<Rightarrow> err option \<Rightarrow> err option" where
  "nats_handlerCompletionError c handlerErr = HandlerCompletionError c handlerErr"

definition nats_sanitizeFailure :: "sanitizer \<Rightarrow> err option \<Rightarrow> string" where
  "nats_sanitizeFailure = adapter_sanitizeFailure nats_adapter"

definition nats_sanitizeError :: "sanitizer \<Rightarrow> err option \<Rightarrow> err option" where
  "nats_sanitizeError = adapter_sanitizeError nats_adapter"

lemma ToValidUTF8_nonempty: "s \<noteq> [] \<Longrightarrow> rep \<noteq> [] \<Longrightarrow> ToValidUTF8 s rep \<noteq> []"
  unfolding ToValidUTF8_def by (subst to_valid_utf8.simps) simp

lemma sanitizeFailure_nonempty: "adapter_sanitizeFailure a sanitizer (Some e) \<noteq> []"
  using ToValidUTF8_nonempty
  by (simp add: adapter_sanitizeFailure_def Let_def operationFailureText_def replacement_rune_def)

end
