(* ===== verification/KafkaDlq.thy ===== *)
theory KafkaDlq
  imports KafkaRetry Envelope AdapterFailure
begin

text \<open>
  Dead letters of the Kafka adapter, \<open>adapters/kafka/dlq.go\<close>. Records are written as JSON by the model itself; the
  JSON text of a time and the JSON reader are parameters. SHA-256 is the parameter \<open>H\<close>.
\<close>

section \<open>Dead-letter records\<close>

definition DLQSpecVersion :: string where "DLQSpecVersion = ''1.0''"
definition DefaultMaxDLQRecordBytes :: nat where "DefaultMaxDLQRecordBytes = 3 * 1048576"
definition DefaultMaxSourceMessageBytes :: nat where "DefaultMaxSourceMessageBytes = 2 * 1048576 + 16384"

record dlqRecord =
  dl_SpecVersion :: string
  dl_ConsumerID :: string
  dl_SourceTopic :: string
  dl_SourcePartition :: int
  dl_SourceOffset :: int
  dl_RecordKeyBase64 :: string
  dl_OriginalBase64 :: string
  dl_MessageID :: string
  dl_Attempt :: nat
  dl_AttemptGeneration :: string
  dl_FailureKind :: string
  dl_Error :: string
  dl_FailedAt :: instant

definition cut_runes :: "string \<Rightarrow> nat \<Rightarrow> string" where
  "cut_runes s limit = (if length s > limit then take (rune_boundary s limit) s else s)"

definition truncate_text :: "string \<Rightarrow> int \<Rightarrow> string" where
  "truncate_text s limit =
    (let trimmed = TrimSpace s in
     if limit \<le> 0 then []
     else cut_runes (ToValidUTF8 (cut_runes trimmed (nat limit)) replacement_rune) (nat limit))"

text \<open>The failure is nil or has a text.\<close>

definition makeDLQRecord ::
  "string \<Rightarrow> krecord \<Rightarrow> controlMetadata \<Rightarrow> string \<Rightarrow> nat \<Rightarrow> string \<Rightarrow> string option \<Rightarrow> instant \<Rightarrow> dlqRecord" where
  "makeDLQRecord consumerID r control messageID attempt failureKind failure failedAt =
    (let failureText =
       (case failure of
          None \<Rightarrow> ''unspecified failure''
        | Some t \<Rightarrow> let cut = truncate_text t 1024 in if cut = [] then ''unspecified failure'' else cut)
     in \<lparr>dl_SpecVersion = DLQSpecVersion, dl_ConsumerID = consumerID, dl_SourceTopic = sp_topic (cm_source control),
         dl_SourcePartition = sp_partition (cm_source control), dl_SourceOffset = sp_offset (cm_source control),
         dl_RecordKeyBase64 = base64_encode (kr_Key r), dl_OriginalBase64 = base64_encode (kr_Value r),
         dl_MessageID = messageID, dl_Attempt = attempt, dl_AttemptGeneration = cm_attemptGeneration control,
         dl_FailureKind = failureKind, dl_Error = failureText, dl_FailedAt = failedAt\<rparr>)"

definition validateDLQRecord :: "dlqRecord \<Rightarrow> err option" where
  "validateDLQRecord d =
    (if dl_SpecVersion d \<noteq> DLQSpecVersion \<or> dl_ConsumerID d = [] \<or> dl_SourceTopic d = [] \<or> dl_SourcePartition d < 0 \<or>
        dl_SourceOffset d < 0 \<or> dl_Attempt d = 0 \<or> dl_FailureKind d = [] \<or> dl_Error d = [] \<or>
        IsZeroTime (dl_FailedAt d) \<or> length (dl_Error d) > 1024 \<or>
        TrimSpace (dl_AttemptGeneration d) \<noteq> dl_AttemptGeneration d \<or> length (dl_AttemptGeneration d) > 128
     then Some (kafka_invalid ''incomplete Kafka DLQ record'')
     else case validateConsumerID (dl_ConsumerID d) of
       Some e \<Rightarrow> Some e
     | None \<Rightarrow>
        (case validateTopicName (dl_SourceTopic d) of
           Some e \<Rightarrow> Some e
         | None \<Rightarrow>
            if base64_decode (dl_RecordKeyBase64 d) = None then Some (kafka_invalid ''invalid recordKeyBase64'')
            else if base64_decode (dl_OriginalBase64 d) = None then Some (kafka_invalid ''invalid originalBase64'')
            else None))"

section \<open>Encoding\<close>

definition dlq_fields :: "string \<Rightarrow> dlqRecord \<Rightarrow> (string \<times> string) list" where
  "dlq_fields failedAt d =
    [(''specVersion'', json_string (dl_SpecVersion d)), (''consumerId'', json_string (dl_ConsumerID d)),
     (''sourceTopic'', json_string (dl_SourceTopic d)), (''sourcePartition'', Itoa (dl_SourcePartition d)),
     (''sourceOffset'', Itoa (dl_SourceOffset d)), (''recordKeyBase64'', json_string (dl_RecordKeyBase64 d)),
     (''originalBase64'', json_string (dl_OriginalBase64 d))] @
    (if dl_MessageID d = [] then [] else [(''messageId'', json_string (dl_MessageID d))]) @
    [(''attempt'', decimal (dl_Attempt d))] @
    (if dl_AttemptGeneration d = [] then [] else [(''attemptGeneration'', json_string (dl_AttemptGeneration d))]) @
    [(''failureKind'', json_string (dl_FailureKind d)), (''error'', json_string (dl_Error d)), (''failedAt'', failedAt)]"

definition marshalDLQ :: "(instant \<Rightarrow> err + string) \<Rightarrow> dlqRecord \<Rightarrow> err + string" where
  "marshalDLQ time_json d =
    (case time_json (dl_FailedAt d) of Inl e \<Rightarrow> Inl e | Inr failedAt \<Rightarrow> Inr (json_object (dlq_fields failedAt d)))"

definition encodeDLQRecord :: "(instant \<Rightarrow> err + string) \<Rightarrow> dlqRecord \<Rightarrow> err + string" where
  "encodeDLQRecord time_json d =
    (case validateDLQRecord d of
       Some e \<Rightarrow> Inl e
     | None \<Rightarrow>
        (case marshalDLQ time_json d of
           Inl e \<Rightarrow> Inl (Wrap ''messenger/kafka: encode DLQ record'' [e])
         | Inr data \<Rightarrow>
            if length data > DefaultMaxDLQRecordBytes then Inl (kafka_invalid ''Kafka DLQ record exceeds bytes'')
            else Inr data))"

definition recordDigest :: "(string \<Rightarrow> string) \<Rightarrow> (instant \<Rightarrow> err + string) \<Rightarrow> dlqRecord \<Rightarrow> err + string" where
  "recordDigest H time_json d =
    (case validateDLQRecord d of
       Some e \<Rightarrow> Inl e
     | None \<Rightarrow> (case marshalDLQ time_json d of Inl e \<Rightarrow> Inl e | Inr data \<Rightarrow> Inr (H data)))"

definition newReplayID :: "(string \<Rightarrow> string) \<Rightarrow> (instant \<Rightarrow> err + string) \<Rightarrow> dlqRecord \<Rightarrow> err + string" where
  "newReplayID H time_json d =
    (case recordDigest H time_json d of Inl e \<Rightarrow> Inl e | Inr digest \<Rightarrow> Inr (replayIDPrefix @ hex_encode digest))"

text \<open>
  The reader: the strict decoder, whether anything follows the value, and which of the four required members
  are present.
\<close>

record dlq_reader =
  dr_decode :: "string \<Rightarrow> err + dlqRecord"
  dr_trailing :: "string \<Rightarrow> bool"
  dr_required :: "string \<Rightarrow> err + bool \<times> bool \<times> bool \<times> bool"

definition DecodeDLQRecord :: "dlq_reader \<Rightarrow> string \<Rightarrow> err + dlqRecord" where
  "DecodeDLQRecord R data =
    (if length data = 0 \<or> length data > DefaultMaxDLQRecordBytes then Inl (kafka_invalid ''invalid Kafka DLQ record size'')
     else case dr_decode R data of
       Inl e \<Rightarrow> Inl (Wrap ''decode Kafka DLQ record'' [Sentinel ErrInvalidMessage, e])
     | Inr d \<Rightarrow>
        if dr_trailing R data then Inl (kafka_invalid ''trailing Kafka DLQ JSON'')
        else (case dr_required R data of
           Inl e \<Rightarrow> Inl (Wrap ''decode Kafka DLQ required fields'' [Sentinel ErrInvalidMessage, e])
         | Inr (prt, off, key, original) \<Rightarrow>
            if \<not> prt \<or> \<not> off then Inl (kafka_invalid ''missing Kafka DLQ source position'')
            else if \<not> key \<or> \<not> original then Inl (kafka_invalid ''missing Kafka DLQ original data'')
            else (case validateDLQRecord d of Some e \<Rightarrow> Inl e | None \<Rightarrow> Inr d)))"

section \<open>Replay\<close>

record replayPlan =
  rp_Topic :: string
  rp_MessageID :: string
  rp_InputSHA256 :: string
  rp_ReplayID :: string

definition PlanDLQReplay ::
  "wire_lib \<Rightarrow> (string \<Rightarrow> string) \<Rightarrow> (instant \<Rightarrow> err + string) \<Rightarrow> dlqRecord \<Rightarrow> err + replayPlan" where
  "PlanDLQReplay L H time_json d =
    (case validateDLQRecord d of
       Some e \<Rightarrow> Inl e
     | None \<Rightarrow>
        (case base64_decode (dl_OriginalBase64 d) of
           None \<Rightarrow> Inl (kafka_invalid ''invalid originalBase64'')
         | Some original \<Rightarrow>
            (case CanonicalizeEnvelope L original of
               Inl e \<Rightarrow> Inl e
             | Inr canonical \<Rightarrow>
                (case UnmarshalEnvelope L canonical of
                   Inl e \<Rightarrow> Inl e
                 | Inr env \<Rightarrow>
                    if dl_MessageID d \<noteq> [] \<and> dl_MessageID d \<noteq> mid_String (ev_ID env)
                    then Inl (kafka_invalid ''Kafka DLQ message identity conflict'')
                    else (case base64_decode (dl_RecordKeyBase64 d) of
                       None \<Rightarrow> Inl (kafka_invalid ''invalid recordKeyBase64'')
                     | Some key \<Rightarrow>
                        (case validateRecordKey key (Metadata env) of
                           Some e \<Rightarrow> Inl e
                         | None \<Rightarrow>
                            (case sourceTopicMatchesMetadata (dl_SourceTopic d) (Metadata env) of
                               Some e \<Rightarrow> Inl e
                             | None \<Rightarrow>
                                (case replayTopic (dl_SourceTopic d) (dl_ConsumerID d) of
                                   Inl e \<Rightarrow> Inl e
                                 | Inr topic \<Rightarrow>
                                    (case newReplayID H time_json d of
                                       Inl e \<Rightarrow> Inl e
                                     | Inr replayID \<Rightarrow>
                                        Inr \<lparr>rp_Topic = topic, rp_MessageID = mid_String (ev_ID env),
                                             rp_InputSHA256 = hex_encode (H original), rp_ReplayID = replayID\<rparr>)))))))))"

definition replay_record :: "(instant \<Rightarrow> string) \<Rightarrow> replayPlan \<Rightarrow> dlqRecord \<Rightarrow> krecord" where
  "replay_record format plan d =
    \<lparr>kr_Topic = rp_Topic plan, kr_Partition = 0, kr_Offset = 0, kr_LeaderEpoch = 0,
     kr_Key = (case base64_decode (dl_RecordKeyBase64 d) of Some k \<Rightarrow> k | None \<Rightarrow> []),
     kr_Value = (case base64_decode (dl_OriginalBase64 d) of Some v \<Rightarrow> v | None \<Rightarrow> []),
     kr_Headers = controlHeaders format
       \<lparr>cm_source = \<lparr>sp_topic = dl_SourceTopic d, sp_partition = dl_SourcePartition d, sp_offset = dl_SourceOffset d\<rparr>,
        cm_attempt = 0, cm_notBefore = 0, cm_attemptGeneration = rp_ReplayID plan\<rparr>,
     kr_Timestamp = 0\<rparr>"

text \<open>The publisher returns the committed record or an error; both are part of its answer.\<close>

definition ReplayDLQ ::
  "wire_lib \<Rightarrow> (string \<Rightarrow> string) \<Rightarrow> (instant \<Rightarrow> err + string) \<Rightarrow> (instant \<Rightarrow> string) \<Rightarrow>
    ctx \<Rightarrow> (krecord \<Rightarrow> krecord option \<times> err option) option \<Rightarrow> dlqRecord \<Rightarrow> err + replayPlan \<times> int \<times> int" where
  "ReplayDLQ L H time_json format c publisher d =
    (case (c, publisher) of
       (NilCtx, _) \<Rightarrow> Inl (kafka_config_err ''replay publisher'')
     | (Ctx _, None) \<Rightarrow> Inl (kafka_config_err ''replay publisher'')
     | (Ctx _, Some publish) \<Rightarrow>
        (case PlanDLQReplay L H time_json d of
           Inl e \<Rightarrow> Inl e
         | Inr plan \<Rightarrow>
            (case publish (replay_record format plan d) of
               (_, Some e) \<Rightarrow> Inl (Wrap ''messenger/kafka: replay'' [e])
             | (None, None) \<Rightarrow> Inl (Plain ''messenger/kafka: replay returned invalid broker metadata'')
             | (Some published, None) \<Rightarrow>
                if kr_Topic published \<noteq> rp_Topic plan \<or> kr_Partition published < 0 \<or> kr_Offset published < 0
                then Inl (Plain ''messenger/kafka: replay returned invalid broker metadata'')
                else Inr (plan, kr_Partition published, kr_Offset published))))"

section \<open>A dead letter can always be written\<close>

lemma json_chars_plain: "list_all (\<lambda>c. inR 0 127 c \<and> json_escape c = [c]) s \<Longrightarrow> json_chars s = s"
proof (induction s)
  case Nil
  show ?case by (subst json_chars.simps) simp
next
  case (Cons c s)
  then have "rune_len (c # s) = 1" by simp
  with Cons show ?case by (subst json_chars.simps) simp
qed

lemma json_escape_plain:
  assumes "39 \<le> (of_char c :: nat)" and "(of_char c :: nat) \<notin> {60, 62, 92}"
  shows "json_escape c = [c]"
proof -
  have "c \<noteq> CHR ''\"''" "c \<noteq> byte 92" "c \<noteq> CHR ''<''" "c \<noteq> CHR ''>''" "c \<noteq> CHR ''&''"
    using assms by (auto simp: byte_def)
  with assms show ?thesis by (simp add: json_escape_def)
qed

lemma b64_char_code:
  "(of_char (b64_char n) :: nat) \<in> {43, 47} \<union> {48..57} \<union> {65..90} \<union> {97..122}"
  by (auto simp: b64_char_def)

lemma base64_json: "json_string (base64_encode s) = CHR ''\"'' # base64_encode s @ [CHR ''\"'']"
proof -
  have char: "inR 0 127 (b64_char n) \<and> json_escape (b64_char n) = [b64_char n]" for n
    using b64_char_code [of n] by (intro conjI json_escape_plain) (auto simp: inR_def)
  have pad: "inR 0 127 (CHR ''='') \<and> json_escape (CHR ''='') = ''=''"
    by (intro conjI json_escape_plain) (auto simp: inR_def)
  have "list_all (\<lambda>c. inR 0 127 c \<and> json_escape c = [c]) (b64_encode_bytes bs)" for bs
    by (induction bs rule: b64_encode_bytes.induct) (simp_all add: char pad)
  then show ?thesis by (simp add: json_string_def base64_encode_def json_chars_plain)
qed

lemma length_cut_runes: "length (cut_runes s limit) \<le> limit"
  using rune_boundary_le [of s limit] by (simp add: cut_runes_def)

lemma length_truncate: "length (truncate_text s 1024) \<le> 1024"
  using length_cut_runes [of _ 1024] by (simp add: truncate_text_def Let_def)

lemma ValidString_truncate: "ValidString (truncate_text s limit)"
  by (simp add: truncate_text_def Let_def cut_runes_def ValidString_cut ValidString_ToValidUTF8 ValidString_ascii)

lemma makeDLQRecord_error:
  "dl_Error (makeDLQRecord cid r control mid attempt kind failure at) \<noteq> []"
  "length (dl_Error (makeDLQRecord cid r control mid attempt kind failure at)) \<le> 1024"
  using length_truncate by (simp_all add: makeDLQRecord_def Let_def split: option.split)

lemma makeDLQRecord_fields:
  "dl_SpecVersion (makeDLQRecord cid r control mid attempt kind failure at) = DLQSpecVersion"
  "dl_ConsumerID (makeDLQRecord cid r control mid attempt kind failure at) = cid"
  "dl_SourceTopic (makeDLQRecord cid r control mid attempt kind failure at) = sp_topic (cm_source control)"
  "dl_SourcePartition (makeDLQRecord cid r control mid attempt kind failure at) = sp_partition (cm_source control)"
  "dl_SourceOffset (makeDLQRecord cid r control mid attempt kind failure at) = sp_offset (cm_source control)"
  "dl_RecordKeyBase64 (makeDLQRecord cid r control mid attempt kind failure at) = base64_encode (kr_Key r)"
  "dl_OriginalBase64 (makeDLQRecord cid r control mid attempt kind failure at) = base64_encode (kr_Value r)"
  "dl_MessageID (makeDLQRecord cid r control mid attempt kind failure at) = mid"
  "dl_Attempt (makeDLQRecord cid r control mid attempt kind failure at) = attempt"
  "dl_AttemptGeneration (makeDLQRecord cid r control mid attempt kind failure at) = cm_attemptGeneration control"
  "dl_FailureKind (makeDLQRecord cid r control mid attempt kind failure at) = kind"
  "dl_FailedAt (makeDLQRecord cid r control mid attempt kind failure at) = at"
  by (simp_all add: makeDLQRecord_def Let_def)

lemma consumerTopic_valid:
  assumes "consumerTopic source consumer role = Inr t"
  shows "validateConsumerID consumer = None" and "length source + length consumer \<le> 249"
  using assms
  by (auto simp: consumerTopic_def Let_def validateTopicName_def validateKafkaIdentifier_def maxKafkaNameBytes_def
      serviceMarker_def split: option.splits if_splits)

lemma validate_made:
  assumes "valid_control control" and "dlqTopic source cid = Inr t" and "0 < attempt"
    and "kind \<noteq> []" and "at \<noteq> 0"
  shows "validateDLQRecord (makeDLQRecord cid r control mid attempt kind failure at) = None"
proof -
  have "validateConsumerID cid = None" "cid \<noteq> []"
    using consumerTopic_valid(1) [OF assms(2) [unfolded dlqTopic_def]]
    by (auto simp: validateConsumerID_def validateKafkaToken_def split: if_splits)
  then show ?thesis
    using assms makeDLQRecord_error [of cid r control mid attempt kind failure at] topic_nonempty
    by (auto simp: validateDLQRecord_def makeDLQRecord_fields valid_control_def base64_roundtrip IsZeroTime_def not_less)
qed

lemma length_decimal_20: "n < 2 ^ 64 \<Longrightarrow> length (decimal n) \<le> 20"
  using decimal_length [of 20 n] by simp

lemma length_Itoa_20: "0 \<le> i \<Longrightarrow> i < 2 ^ 63 \<Longrightarrow> length (Itoa i) \<le> 20"
  using length_decimal_20 [of "nat i"] by (simp add: Itoa_def nat_less_iff)

definition dlq_overhead :: nat where "dlq_overhead = 20000"

lemma length_dlq:
  assumes "length (dl_SpecVersion d) \<le> 8" "length (dl_ConsumerID d) \<le> 249" "length (dl_SourceTopic d) \<le> 249"
    "length (Itoa (dl_SourcePartition d)) \<le> 20" "length (Itoa (dl_SourceOffset d)) \<le> 20"
    "length (decimal (dl_Attempt d)) \<le> 20" "length (dl_MessageID d) \<le> 64" "length (dl_AttemptGeneration d) \<le> 128"
    "length (dl_FailureKind d) \<le> 64" "length (dl_Error d) \<le> 1024" "length failedAt \<le> 64"
  shows "length (json_object (dlq_fields failedAt d)) \<le>
    length (json_string (dl_RecordKeyBase64 d)) + length (json_string (dl_OriginalBase64 d)) + dlq_overhead"
proof -
  note J = length_json_string
  show ?thesis
    using assms length_json_members [of "dlq_fields failedAt d"]
      J [of "dl_SpecVersion d"] J [of "dl_ConsumerID d"] J [of "dl_SourceTopic d"] J [of "dl_MessageID d"]
      J [of "dl_AttemptGeneration d"] J [of "dl_FailureKind d"] J [of "dl_Error d"]
      J [of "''specVersion''"] J [of "''consumerId''"] J [of "''sourceTopic''"] J [of "''sourcePartition''"]
      J [of "''sourceOffset''"] J [of "''recordKeyBase64''"] J [of "''originalBase64''"] J [of "''messageId''"]
      J [of "''attempt''"] J [of "''attemptGeneration''"] J [of "''failureKind''"] J [of "''error''"] J [of "''failedAt''"]
    by (simp add: json_object_def dlq_overhead_def dlq_fields_def split: if_splits)
qed

lemma dlq_fits:
  assumes "length (kr_Key r) + length (kr_Value r) \<le> DefaultMaxSourceMessageBytes"
    and "valid_control control" and "dlqTopic source cid = Inr t"
    and "0 < attempt" and "attempt < 2 ^ 64" and "length mid \<le> 64"
    and "kind \<noteq> []" and "length kind \<le> 64" and "at \<noteq> 0"
    and "time_json at = Inr failedAt" and "length failedAt \<le> 64"
  shows "\<exists>data. encodeDLQRecord time_json (makeDLQRecord cid r control mid attempt kind failure at) = Inr data \<and>
    data \<noteq> [] \<and> length data \<le> DefaultMaxDLQRecordBytes"
proof -
  let ?d = "makeDLQRecord cid r control mid attempt kind failure at"
  let ?data = "json_object (dlq_fields failedAt ?d)"
  have lens: "length (sp_topic (cm_source control)) \<le> 249" "length cid \<le> 249"
    using consumerTopic_valid(2) [OF assms(3) [unfolded dlqTopic_def]] assms(2)
    by (auto simp: valid_control_def validateTopicName_def validateKafkaIdentifier_def maxKafkaNameBytes_def split: if_splits)
  have "length ?data \<le>
      length (json_string (dl_RecordKeyBase64 ?d)) + length (json_string (dl_OriginalBase64 ?d)) + dlq_overhead"
    using assms lens makeDLQRecord_error(2) [of cid r control mid attempt kind failure at]
    by (intro length_dlq) (simp_all add: makeDLQRecord_fields DLQSpecVersion_def valid_control_def length_Itoa_20 length_decimal_20)
  also have "\<dots> = length (base64_encode (kr_Key r)) + length (base64_encode (kr_Value r)) + 4 + dlq_overhead"
    by (simp add: makeDLQRecord_fields base64_json)
  also have "\<dots> \<le> DefaultMaxDLQRecordBytes"
    using assms(1) length_base64 [of "kr_Key r"] length_base64 [of "kr_Value r"]
    by (simp add: DefaultMaxDLQRecordBytes_def DefaultMaxSourceMessageBytes_def dlq_overhead_def)
  finally have "length ?data \<le> DefaultMaxDLQRecordBytes" .
  then show ?thesis
    using assms by (simp add: encodeDLQRecord_def validate_made marshalDLQ_def makeDLQRecord_fields json_object_def)
qed

text \<open>
  C38. A fetched record is never too large or too odd to dead-letter: for every record whose key and value fit the
  source message limit, under control metadata the adapter accepts or derives from the record, the encoded dead letter is valid and
  within the limit of the dead-letter topic, whatever the text of the failure.
\<close>

theorem dead_letter_fits:
  assumes "length (kr_Key r) + length (kr_Value r) \<le> DefaultMaxSourceMessageBytes"
    and "valid_control control" and "dlqTopic source cid = Inr t"
    and "0 < attempt" and "attempt < 2 ^ 64" and "length mid \<le> 64"
    and "kind \<noteq> []" and "length kind \<le> 64" and "at \<noteq> 0"
    and "time_json at = Inr failedAt" and "length failedAt \<le> 64"
  shows "\<exists>data. encodeDLQRecord time_json (makeDLQRecord cid r control mid attempt kind failure at) = Inr data \<and>
    data \<noteq> [] \<and> length data \<le> DefaultMaxDLQRecordBytes"
  using assms by (rule dlq_fits)

definition sample_krecord :: krecord where
  "sample_krecord =
    \<lparr>kr_Topic = ''shop.command.pay.v1'', kr_Partition = 3, kr_Offset = 41, kr_LeaderEpoch = 0, kr_Key = mid_String 7,
     kr_Value = ''E'', kr_Headers = [], kr_Timestamp = 9\<rparr>"

lemma sample_dlq_topic: "dlqTopic (sp_topic (cm_source sample_control)) ''billing'' = Inr ''shop.command.pay.v1.gm.billing.dlq''"
  using sample_role_topic by (simp add: sample_control_def)

lemma length_mid_String: "length (mid_String i) = 36"
  by (simp add: mid_String_def insert_dashes_def)

theorem dead_letter_fits_witness:
  "\<exists>data. encodeDLQRecord (\<lambda>_. Inr ''0'')
      (makeDLQRecord ''billing'' sample_krecord sample_control (mid_String 7) 3 ''handler'' None 9) = Inr data \<and>
    data \<noteq> [] \<and> length data \<le> DefaultMaxDLQRecordBytes"
  by (rule dead_letter_fits [OF _ sample_control_valid(1) sample_dlq_topic, where failedAt = "''0''"])
    (simp_all add: sample_krecord_def length_mid_String DefaultMaxSourceMessageBytes_def)

section \<open>Replaying a dead letter\<close>

lemma hexs_graphic: "list_all (\<lambda>c. inR 48 57 c \<or> inR 97 102 c) (hexs k n)"
  by (induction k arbitrary: n) (auto simp: hexdigit_def inR_def)

lemma length_hex_encode: "length (hex_encode s) = 2 * length s"
  by (induction s) (simp_all add: hex_encode_def)

lemma hex_encode_graphic: "list_all (\<lambda>c. inR 48 57 c \<or> inR 97 102 c) (hex_encode s)"
  using hexs_graphic by (simp add: hex_encode_def list_all_iff)

lemma replayID_trimmed: "TrimSpace (replayIDPrefix @ hex_encode s) = replayIDPrefix @ hex_encode s"
proof -
  have "graphic (last (replayIDPrefix @ hex_encode s))"
  proof (cases "hex_encode s = []")
    case False
    then have "last (hex_encode s) \<in> set (hex_encode s)" by simp
    with hex_encode_graphic [of s] have "inR 48 57 (last (hex_encode s)) \<or> inR 97 102 (last (hex_encode s))"
      by (simp add: list_all_iff)
    with False show ?thesis by (auto simp: inR_def)
  qed (simp add: replayIDPrefix_def inR_def)
  then show ?thesis by (intro TrimSpace_graphic) (simp_all add: replayIDPrefix_def inR_def)
qed

definition replay_control :: "controlMetadata \<Rightarrow> string \<Rightarrow> controlMetadata" where
  "replay_control m generation =
    \<lparr>cm_source = cm_source m, cm_attempt = 0, cm_notBefore = 0, cm_attemptGeneration = generation\<rparr>"

lemma replay_control_valid:
  assumes "valid_control m" and "length digest = 32"
  shows "valid_control (replay_control m (replayIDPrefix @ hex_encode digest))"
  using assms replayID_trimmed by (simp add: valid_control_def replay_control_def length_hex_encode) (simp add: replayIDPrefix_def)

lemma replay_record_made:
  "kr_Topic (replay_record format plan (makeDLQRecord cid r m mid attempt kind failure at)) = rp_Topic plan"
  "kr_Key (replay_record format plan (makeDLQRecord cid r m mid attempt kind failure at)) = kr_Key r"
  "kr_Value (replay_record format plan (makeDLQRecord cid r m mid attempt kind failure at)) = kr_Value r"
  "kr_Headers (replay_record format plan (makeDLQRecord cid r m mid attempt kind failure at)) =
    controlHeaders format (replay_control m (rp_ReplayID plan))"
  by (simp_all add: replay_record_def makeDLQRecord_fields base64_roundtrip replay_control_def
      controlHeaders_def)

lemma replay_accepted:
  assumes valid: "valid_control m" and digest: "rp_ReplayID plan = replayIDPrefix @ hex_encode digest" "length digest = 32"
    and topic: "replayTopic (sp_topic (cm_source m)) cid = Inr (rp_Topic plan)" and time: "rfc3339 format parse"
  shows "parseControl parse (replay_record format plan (makeDLQRecord cid r m mid attempt kind failure at))
      (sp_topic (cm_source m)) (rp_Topic plan) retries = Inr (replay_control m (rp_ReplayID plan))"
proof -
  have "decodeControlHeaders parse (controlHeaders format (replay_control m (rp_ReplayID plan))) =
      Inr (replay_control m (rp_ReplayID plan))"
    using replay_control_valid [OF valid digest(2)] digest(1)
    by (intro decode_controlHeaders [OF _ time]) (simp_all add: replay_control_def rfc3339_range_def)
  moreover have "rp_Topic plan \<noteq> sp_topic (cm_source m)"
    using role_topic_facts(1) [of ReplayRole] role_topic_not_source [of ReplayRole] topic by fastforce
  moreover have "HasPrefix (cm_attemptGeneration (replay_control m (rp_ReplayID plan))) replayIDPrefix"
    by (simp add: digest replay_control_def HasPrefix_def)
  ultimately show ?thesis by (simp add: parseControl_def replay_record_made)
qed

text \<open>What the consumer knows of a delivery before it dead-letters it: its bytes are an envelope under its key and topic.\<close>

definition deliverable :: "wire_lib \<Rightarrow> krecord \<Rightarrow> controlMetadata \<Rightarrow> string \<Rightarrow> bool" where
  "deliverable L r m mid \<longleftrightarrow>
    (case CanonicalizeEnvelope L (kr_Value r) of
       Inl _ \<Rightarrow> False
     | Inr canonical \<Rightarrow>
        (case UnmarshalEnvelope L canonical of
           Inl _ \<Rightarrow> False
         | Inr env \<Rightarrow> mid \<in> {[], mid_String (ev_ID env)} \<and> validateRecordKey (kr_Key r) (Metadata env) = None \<and>
             sourceTopicMatchesMetadata (sp_topic (cm_source m)) (Metadata env) = None))"

lemma plan_made:
  assumes "valid_control m" and "dlqTopic (sp_topic (cm_source m)) cid = Inr t" and "0 < attempt" and "kind \<noteq> []"
    and "at \<noteq> 0" and "deliverable L r m mid" and "replayTopic (sp_topic (cm_source m)) cid = Inr topic"
    and "time_json at = Inr failedAt"
  shows "\<exists>plan data. PlanDLQReplay L H time_json (makeDLQRecord cid r m mid attempt kind failure at) = Inr plan \<and>
    rp_Topic plan = topic \<and> rp_ReplayID plan = replayIDPrefix @ hex_encode (H data) \<and>
    rp_InputSHA256 plan = hex_encode (H (kr_Value r))"
proof -
  let ?d = "makeDLQRecord cid r m mid attempt kind failure at"
  have v: "validateDLQRecord ?d = None" by (rule validate_made [OF assms(1-5)])
  have "newReplayID H time_json ?d = Inr (replayIDPrefix @ hex_encode (H (json_object (dlq_fields failedAt ?d))))"
    using v assms(8) by (simp add: newReplayID_def recordDigest_def marshalDLQ_def makeDLQRecord_fields)
  moreover obtain canonical env where "CanonicalizeEnvelope L (kr_Value r) = Inr canonical"
      "UnmarshalEnvelope L canonical = Inr env" "mid = [] \<or> mid = mid_String (ev_ID env)"
      "validateRecordKey (kr_Key r) (Metadata env) = None"
      "sourceTopicMatchesMetadata (sp_topic (cm_source m)) (Metadata env) = None"
    using assms(6) by (simp add: deliverable_def split: sum.splits)
  ultimately have "PlanDLQReplay L H time_json ?d = Inr \<lparr>rp_Topic = topic, rp_MessageID = mid_String (ev_ID env),
      rp_InputSHA256 = hex_encode (H (kr_Value r)),
      rp_ReplayID = replayIDPrefix @ hex_encode (H (json_object (dlq_fields failedAt ?d)))\<rparr>"
    using assms(7) by (simp add: PlanDLQReplay_def v makeDLQRecord_fields base64_roundtrip)
  then show ?thesis by (intro exI conjI, assumption) simp_all
qed


lemma sample_replay_topic: "replayTopic (sp_topic (cm_source sample_control)) ''billing'' = Inr ''shop.command.pay.v1.gm.billing.replay''"
proof -
  have "validateSourceTopicName ''shop.command.pay.v1'' = None" "validateConsumerID ''billing'' = None"
    using sample_dlq_topic by (auto simp: dlqTopic_def consumerTopic_def sample_control_def split: option.splits)
  moreover have "validateTopicName (''shop.command.pay.v1'' @ serviceMarker @ ''billing'' @ ''.'' @ ''replay'') = None"
    by (simp add: validateTopicName_def validateKafkaIdentifier_def identifier_trimmed kafkaIdentifierByte_def inR_def
        maxKafkaNameBytes_def serviceMarker_def serviceSegment_def)
  ultimately show ?thesis
    by (simp add: replayTopic_def consumerTopic_def serviceMarker_def serviceSegment_def sample_control_def)
qed

lemma sample_topic_matches: "sourceTopicMatchesMetadata ''shop.command.pay.v1'' sample_metadata = None"
proof -
  have "Itoa 1 = ''1''" by code_simp
  moreover have "HasSuffix ''shop.command.pay.v1'' ''.command.pay.v1''" by code_simp
  moreover have "TrimSuffix ''shop.command.pay.v1'' ''.command.pay.v1'' = ''shop''" by code_simp
  ultimately show ?thesis
    using sample_topic
    by (simp add: sourceTopicMatchesMetadata_def sample_metadata_def KindCommand_def Let_def)
qed

lemma sample_deliverable: "deliverable sample_wire sample_krecord sample_control (mid_String 7)"
proof -
  have "ev_ID sample_envelope = 7" by (simp add: sample_envelope_def bare_envelope_def sample_metadata_def)
  moreover have "validateRecordKey (mid_String 7) sample_metadata = None"
    by (simp add: validateRecordKey_def expectedRecordKey_def sample_metadata_def)
  ultimately show ?thesis
    using sample_canonical sample_unmarshal sample_fields(1) sample_topic_matches
    by (simp add: deliverable_def sample_krecord_def sample_control_def)
qed


end
