(* ===== verification/KafkaScheduler.thy ===== *)
theory KafkaScheduler
  imports KafkaRetry "HOL-Library.Multiset"
begin

text \<open>
  The scheduler of deferred retry partitions, \<open>adapters/kafka/retry_scheduler.go\<close>. Its items are shared between a
  binary heap and a lookup map, so they live in an explicit store: a reference is a number, the heap is a list
  of references, and each item records its own position in the heap. The routines of \<open>container/heap\<close> are
  modelled as the Go library has them. The scheduler implements a map from partitions to deadlines.
\<close>

section \<open>Items and the heap interface\<close>

record topicPartition =
  tp_topic :: string
  tp_partition :: int

record deferredPartition =
  dp_topicPartition :: topicPartition
  dp_deadline :: instant
  dp_index :: int

type_synonym ref = nat
type_synonym store = "ref \<Rightarrow> deferredPartition"
type_synonym dheap = "store \<times> ref list"

definition heap_Less :: "dheap \<Rightarrow> nat \<Rightarrow> nat \<Rightarrow> bool" where
  "heap_Less hp left right = (case hp of (m, h) \<Rightarrow> dp_deadline (m (h ! left)) < dp_deadline (m (h ! right)))"

definition set_index :: "ref \<Rightarrow> int \<Rightarrow> store \<Rightarrow> store" where
  "set_index a i m = m(a := (m a)\<lparr>dp_index := i\<rparr>)"

definition heap_Swap :: "nat \<Rightarrow> nat \<Rightarrow> dheap \<Rightarrow> dheap" where
  "heap_Swap left right hp =
    (case hp of (m, h) \<Rightarrow>
      let h' = h[left := h ! right, right := h ! left] in
      (set_index (h' ! right) (int right) (set_index (h' ! left) (int left) m), h'))"

definition heap_append :: "ref \<Rightarrow> dheap \<Rightarrow> dheap" where
  "heap_append item hp = (case hp of (m, h) \<Rightarrow> (set_index item (int (length h)) m, h @ [item]))"

definition heap_remove_last :: "dheap \<Rightarrow> ref \<times> dheap" where
  "heap_remove_last hp = (case hp of (m, h) \<Rightarrow> (last h, (set_index (last h) (- 1) m, butlast h)))"

section \<open>The routines of container/heap\<close>

fun up :: "nat \<Rightarrow> dheap \<Rightarrow> dheap" where
  "up j hp =
    (let i = (j - 1) div 2 in
     if i = j \<or> \<not> heap_Less hp j i then hp else up i (heap_Swap i j hp))"

declare up.simps [simp del]

function down :: "nat \<Rightarrow> nat \<Rightarrow> dheap \<Rightarrow> nat \<times> dheap" where
  "down i n hp =
    (let j1 = 2 * i + 1 in
     if j1 \<ge> n then (i, hp)
     else
       let j2 = j1 + 1; j = (if j2 < n \<and> heap_Less hp j2 j1 then j2 else j1) in
       if \<not> heap_Less hp j i then (i, hp) else down j n (heap_Swap i j hp))"
  by auto
termination
  by (relation "measure (\<lambda>(i, n, hp). n - i)") (auto split: if_splits)

declare down.simps [simp del]

definition heap_Push :: "ref \<Rightarrow> dheap \<Rightarrow> dheap" where
  "heap_Push item hp = (let hp' = heap_append item hp in up (length (snd hp') - 1) hp')"

definition heap_Pop :: "dheap \<Rightarrow> ref \<times> dheap" where
  "heap_Pop hp =
    (let n = length (snd hp) - 1; hp1 = heap_Swap 0 n hp; hp2 = snd (down 0 n hp1) in heap_remove_last hp2)"

definition heap_Fix :: "nat \<Rightarrow> dheap \<Rightarrow> dheap" where
  "heap_Fix i hp = (case down i (length (snd hp)) hp of (i', hp') \<Rightarrow> if i' > i then hp' else up i hp')"

section \<open>The scheduler\<close>

record retryPartitionScheduler =
  rs_items :: store
  rs_fresh :: ref
  rs_deadlines :: "ref list"
  rs_partitions :: "(topicPartition, ref) table"
  rs_ownedPause :: "topicPartition list"

definition newRetryPartitionScheduler :: "store \<Rightarrow> retryPartitionScheduler" where
  "newRetryPartitionScheduler m =
    \<lparr>rs_items = m, rs_fresh = 0, rs_deadlines = [], rs_partitions = [], rs_ownedPause = []\<rparr>"

abbreviation sched_heap :: "retryPartitionScheduler \<Rightarrow> dheap" where
  "sched_heap s \<equiv> (rs_items s, rs_deadlines s)"

definition with_heap :: "dheap \<Rightarrow> retryPartitionScheduler \<Rightarrow> retryPartitionScheduler" where
  "with_heap hp s = s\<lparr>rs_items := fst hp, rs_deadlines := snd hp\<rparr>"

definition own_pause :: "topicPartition \<Rightarrow> bool \<Rightarrow> retryPartitionScheduler \<Rightarrow> retryPartitionScheduler" where
  "own_pause p owns s = (if owns then s\<lparr>rs_ownedPause := List.insert p (rs_ownedPause s)\<rparr> else s)"

definition schedule :: "topicPartition \<Rightarrow> instant \<Rightarrow> bool \<Rightarrow> retryPartitionScheduler \<Rightarrow> retryPartitionScheduler" where
  "schedule p deadline ownsPause s =
    (case map_of (rs_partitions s) p of
       Some item \<Rightarrow>
        (let m = (rs_items s)(item := (rs_items s item)\<lparr>dp_deadline := deadline\<rparr>) in
         own_pause p ownsPause (with_heap (heap_Fix (nat (dp_index (m item))) (m, rs_deadlines s)) s))
     | None \<Rightarrow>
        (let item = rs_fresh s;
             m = (rs_items s)(item := \<lparr>dp_topicPartition = p, dp_deadline = deadline, dp_index = 0\<rparr>);
             s' = s\<lparr>rs_fresh := item + 1, rs_partitions := tb_add p item (rs_partitions s)\<rparr>
         in own_pause p ownsPause (with_heap (heap_Push item (m, rs_deadlines s)) s')))"

text \<open>\<open>time.Time.Sub\<close> saturates.\<close>

definition time_Sub :: "instant \<Rightarrow> instant \<Rightarrow> duration" where
  "time_Sub t u = max (- max_int64 - 1) (min max_int64 (t - u))"

definition pollTimeout :: "retryPartitionScheduler \<Rightarrow> instant \<Rightarrow> duration \<Rightarrow> duration" where
  "pollTimeout s now maximum =
    (if rs_deadlines s = [] then maximum
     else min maximum (max 0 (time_Sub (dp_deadline (rs_items s (rs_deadlines s ! 0))) now)))"

definition add_resume :: "topicPartition \<Rightarrow> (string, int list) table \<Rightarrow> (string, int list) table" where
  "add_resume p resume =
    (if tb_has resume (tp_topic p) then tb_update (\<lambda>t. t = tp_topic p) (\<lambda>ps. ps @ [tp_partition p]) resume
     else tb_add (tp_topic p) [tp_partition p] resume)"

definition take_due :: "retryPartitionScheduler \<Rightarrow> topicPartition \<times> retryPartitionScheduler" where
  "take_due s =
    (case heap_Pop (sched_heap s) of (item, hp) \<Rightarrow>
      let p = dp_topicPartition (fst hp item) in
      (p, (with_heap hp s)\<lparr>rs_partitions := tb_delete (\<lambda>q _. q = p) (rs_partitions s)\<rparr>))"

lemma length_heap_Swap [simp]: "length (snd (heap_Swap i j hp)) = length (snd hp)"
  by (simp add: heap_Swap_def Let_def split: prod.split)

lemma length_down [simp]: "length (snd (snd (down i n hp))) = length (snd hp)"
proof (induction i n hp rule: down.induct)
  case (1 i n hp)
  then show ?case by (subst down.simps) (auto simp: Let_def)
qed

lemma length_heap_Pop: "length (snd (snd (heap_Pop hp))) = length (snd hp) - 1"
  by (simp add: heap_Pop_def heap_remove_last_def Let_def split: prod.split) (metis length_down length_heap_Swap snd_conv)

lemma length_take_due: "length (rs_deadlines (snd (take_due s))) = length (rs_deadlines s) - 1"
  using length_heap_Pop [of "sched_heap s"]
  by (auto simp: take_due_def with_heap_def Let_def split: prod.split)

lemma take_due_shorter: "(p, s') = take_due s \<Longrightarrow> rs_deadlines s \<noteq> [] \<Longrightarrow> length (rs_deadlines s') < length (rs_deadlines s)"
  using length_take_due [of s] by (metis diff_less length_greater_0_conv snd_conv zero_less_one)

function release_loop ::
  "instant \<Rightarrow> retryPartitionScheduler \<Rightarrow> (string, int list) table \<Rightarrow> (string, int list) table \<times> retryPartitionScheduler" where
  "release_loop now s resume =
    (if rs_deadlines s \<noteq> [] \<and> \<not> dp_deadline (rs_items s (rs_deadlines s ! 0)) > now then
       (case take_due s of (p, s') \<Rightarrow>
         if p \<notin> set (rs_ownedPause s') then release_loop now s' resume
         else release_loop now (s'\<lparr>rs_ownedPause := removeAll p (rs_ownedPause s')\<rparr>) (add_resume p resume))
     else (resume, s))"
  by auto
termination
  by (relation "measure (\<lambda>(now, s, resume). length (rs_deadlines s))")
    (auto dest: take_due_shorter)

declare release_loop.simps [simp del]

definition releaseDue ::
  "instant \<Rightarrow> retryPartitionScheduler \<Rightarrow> (string, int list) table \<times> retryPartitionScheduler" where
  "releaseDue now s =
    (case release_loop now s [] of (resume, s') \<Rightarrow> (map (\<lambda>(t, ps). (t, sort ps)) resume, s'))"

section \<open>What the heap routines keep\<close>

text \<open>The deadline and the partition of every item, and the items of the heap.\<close>

definition same_items :: "dheap \<Rightarrow> dheap \<Rightarrow> bool" where
  "same_items hp hp' \<longleftrightarrow>
    (\<forall>a. dp_deadline (fst hp' a) = dp_deadline (fst hp a) \<and>
      dp_topicPartition (fst hp' a) = dp_topicPartition (fst hp a)) \<and>
    mset (snd hp') = mset (snd hp)"

text \<open>No item occurs twice and every item knows its position.\<close>

definition indexed :: "dheap \<Rightarrow> bool" where
  "indexed hp \<longleftrightarrow> distinct (snd hp) \<and> (\<forall>i<length (snd hp). dp_index (fst hp (snd hp ! i)) = int i)"

lemma same_items_refl [simp]: "same_items hp hp"
  by (simp add: same_items_def)

lemma same_items_trans: "same_items a b \<Longrightarrow> same_items b c \<Longrightarrow> same_items a c"
  by (simp add: same_items_def)

lemma swap_same_items:
  assumes "i < length (snd hp)" and "j < length (snd hp)"
  shows "same_items hp (heap_Swap i j hp)"
  using assms by (cases hp) (auto simp: same_items_def heap_Swap_def Let_def set_index_def mset_swap)

lemma swap_indexed:
  assumes "indexed hp" and "i < length (snd hp)" and "j < length (snd hp)"
  shows "indexed (heap_Swap i j hp)"
proof -
  obtain m h where hp: "hp = (m, h)" by force
  have d: "distinct h" and ix: "\<And>k. k < length h \<Longrightarrow> dp_index (m (h ! k)) = int k"
    using assms(1) by (auto simp: hp indexed_def)
  have l: "i < length h" "j < length h" using assms(2,3) by (auto simp: hp)
  have "distinct (h[i := h ! j, j := h ! i])" using d l by (simp add: distinct_swap)
  moreover have "h ! k = h ! k' \<longleftrightarrow> k = k'" if "k < length h" "k' < length h" for k k'
    using d that by (simp add: nth_eq_iff_index_eq)
  ultimately show ?thesis using l ix
    by (auto simp: hp indexed_def heap_Swap_def Let_def set_index_def nth_list_update)
qed

definition parent :: "nat \<Rightarrow> nat" where
  "parent j = (j - 1) div 2"

lemma parent_less [simp]: "0 < j \<Longrightarrow> parent j < j"
  by (simp add: parent_def)

lemma parent_0 [simp]: "parent 0 = 0"
  by (simp add: parent_def)

lemma parent_le [simp]: "parent j \<le> j"
  by (simp add: parent_def)

lemma up_unfold:
  "up j hp = (if j = 0 \<or> \<not> heap_Less hp j (parent j) then hp else up (parent j) (heap_Swap (parent j) j hp))"
  by (subst up.simps) (auto simp: Let_def parent_def)

lemma up_keeps:
  assumes "j < length (snd hp)"
  shows "same_items hp (up j hp) \<and> (indexed hp \<longrightarrow> indexed (up j hp))"
  using assms
proof (induction j arbitrary: hp rule: less_induct)
  case (less j)
  show ?case
  proof (cases "j = 0 \<or> \<not> heap_Less hp j (parent j)")
    case True
    then show ?thesis by (auto simp: up_unfold [of j hp])
  next
    case False
    then have i: "parent j < j" "parent j < length (snd hp)" using less.prems parent_less [of j] by linarith+
    have eq: "up j hp = up (parent j) (heap_Swap (parent j) j hp)"
      using False by (simp add: up_unfold [of j hp])
    have "same_items (heap_Swap (parent j) j hp) (up j hp) \<and>
        (indexed (heap_Swap (parent j) j hp) \<longrightarrow> indexed (up j hp))"
      unfolding eq using less.IH [OF i(1)] i(2) by simp
    then show ?thesis
      using same_items_trans swap_same_items [OF i(2) less.prems] swap_indexed [OF _ i(2) less.prems] by blast
  qed
qed

text \<open>The child that \<open>down\<close> compares with.\<close>

definition lesser_child :: "nat \<Rightarrow> nat \<Rightarrow> dheap \<Rightarrow> nat" where
  "lesser_child i n hp = (if 2 * i + 2 < n \<and> heap_Less hp (2 * i + 2) (2 * i + 1) then 2 * i + 2 else 2 * i + 1)"

lemma down_unfold:
  "down i n hp =
    (if 2 * i + 1 \<ge> n \<or> \<not> heap_Less hp (lesser_child i n hp) i then (i, hp)
     else down (lesser_child i n hp) n (heap_Swap i (lesser_child i n hp) hp))"
  by (subst down.simps) (simp add: Let_def lesser_child_def)

lemma lesser_child_less: "\<not> 2 * i + 1 \<ge> n \<Longrightarrow> i < lesser_child i n hp \<and> lesser_child i n hp < n"
  by (simp add: lesser_child_def)

lemma down_induct [case_names step]:
  assumes "\<And>i hp. (\<And>j. j = lesser_child i n hp \<Longrightarrow> \<not> 2 * i + 1 \<ge> n \<Longrightarrow> heap_Less hp j i \<Longrightarrow>
      P j (heap_Swap i j hp)) \<Longrightarrow> P i hp"
  shows "P i hp"
proof (induction "n - i" arbitrary: i hp rule: less_induct)
  case (less i hp)
  have "P (lesser_child i n hp) (heap_Swap i (lesser_child i n hp) hp)" if "\<not> 2 * i + 1 \<ge> n"
    using that lesser_child_less [of n i hp] by (intro less) auto
  then have "P j (heap_Swap i j hp)" if "j = lesser_child i n hp" "\<not> 2 * i + 1 \<ge> n" for j using that by simp
  then show ?case by (rule assms)
qed

lemma down_keeps:
  assumes "n \<le> length (snd hp)"
  shows "same_items hp (snd (down i n hp)) \<and> (indexed hp \<longrightarrow> indexed (snd (down i n hp)))"
  using assms
proof (induction i hp rule: down_induct [where n = n])
  case (step i hp)
  define j where "j = lesser_child i n hp"
  show ?case
  proof (cases "2 * i + 1 \<ge> n \<or> \<not> heap_Less hp j i")
    case True
    then show ?thesis by (auto simp: down_unfold [of i n hp] j_def [symmetric])
  next
    case False
    then have l: "i < length (snd hp)" "j < length (snd hp)"
      using lesser_child_less [of n i hp] step(2) by (auto simp: j_def [symmetric])
    have eq: "down i n hp = down j n (heap_Swap i j hp)"
      using False by (subst down_unfold) (simp add: j_def [symmetric])
    have "same_items (heap_Swap i j hp) (snd (down i n hp)) \<and>
        (indexed (heap_Swap i j hp) \<longrightarrow> indexed (snd (down i n hp)))"
      unfolding eq using step(1) [OF j_def] False step(2) by simp
    then show ?thesis
      using same_items_trans swap_same_items [OF l] swap_indexed [OF _ l] by blast
  qed
qed

section \<open>The heap order\<close>

definition deadline_at :: "dheap \<Rightarrow> nat \<Rightarrow> instant" where
  "deadline_at hp k = dp_deadline (fst hp (snd hp ! k))"

definition ordered :: "nat \<Rightarrow> dheap \<Rightarrow> bool" where
  "ordered n hp \<longleftrightarrow> (\<forall>k. 0 < k \<longrightarrow> k < n \<longrightarrow> deadline_at hp (parent k) \<le> deadline_at hp k)"

lemma heap_Less_iff: "heap_Less hp i j \<longleftrightarrow> deadline_at hp i < deadline_at hp j"
  by (simp add: heap_Less_def deadline_at_def split: prod.split)

lemma deadline_at_swap:
  assumes "i < length (snd hp)" and "j < length (snd hp)"
  shows "deadline_at (heap_Swap i j hp) k = deadline_at hp (if k = i then j else if k = j then i else k)"
  using assms by (cases hp) (auto simp: deadline_at_def heap_Swap_def Let_def set_index_def nth_list_update)

lemma up_ordered:
  assumes "j < length (snd hp)"
    and "\<And>k. 0 < k \<Longrightarrow> k < length (snd hp) \<Longrightarrow> k \<noteq> j \<Longrightarrow> deadline_at hp (parent k) \<le> deadline_at hp k"
    and "\<And>k. 0 < k \<Longrightarrow> k < length (snd hp) \<Longrightarrow> parent k = j \<Longrightarrow> 0 < j \<Longrightarrow>
      deadline_at hp (parent j) \<le> deadline_at hp k"
  shows "ordered (length (snd hp)) (up j hp)"
  using assms
proof (induction j arbitrary: hp rule: less_induct)
  case (less j)
  define i where "i = parent j"
  note edges = less.prems(2) and grand = less.prems(3)
  show ?case
  proof (cases "j = 0 \<or> \<not> heap_Less hp j i")
    case True
    then have "up j hp = hp" by (auto simp: up_unfold [of j hp] i_def)
    moreover have "deadline_at hp (parent k) \<le> deadline_at hp k" if "0 < k" "k < length (snd hp)" for k
      using True edges [OF that] that by (cases "k = j") (auto simp: heap_Less_iff i_def not_less)
    ultimately show ?thesis by (simp add: ordered_def)
  next
    case False
    then have j: "0 < j" "deadline_at hp j < deadline_at hp i" by (auto simp: heap_Less_iff)
    have i: "i < j" "i < length (snd hp)" using j(1) less.prems(1) parent_less [of j] unfolding i_def by linarith+
    note swap = deadline_at_swap [OF i(2) less.prems(1)]
    have pii: "parent i \<noteq> i" if "0 < i" using parent_less [OF that] by linarith
    have pi: "parent i \<noteq> j" using parent_le [of i] i(1) by linarith
    have "ordered (length (snd (heap_Swap i j hp))) (up i (heap_Swap i j hp))"
    proof (rule less.IH)
      fix k
      assume k: "0 < k" "k < length (snd (heap_Swap i j hp))"
      then have k': "k < length (snd hp)" by simp
      show "deadline_at (heap_Swap i j hp) (parent k) \<le> deadline_at (heap_Swap i j hp) k" if "k \<noteq> i"
        using that edges [OF k(1) k'] grand [OF k(1) k'] j by (auto simp: swap i_def [symmetric])
      show "deadline_at (heap_Swap i j hp) (parent i) \<le> deadline_at (heap_Swap i j hp) k"
        if "parent k = i" "0 < i"
        using that pi pii edges [OF k(1) k'] edges [of i] i k by (auto simp: swap)
    qed (use i in auto)
    then show ?thesis using False by (simp add: up_unfold [of j hp] i_def)
  qed
qed

lemma children: "0 < k \<Longrightarrow> parent k = i \<longleftrightarrow> k = 2 * i + 1 \<or> k = 2 * i + 2"
  by (auto simp: parent_def)

lemma lesser_child_least:
  assumes "0 < k" and "k < n" and "parent k = i"
  shows "deadline_at hp (lesser_child i n hp) \<le> deadline_at hp k"
  using assms children [of k i] by (auto simp: lesser_child_def heap_Less_iff)

lemma parent_lesser_child: "parent (lesser_child i n hp) = i"
  by (auto simp: lesser_child_def parent_def)

lemma down_ordered:
  assumes "n \<le> length (snd hp)"
    and "\<And>k. 0 < k \<Longrightarrow> k < n \<Longrightarrow> k \<noteq> i \<Longrightarrow> parent k \<noteq> i \<Longrightarrow> deadline_at hp (parent k) \<le> deadline_at hp k"
    and "\<And>k. 0 < k \<Longrightarrow> k < n \<Longrightarrow> parent k = i \<Longrightarrow> 0 < i \<Longrightarrow> deadline_at hp (parent i) \<le> deadline_at hp k"
  shows "i \<le> fst (down i n hp) \<and>
    (if i < fst (down i n hp) then ordered n (snd (down i n hp))
     else snd (down i n hp) = hp \<and>
       (\<forall>k. 0 < k \<longrightarrow> k < n \<longrightarrow> k \<noteq> i \<longrightarrow> deadline_at hp (parent k) \<le> deadline_at hp k))"
  using assms
proof (induction i hp rule: down_induct [where n = n])
  case (step i hp)
  define c where "c = lesser_child i n hp"
  note edges = step.prems(2) and grand = step.prems(3)
  show ?case
  proof (cases "2 * i + 1 \<ge> n \<or> \<not> heap_Less hp c i")
    case True
    then have eq: "down i n hp = (i, hp)" by (auto simp: down_unfold [of i n hp] c_def [symmetric])
    have "deadline_at hp (parent k) \<le> deadline_at hp k" if k: "0 < k" "k < n" "k \<noteq> i" for k
    proof (cases "parent k = i")
      case True
      then have "\<not> heap_Less hp c i" using k children [of k i] \<open>_ \<or> _\<close> by auto
      with True k lesser_child_least [of k n i hp] show ?thesis by (simp add: heap_Less_iff c_def)
    qed (use edges k in blast)
    then show ?thesis by (simp add: eq)
  next
    case False
    then have c: "i < c" "c < n" "deadline_at hp c < deadline_at hp i"
      using lesser_child_less [of n i hp] by (auto simp: heap_Less_iff c_def)
    have pc: "parent c = i" by (simp add: c_def parent_lesser_child)
    have l: "i < length (snd hp)" "c < length (snd hp)" using c step.prems(1) by auto
    note swap = deadline_at_swap [OF l]
    let ?hp = "heap_Swap i c hp"
    have eq: "down i n hp = down c n ?hp" using False by (simp add: down_unfold [of i n hp] c_def [symmetric])
    have IH: "c \<le> fst (down c n ?hp) \<and>
      (if c < fst (down c n ?hp) then ordered n (snd (down c n ?hp))
       else snd (down c n ?hp) = ?hp \<and>
         (\<forall>k. 0 < k \<longrightarrow> k < n \<longrightarrow> k \<noteq> c \<longrightarrow> deadline_at ?hp (parent k) \<le> deadline_at ?hp k))"
    proof (rule step.IH [OF c_def])
      fix k
      assume k: "0 < k" "k < n"
      show "deadline_at ?hp (parent k) \<le> deadline_at ?hp k" if "k \<noteq> c" "parent k \<noteq> c"
        using that k c edges [of k] lesser_child_least [of k n i hp] parent_less [of i] grand [of c] pc
        by (auto simp: swap c_def [symmetric])
      show "deadline_at ?hp (parent c) \<le> deadline_at ?hp k" if "parent k = c"
        using that k c pc edges [of k] parent_less [of k] by (auto simp: swap)
    qed (use False step.prems(1) in auto)
    have "deadline_at ?hp (parent c) \<le> deadline_at ?hp c" using c pc by (simp add: swap)
    then have "ordered n (snd (down c n ?hp))" using IH by (cases "c < fst (down c n ?hp)") (auto simp: ordered_def)
    moreover have "i < fst (down c n ?hp)" using IH c(1) by linarith
    ultimately show ?thesis by (simp add: eq)
  qed
qed

lemma heap_Push_ok:
  assumes "indexed hp" and "ordered (length (snd hp)) hp" and "item \<notin> set (snd hp)"
  shows "indexed (heap_Push item hp) \<and> ordered (length (snd (heap_Push item hp))) (heap_Push item hp) \<and>
    same_items (heap_append item hp) (heap_Push item hp)"
proof -
  obtain m h where hp: "hp = (m, h)" by force
  let ?hp = "heap_append item hp"
  have l: "length (snd ?hp) = length h + 1" by (simp add: hp heap_append_def)
  have at: "deadline_at ?hp k = deadline_at hp k" if "k < length h" for k
    using that assms(3) by (simp add: hp heap_append_def deadline_at_def set_index_def nth_append)
  have ix: "indexed ?hp" using assms(1,3)
    by (auto simp: hp indexed_def heap_append_def set_index_def nth_append less_Suc_eq)
  have "ordered (length (snd ?hp)) (up (length h) ?hp)"
  proof (rule up_ordered)
    fix k
    assume k: "0 < k" "k < length (snd ?hp)"
    show "deadline_at ?hp (parent k) \<le> deadline_at ?hp k" if "k \<noteq> length h"
    proof -
      have "k < length h" using k that by (simp add: l)
      moreover from this have "parent k < length h" using parent_less [OF k(1)] by linarith
      moreover have "length (snd hp) = length h" by (simp add: hp)
      ultimately show ?thesis using assms(2) k(1) at [of k] at [of "parent k"] by (simp add: ordered_def)
    qed
    show "deadline_at ?hp (parent (length h)) \<le> deadline_at ?hp k" if "parent k = length h"
      using k parent_less [OF k(1)] that by (simp add: l)
  qed (simp add: l)
  moreover have "heap_Push item hp = up (length h) ?hp" by (simp add: heap_Push_def Let_def l)
  moreover have "same_items ?hp (up (length h) ?hp)" "indexed (up (length h) ?hp)"
    using up_keeps [of "length h" ?hp] ix by (simp_all add: l)
  moreover from this(1) have "length (snd (up (length h) ?hp)) = length (snd ?hp)"
    by (auto simp: same_items_def dest: mset_eq_length)
  ultimately show ?thesis by simp
qed

lemma heap_Fix_ok:
  assumes ix: "indexed hp" and i: "i < length (snd hp)"
    and edges: "\<And>k. 0 < k \<Longrightarrow> k < length (snd hp) \<Longrightarrow> k \<noteq> i \<Longrightarrow> parent k \<noteq> i \<Longrightarrow>
      deadline_at hp (parent k) \<le> deadline_at hp k"
    and grand: "\<And>k. 0 < k \<Longrightarrow> k < length (snd hp) \<Longrightarrow> parent k = i \<Longrightarrow> 0 < i \<Longrightarrow>
      deadline_at hp (parent i) \<le> deadline_at hp k"
  shows "indexed (heap_Fix i hp) \<and> ordered (length (snd (heap_Fix i hp))) (heap_Fix i hp) \<and>
    same_items hp (heap_Fix i hp)"
proof -
  define r where "r = down i (length (snd hp)) hp"
  have D: "i \<le> fst r \<and> (if i < fst r then ordered (length (snd hp)) (snd r)
      else snd r = hp \<and> (\<forall>k. 0 < k \<longrightarrow> k < length (snd hp) \<longrightarrow> k \<noteq> i \<longrightarrow> deadline_at hp (parent k) \<le> deadline_at hp k))"
    unfolding r_def by (rule down_ordered [OF order_refl edges grand])
  have K: "same_items hp (snd r)" "indexed (snd r)" "length (snd (snd r)) = length (snd hp)"
    using down_keeps [OF order_refl, of hp i] ix by (simp_all add: r_def)
  have F: "heap_Fix i hp = (if fst r > i then snd r else up i (snd r))"
    by (simp add: heap_Fix_def r_def [symmetric] case_prod_beta)
  show ?thesis
  proof (cases "i < fst r")
    case True
    then show ?thesis using D K by (simp add: F)
  next
    case False
    then have r: "snd r = hp" and e: "\<And>k. 0 < k \<Longrightarrow> k < length (snd hp) \<Longrightarrow> k \<noteq> i \<Longrightarrow>
        deadline_at hp (parent k) \<le> deadline_at hp k" using D by simp_all
    have "ordered (length (snd hp)) (up i hp)" by (rule up_ordered [OF i e grand])
    moreover have "length (snd (up i hp)) = length (snd hp)"
      using up_keeps [OF i] by (auto simp: same_items_def dest: mset_eq_length)
    ultimately show ?thesis using up_keeps [OF i] ix False by (simp add: F r)
  qed
qed

lemma down_above: "n \<le> k \<Longrightarrow> snd (snd (down i n hp)) ! k = snd hp ! k"
proof (induction i hp rule: down_induct [where n = n])
  case (step i hp)
  define c where "c = lesser_child i n hp"
  show ?case
  proof (cases "2 * i + 1 \<ge> n \<or> \<not> heap_Less hp c i")
    case False
    then have "i < n" "c < n" using lesser_child_less [of n i hp] by (auto simp: c_def)
    then have "snd (heap_Swap i c hp) ! k = snd hp ! k"
      using step.prems by (simp add: heap_Swap_def Let_def split: prod.split)
    then show ?thesis
      using False step.IH [OF c_def] step.prems by (simp add: down_unfold [of i n hp] c_def [symmetric])
  qed (auto simp: down_unfold [of i n hp] c_def [symmetric])
qed

text \<open>Popping returns the first item and leaves a heap of the others.\<close>

lemma heap_Pop_ok:
  assumes ix: "indexed hp" and ord: "ordered (length (snd hp)) hp" and ne: "snd hp \<noteq> []"
    and pop: "heap_Pop hp = (item, hp')"
  shows "item = snd hp ! 0" and "indexed hp'" and "ordered (length (snd hp')) hp'"
    and "mset (snd hp) = add_mset item (mset (snd hp'))"
    and "dp_deadline (fst hp' a) = dp_deadline (fst hp a)"
    and "dp_topicPartition (fst hp' a) = dp_topicPartition (fst hp a)"
proof -
  define n where "n = length (snd hp) - 1"
  define hp1 where "hp1 = heap_Swap 0 n hp"
  define hp2 where "hp2 = snd (down 0 n hp1)"
  have len: "length (snd hp) = n + 1" using ne by (cases "snd hp") (auto simp: n_def)
  then have l: "0 < length (snd hp)" "n < length (snd hp)" by auto
  have at: "deadline_at hp1 k = deadline_at hp (if k = 0 then n else if k = n then 0 else k)" for k
    by (simp add: hp1_def deadline_at_swap [OF l])
  have len1: "length (snd hp1) = n + 1" by (simp add: hp1_def len)
  have D: "ordered n hp2"
  proof -
    have "deadline_at hp1 (parent k) \<le> deadline_at hp1 k" if "0 < k" "k < n" "parent k \<noteq> 0" for k
      using that ord parent_less [OF that(1)] by (simp add: at ordered_def len)
    then show ?thesis using down_ordered [of n hp1 0] unfolding hp2_def
      by (cases "0 < fst (down 0 n hp1)") (auto simp: len1 ordered_def)
  qed
  have K: "same_items hp hp2" "indexed hp2"
    using down_keeps [of n hp1 0] swap_same_items [OF l] swap_indexed [OF ix l] same_items_trans
    by (auto simp: hp1_def [symmetric] hp2_def len1)
  have out: "(item, hp') = heap_remove_last hp2"
    using pop by (simp add: heap_Pop_def Let_def hp1_def hp2_def n_def)
  have len2: "length (snd hp2) = n + 1" by (simp add: hp2_def len1)
  have item: "item = last (snd hp2)" and h': "snd hp' = butlast (snd hp2)"
    and m': "fst hp' = set_index item (- 1) (fst hp2)"
    using out by (auto simp: heap_remove_last_def split: prod.splits)
  have split: "snd hp2 = snd hp' @ [item]"
    using len2 by (simp add: item h') (metis append_butlast_last_id list.size(3) nat.simps(3))
  have "last (snd hp2) = snd hp2 ! n" using len2 by (simp add: last_conv_nth flip: length_0_conv)
  also have "\<dots> = snd hp1 ! n" by (simp add: hp2_def down_above)
  also have "\<dots> = snd hp ! 0" using l by (cases hp) (simp add: hp1_def heap_Swap_def Let_def)
  finally show "item = snd hp ! 0" by (simp add: item)
  show "mset (snd hp) = add_mset item (mset (snd hp'))" using K(1) by (simp add: same_items_def split)
  show "dp_deadline (fst hp' a) = dp_deadline (fst hp a)"
    "dp_topicPartition (fst hp' a) = dp_topicPartition (fst hp a)"
    using K(1) by (simp_all add: same_items_def m' set_index_def)
  have at': "deadline_at hp' k = deadline_at hp2 k" if "k < length (snd hp')" for k
    using that by (simp add: deadline_at_def split m' set_index_def nth_append)
  have len': "length (snd hp') = n" using len2 by (simp add: split)
  show "ordered (length (snd hp')) hp'"
    unfolding ordered_def
  proof (intro allI impI)
    fix k
    assume k: "0 < k" "k < length (snd hp')"
    then have "parent k < length (snd hp')" using parent_less [of k] by linarith
    with k D show "deadline_at hp' (parent k) \<le> deadline_at hp' k" by (simp add: at' ordered_def len')
  qed
  show "indexed hp'"
    unfolding indexed_def
  proof (intro conjI allI impI)
    have d: "distinct (snd hp2)" and ix2: "\<forall>i<length (snd hp2). dp_index (fst hp2 (snd hp2 ! i)) = int i"
      using K(2) by (auto simp: indexed_def)
    from d show "distinct (snd hp')" by (simp add: split)
    fix i
    assume i: "i < length (snd hp')"
    then have "snd hp' ! i \<in> set (snd hp')" by simp
    then have "snd hp' ! i \<noteq> item" using d by (auto simp: split)
    moreover have "dp_index (fst hp2 (snd hp2 ! i)) = int i" using ix2 i by (simp add: split)
    ultimately show "dp_index (fst hp' (snd hp' ! i)) = int i"
      using i by (simp add: split m' set_index_def nth_append)
  qed
qed

lemma root_least: "ordered n hp \<Longrightarrow> k < n \<Longrightarrow> deadline_at hp 0 \<le> deadline_at hp k"
proof (induction k rule: less_induct)
  case (less k)
  show ?case
  proof (cases "k = 0")
    case False
    then have "parent k < k" by simp
    then have "deadline_at hp 0 \<le> deadline_at hp (parent k)" using less.IH less.prems by simp
    also have "\<dots> \<le> deadline_at hp k" using less.prems False by (simp add: ordered_def)
    finally show ?thesis .
  qed simp
qed

section \<open>The invariant and the deadline map\<close>

definition linked :: "retryPartitionScheduler \<Rightarrow> bool" where
  "linked s \<longleftrightarrow> wf_table (rs_partitions s) \<and>
    (\<forall>p a. map_of (rs_partitions s) p = Some a \<longrightarrow>
      a \<in> set (rs_deadlines s) \<and> dp_topicPartition (rs_items s a) = p \<and> a < rs_fresh s) \<and>
    (\<forall>a\<in>set (rs_deadlines s). map_of (rs_partitions s) (dp_topicPartition (rs_items s a)) = Some a)"

definition sched_core :: "retryPartitionScheduler \<Rightarrow> bool" where
  "sched_core s \<longleftrightarrow> indexed (sched_heap s) \<and> ordered (length (rs_deadlines s)) (sched_heap s) \<and> linked s"

definition sched_inv :: "retryPartitionScheduler \<Rightarrow> bool" where
  "sched_inv s \<longleftrightarrow> sched_core s \<and> (\<forall>p\<in>set (rs_ownedPause s). map_of (rs_partitions s) p \<noteq> None)"

definition deadline_of :: "retryPartitionScheduler \<Rightarrow> topicPartition \<rightharpoonup> instant" where
  "deadline_of s p = map_option (\<lambda>a. dp_deadline (rs_items s a)) (map_of (rs_partitions s) p)"

lemma own_pause_simps [simp]:
  "rs_items (own_pause p b s) = rs_items s" "rs_fresh (own_pause p b s) = rs_fresh s"
  "rs_deadlines (own_pause p b s) = rs_deadlines s" "rs_partitions (own_pause p b s) = rs_partitions s"
  "set (rs_ownedPause (own_pause p b s)) = (if b then insert p (set (rs_ownedPause s)) else set (rs_ownedPause s))"
  by (simp_all add: own_pause_def)

lemma with_heap_simps [simp]:
  "rs_items (with_heap hp s) = fst hp" "rs_fresh (with_heap hp s) = rs_fresh s"
  "rs_deadlines (with_heap hp s) = snd hp" "rs_partitions (with_heap hp s) = rs_partitions s"
  "rs_ownedPause (with_heap hp s) = rs_ownedPause s"
  by (simp_all add: with_heap_def)

lemma new_inv: "sched_inv (newRetryPartitionScheduler m)"
  by (simp add: sched_inv_def sched_core_def linked_def newRetryPartitionScheduler_def indexed_def ordered_def)

lemma new_deadline_of: "deadline_of (newRetryPartitionScheduler m) = Map.empty"
  by (simp add: fun_eq_iff deadline_of_def newRetryPartitionScheduler_def)

text \<open>Moving the deadline of an item and restoring the heap.\<close>

lemma reschedule:
  assumes inv: "sched_core s" and item: "map_of (rs_partitions s) p = Some item"
    and m: "m = (rs_items s)(item := (rs_items s item)\<lparr>dp_deadline := d\<rparr>)"
    and hp: "hp = heap_Fix (nat (dp_index (m item))) (m, rs_deadlines s)"
  shows "indexed hp \<and> ordered (length (snd hp)) hp \<and> same_items (m, rs_deadlines s) hp"
proof -
  have "item \<in> set (rs_deadlines s)" using inv item by (auto simp: sched_core_def linked_def)
  then obtain i where i: "i < length (rs_deadlines s)" "rs_deadlines s ! i = item" by (auto simp: in_set_conv_nth)
  have ix: "indexed (m, rs_deadlines s)" using inv by (auto simp: sched_core_def indexed_def m)
  then have "dp_index (m item) = int i" using i by (auto simp: indexed_def)
  then have hp': "hp = heap_Fix i (m, rs_deadlines s)" by (simp add: hp)
  have ord: "deadline_at (sched_heap s) (parent k) \<le> deadline_at (sched_heap s) k"
    if "0 < k" "k < length (rs_deadlines s)" for k
    using inv that by (simp add: sched_core_def ordered_def)
  have at: "deadline_at (m, rs_deadlines s) k = deadline_at (sched_heap s) k"
    if "k < length (rs_deadlines s)" "k \<noteq> i" for k
    using inv that i by (auto simp: deadline_at_def m sched_core_def indexed_def nth_eq_iff_index_eq)
  have below: "parent k < length (rs_deadlines s)" if "k < length (rs_deadlines s)" for k
    using parent_le [of k] that by linarith
  show ?thesis unfolding hp'
  proof (rule heap_Fix_ok [OF ix])
    fix k
    assume k: "0 < k" "k < length (snd (m, rs_deadlines s))"
    then have k': "k < length (rs_deadlines s)" by simp
    show "deadline_at (m, rs_deadlines s) (parent k) \<le> deadline_at (m, rs_deadlines s) k"
      if "k \<noteq> i" "parent k \<noteq> i"
      using that k' ord [OF k(1) k'] at [OF k'] at [OF below [OF k']] by simp
    show "deadline_at (m, rs_deadlines s) (parent i) \<le> deadline_at (m, rs_deadlines s) k"
      if "parent k = i" "0 < i"
      using that ord [OF k(1) k'] ord [OF that(2) i(1)] at [OF k'] at [OF below [OF i(1)]] parent_less [OF k(1)]
        parent_less [OF that(2)] by simp
  qed (use i in simp)
qed

lemma linkedD:
  assumes "linked s" and "map_of (rs_partitions s) p = Some a"
  shows "a \<in> set (rs_deadlines s)" and "dp_topicPartition (rs_items s a) = p" and "a < rs_fresh s"
  using assms by (auto simp: linked_def)

lemma linked_lookup: "linked s \<Longrightarrow> a \<in> set (rs_deadlines s) \<Longrightarrow>
    map_of (rs_partitions s) (dp_topicPartition (rs_items s a)) = Some a"
  by (simp add: linked_def)

lemma schedule_again:
  assumes inv: "sched_core s" and item: "map_of (rs_partitions s) p = Some item"
  shows "sched_core (schedule p d owns s)" and "deadline_of (schedule p d owns s) = (deadline_of s)(p \<mapsto> d)"
    and "rs_partitions (schedule p d owns s) = rs_partitions s"
    and "set (rs_ownedPause (schedule p d owns s)) = (if owns then {p} else {}) \<union> set (rs_ownedPause s)"
proof -
  have link: "linked s" using inv by (simp add: sched_core_def)
  define m where "m = (rs_items s)(item := (rs_items s item)\<lparr>dp_deadline := d\<rparr>)"
  define hp where "hp = heap_Fix (nat (dp_index (m item))) (m, rs_deadlines s)"
  have S: "schedule p d owns s = own_pause p owns (with_heap hp s)"
    by (simp add: schedule_def item Let_def m_def hp_def)
  note H = reschedule [OF inv item m_def hp_def]
  have tp: "dp_topicPartition (fst hp a) = dp_topicPartition (rs_items s a)" for a
    using H by (simp add: same_items_def m_def)
  have dl: "dp_deadline (fst hp a) = (if a = item then d else dp_deadline (rs_items s a))" for a
    using H by (simp add: same_items_def m_def)
  have st: "set (snd hp) = set (rs_deadlines s)" using H by (auto simp: same_items_def dest: mset_eq_setD)
  show "sched_core (schedule p d owns s)"
    using H link by (simp add: S sched_core_def linked_def tp st)
  have "a \<noteq> item" if "map_of (rs_partitions s) q = Some a" "q \<noteq> p" for q a
    using that linkedD(2) [OF link item] linkedD(2) [OF link that(1)] by auto
  then have "deadline_of (schedule p d owns s) q = ((deadline_of s)(p \<mapsto> d)) q" for q
    using item by (cases "map_of (rs_partitions s) q"; cases "q = p") (auto simp: S deadline_of_def dl)
  then show "deadline_of (schedule p d owns s) = (deadline_of s)(p \<mapsto> d)" by (rule ext)
  show "rs_partitions (schedule p d owns s) = rs_partitions s"
    "set (rs_ownedPause (schedule p d owns s)) = (if owns then {p} else {}) \<union> set (rs_ownedPause s)"
    by (simp_all add: S)
qed

lemma schedule_first:
  assumes inv: "sched_core s" and item: "map_of (rs_partitions s) p = None"
  shows "sched_core (schedule p d owns s)" and "deadline_of (schedule p d owns s) = (deadline_of s)(p \<mapsto> d)"
    and "rs_partitions (schedule p d owns s) = tb_add p (rs_fresh s) (rs_partitions s)"
    and "set (rs_ownedPause (schedule p d owns s)) = (if owns then {p} else {}) \<union> set (rs_ownedPause s)"
proof -
  have link: "linked s" using inv by (simp add: sched_core_def)
  define m where "m = (rs_items s)(rs_fresh s := \<lparr>dp_topicPartition = p, dp_deadline = d, dp_index = 0\<rparr>)"
  define hp where "hp = heap_Push (rs_fresh s) (m, rs_deadlines s)"
  have S: "schedule p d owns s = own_pause p owns (with_heap hp
      (s\<lparr>rs_fresh := rs_fresh s + 1, rs_partitions := tb_add p (rs_fresh s) (rs_partitions s)\<rparr>))"
    by (simp add: schedule_def item Let_def m_def hp_def)
  have fresh: "rs_fresh s \<notin> set (rs_deadlines s)"
    using linked_lookup [OF link] linkedD(3) [OF link] by blast
  then have eq: "m a = rs_items s a" if "a \<in> set (rs_deadlines s)" for a using that by (auto simp: m_def)
  have "indexed (m, rs_deadlines s)" using inv by (auto simp: sched_core_def indexed_def eq)
  moreover have at: "deadline_at (m, rs_deadlines s) k = deadline_at (sched_heap s) k"
    if "k < length (rs_deadlines s)" for k using that by (simp add: deadline_at_def eq)
  moreover have "ordered (length (rs_deadlines s)) (m, rs_deadlines s)"
    unfolding ordered_def
  proof (intro allI impI)
    fix k
    assume k: "0 < k" "k < length (rs_deadlines s)"
    then have "parent k < length (rs_deadlines s)" using parent_less [of k] by linarith
    with k inv show "deadline_at (m, rs_deadlines s) (parent k) \<le> deadline_at (m, rs_deadlines s) k"
      by (simp add: at sched_core_def ordered_def)
  qed
  ultimately have H: "indexed hp" "ordered (length (snd hp)) hp"
    "same_items (heap_append (rs_fresh s) (m, rs_deadlines s)) hp"
    using heap_Push_ok [of "(m, rs_deadlines s)" "rs_fresh s"] fresh by (simp_all add: hp_def)
  have tp: "dp_topicPartition (fst hp a) = (if a = rs_fresh s then p else dp_topicPartition (rs_items s a))" for a
    using H(3) by (simp add: same_items_def heap_append_def set_index_def m_def)
  have dl: "dp_deadline (fst hp a) = (if a = rs_fresh s then d else dp_deadline (rs_items s a))" for a
    using H(3) by (simp add: same_items_def heap_append_def set_index_def m_def)
  have st: "set (snd hp) = insert (rs_fresh s) (set (rs_deadlines s))"
    using H(3) mset_eq_setD [of "snd hp" "rs_fresh s # rs_deadlines s"] by (simp add: same_items_def heap_append_def)
  show P: "rs_partitions (schedule p d owns s) = tb_add p (rs_fresh s) (rs_partitions s)"
    "set (rs_ownedPause (schedule p d owns s)) = (if owns then {p} else {}) \<union> set (rs_ownedPause s)"
    by (simp_all add: S)
  have "linked (schedule p d owns s)"
    unfolding linked_def P(1)
  proof (intro conjI allI impI ballI)
    show "wf_table (tb_add p (rs_fresh s) (rs_partitions s))"
      using link item by (intro wf_tb_add) (auto simp: linked_def tb_has_def)
    fix q a
    assume "map_of (tb_add p (rs_fresh s) (rs_partitions s)) q = Some a"
    then consider "map_of (rs_partitions s) q = Some a" | "q = p" "a = rs_fresh s"
      by (auto simp: map_of_tb_add split: option.splits if_splits)
    then have "(a \<in> set (rs_deadlines s) \<and> dp_topicPartition (rs_items s a) = q \<and> a < rs_fresh s) \<or>
        (q = p \<and> a = rs_fresh s)"
      using linkedD [OF link] by cases auto
    then show "a \<in> set (rs_deadlines (schedule p d owns s))"
      "dp_topicPartition (rs_items (schedule p d owns s) a) = q" "a < rs_fresh (schedule p d owns s)"
      by (auto simp: S st tp)
  next
    fix a
    assume "a \<in> set (rs_deadlines (schedule p d owns s))"
    then have "a = rs_fresh s \<or> a \<noteq> rs_fresh s \<and> a \<in> set (rs_deadlines s)" by (auto simp: S st fresh)
    then show "map_of (tb_add p (rs_fresh s) (rs_partitions s))
        (dp_topicPartition (rs_items (schedule p d owns s) a)) = Some a"
      using linked_lookup [OF link, of a] item by (auto simp: S tp map_of_tb_add)
  qed
  then show "sched_core (schedule p d owns s)" using H by (simp add: sched_core_def) (simp add: S)
  have "a \<noteq> rs_fresh s" if "map_of (rs_partitions s) q = Some a" for q a
    using linkedD(3) [OF link that] by simp
  then have "deadline_of (schedule p d owns s) q = ((deadline_of s)(p \<mapsto> d)) q" for q
    using item by (cases "map_of (rs_partitions s) q"; cases "q = p") (auto simp: S deadline_of_def dl map_of_tb_add)
  then show "deadline_of (schedule p d owns s) = (deadline_of s)(p \<mapsto> d)" by (rule ext)
qed

lemma schedule_ok:
  assumes "sched_inv s"
  shows "sched_inv (schedule p d owns s)" and "deadline_of (schedule p d owns s) = (deadline_of s)(p \<mapsto> d)"
    and "set (rs_ownedPause (schedule p d owns s)) = (if owns then {p} else {}) \<union> set (rs_ownedPause s)"
proof -
  have core: "sched_core s" and own: "\<forall>p\<in>set (rs_ownedPause s). map_of (rs_partitions s) p \<noteq> None"
    using assms by (auto simp: sched_inv_def)
  show dl: "deadline_of (schedule p d owns s) = (deadline_of s)(p \<mapsto> d)"
    using schedule_first(2) [OF core] schedule_again(2) [OF core] by (cases "map_of (rs_partitions s) p") simp_all
  show ow: "set (rs_ownedPause (schedule p d owns s)) = (if owns then {p} else {}) \<union> set (rs_ownedPause s)"
    using schedule_first(4) [OF core] schedule_again(4) [OF core] by (cases "map_of (rs_partitions s) p") simp_all
  have "sched_core (schedule p d owns s)"
    using schedule_first(1) [OF core] schedule_again(1) [OF core] by (cases "map_of (rs_partitions s) p") simp_all
  moreover have "map_of (rs_partitions (schedule p d owns s)) q \<noteq> None"
    if "q \<in> set (rs_ownedPause (schedule p d owns s))" for q
  proof -
    have "q = p \<or> deadline_of s q \<noteq> None" using that own by (auto simp: ow deadline_of_def split: if_splits)
    then have "deadline_of (schedule p d owns s) q \<noteq> None" by (auto simp: dl)
    then show ?thesis by (simp add: deadline_of_def)
  qed
  ultimately show "sched_inv (schedule p d owns s)" by (simp add: sched_inv_def)
qed

section \<open>Releasing what is due\<close>

lemma first_deadline_least:
  assumes inv: "sched_core s" and d: "deadline_of s p = Some d"
  shows "rs_deadlines s \<noteq> []" and "dp_deadline (rs_items s (rs_deadlines s ! 0)) \<le> d"
proof -
  have link: "linked s" using inv by (simp add: sched_core_def)
  obtain a where a: "map_of (rs_partitions s) p = Some a" "dp_deadline (rs_items s a) = d"
    using d by (auto simp: deadline_of_def)
  then obtain k where k: "k < length (rs_deadlines s)" "rs_deadlines s ! k = a"
    using linkedD(1) [OF link a(1)] by (auto simp: in_set_conv_nth)
  then show "rs_deadlines s \<noteq> []" by auto
  have "deadline_at (sched_heap s) 0 \<le> deadline_at (sched_heap s) k"
    using inv k(1) by (intro root_least) (auto simp: sched_core_def)
  then show "dp_deadline (rs_items s (rs_deadlines s ! 0)) \<le> d" by (simp add: deadline_at_def k a)
qed

lemma take_due_ok:
  assumes inv: "sched_core s" and ne: "rs_deadlines s \<noteq> []" and take: "take_due s = (p, s')"
  shows "sched_core s'" and "deadline_of s p = Some (dp_deadline (rs_items s (rs_deadlines s ! 0)))"
    and "deadline_of s' = (deadline_of s)(p := None)" and "rs_ownedPause s' = rs_ownedPause s"
proof -
  have link: "linked s" and ix: "indexed (sched_heap s)"
    and ord: "ordered (length (rs_deadlines s)) (sched_heap s)" using inv by (auto simp: sched_core_def)
  obtain item hp where pop: "heap_Pop (sched_heap s) = (item, hp)" by (metis surj_pair)
  note P = heap_Pop_ok [OF ix _ _ pop, simplified, OF ord ne]
  have tp: "dp_topicPartition (fst hp a) = dp_topicPartition (rs_items s a)"
    and dl: "dp_deadline (fst hp a) = dp_deadline (rs_items s a)" for a using P by simp_all
  have p: "p = dp_topicPartition (rs_items s item)"
    and s': "s' = (with_heap hp s)\<lparr>rs_partitions := tb_delete (\<lambda>q _. q = p) (rs_partitions s)\<rparr>"
    using take by (auto simp: take_due_def pop tp Let_def)
  have item: "item \<in> set (rs_deadlines s)" using P(1) ne by simp
  then have look: "map_of (rs_partitions s) p = Some item" unfolding p by (rule linked_lookup [OF link])
  show "deadline_of s p = Some (dp_deadline (rs_items s (rs_deadlines s ! 0)))"
    using look P(1) by (simp add: deadline_of_def)
  have wf: "wf_table (rs_partitions s)" using link by (simp add: linked_def)
  have del: "map_of (rs_partitions s') q = (if q = p then None else map_of (rs_partitions s) q)" for q
    by (auto simp: s' map_of_tb_delete [OF wf] split: option.split)
  have "deadline_of s' q = ((deadline_of s)(p := None)) q" for q
    using del [of q] by (simp add: deadline_of_def) (simp add: s' dl)
  then show "deadline_of s' = (deadline_of s)(p := None)" by (rule ext)
  show "rs_ownedPause s' = rs_ownedPause s" by (simp add: s')
  have st: "set (rs_deadlines s') = set (rs_deadlines s) - {item}"
  proof -
    have m: "mset (rs_deadlines s) = add_mset item (mset (snd hp))" using P(4) by simp
    then have "set (rs_deadlines s) = insert item (set (snd hp))" by (metis set_mset_add_mset_insert set_mset_mset)
    moreover have "item \<notin> set (snd hp)"
    proof -
      have "distinct (item # snd hp)"
        using ix m by (metis indexed_def mset.simps(2) mset_eq_imp_distinct_iff snd_conv)
      then show ?thesis by simp
    qed
    ultimately show ?thesis by (auto simp: s')
  qed
  have "linked s'"
    unfolding linked_def
  proof (intro conjI allI impI ballI)
    show "wf_table (rs_partitions s')" using wf by (simp add: s')
    fix q a
    assume "map_of (rs_partitions s') q = Some a"
    then have q: "q \<noteq> p" "map_of (rs_partitions s) q = Some a" by (auto simp: del split: if_splits)
    note L = linkedD [OF link q(2)]
    from L(2) q(1) have "a \<noteq> item" by (auto simp: p)
    with L show "a \<in> set (rs_deadlines s')" "dp_topicPartition (rs_items s' a) = q" "a < rs_fresh s'"
      unfolding st by (auto simp: s' tp)
  next
    fix a
    assume "a \<in> set (rs_deadlines s')"
    then have a: "a \<in> set (rs_deadlines s)" "a \<noteq> item" by (auto simp: st)
    then have "dp_topicPartition (rs_items s a) \<noteq> p" using linked_lookup [OF link a(1)] look by auto
    then show "map_of (rs_partitions s') (dp_topicPartition (rs_items s' a)) = Some a"
      using linked_lookup [OF link a(1)] by (simp add: del) (simp add: s' tp)
  qed
  moreover have "indexed (sched_heap s')" "ordered (length (rs_deadlines s')) (sched_heap s')"
    using P(2,3) by (simp_all add: s')
  ultimately show "sched_core s'" by (simp add: sched_core_def)
qed

text \<open>What a release removes, and the partitions it resumes.\<close>

definition not_due :: "instant \<Rightarrow> (topicPartition \<rightharpoonup> instant) \<Rightarrow> topicPartition \<rightharpoonup> instant" where
  "not_due now q p = (case q p of None \<Rightarrow> None | Some d \<Rightarrow> if d \<le> now then None else Some d)"

definition due_owned :: "instant \<Rightarrow> retryPartitionScheduler \<Rightarrow> topicPartition set" where
  "due_owned now s = {p \<in> set (rs_ownedPause s). \<exists>d. deadline_of s p = Some d \<and> d \<le> now}"

definition resumed :: "(string, int list) table \<Rightarrow> string \<Rightarrow> int list" where
  "resumed r t = (case map_of r t of None \<Rightarrow> [] | Some ps \<Rightarrow> ps)"

definition of_topic :: "string \<Rightarrow> topicPartition set \<Rightarrow> int set" where
  "of_topic t P = tp_partition ` {p \<in> P. tp_topic p = t}"

lemma of_topic_iff: "tp_partition p \<in> of_topic (tp_topic p) P \<longleftrightarrow> p \<in> P"
  by (auto simp: of_topic_def) (metis topicPartition.equality unit.exhaust)

lemma not_due_drop: "q p = Some d \<Longrightarrow> d \<le> now \<Longrightarrow> not_due now (q(p := None)) = not_due now q"
  by (auto simp: not_due_def fun_eq_iff)

lemma finite_due_owned [simp]: "finite (due_owned now s)"
  by (simp add: due_owned_def)

lemma of_topic_insert:
  "p \<notin> P \<Longrightarrow> of_topic t (insert p P) = (if tp_topic p = t then insert (tp_partition p) (of_topic t P) else of_topic t P) \<and>
    (tp_topic p = t \<longrightarrow> tp_partition p \<notin> of_topic t P)"
  by (auto simp: of_topic_def) (metis topicPartition.equality unit.exhaust)

lemma resumed_add_resume:
  "resumed (add_resume p r) t = (if tp_topic p = t then resumed r t @ [tp_partition p] else resumed r t)"
  by (auto simp: resumed_def add_resume_def map_of_tb_update map_of_tb_add tb_has_def split: option.split)

lemma add_resume_filled:
  "(\<And>t. map_of r t \<noteq> Some []) \<Longrightarrow> map_of (add_resume p r) t \<noteq> Some []"
  by (auto simp: add_resume_def map_of_tb_update map_of_tb_add tb_has_def split: option.split)

lemma release_loop_ok:
  assumes "sched_inv s" and "\<And>t. map_of resume t \<noteq> Some []" and "release_loop now s resume = (r, s')"
  shows "sched_inv s' \<and> deadline_of s' = not_due now (deadline_of s) \<and>
    set (rs_ownedPause s') = set (rs_ownedPause s) - due_owned now s \<and>
    (\<forall>t. map_of r t \<noteq> Some [] \<and> mset (resumed r t) = mset (resumed resume t) + mset_set (of_topic t (due_owned now s)))"
  using assms
proof (induction now s resume rule: release_loop.induct)
  case (1 now s resume)
  have core: "sched_core s" and own: "\<forall>p\<in>set (rs_ownedPause s). map_of (rs_partitions s) p \<noteq> None"
    using "1.prems"(1) by (auto simp: sched_inv_def)
  show ?case
  proof (cases "rs_deadlines s \<noteq> [] \<and> \<not> dp_deadline (rs_items s (rs_deadlines s ! 0)) > now")
    case False
    then have late: "d > now" if "deadline_of s p = Some d" for p d
      using first_deadline_least [OF core that] by linarith
    then have "not_due now (deadline_of s) p = deadline_of s p" for p
      by (cases "deadline_of s p") (auto simp: not_due_def dest: late)
    moreover have "due_owned now s = {}" using late by (force simp: due_owned_def)
    ultimately show ?thesis using False "1.prems"
      by (auto simp: release_loop.simps [of now s resume] of_topic_def)
  next
    case True
    obtain p s1 where take: "take_due s = (p, s1)" by force
    note T = take_due_ok [OF core conjunct1 [OF True] take]
    define d where "d = dp_deadline (rs_items s (rs_deadlines s ! 0))"
    have d: "deadline_of s p = Some d" "d \<le> now" using T(2) True by (auto simp: d_def)
    define s2 where "s2 = (if p \<in> set (rs_ownedPause s) then s1\<lparr>rs_ownedPause := removeAll p (rs_ownedPause s1)\<rparr> else s1)"
    define r2 where "r2 = (if p \<in> set (rs_ownedPause s) then add_resume p resume else resume)"
    have step: "release_loop now s resume = release_loop now s2 r2"
      using True take by (simp add: release_loop.simps [of now s resume] s2_def r2_def T(4))
    have own2: "set (rs_ownedPause s2) = set (rs_ownedPause s) - {p}" by (auto simp: s2_def T(4))
    have dl2: "deadline_of s2 = (deadline_of s)(p := None)"
      using T(3) by (simp add: s2_def deadline_of_def fun_eq_iff)
    have core2: "sched_core s2" using T(1) by (simp add: s2_def sched_core_def linked_def)
    have inv2: "sched_inv s2"
    proof -
      have "deadline_of s2 q \<noteq> None" if "q \<in> set (rs_ownedPause s2)" for q
        using that own by (auto simp: dl2 own2 deadline_of_def)
      then show ?thesis using core2 by (auto simp: sched_inv_def deadline_of_def)
    qed
    have due2: "due_owned now s2 = due_owned now s - {p}" by (auto simp: due_owned_def dl2 own2)
    have filled: "map_of r2 t \<noteq> Some []" for t
      using "1.prems"(2) add_resume_filled by (simp add: r2_def)
    have run: "release_loop now s2 r2 = (r, s')" using "1.prems"(3) by (simp add: step)
    have IH: "sched_inv s' \<and> deadline_of s' = not_due now (deadline_of s2) \<and>
      set (rs_ownedPause s') = set (rs_ownedPause s2) - due_owned now s2 \<and>
      (\<forall>t. map_of r t \<noteq> Some [] \<and> mset (resumed r t) = mset (resumed r2 t) + mset_set (of_topic t (due_owned now s2)))"
    proof (cases "p \<in> set (rs_ownedPause s)")
      case own: True
      show ?thesis using "1.IH"(2) [OF True take [symmetric]] own inv2 filled run by (simp add: s2_def r2_def T(4))
    next
      case own: False
      show ?thesis using "1.IH"(1) [OF True take [symmetric]] own inv2 filled run by (simp add: s2_def r2_def T(4))
    qed
    have "mset (resumed r2 t) + mset_set (of_topic t (due_owned now s2)) =
        mset (resumed resume t) + mset_set (of_topic t (due_owned now s))" for t
    proof (cases "p \<in> set (rs_ownedPause s)")
      case own: True
      then have "due_owned now s = insert p (due_owned now s2)" "p \<notin> due_owned now s2"
        using d by (auto simp: due2) (auto simp: due_owned_def)
      then show ?thesis using of_topic_insert [of p "due_owned now s2" t] own
        by (auto simp: r2_def resumed_add_resume of_topic_def)
    next
      case own: False
      then have "p \<notin> due_owned now s" by (simp add: due_owned_def)
      then have "due_owned now s2 = due_owned now s" by (simp add: due2)
      then show ?thesis using own by (simp add: r2_def)
    qed
    moreover have "p \<in> due_owned now s" if "p \<in> set (rs_ownedPause s)" using that d by (simp add: due_owned_def)
    ultimately show ?thesis using IH not_due_drop [of "deadline_of s" p d now] d by (auto simp: dl2 own2 due2)
  qed
qed

lemma releaseDue_ok:
  assumes "sched_inv s" and "releaseDue now s = (r, s')"
  shows "sched_inv s'" and "deadline_of s' = not_due now (deadline_of s)"
    and "set (rs_ownedPause s') = set (rs_ownedPause s) - due_owned now s"
    and "map_of r t = (let P = of_topic t (due_owned now s) in if P = {} then None else Some (sorted_list_of_set P))"
proof -
  obtain r0 where loop: "release_loop now s [] = (r0, s')" and r: "r = map (\<lambda>(t, ps). (t, sort ps)) r0"
    using assms(2) by (auto simp: releaseDue_def split: prod.splits)
  note L = release_loop_ok [OF assms(1) _ loop, simplified]
  from L show "sched_inv s'" "deadline_of s' = not_due now (deadline_of s)"
    "set (rs_ownedPause s') = set (rs_ownedPause s) - due_owned now s" by simp_all
  let ?P = "of_topic t (due_owned now s)"
  have fin: "finite ?P" by (simp add: of_topic_def)
  have ne: "map_of r0 t \<noteq> Some []" and ms: "mset (resumed r0 t) = mset_set ?P" using L by (simp_all add: resumed_def)
  have m: "map_of r t = map_option sort (map_of r0 t)" unfolding r by (induction r0) auto
  show "map_of r t = (let P = ?P in if P = {} then None else Some (sorted_list_of_set P))"
  proof (cases "map_of r0 t")
    case None
    then have "?P = {}" using ms fin by (simp add: resumed_def) (metis mset_set_empty_iff)
    then show ?thesis using None by (simp add: m Let_def)
  next
    case (Some ps)
    then have "mset ps = mset_set ?P" "ps \<noteq> []" using ms ne by (auto simp: resumed_def)
    moreover from this(1) have "sort ps = sorted_list_of_set ?P"
      by (metis sorted_list_of_mset_set sorted_list_of_multiset_mset)
    ultimately show ?thesis using Some fin by (auto simp: m Let_def)
  qed
qed

section \<open>Poll timeouts\<close>

lemma pollTimeout_below:
  assumes "sched_inv s" and "deadline_of s p = Some d" and "now < d" and "d - now \<le> max_int64"
  shows "pollTimeout s now maximum \<le> d - now"
proof -
  have core: "sched_core s" using assms(1) by (simp add: sched_inv_def)
  note F = first_deadline_least [OF core assms(2)]
  then show ?thesis using assms(3,4) by (auto simp: pollTimeout_def time_Sub_def max_def min_def max_int64_def)
qed

lemma pollTimeout_positive:
  assumes inv: "sched_inv s" and late: "\<And>p d. deadline_of s p = Some d \<Longrightarrow> now < d" and "0 < maximum"
  shows "0 < pollTimeout s now maximum"
proof (cases "rs_deadlines s = []")
  case False
  have link: "linked s" using inv by (simp add: sched_inv_def sched_core_def)
  let ?a = "rs_deadlines s ! 0"
  have "map_of (rs_partitions s) (dp_topicPartition (rs_items s ?a)) = Some ?a"
    using False by (intro linked_lookup [OF link]) simp
  then have "deadline_of s (dp_topicPartition (rs_items s ?a)) = Some (dp_deadline (rs_items s ?a))"
    by (simp add: deadline_of_def)
  then have "now < dp_deadline (rs_items s ?a)" by (rule late)
  then show ?thesis using assms(3) False
    by (auto simp: pollTimeout_def time_Sub_def max_def min_def max_int64_def)
qed (use assms(3) in \<open>simp add: pollTimeout_def\<close>)

section \<open>The contract of a partition scheduler\<close>

text \<open>
  What a worker relies on: a scheduler holds one deadline per deferred partition, releases exactly the deadlines
  that have passed, resumes the partitions it paused itself, and never sleeps past a deadline.
\<close>

locale partition_scheduler =
  fixes inv :: "'s \<Rightarrow> bool"
    and deadlines :: "'s \<Rightarrow> topicPartition \<rightharpoonup> instant"
    and owned :: "'s \<Rightarrow> topicPartition set"
    and put :: "topicPartition \<Rightarrow> instant \<Rightarrow> bool \<Rightarrow> 's \<Rightarrow> 's"
    and release :: "instant \<Rightarrow> 's \<Rightarrow> (string, int list) table \<times> 's"
    and wait :: "'s \<Rightarrow> instant \<Rightarrow> duration \<Rightarrow> duration"
  assumes owned_finite: "finite (owned s)"
    and put_inv: "inv s \<Longrightarrow> inv (put p d b s)"
    and put_deadlines: "inv s \<Longrightarrow> deadlines (put p d b s) = (deadlines s)(p \<mapsto> d)"
    and put_owned: "inv s \<Longrightarrow> owned (put p d b s) = (if b then {p} else {}) \<union> owned s"
    and release_inv: "inv s \<Longrightarrow> release now s = (r, s') \<Longrightarrow> inv s'"
    and release_deadlines: "inv s \<Longrightarrow> release now s = (r, s') \<Longrightarrow> deadlines s' = not_due now (deadlines s)"
    and release_owned: "inv s \<Longrightarrow> release now s = (r, s') \<Longrightarrow>
      owned s' = owned s - {p. \<exists>d. deadlines s p = Some d \<and> d \<le> now}"
    and release_resumes: "inv s \<Longrightarrow> release now s = (r, s') \<Longrightarrow>
      map_of r t = (let P = of_topic t {p \<in> owned s. \<exists>d. deadlines s p = Some d \<and> d \<le> now}
        in if P = {} then None else Some (sorted_list_of_set P))"
    and wait_positive: "inv s \<Longrightarrow> (\<And>p d. deadlines s p = Some d \<Longrightarrow> now < d) \<Longrightarrow> 0 < maximum \<Longrightarrow>
      0 < wait s now maximum"
    and wait_below: "inv s \<Longrightarrow> deadlines s p = Some d \<Longrightarrow> now < d \<Longrightarrow> d - now \<le> max_int64 \<Longrightarrow>
      wait s now maximum \<le> d - now"
begin

lemma never_spins:
  assumes "inv s" and "release now s = (r, s')" and "0 < maximum"
  shows "0 < wait s' now maximum"
  using release_inv [OF assms(1,2)] _ assms(3)
  by (rule wait_positive) (auto simp: release_deadlines [OF assms(1,2)] not_due_def split: option.splits if_splits)

text \<open>A partition deferred to \<open>d\<close> stays deferred through releases before \<open>d\<close> and is resumed by the first one after.\<close>

lemma deferred_until_due:
  assumes "inv s" and "release now (put p d True s) = (r, s')"
  shows "if d \<le> now then deadlines s' p = None \<and> p \<notin> owned s' \<and> tp_partition p \<in> set (resumed r (tp_topic p))
    else deadlines s' p = Some d \<and> p \<in> owned s' \<and> tp_partition p \<notin> set (resumed r (tp_topic p))"
proof -
  note P = put_inv [OF assms(1)] and L = release_deadlines [OF put_inv [OF assms(1)] assms(2)]
    release_owned [OF put_inv [OF assms(1)] assms(2)] release_resumes [OF put_inv [OF assms(1)] assms(2)]
  let ?D = "{q \<in> owned (put p d True s). \<exists>e. deadlines (put p d True s) q = Some e \<and> e \<le> now}"
  have p: "p \<in> owned (put p d True s)" "deadlines (put p d True s) p = Some d"
    by (simp_all add: put_owned [OF assms(1)] put_deadlines [OF assms(1)])
  have "finite (of_topic (tp_topic p) ?D)" using owned_finite by (simp add: of_topic_def)
  then have "set (resumed r (tp_topic p)) = of_topic (tp_topic p) ?D"
    using L(3) [of "tp_topic p"] by (auto simp: resumed_def Let_def)
  then have "tp_partition p \<in> set (resumed r (tp_topic p)) \<longleftrightarrow> p \<in> ?D" by (simp only: of_topic_iff)
  then show ?thesis using p L(1,2) by (auto simp: not_due_def)
qed

end

interpretation heap_scheduler: partition_scheduler sched_inv deadline_of "\<lambda>s. set (rs_ownedPause s)" schedule releaseDue
  pollTimeout
proof unfold_locales
  fix s now r s' t
  assume a: "sched_inv s" "releaseDue now s = (r, s')"
  note R = releaseDue_ok [OF a]
  show "sched_inv s'" "deadline_of s' = not_due now (deadline_of s)" using R by auto
  show "set (rs_ownedPause s') = set (rs_ownedPause s) - {p. \<exists>d. deadline_of s p = Some d \<and> d \<le> now}"
    unfolding R(3) by (auto simp: due_owned_def)
  show "map_of r t = (let P = of_topic t {p \<in> set (rs_ownedPause s). \<exists>d. deadline_of s p = Some d \<and> d \<le> now}
      in if P = {} then None else Some (sorted_list_of_set P))"
    using R(4) by (simp add: due_owned_def)
qed (use schedule_ok pollTimeout_positive pollTimeout_below in auto)

section \<open>Properties\<close>

text \<open>Any interleaving of deferrals and releases, and the deadline map it stands for.\<close>

datatype sched_call = CallSchedule topicPartition instant bool | CallRelease instant

fun sched_step :: "sched_call \<Rightarrow> retryPartitionScheduler \<Rightarrow> retryPartitionScheduler" where
  "sched_step (CallSchedule p d owns) s = schedule p d owns s"
| "sched_step (CallRelease now) s = snd (releaseDue now s)"

fun spec_step :: "sched_call \<Rightarrow> (topicPartition \<rightharpoonup> instant) \<times> topicPartition set \<Rightarrow>
    (topicPartition \<rightharpoonup> instant) \<times> topicPartition set" where
  "spec_step (CallSchedule p d owns) (q, own) = (q(p \<mapsto> d), if owns then insert p own else own)"
| "spec_step (CallRelease now) (q, own) = (not_due now q, {p \<in> own. \<nexists>d. q p = Some d \<and> d \<le> now})"

definition sched_view :: "retryPartitionScheduler \<Rightarrow> (topicPartition \<rightharpoonup> instant) \<times> topicPartition set" where
  "sched_view s = (deadline_of s, set (rs_ownedPause s))"

lemma sched_step_refines:
  assumes "sched_inv s"
  shows "sched_inv (sched_step c s) \<and> sched_view (sched_step c s) = spec_step c (sched_view s)"
proof (cases c)
  case (CallSchedule p d owns)
  then show ?thesis using schedule_ok [OF assms] by (simp add: sched_view_def)
next
  case (CallRelease now)
  obtain r s' where rel: "releaseDue now s = (r, s')" by force
  note R = releaseDue_ok [OF assms rel]
  then show ?thesis by (auto simp: CallRelease rel sched_view_def R(2,3) due_owned_def)
qed

lemma sched_run_refines:
  "sched_inv s \<Longrightarrow> sched_inv (fold sched_step calls s) \<and>
    sched_view (fold sched_step calls s) = fold spec_step calls (sched_view s)"
  by (induction calls arbitrary: s) (simp_all add: sched_step_refines)

lemma scheduler_run:
  fixes calls m
  defines "s \<equiv> fold sched_step calls (newRetryPartitionScheduler m)"
  shows "sched_view s = fold spec_step calls (Map.empty, {}) \<and>
    resumed (fst (releaseDue now s)) t =
      sorted_list_of_set (of_topic t {p \<in> set (rs_ownedPause s). \<exists>d. deadline_of s p = Some d \<and> d \<le> now}) \<and>
    0 < pollTimeout (snd (releaseDue now s)) now 1000000000"
proof -
  have inv: "sched_inv s" and view: "sched_view s = fold spec_step calls (sched_view (newRetryPartitionScheduler m))"
    using sched_run_refines [OF new_inv] by (simp_all add: s_def)
  have empty: "sched_view (newRetryPartitionScheduler m) = (Map.empty, {})"
    by (simp add: sched_view_def new_deadline_of) (simp add: newRetryPartitionScheduler_def)
  obtain r s' where rel: "releaseDue now s = (r, s')" by force
  have "resumed r t = sorted_list_of_set (of_topic t {p \<in> set (rs_ownedPause s). \<exists>d. deadline_of s p = Some d \<and> d \<le> now})"
    by (simp add: resumed_def heap_scheduler.release_resumes [OF inv rel] Let_def)
  then show ?thesis using view empty heap_scheduler.never_spins [OF inv rel] by (simp add: rel)
qed

text \<open>C23. The retry scheduler implements a map of deadlines. After any sequence of deferrals and releases, the
  heap, the lookup map and the indexes inside the items agree with the map from partitions to their last
  deadlines; a release resumes, sorted, exactly the due partitions whose pause the worker owns; and the
  poll timeout after a release is positive, so the worker never spins.\<close>

theorem scheduler_refines_deadline_map:
  "let s = fold sched_step calls (newRetryPartitionScheduler m) in
    sched_view s = fold spec_step calls (Map.empty, {}) \<and>
    resumed (fst (releaseDue now s)) t =
      sorted_list_of_set (of_topic t {p \<in> set (rs_ownedPause s). \<exists>d. deadline_of s p = Some d \<and> d \<le> now}) \<and>
    0 < pollTimeout (snd (releaseDue now s)) now 1000000000"
  unfolding Let_def by (rule scheduler_run)

end
