(* ===== verification/Programs.thy ===== *)
theory Programs
  imports Prelude "HOL-Library.State_Monad"
begin

text \<open>
  Programs that talk to a system outside the repository. What the outside answers is a parameter of such a program, one answer per
  point of time, and nothing is assumed about it. A step counter is the time; every question to the outside (the clock, a
  context, a broker) takes a step, so that no two questions need the same answer. The calls that matter are kept in a log together with
  their answers, and the theorems speak about that log. Programs are values of the state monad; the type of the log entries is a
  parameter, so that the Kafka and the NATS adapter share the calculus below.
\<close>

section \<open>Worlds\<close>

record 'e kworld =
  kw_step :: nat
  kw_calls :: "'e list"

section \<open>Programs\<close>

definition ask :: "(nat \<Rightarrow> 'a) \<Rightarrow> (('e, 'w) kworld_scheme, 'a) state" where
  "ask f = State (\<lambda>w. (f (kw_step w), w\<lparr>kw_step := Suc (kw_step w)\<rparr>))"

definition emit :: "'e \<Rightarrow> (('e, 'w) kworld_scheme, unit) state" where
  "emit ev = State (\<lambda>w. ((), w\<lparr>kw_calls := kw_calls w @ [ev]\<rparr>))"

definition k_return :: "'a \<Rightarrow> ('w, 'a) state" where
  "k_return x = State (\<lambda>w. (x, w))"

lemma run_k_return [simp]: "run_state (k_return x) w = (x, w)"
  by (simp add: k_return_def)

lemma run_bind [simp]:
  "run_state (State_Monad.bind m f) w = (case run_state m w of (x, w') \<Rightarrow> run_state (f x) w')"
  by (simp add: State_Monad.bind_def)

lemma run_ask [simp]: "run_state (ask f) w = (f (kw_step w), w\<lparr>kw_step := Suc (kw_step w)\<rparr>)"
  by (simp add: ask_def)

lemma run_emit [simp]: "run_state (emit ev) w = ((), w\<lparr>kw_calls := kw_calls w @ [ev]\<rparr>)"
  by (simp add: emit_def)

text \<open>
  A program only adds to the log. \<open>yields m w Q\<close> says that \<open>Q\<close> holds of the result, of what \<open>m\<close> adds to the log
  when it runs in the world \<open>w\<close>, and of the world after it; the rules follow the structure of programs.
\<close>

definition yields ::
  "(('e, 'w) kworld_scheme, 'a) state \<Rightarrow> ('e, 'w) kworld_scheme \<Rightarrow> ('a \<Rightarrow> 'e list \<Rightarrow> ('e, 'w) kworld_scheme \<Rightarrow> bool) \<Rightarrow> bool" where
  "yields m w Q \<longleftrightarrow>
    (\<exists>evs. kw_calls (snd (run_state m w)) = kw_calls w @ evs \<and> Q (fst (run_state m w)) evs (snd (run_state m w)))"

lemma yieldsD: "yields m w Q \<Longrightarrow> run_state m w = (x, w') \<Longrightarrow> \<exists>evs. kw_calls w' = kw_calls w @ evs \<and> Q x evs w'"
  by (simp add: yields_def)

lemma yields_mono: "yields m w Q \<Longrightarrow> (\<And>x evs w'. Q x evs w' \<Longrightarrow> R x evs w') \<Longrightarrow> yields m w R"
  unfolding yields_def by blast

lemma yields_bind:
  assumes "yields m w R" and "\<And>x evs v. R x evs v \<Longrightarrow> yields (f x) v (\<lambda>y evs' w'. Q y (evs @ evs') w')"
  shows "yields (State_Monad.bind m f) w Q"
proof -
  obtain x v where m: "run_state m w = (x, v)" by force
  obtain evs where evs: "kw_calls v = kw_calls w @ evs" "R x evs v" using yieldsD [OF assms(1) m] by blast
  obtain evs' where "kw_calls (snd (run_state (f x) v)) = kw_calls v @ evs'"
      "Q (fst (run_state (f x) v)) (evs @ evs') (snd (run_state (f x) v))"
    using assms(2) [OF evs(2)] by (auto simp: yields_def)
  with evs(1) m show ?thesis by (auto simp: yields_def)
qed

lemma yields_return: "Q x [] w \<Longrightarrow> yields (k_return x) w Q"
  by (simp add: yields_def)

text \<open>A program that leaves everything but the step counter alone.\<close>

definition kept :: "('e, 'w) kworld_scheme \<Rightarrow> ('e, 'w) kworld_scheme \<Rightarrow> bool" where
  "kept w w' \<longleftrightarrow> w' = w\<lparr>kw_step := kw_step w', kw_calls := kw_calls w'\<rparr>"

lemma kept_refl [simp]: "kept w w"
  by (simp add: kept_def)

lemma kept_trans: "kept u v \<Longrightarrow> kept v w \<Longrightarrow> kept u w"
  unfolding kept_def by (metis kworld.surjective kworld.update_convs)

lemma yields_ask: "yields (ask f) w (\<lambda>x evs w'. (\<exists>n. x = f n) \<and> evs = [] \<and> kept w w')"
  by (auto simp: yields_def kept_def)

lemma yields_emit: "yields (emit ev) w (\<lambda>_ evs w'. evs = [ev] \<and> kept w w')"
  by (simp add: yields_def kept_def)

end
