(* ===== verification/KafkaBroker.thy ===== *)
theory KafkaBroker
  imports KafkaDlq KafkaScheduler Programs
begin

text \<open>
  The world of the Kafka adapter. The broker client is not part of the repository: what it answers is the parameter record
  \<open>kbroker\<close>, one answer per point of time, and nothing is assumed about it. The calls to the client are the events of the
  log.
\<close>

section \<open>Answers and calls\<close>

record epochOffset =
  eo_Epoch :: int
  eo_Offset :: int

record fetched =
  ft_Records :: "krecord list"
  ft_Errors :: "(topicPartition \<times> err) list"

datatype kevent =
    EvBegin "err option"
  | EvProduce "krecord list" "err option"
  | EvEnd bool bool "err option"
  | EvPause topicPartition
  | EvResume "(string, int list) table"
  | EvSetOffset topicPartition epochOffset
  | EvPoll fetched
  | EvAllowRebalance
  | EvClose
  | EvAcquire
  | EvRelease

record kbroker =
  kb_clock :: "nat \<Rightarrow> instant"
  kb_ctx :: "nat \<Rightarrow> err option"
  kb_drain :: "nat \<Rightarrow> bool"
  kb_pick :: "nat \<Rightarrow> bool"
  kb_random :: "nat \<Rightarrow> int \<Rightarrow> int option"
  kb_begin :: "nat \<Rightarrow> err option"
  kb_produce :: "nat \<Rightarrow> krecord list \<Rightarrow> err option"
  kb_end :: "nat \<Rightarrow> bool \<Rightarrow> bool \<times> err option"
  kb_expired :: "nat \<Rightarrow> bool"
  kb_poll :: "nat \<Rightarrow> fetched \<times> sentinel option"
  kb_paused :: "nat \<Rightarrow> (string, int list) table"
  kb_committed :: "nat \<Rightarrow> topicPartition \<Rightarrow> epochOffset option"
  kb_uncommitted :: "nat \<Rightarrow> topicPartition \<Rightarrow> epochOffset option"
  kb_group :: "nat \<Rightarrow> string \<times> int"

section \<open>Calls of the client\<close>

definition clock_now :: "kbroker \<Rightarrow> ((kevent, 'w) kworld_scheme, instant) state" where
  "clock_now B = ask (kb_clock B)"

definition ctxErr :: "kbroker \<Rightarrow> ((kevent, 'w) kworld_scheme, err option) state" where
  "ctxErr B = ask (kb_ctx B)"

definition Begin :: "kbroker \<Rightarrow> ((kevent, 'w) kworld_scheme, err option) state" where
  "Begin B = do { e \<leftarrow> ask (kb_begin B); _ \<leftarrow> emit (EvBegin e); k_return e }"

definition ProduceSync :: "kbroker \<Rightarrow> krecord list \<Rightarrow> ((kevent, 'w) kworld_scheme, err option) state" where
  "ProduceSync B records = do {
     e \<leftarrow> ask (\<lambda>n. kb_produce B n records);
     _ \<leftarrow> emit (EvProduce records e);
     k_return e }"

definition End :: "kbroker \<Rightarrow> bool \<Rightarrow> ((kevent, 'w) kworld_scheme, bool \<times> err option) state" where
  "End B commit = do {
     (committed, e) \<leftarrow> ask (\<lambda>n. kb_end B n commit);
     _ \<leftarrow> emit (EvEnd commit committed e);
     k_return (committed, e) }"

text \<open>The plain client reports a transaction end by its error alone.\<close>

definition EndTransaction :: "kbroker \<Rightarrow> bool \<Rightarrow> ((kevent, 'w) kworld_scheme, err option) state" where
  "EndTransaction B commit = do {
     (_, e) \<leftarrow> ask (\<lambda>n. kb_end B n commit);
     _ \<leftarrow> emit (EvEnd commit (commit \<and> e = None) e);
     k_return e }"

lemma yields_clock: "yields (clock_now B) w (\<lambda>t evs w'. (\<exists>n. t = kb_clock B n) \<and> evs = [] \<and> kept w w')"
  unfolding clock_now_def by (rule yields_ask)

lemma yields_ctxErr: "yields (ctxErr B) w (\<lambda>e evs w'. (\<exists>n. e = kb_ctx B n) \<and> evs = [] \<and> kept w w')"
  unfolding ctxErr_def by (rule yields_ask)

lemma yields_Begin: "yields (Begin B) w (\<lambda>e evs w'. (\<exists>n. e = kb_begin B n) \<and> evs = [EvBegin e] \<and> kept w w')"
  by (auto simp: yields_def Begin_def kept_def)

lemma yields_ProduceSync:
  "yields (ProduceSync B rs) w (\<lambda>e evs w'. (\<exists>n. e = kb_produce B n rs) \<and> evs = [EvProduce rs e] \<and> kept w w')"
  by (auto simp: yields_def ProduceSync_def kept_def)

lemma yields_End:
  "yields (End B commit) w (\<lambda>a evs w'. (\<exists>n. a = kb_end B n commit) \<and> evs = [EvEnd commit (fst a) (snd a)] \<and> kept w w')"
  by (cases "kb_end B (kw_step w) commit") (auto simp: yields_def End_def kept_def intro!: exI [of _ "kw_step w"])

lemma yields_EndTransaction:
  "yields (EndTransaction B commit) w (\<lambda>e evs w'. (\<exists>n. e = snd (kb_end B n commit)) \<and> evs = [EvEnd commit (commit \<and> e = None) e] \<and> kept w w')"
  by (cases "kb_end B (kw_step w) commit") (auto simp: yields_def EndTransaction_def kept_def intro!: exI [of _ "kw_step w"])

text \<open>
  The log of a transaction that the client committed. A watchdog may close the session while records are produced;
  this is no part of the transaction.
\<close>

definition visible :: "kevent list \<Rightarrow> kevent list" where
  "visible evs = filter (\<lambda>ev. ev \<noteq> EvClose) evs"

definition committed_tx :: "krecord list \<Rightarrow> kevent list" where
  "committed_tx rs = EvBegin None # (if rs = [] then [] else [EvProduce rs None]) @ [EvEnd True True None]"

abbreviation commit_event :: kevent where
  "commit_event \<equiv> EvEnd True True None"

text \<open>A broker that answers every transaction without an error, under a context that does not end.\<close>

definition healthy :: "kbroker \<Rightarrow> bool" where
  "healthy B \<longleftrightarrow> (\<forall>n. kb_begin B n = None \<and> (\<forall>rs. kb_produce B n rs = None) \<and> kb_end B n True = (True, None) \<and> kb_ctx B n = None)"

end
