(* ===== verification/KafkaConsumer.thy ===== *)
theory KafkaConsumer
  imports KafkaBroker Invocation InboxSqlite InboxPgsql
begin

text \<open>
  The durable Kafka consumer, \<open>adapters/kafka/consumer.go\<close>: construction, preparing and processing of one record,
  and the transactional hand-offs to the retry and dead-letter topics. The inbox store is the model of
  \<open>adapters/inbox\<close> with an arbitrary backend; the middlewares and the handler run on its business database.
  Loggers, context propagators and panic reporters have no effect on the state and are left out.
\<close>

section \<open>Configuration\<close>

text \<open>An interface value: nil, a nil pointer, or an implementation.\<close>

datatype iface = NilInterface | NilPointer | Implemented

definition nilValue :: "iface \<Rightarrow> bool" where
  "nilValue v \<longleftrightarrow> v \<noteq> Implemented"

record 'b handlerConfig =
  hc_Namespace :: string
  hc_ConsumerID :: string
  hc_Concurrency :: int
  hc_Timeout :: duration
  hc_FinalizationTimeout :: duration
  hc_MaxAttempts :: int
  hc_BaseRetry :: duration
  hc_MaxRetry :: duration
  hc_RetryTiers :: "duration list"
  hc_Observers :: "iface list"
  hc_Middlewares :: "('b, err option) middleware option list"
  hc_PanicReporter :: iface
  hc_FailureSanitizer :: sanitizer

definition seconds :: "int \<Rightarrow> duration" where
  "seconds n = n * 1000000000"

definition applyConsumerDefaults :: "'b handlerConfig \<Rightarrow> 'b handlerConfig" where
  "applyConsumerDefaults cfg = cfg\<lparr>
     hc_Concurrency := (if hc_Concurrency cfg = 0 then 1 else hc_Concurrency cfg),
     hc_Timeout := (if hc_Timeout cfg = 0 then seconds 30 else hc_Timeout cfg),
     hc_FinalizationTimeout := (if hc_FinalizationTimeout cfg = 0 then seconds 5 else hc_FinalizationTimeout cfg),
     hc_MaxAttempts := (if hc_MaxAttempts cfg = 0 then 10 else hc_MaxAttempts cfg),
     hc_BaseRetry := (if hc_BaseRetry cfg = 0 then seconds 1 else hc_BaseRetry cfg),
     hc_MaxRetry := (if hc_MaxRetry cfg = 0 then seconds 300 else hc_MaxRetry cfg),
     hc_RetryTiers :=
       (if hc_RetryTiers cfg = [] then [seconds 1, seconds 10, seconds 60, seconds 300] else hc_RetryTiers cfg)\<rparr>"

definition applyObservabilityDefaults :: "'b handlerConfig \<Rightarrow> err + 'b handlerConfig" where
  "applyObservabilityDefaults cfg =
    (if hc_PanicReporter cfg = NilPointer then Inl (kafka_config_err ''nil panic reporter'')
     else let cfg = (if hc_FailureSanitizer cfg = None
              then cfg\<lparr>hc_FailureSanitizer := Some (\<lambda>e. Some (adapter_defaultSanitizer kafka_adapter e))\<rparr> else cfg) in
       if list_ex nilValue (hc_Observers cfg) then Inl (kafka_config_err ''nil observer'')
       else if None \<in> set (hc_Middlewares cfg) then Inl (kafka_config_err ''nil middleware'')
       else Inr cfg)"

section \<open>Messages and consumers\<close>

record 'b decodedMessage =
  dm_metadata :: metadata
  dm_canonical :: string
  dm_handle :: "('b, err option) terminal"

type_synonym 'b decoder = "envelope \<Rightarrow> err + 'b decodedMessage"
type_synonym ('b, 't) typed_handler = "nat \<Rightarrow> metadata \<times> 't \<Rightarrow> 'b \<Rightarrow> err option outcome \<times> 'b"

record 'b kconsumer =
  kc_store :: "'b backend"
  kc_config :: "'b handlerConfig"
  kc_descriptor :: descriptorInfo
  kc_decode :: "'b decoder"
  kc_sourceTopic :: string
  kc_groupID :: string
  kc_retryTopics :: "string list"
  kc_replayTopic :: string
  kc_dlqTopic :: string
  kc_topics :: "string list"

definition SupportsAttempts :: "'b backend \<Rightarrow> bool" where
  "SupportsAttempts be \<longleftrightarrow> be_attempts be \<noteq> None"

definition SupportsTerminalRetention :: "'b backend \<Rightarrow> bool" where
  "SupportsTerminalRetention be \<longleftrightarrow> be_terminal be \<noteq> None"

text \<open>The retry topics of the tiers from \<open>i\<close> on.\<close>

fun retry_topics :: "string \<Rightarrow> string \<Rightarrow> nat \<Rightarrow> nat \<Rightarrow> err + string list" where
  "retry_topics source consumerID i 0 = Inr []"
| "retry_topics source consumerID i (Suc n) =
    (case retryTopic source consumerID (int i) of
       Inl e \<Rightarrow> Inl e
     | Inr topic \<Rightarrow>
        (case retry_topics source consumerID (Suc i) n of Inl e \<Rightarrow> Inl e | Inr topics \<Rightarrow> Inr (topic # topics)))"

definition config_rejected :: "'b handlerConfig \<Rightarrow> bool" where
  "config_rejected cfg \<longleftrightarrow>
    hc_Concurrency cfg < 1 \<or> hc_Concurrency cfg > 128 \<or> hc_Timeout cfg \<le> 0 \<or> hc_FinalizationTimeout cfg \<le> 0 \<or>
    hc_MaxAttempts cfg \<le> 0 \<or> hc_BaseRetry cfg \<le> 0 \<or> hc_MaxRetry cfg < hc_BaseRetry cfg \<or>
    hc_RetryTiers cfg = [] \<or> length (hc_RetryTiers cfg) > 16"

definition newConsumer ::
  "bool \<Rightarrow> 'b backend option \<Rightarrow> descriptorInfo \<Rightarrow> 'b handlerConfig \<Rightarrow> 'b decoder option \<Rightarrow> err + 'b kconsumer" where
  "newConsumer hasTransport store descriptor config decode =
    (case applyObservabilityDefaults (applyConsumerDefaults config) of
       Inl e \<Rightarrow> Inl e
     | Inr cfg \<Rightarrow>
        (case (store, decode) of
           (Some be, Some dec) \<Rightarrow>
            if \<not> hasTransport \<or> \<not> SupportsAttempts be \<or> config_rejected cfg then Inl (kafka_config_err ''durable consumer'')
            else (case validateRetryTiers (hc_RetryTiers cfg) of
               Some e \<Rightarrow> Inl e
             | None \<Rightarrow>
                (case Topic (hc_Namespace cfg) descriptor of
                   Inl e \<Rightarrow> Inl e
                 | Inr source \<Rightarrow>
                    (case consumerGroup source (hc_ConsumerID cfg) of
                       Inl e \<Rightarrow> Inl e
                     | Inr groupName \<Rightarrow>
                        (case retry_topics source (hc_ConsumerID cfg) 0 (length (hc_RetryTiers cfg)) of
                           Inl e \<Rightarrow> Inl e
                         | Inr retries \<Rightarrow>
                            (case replayTopic source (hc_ConsumerID cfg) of
                               Inl e \<Rightarrow> Inl e
                             | Inr replay \<Rightarrow>
                                (case dlqTopic source (hc_ConsumerID cfg) of
                                   Inl e \<Rightarrow> Inl e
                                 | Inr dlq \<Rightarrow>
                                    Inr \<lparr>kc_store = be, kc_config = cfg, kc_descriptor = descriptor, kc_decode = dec,
                                         kc_sourceTopic = source, kc_groupID = groupName, kc_retryTopics = retries,
                                         kc_replayTopic = replay, kc_dlqTopic = dlq,
                                         kc_topics = source # retries @ [replay]\<rparr>))))))
         | _ \<Rightarrow> Inl (kafka_config_err ''durable consumer'')))"

definition typed_decoder :: "wire_lib \<Rightarrow> 't typed_codec \<Rightarrow> ('b, 't) typed_handler \<Rightarrow> 'b decoder" where
  "typed_decoder L codec handler env =
    (let metadata = Metadata env in
     case ev_payload L env of
       Inl e \<Rightarrow> Inl e
     | Inr payloadBytes \<Rightarrow>
        (case MarshalEnvelope L metadata payloadBytes (ev_DataEncoding env) of
           Inl e \<Rightarrow> Inl e
         | Inr canonical \<Rightarrow>
            (case tc_Decode codec payloadBytes of
               Inl e \<Rightarrow> Inl e
             | Inr payload \<Rightarrow>
                Inr \<lparr>dm_metadata = metadata, dm_canonical = canonical, dm_handle = (\<lambda>c. handler c (metadata, payload))\<rparr>)))"

definition NewCommandConsumer ::
  "wire_lib \<Rightarrow> bool \<Rightarrow> 'b backend option \<Rightarrow> descriptorInfo \<Rightarrow> 't typed_codec \<Rightarrow> ('b, 't) typed_handler option \<Rightarrow>
    'b handlerConfig \<Rightarrow> err + 'b kconsumer" where
  "NewCommandConsumer L hasTransport store descriptor codec handler config =
    (case handler of
       None \<Rightarrow> Inl (kafka_config_err ''nil command handler'')
     | Some h \<Rightarrow> newConsumer hasTransport store descriptor config (Some (typed_decoder L codec h)))"

definition NewEventConsumer ::
  "wire_lib \<Rightarrow> bool \<Rightarrow> 'b backend option \<Rightarrow> descriptorInfo \<Rightarrow> 't typed_codec \<Rightarrow> ('b, 't) typed_handler option \<Rightarrow>
    'b handlerConfig \<Rightarrow> err + 'b kconsumer" where
  "NewEventConsumer L hasTransport store descriptor codec handler config =
    (case handler of
       None \<Rightarrow> Inl (kafka_config_err ''nil event handler'')
     | Some h \<Rightarrow> newConsumer hasTransport store descriptor config (Some (typed_decoder L codec h)))"

section \<open>The world of a consumer\<close>

record observation =
  ob_Operation :: string
  ob_MessageID :: messageID
  ob_Kind :: kind
  ob_Name :: string
  ob_SchemaVersion :: int
  ob_ConsumerID :: string
  ob_Attempt :: nat
  ob_Duplicate :: bool
  ob_RetryDelay :: duration
  ob_StartedAt :: instant
  ob_Duration :: duration
  ob_Err :: "err option"

record 'b cworld = "kevent kworld" +
  cw_conn :: "'b db conn"
  cw_observed :: "observation list"

text \<open>
  What the consumer uses of other libraries: the broker, the JSON library, SHA-256, the two texts of an instant,
  and the errors of the contexts middlewares and handlers run under; \<open>ke_handlerCtx\<close> is the delivery's own context.
\<close>

record 'b kenv =
  ke_broker :: kbroker
  ke_wire :: wire_lib
  ke_H :: "string \<Rightarrow> string"
  ke_timeJSON :: "instant \<Rightarrow> err + string"
  ke_format :: "instant \<Rightarrow> string"
  ke_parse :: "string \<Rightarrow> instant option"
  ke_ctxErr :: "'b \<Rightarrow> nat \<Rightarrow> err option"
  ke_handlerCtx :: nat

abbreviation ke_now :: "'b kenv \<Rightarrow> ('b cworld, instant) state" where
  "ke_now E \<equiv> clock_now (ke_broker E)"

definition on_store :: "('b, 'r) op \<Rightarrow> ('b cworld, 'r \<times> err option) state" where
  "on_store f = State (\<lambda>w. case f (cw_conn w) of (r, c) \<Rightarrow> (r, w\<lparr>cw_conn := c\<rparr>))"

definition notifyObservers :: "'b handlerConfig \<Rightarrow> observation \<Rightarrow> ('b cworld, unit) state" where
  "notifyObservers cfg obs =
    State (\<lambda>w. ((), w\<lparr>cw_observed := cw_observed w @ replicate (length (hc_Observers cfg)) obs\<rparr>))"

definition observeHandle ::
  "'b kenv \<Rightarrow> 'b kconsumer \<Rightarrow> metadata \<Rightarrow> nat \<Rightarrow> result \<Rightarrow> duration \<Rightarrow> instant \<Rightarrow> err option \<Rightarrow> ('b cworld, unit) state" where
  "observeHandle E co m attempt result retry startedAt e = do {
     t \<leftarrow> ke_now E;
     notifyObservers (kc_config co)
       \<lparr>ob_Operation = ''handle'', ob_MessageID = md_ID m, ob_Kind = md_Kind m, ob_Name = md_Name m,
        ob_SchemaVersion = md_SchemaVersion m, ob_ConsumerID = hc_ConsumerID (kc_config co), ob_Attempt = attempt,
        ob_Duplicate = res_Duplicate result, ob_RetryDelay = retry, ob_StartedAt = startedAt,
        ob_Duration = time_Sub t startedAt,
        ob_Err = adapter_sanitizeError kafka_adapter (hc_FailureSanitizer (kc_config co)) e\<rparr> }"

definition observeBoundaryWithDuration ::
  "'b kconsumer \<Rightarrow> string \<Rightarrow> messageID \<Rightarrow> instant \<Rightarrow> duration \<Rightarrow> err option \<Rightarrow> ('b cworld, unit) state" where
  "observeBoundaryWithDuration co operation messageID startedAt span e =
    (if hc_Observers (kc_config co) = [] then k_return ()
     else notifyObservers (kc_config co)
       \<lparr>ob_Operation = operation, ob_MessageID = messageID, ob_Kind = di_Kind (kc_descriptor co),
        ob_Name = di_Name (kc_descriptor co), ob_SchemaVersion = di_SchemaVersion (kc_descriptor co),
        ob_ConsumerID = hc_ConsumerID (kc_config co), ob_Attempt = 0, ob_Duplicate = False, ob_RetryDelay = 0,
        ob_StartedAt = startedAt, ob_Duration = span,
        ob_Err = adapter_sanitizeError kafka_adapter (hc_FailureSanitizer (kc_config co)) e\<rparr>)"

definition observeBoundary ::
  "'b kenv \<Rightarrow> 'b kconsumer \<Rightarrow> string \<Rightarrow> messageID \<Rightarrow> instant \<Rightarrow> err option \<Rightarrow> ('b cworld, unit) state" where
  "observeBoundary E co operation messageID startedAt e = do {
     t \<leftarrow> ke_now E;
     observeBoundaryWithDuration co operation messageID startedAt (time_Sub t startedAt) e }"

section \<open>Preparing a record\<close>

record preparedRecord =
  pr_control :: controlMetadata
  pr_envelope :: envelope
  pr_observedAt :: instant
  pr_retryAt :: instant
  pr_failureKind :: string
  pr_failure :: "err option"
  pr_attempt :: nat
  pr_messageID :: string

definition zero_envelope :: envelope where
  "zero_envelope =
    \<lparr>ev_SpecVersion = [], ev_ID = 0, ev_Kind = [], ev_Name = [], ev_SchemaVersion = 0, ev_Source = [], ev_Subject = [],
     ev_Time = 0, ev_CorrelationID = 0, ev_CausationID = 0, ev_Key = [], ev_ContentType = [], ev_DataEncoding = 0,
     ev_Schema = [], ev_Headers = [], ev_NotBefore = 0, ev_ExpiresAt = 0, ev_Data = None, ev_DataBase64 = None\<rparr>"

definition prepared_failure ::
  "controlMetadata \<Rightarrow> instant \<Rightarrow> string \<Rightarrow> err \<Rightarrow> nat \<Rightarrow> string \<Rightarrow> preparedRecord" where
  "prepared_failure control observedAt kind e attempt messageID =
    \<lparr>pr_control = control, pr_envelope = zero_envelope, pr_observedAt = observedAt, pr_retryAt = 0, pr_failureKind = kind,
     pr_failure = Some e, pr_attempt = attempt, pr_messageID = messageID\<rparr>"

definition prepare_envelope ::
  "'b kenv \<Rightarrow> 'b kconsumer \<Rightarrow> krecord \<Rightarrow> controlMetadata \<Rightarrow> instant \<Rightarrow> preparedRecord" where
  "prepare_envelope E co r control t =
    (let attempt = max 1 (cm_attempt control) in
     case UnmarshalEnvelope (ke_wire E) (kr_Value r) of
       Inl e \<Rightarrow> prepared_failure control t ''decode'' e attempt []
     | Inr env \<Rightarrow>
        (let m = Metadata env; messageID = mid_String (md_ID m) in
         case validateEnvelopeDescriptor env (kc_descriptor co) of
           Some e \<Rightarrow> prepared_failure control t ''decode'' e attempt messageID
         | None \<Rightarrow>
            (case validateRecordKey (kr_Key r) m of
               Some e \<Rightarrow> prepared_failure control t ''identity_conflict'' e attempt messageID
             | None \<Rightarrow>
                (case retryDue (cm_notBefore control) (md_ExpiresAt m) t of
                   Inl e \<Rightarrow> prepared_failure control t ''expired'' e attempt messageID
                 | Inr retryAt \<Rightarrow>
                    if \<not> IsZeroTime retryAt
                    then \<lparr>pr_control = control, pr_envelope = zero_envelope, pr_observedAt = t, pr_retryAt = retryAt,
                          pr_failureKind = [], pr_failure = None, pr_attempt = 0, pr_messageID = []\<rparr>
                    else \<lparr>pr_control = control, pr_envelope = env, pr_observedAt = t, pr_retryAt = 0,
                          pr_failureKind = [], pr_failure = None, pr_attempt = 0, pr_messageID = []\<rparr>))))"

definition prepareRecord :: "'b kenv \<Rightarrow> 'b kconsumer \<Rightarrow> krecord \<Rightarrow> ('b cworld, preparedRecord) state" where
  "prepareRecord E co r =
    (case parseControl (ke_parse E) r (kc_sourceTopic co) (kc_replayTopic co) (kc_retryTopics co) of
       Inl e \<Rightarrow> k_return (prepared_failure (sourceControl r) 0 ''control'' e 1 [])
     | Inr control \<Rightarrow>
        if sp_topic (cm_source control) \<noteq> kc_sourceTopic co
        then k_return (prepared_failure control 0 ''control'' (kafka_invalid ''source topic mismatch'')
               (max 1 (cm_attempt control)) [])
        else do { t \<leftarrow> ke_now E; k_return (prepare_envelope E co r control t) })"

section \<open>Transactional hand-offs\<close>

definition commitTransactionalRecords ::
  "kbroker \<Rightarrow> krecord list \<Rightarrow> ((kevent, 'w) kworld_scheme, bool \<times> err option) state" where
  "commitTransactionalRecords B produced = do {
     begun \<leftarrow> Begin B;
     case begun of
       Some e \<Rightarrow> k_return (False, Some (Wrap ''messenger/kafka: begin consumer transaction'' [e]))
     | None \<Rightarrow> do {
         handed \<leftarrow> (if produced = [] then k_return None
                   else do {
                     expired \<leftarrow> ask (kb_expired B);
                     _ \<leftarrow> (if expired then emit EvClose else k_return ());
                     ProduceSync B produced });
         case handed of
           Some e \<Rightarrow> do {
             (_, abortErr) \<leftarrow> End B False;
             k_return (False, errors_Join [Some (Wrap ''messenger/kafka: transactional handoff'' [e]), abortErr]) }
         | None \<Rightarrow> do {
             (committed, e) \<leftarrow> End B True;
             case e of
               Some x \<Rightarrow> k_return (False, Some (Wrap ''messenger/kafka: commit consumer transaction'' [x]))
             | None \<Rightarrow> k_return (committed, None) } } }"

definition commitRecord :: "kbroker \<Rightarrow> krecord option \<Rightarrow> ((kevent, 'w) kworld_scheme, bool \<times> err option) state" where
  "commitRecord B produced = commitTransactionalRecords B (case produced of None \<Rightarrow> [] | Some r \<Rightarrow> [r])"

text \<open>A transaction that ended without an error and without a commit is reported as not committed.\<close>

definition handoff_error :: "bool \<times> err option \<Rightarrow> err option" where
  "handoff_error answer =
    (case answer of (committed, e) \<Rightarrow>
      if e = None \<and> \<not> committed then Some (Sentinel KafkaErrTransactionNotCommitted) else e)"

definition retry_record :: "'b kenv \<Rightarrow> string \<Rightarrow> krecord \<Rightarrow> string \<Rightarrow> controlMetadata \<Rightarrow> krecord" where
  "retry_record E topic r canonical control =
    \<lparr>kr_Topic = topic, kr_Partition = 0, kr_Offset = 0, kr_LeaderEpoch = 0, kr_Key = kr_Key r, kr_Value = canonical,
     kr_Headers = controlHeaders (ke_format E) control, kr_Timestamp = kr_Timestamp r\<rparr>"

text \<open>A tier without a topic is an index out of range, which panics.\<close>

definition index_panic :: err where
  "index_panic = Plain ''runtime error: index out of range''"

definition retryRecord ::
  "'b kenv \<Rightarrow> 'b kconsumer \<Rightarrow> krecord \<Rightarrow> string \<Rightarrow> controlMetadata \<Rightarrow> nat \<Rightarrow> duration \<Rightarrow> messageID \<Rightarrow>
    ('b cworld, err option) state" where
  "retryRecord E co r canonical control attempt delay messageID =
    (if delay \<le> 0 then k_return (Some (kafka_invalid ''non-positive durable retry delay''))
     else
       let tier = retryTier (hc_RetryTiers (kc_config co)) delay in
       do {
         t \<leftarrow> ke_now E;
         if tier < 0 \<or> nat tier \<ge> length (kc_retryTopics co) then k_return (Some index_panic)
         else do {
           startedAt \<leftarrow> ke_now E;
           answer \<leftarrow> commitRecord (ke_broker E)
             (Some (retry_record E (kc_retryTopics co ! nat tier) r canonical
               (control\<lparr>cm_attempt := attempt, cm_notBefore := t + delay\<rparr>)));
           _ \<leftarrow> observeBoundary E co ''retry_handoff'' messageID startedAt (handoff_error answer);
           k_return (handoff_error answer) } })"

definition dlq_krecord :: "'b kenv \<Rightarrow> string \<Rightarrow> string \<Rightarrow> instant \<Rightarrow> krecord" where
  "dlq_krecord E topic data failedAt =
    \<lparr>kr_Topic = topic, kr_Partition = 0, kr_Offset = 0, kr_LeaderEpoch = 0, kr_Key = ke_H E data, kr_Value = data,
     kr_Headers = [], kr_Timestamp = failedAt\<rparr>"

definition deadLetterRecord ::
  "'b kenv \<Rightarrow> 'b kconsumer \<Rightarrow> krecord \<Rightarrow> controlMetadata \<Rightarrow> string \<Rightarrow> err option \<Rightarrow> nat \<Rightarrow> string \<Rightarrow>
    ('b cworld, err option) state" where
  "deadLetterRecord E co r control failureKind failure attempt messageID = do {
     failedAt \<leftarrow> ke_now E;
     let cfg = kc_config co;
         safeFailure = (if failure = None then None
           else Some (adapter_sanitizeFailure kafka_adapter (hc_FailureSanitizer cfg) failure));
         dlq = makeDLQRecord (hc_ConsumerID cfg) r control messageID attempt failureKind safeFailure failedAt
     in case encodeDLQRecord (ke_timeJSON E) dlq of
       Inl e \<Rightarrow> k_return (Some e)
     | Inr data \<Rightarrow> do {
         startedAt \<leftarrow> ke_now E;
         answer \<leftarrow> commitRecord (ke_broker E) (Some (dlq_krecord E (kc_dlqTopic co) data failedAt));
         let parsed = (case ParseMessageID messageID of Inl _ \<Rightarrow> 0 | Inr i \<Rightarrow> i)
         in do {
           _ \<leftarrow> observeBoundary E co ''dlq_handoff'' parsed startedAt (handoff_error answer);
           k_return (handoff_error answer) } } }"

section \<open>Processing a record\<close>

definition confirmTerminalHandoff :: "'b kconsumer \<Rightarrow> ctx \<Rightarrow> key \<Rightarrow> fingerprint \<Rightarrow> ('b cworld, unit) state" where
  "confirmTerminalHandoff co c key fp =
    (if \<not> SupportsTerminalRetention (kc_store co) then k_return ()
     else do { _ \<leftarrow> on_store (Store_ConfirmTerminalHandoff (kc_store co) c key fp); k_return () })"

text \<open>The callback of the inbox transaction: middlewares around the handler, on the business database.\<close>

definition delivery_handler :: "'b kenv \<Rightarrow> 'b kconsumer \<Rightarrow> 'b decodedMessage \<Rightarrow> 'b handler" where
  "delivery_handler E co decoded b =
    (case invokeMiddlewares (ke_ctxErr E) (Some (ke_handlerCtx E)) (hc_ConsumerID (kc_config co)) (dm_handle decoded)
        (map the (hc_Middlewares (kc_config co))) b of
       (e, b', _) \<Rightarrow> (b', e))"

definition inbox_key :: "'b kconsumer \<Rightarrow> metadata \<Rightarrow> controlMetadata \<Rightarrow> key" where
  "inbox_key co m control =
    \<lparr>k_ConsumerID = hc_ConsumerID (kc_config co), k_Source = md_Source m, k_MessageID = md_ID m,
     k_AttemptGeneration = cm_attemptGeneration control\<rparr>"

definition handoff_kind :: "err \<Rightarrow> bool \<Rightarrow> string" where
  "handoff_kind e exhausted =
    (if errors_Is e ErrFingerprintConflict then ''identity_conflict''
     else if exhausted \<and> \<not> IsPermanent e then ''attempts_exhausted'' else ''permanent'')"

definition retry_delay_of :: "kbroker \<Rightarrow> 'b handlerConfig \<Rightarrow> err \<Rightarrow> nat \<Rightarrow> ((kevent, 'w) kworld_scheme, duration) state" where
  "retry_delay_of B cfg e attempt =
    (case DeferDelay e of
       Some d \<Rightarrow> k_return d
     | None \<Rightarrow>
        (case RetryDelay e of
           Some d \<Rightarrow> k_return d
         | None \<Rightarrow> ask (\<lambda>n. retryDelay (kb_random B n) (hc_BaseRetry cfg) (hc_MaxRetry cfg) attempt)))"

text \<open>What follows the inbox transaction: commit of the offset, dead letter, or retry.\<close>

definition finish_success ::
  "'b kenv \<Rightarrow> 'b kconsumer \<Rightarrow> metadata \<Rightarrow> result \<Rightarrow> instant \<Rightarrow> ('b cworld, err option) state" where
  "finish_success E co m result startedAt = do {
     _ \<leftarrow> observeHandle E co m (res_Attempt result) result 0 startedAt None;
     commitStarted \<leftarrow> ke_now E;
     answer \<leftarrow> commitRecord (ke_broker E) None;
     _ \<leftarrow> observeBoundary E co ''offset_commit'' (md_ID m) commitStarted (handoff_error answer);
     k_return (handoff_error answer) }"

definition finish_terminal ::
  "'b kenv \<Rightarrow> 'b kconsumer \<Rightarrow> krecord \<Rightarrow> controlMetadata \<Rightarrow> metadata \<Rightarrow> key \<Rightarrow> fingerprint \<Rightarrow> result \<Rightarrow> instant \<Rightarrow> err \<Rightarrow>
    bool \<Rightarrow> ('b cworld, err option) state" where
  "finish_terminal E co r control m key fp result startedAt processErr exhausted = do {
     commitErr \<leftarrow> deadLetterRecord E co r control (handoff_kind processErr exhausted) (Some processErr)
       (max 1 (res_Attempt result)) (mid_String (md_ID m));
     _ \<leftarrow> (if commitErr = None \<and> \<not> errors_Is processErr ErrFingerprintConflict
          then confirmTerminalHandoff co (Ctx None) key fp else k_return ());
     _ \<leftarrow> observeHandle E co m (res_Attempt result) result 0 startedAt (Some processErr);
     k_return commitErr }"

definition finish_retry ::
  "'b kenv \<Rightarrow> 'b kconsumer \<Rightarrow> krecord \<Rightarrow> controlMetadata \<Rightarrow> 'b decodedMessage \<Rightarrow> result \<Rightarrow> instant \<Rightarrow> err \<Rightarrow>
    ('b cworld, err option) state" where
  "finish_retry E co r control decoded result startedAt processErr = do {
     delay \<leftarrow> retry_delay_of (ke_broker E) (kc_config co) processErr (res_Attempt result);
     retryErr \<leftarrow> retryRecord E co r (dm_canonical decoded) control (res_Attempt result) delay (md_ID (dm_metadata decoded));
     _ \<leftarrow> observeHandle E co (dm_metadata decoded) (res_Attempt result) result delay startedAt (Some processErr);
     k_return retryErr }"

definition process_decoded ::
  "'b kenv \<Rightarrow> 'b kconsumer \<Rightarrow> krecord \<Rightarrow> controlMetadata \<Rightarrow> instant \<Rightarrow> 'b decodedMessage \<Rightarrow> ('b cworld, err option) state" where
  "process_decoded E co r control startedAt decoded =
    (let m = dm_metadata decoded; key = inbox_key co m control; fp = ke_H E (dm_canonical decoded);
         maxAttempts = nat (hc_MaxAttempts (kc_config co))
     in do {
       (result, processErr) \<leftarrow>
         on_store (Store_ProcessAttempt (kc_store co) key fp maxAttempts (Some (delivery_handler E co decoded)));
       case processErr of
         None \<Rightarrow> finish_success E co m result startedAt
       | Some e \<Rightarrow> do {
           ended \<leftarrow> ctxErr (ke_broker E);
           case ended of
             Some x \<Rightarrow> do {
               _ \<leftarrow> observeHandle E co m (res_Attempt result) result 0 startedAt (Some e);
               k_return (Some x) }
           | None \<Rightarrow>
              (let exhausted = (res_Attempt result \<ge> maxAttempts \<or> errors_Is e ErrAttemptsExhausted) in
               if errors_Is e ErrFingerprintConflict \<or> IsPermanent e \<or> exhausted
               then finish_terminal E co r control m key fp result startedAt e exhausted
               else finish_retry E co r control decoded result startedAt e) } })"

definition processPreparedRecord ::
  "'b kenv \<Rightarrow> 'b kconsumer \<Rightarrow> krecord \<Rightarrow> preparedRecord \<Rightarrow> ('b cworld, err option) state" where
  "processPreparedRecord E co r prepared =
    (case pr_failure prepared of
       Some e \<Rightarrow>
        deadLetterRecord E co r (pr_control prepared) (pr_failureKind prepared) (Some e) (pr_attempt prepared)
          (pr_messageID prepared)
     | None \<Rightarrow>
        (let env = pr_envelope prepared; control = pr_control prepared; attempt = max 1 (cm_attempt control) in
         case kc_decode co env of
           Inl e \<Rightarrow> deadLetterRecord E co r control ''decode'' (Some e) attempt (mid_String (ev_ID env))
         | Inr decoded \<Rightarrow> do {
             t \<leftarrow> ke_now E;
             let m = dm_metadata decoded in
             if md_ExpiresAt m \<noteq> 0 \<and> \<not> md_ExpiresAt m > t
             then deadLetterRecord E co r control ''expired'' (Some (Sentinel KafkaErrMessageExpired)) attempt (mid_String (md_ID m))
             else if md_NotBefore m \<noteq> 0 \<and> md_NotBefore m > t
             then retryRecord E co r (dm_canonical decoded) control (cm_attempt control) (time_Sub (md_NotBefore m) t) (md_ID m)
             else process_decoded E co r control (if IsZeroTime (pr_observedAt prepared) then t else pr_observedAt prepared)
               decoded }))"

section \<open>Transactions in the log\<close>

text \<open>
  A hand-off that returns no error is exactly one confirmed transaction with these records; one that returns an error
  is none.
\<close>

definition handed :: "krecord list \<Rightarrow> err option \<Rightarrow> kevent list \<Rightarrow> bool" where
  "handed rs e evs \<longleftrightarrow> (if e = None then visible evs = committed_tx rs else commit_event \<notin> set evs)"

lemma visible_simps [simp]:
  "visible [] = []" "visible (ev # evs) = (if ev = EvClose then visible evs else ev # visible evs)"
  "visible (evs @ evs') = visible evs @ visible evs'"
  by (simp_all add: visible_def)

lemma yields_commit:
  "yields (commitTransactionalRecords B rs) w
    (\<lambda>a evs w'. kept w w' \<and> handed rs (handoff_error a) evs \<and> (healthy B \<longrightarrow> handoff_error a = None))"
proof (cases "rs = []")
  case True
  then show ?thesis
    by (cases "kb_begin B (kw_step w)"; cases "kb_end B (Suc (kw_step w)) True"; cases "snd (kb_end B (Suc (kw_step w)) True)")
      (simp_all add: yields_def commitTransactionalRecords_def Begin_def End_def kept_def handed_def
      handoff_error_def healthy_def committed_tx_def)
next
  case False
  let ?n = "Suc (Suc (kw_step w))"
  show ?thesis
  proof (cases "kb_begin B (kw_step w)")
    case None
    with False show ?thesis
      by (cases "kb_produce B ?n rs"; cases "kb_end B (Suc ?n) False"; cases "kb_end B (Suc ?n) True";
          cases "snd (kb_end B (Suc ?n) True)"; cases "kb_expired B (Suc (kw_step w))")
        (simp_all add: yields_def commitTransactionalRecords_def Begin_def ProduceSync_def End_def kept_def handed_def
        handoff_error_def healthy_def committed_tx_def errors_Join_def List.map_filter_simps exI [of _ ?n] split: option.split)
  next
    case (Some e)
    then have "\<not> healthy B" by (auto simp: healthy_def dest!: spec [of _ "kw_step w"])
    with Some show ?thesis by (simp add: yields_def commitTransactionalRecords_def Begin_def kept_def handed_def handoff_error_def)
  qed
qed

lemma kept_conn:
  assumes "kept w w'"
  shows "cw_conn w' = cw_conn w"
proof -
  have "cw_conn w' = cw_conn (w\<lparr>kw_step := kw_step w', kw_calls := kw_calls w'\<rparr>)"
    using assms unfolding kept_def by (rule arg_cong)
  then show ?thesis by simp
qed

text \<open>Programs that neither touch the broker nor the inbox.\<close>

definition silent :: "('b cworld, 'a) state \<Rightarrow> bool" where
  "silent m \<longleftrightarrow> (\<forall>w. yields m w (\<lambda>_ evs w'. evs = [] \<and> cw_conn w' = cw_conn w))"

lemma silentD: "silent m \<Longrightarrow> yields m w (\<lambda>_ evs w'. evs = [] \<and> cw_conn w' = cw_conn w)"
  by (simp add: silent_def)

lemma silent_observe: "silent (observeBoundary E co op mid t e)" "silent (observeHandle E co m a res d t e)"
  by (simp_all add: silent_def yields_def observeBoundary_def observeBoundaryWithDuration_def observeHandle_def
      notifyObservers_def clock_now_def)

text \<open>Running a silent program after another and returning the first one's result.\<close>

lemma yields_then_silent:
  assumes "yields m w (\<lambda>e evs w'. Q (f e) evs (cw_conn w'))" and "\<And>e. silent (k e)"
  shows "yields (do { e \<leftarrow> m; _ \<leftarrow> k e; k_return (f e) }) w (\<lambda>e evs w'. Q e evs (cw_conn w'))"
  by (rule yields_bind [OF assms(1)], rule yields_bind [OF silentD [OF assms(2)]], rule yields_return) simp

lemma yields_now: "yields (clock_now B) w (\<lambda>t evs w'. (\<exists>n. t = kb_clock B n) \<and> evs = [] \<and> kept w w')"
  unfolding clock_now_def by (rule yields_ask)

lemma yields_now_then:
  assumes "\<And>n v. cw_conn v = cw_conn w \<Longrightarrow> yields (f (kb_clock B n)) v Q"
  shows "yields (State_Monad.bind (clock_now B) f) w Q"
  by (rule yields_bind [OF yields_now]) (auto dest!: kept_conn intro: assms)

definition settlement :: "(krecord list \<Rightarrow> bool) \<Rightarrow> err option \<Rightarrow> kevent list \<Rightarrow> bool" where
  "settlement P e evs \<longleftrightarrow> (if e = None then (\<exists>rs. P rs \<and> visible evs = committed_tx rs) else commit_event \<notin> set evs)"

lemma settlement_mono: "settlement P e evs \<Longrightarrow> (\<And>rs. P rs \<Longrightarrow> R rs) \<Longrightarrow> settlement R e evs"
  unfolding settlement_def by (metis (no_types))

lemma yields_handoff:
  assumes "P (case r of None \<Rightarrow> [] | Some x \<Rightarrow> [x])"
  shows "yields (commitRecord B r) w (\<lambda>a evs w'. cw_conn w' = cw_conn w \<and> settlement P (handoff_error a) evs \<and>
    (healthy B \<longrightarrow> handoff_error a = None))"
  unfolding commitRecord_def
  by (rule yields_mono [OF yields_commit]) (use assms in \<open>auto simp: settlement_def handed_def dest: kept_conn\<close>)

section \<open>Retries and dead letters\<close>

definition retry_of :: "'b kenv \<Rightarrow> 'b kconsumer \<Rightarrow> krecord \<Rightarrow> string \<Rightarrow> controlMetadata \<Rightarrow> krecord list \<Rightarrow> bool" where
  "retry_of E co r canonical control rs \<longleftrightarrow>
    (\<exists>attempt t delay. let tier = retryTier (hc_RetryTiers (kc_config co)) delay in
       0 < delay \<and> 0 \<le> tier \<and> nat tier < length (kc_retryTopics co) \<and>
       rs = [retry_record E (kc_retryTopics co ! nat tier) r canonical (control\<lparr>cm_attempt := attempt, cm_notBefore := t + delay\<rparr>)])"

definition dead_letter_of :: "'b kenv \<Rightarrow> 'b kconsumer \<Rightarrow> krecord \<Rightarrow> controlMetadata \<Rightarrow> krecord list \<Rightarrow> bool" where
  "dead_letter_of E co r control rs \<longleftrightarrow>
    (\<exists>mid attempt kind failure failedAt data.
       encodeDLQRecord (ke_timeJSON E)
         (makeDLQRecord (hc_ConsumerID (kc_config co)) r control mid attempt kind failure failedAt) = Inr data \<and>
       rs = [dlq_krecord E (kc_dlqTopic co) data failedAt])"

lemma retryTier_range: "tiers \<noteq> [] \<Longrightarrow> 0 \<le> retryTier tiers delay \<and> nat (retryTier tiers delay) < length tiers"
proof (cases "retry_tier_from 0 tiers delay")
  case (Some i)
  moreover assume "tiers \<noteq> []"
  ultimately show ?thesis using retry_tier_from_Some [of 0 tiers delay i] by (simp add: retryTier_def)
next
  case None
  moreover assume "tiers \<noteq> []"
  ultimately show ?thesis by (cases tiers) (simp_all add: retryTier_def)
qed

lemma yields_retryRecord:
  "yields (retryRecord E co r canonical control attempt delay mid) w
    (\<lambda>e evs w'. cw_conn w' = cw_conn w \<and> settlement (retry_of E co r canonical control) e evs \<and>
      (healthy (ke_broker E) \<and> 0 < delay \<and> hc_RetryTiers (kc_config co) \<noteq> [] \<and>
        length (kc_retryTopics co) = length (hc_RetryTiers (kc_config co)) \<longrightarrow> e = None))"
proof (cases "delay \<le> 0")
  case True
  then show ?thesis by (auto simp: retryRecord_def settlement_def intro!: yields_return)
next
  case False
  let ?tier = "retryTier (hc_RetryTiers (kc_config co)) delay"
  have range: "hc_RetryTiers (kc_config co) \<noteq> [] \<Longrightarrow> 0 \<le> ?tier \<and> nat ?tier < length (hc_RetryTiers (kc_config co))"
    by (rule retryTier_range)
  show ?thesis
  proof (cases "?tier < 0 \<or> nat ?tier \<ge> length (kc_retryTopics co)")
    case True
    with False range show ?thesis
      by (auto simp: retryRecord_def Let_def settlement_def intro!: yields_now_then yields_return)
  next
    case inside: False
    let ?P = "retry_of E co r canonical control"
    let ?retry = "\<lambda>t. retry_record E (kc_retryTopics co ! nat ?tier) r canonical
      (control\<lparr>cm_attempt := attempt, cm_notBefore := t + delay\<rparr>)"
    have eq: "retryRecord E co r canonical control attempt delay mid = do {
        t \<leftarrow> ke_now E; startedAt \<leftarrow> ke_now E; answer \<leftarrow> commitRecord (ke_broker E) (Some (?retry t));
        _ \<leftarrow> observeBoundary E co ''retry_handoff'' mid startedAt (handoff_error answer); k_return (handoff_error answer) }"
      using False inside by (simp add: retryRecord_def Let_def)
    have "?P [?retry t]" for t using False inside unfolding retry_of_def Let_def by (intro exI conjI) auto
    then have commit: "yields (commitRecord (ke_broker E) (Some (?retry t))) v (\<lambda>a evs w'. cw_conn w' = cw_conn v \<and>
        settlement ?P (handoff_error a) evs \<and> (healthy (ke_broker E) \<longrightarrow> handoff_error a = None))" for t v
      by (intro yields_handoff) simp
    show ?thesis
      unfolding eq
      by (intro yields_now_then yields_then_silent [where Q = "\<lambda>e evs c. c = cw_conn w \<and> settlement ?P e evs \<and> (_ \<longrightarrow> e = None)"]
          silent_observe yields_mono [OF commit]) auto
  qed
qed

text \<open>
  What a dead letter needs: a working broker, clock and JSON library, a record within the limit, and the consumer's
  own topic.
\<close>

definition dead_letter_ready :: "'b kenv \<Rightarrow> 'b kconsumer \<Rightarrow> krecord \<Rightarrow> bool" where
  "dead_letter_ready E co r \<longleftrightarrow>
    healthy (ke_broker E) \<and>
    (\<forall>n. kb_clock (ke_broker E) n \<noteq> 0 \<and>
      (\<exists>text. ke_timeJSON E (kb_clock (ke_broker E) n) = Inr text \<and> length text \<le> 64)) \<and>
    length (kr_Key r) + length (kr_Value r) \<le> DefaultMaxSourceMessageBytes \<and>
    dlqTopic (kc_sourceTopic co) (hc_ConsumerID (kc_config co)) = Inr (kc_dlqTopic co)"

definition letter_args :: "controlMetadata \<Rightarrow> string \<Rightarrow> nat \<Rightarrow> string \<Rightarrow> bool" where
  "letter_args control kind attempt mid \<longleftrightarrow>
    valid_control control \<and> kind \<noteq> [] \<and> length kind \<le> 64 \<and> 0 < attempt \<and> attempt < 2 ^ 64 \<and> length mid \<le> 64"

lemma dead_letter_encodes:
  assumes "dead_letter_ready E co r" and "letter_args control kind attempt mid"
  shows "\<exists>data. encodeDLQRecord (ke_timeJSON E) (makeDLQRecord (hc_ConsumerID (kc_config co)) r control mid attempt kind
    failure (kb_clock (ke_broker E) n)) = Inr data"
proof -
  obtain failedAt where "ke_timeJSON E (kb_clock (ke_broker E) n) = Inr failedAt" "length failedAt \<le> 64"
    using assms(1) by (auto simp: dead_letter_ready_def)
  then show ?thesis
    using assms dlq_fits [of r control "kc_sourceTopic co" "hc_ConsumerID (kc_config co)" "kc_dlqTopic co" attempt mid kind
      "kb_clock (ke_broker E) n" "ke_timeJSON E" failedAt failure]
    by (auto simp: dead_letter_ready_def letter_args_def)
qed

lemma yields_deadLetterRecord:
  "yields (deadLetterRecord E co r control kind failure attempt mid) w
    (\<lambda>e evs w'. cw_conn w' = cw_conn w \<and> settlement (dead_letter_of E co r control) e evs \<and>
      (dead_letter_ready E co r \<and> letter_args control kind attempt mid \<longrightarrow> e = None))"
  unfolding deadLetterRecord_def
proof (rule yields_now_then, unfold Let_def, goal_cases)
  case (1 n v)
  let ?P = "dead_letter_of E co r control"
  let ?failure = "if failure = None then None
    else Some (adapter_sanitizeFailure kafka_adapter (hc_FailureSanitizer (kc_config co)) failure)"
  let ?letter = "makeDLQRecord (hc_ConsumerID (kc_config co)) r control mid attempt kind ?failure (kb_clock (ke_broker E) n)"
  show ?case
  proof (cases "encodeDLQRecord (ke_timeJSON E) ?letter")
    case (Inl e)
    with dead_letter_encodes [of E co r control kind attempt mid ?failure n] 1 show ?thesis
      by (auto simp: settlement_def intro!: yields_return)
  next
    case (Inr data)
    then have "?P [dlq_krecord E (kc_dlqTopic co) data (kb_clock (ke_broker E) n)]"
      unfolding dead_letter_of_def by blast
    then have commit: "yields (commitRecord (ke_broker E) (Some (dlq_krecord E (kc_dlqTopic co) data (kb_clock (ke_broker E) n)))) v
        (\<lambda>a evs w'. cw_conn w' = cw_conn v \<and> settlement ?P (handoff_error a) evs \<and>
          (healthy (ke_broker E) \<longrightarrow> handoff_error a = None))" for v
      by (intro yields_handoff) simp
    show ?thesis
      unfolding Inr sum.case using 1
      by (intro yields_now_then yields_then_silent [where Q = "\<lambda>e evs c. c = cw_conn w \<and> settlement ?P e evs \<and> (_ \<longrightarrow> e = None)"]
          silent_observe yields_mono [OF commit]) (auto simp: dead_letter_ready_def)
  qed
qed

section \<open>Results of the inbox\<close>

text \<open>Errors whose retry and defer delays are positive; the constructors of the markers make no others.\<close>

definition delays_positive :: "err \<Rightarrow> bool" where
  "delays_positive e \<longleftrightarrow> (\<forall>d. RetryDelay e = Some d \<or> DeferDelay e = Some d \<longrightarrow> 0 < d)"

lemma ledger_attempt_ok:
  assumes "ledger_attempt key fp g n h L = ((res, None), L')"
  shows "lg_identity L' (ident key) = Some (fp, True)"
  using assms
  by (auto simp: ledger_attempt_def ledger_open_def ledger_invoke_def set_identity_def set_gen_def
      split: option.splits prod.splits if_splits gstate.splits)

lemma ledger_attempt_failed:
  assumes "ledger_attempt key fp g n h L = ((res, Some e), L')"
  shows "(e = Sentinel ErrFingerprintConflict \<or> e = Sentinel ErrAttemptsExhausted \<or> (\<exists>k. e = kind_error k) \<or>
      (\<exists>b b'. h b = (b', Some e))) \<and> res_Attempt res \<le> Suc (consumed (lg_gen L g))"
  using assms
  by (auto simp: ledger_attempt_def ledger_open_def ledger_invoke_def set_identity_def attempt_result_def zero_result_def
      split: option.splits prod.splits if_splits gstate.splits)

lemma kind_error_delays: "delays_positive (kind_error k)" "delays_positive (Sentinel s)"
  by (simp_all add: delays_positive_def kind_error_def)

section \<open>A record is settled by one transaction\<close>

definition settled ::
  "'b kenv \<Rightarrow> 'b kconsumer \<Rightarrow> krecord \<Rightarrow> controlMetadata \<Rightarrow> 'b decodedMessage \<Rightarrow> 'b db conn \<Rightarrow> krecord list \<Rightarrow> bool" where
  "settled E co r control decoded c rs \<longleftrightarrow>
    rs = [] \<and> lg_identity (ledger c) (ident (inbox_key co (dm_metadata decoded) control)) =
      Some (ke_H E (dm_canonical decoded), True) \<or>
    retry_of E co r (dm_canonical decoded) control rs \<or> dead_letter_of E co r control rs"

text \<open>What a delivery needs to be settled at the first try, the inbox and the handler included.\<close>

definition workable :: "'b kenv \<Rightarrow> 'b kconsumer \<Rightarrow> krecord \<Rightarrow> bool" where
  "workable E co r \<longleftrightarrow>
    dead_letter_ready E co r \<and>
    (\<forall>n x v. kb_random (ke_broker E) n x = Some v \<longrightarrow> 0 \<le> v \<and> v < x) \<and>
    hc_RetryTiers (kc_config co) \<noteq> [] \<and> length (kc_retryTopics co) = length (hc_RetryTiers (kc_config co)) \<and>
    0 < hc_BaseRetry (kc_config co) \<and> hc_BaseRetry (kc_config co) \<le> hc_MaxRetry (kc_config co) \<and>
    hc_MaxRetry (kc_config co) \<le> max_int64 \<and> 0 < hc_MaxAttempts (kc_config co)"

definition processable ::
  "'b kenv \<Rightarrow> 'b kconsumer \<Rightarrow> controlMetadata \<Rightarrow> 'b decodedMessage \<Rightarrow> 'b db conn \<Rightarrow> bool" where
  "processable E co control decoded c \<longleftrightarrow>
    (let key = inbox_key co (dm_metadata decoded) control; fp = ke_H E (dm_canonical decoded) in
     cn_faults c = [] \<and> ValidateKey key = None \<and> Suc (consumed (lg_gen (ledger c) (generation (ke_H E) key fp))) < 2 ^ 64 \<and>
     (\<forall>b b' e. delivery_handler E co decoded b = (b', Some e) \<longrightarrow> delays_positive e))"

lemma yields_on_store: "yields (on_store f) w (\<lambda>x evs w'. evs = [] \<and> f (cw_conn w) = (x, cw_conn w'))"
  by (auto simp: yields_def on_store_def split: prod.split)

lemma yields_confirm: "yields (confirmTerminalHandoff co c key fp) w (\<lambda>_ evs w'. evs = [])"
  by (auto simp: confirmTerminalHandoff_def intro!: yields_return yields_bind [OF yields_on_store])

lemma yields_retry_delay:
  "yields (retry_delay_of (ke_broker E) (kc_config co) e attempt) w
    (\<lambda>d evs w'. evs = [] \<and> cw_conn w' = cw_conn w \<and> (workable E co r \<and> delays_positive e \<longrightarrow> 0 < d))"
proof -
  have "0 < retryDelay (kb_random (ke_broker E) n) (hc_BaseRetry (kc_config co)) (hc_MaxRetry (kc_config co)) attempt"
    if "workable E co r" for n
    using that by (intro retryDelay_range [THEN conjunct1]) (auto simp: workable_def)
  then show ?thesis
    unfolding retry_delay_of_def
    by (auto split: option.split simp: delays_positive_def intro!: yields_return yields_mono [OF yields_ask] dest: kept_conn)
qed

lemma yields_finish_success:
  assumes "settled E co r control decoded (cw_conn w) []"
  shows "yields (finish_success E co (dm_metadata decoded) result t) w
    (\<lambda>e evs w'. settlement (settled E co r control decoded (cw_conn w')) e evs \<and> (workable E co r \<longrightarrow> e = None))"
proof -
  let ?P = "settled E co r control decoded (cw_conn w)"
  have commit: "yields (commitRecord (ke_broker E) None) v (\<lambda>a evs w'. cw_conn w' = cw_conn v \<and>
      settlement ?P (handoff_error a) evs \<and> (healthy (ke_broker E) \<longrightarrow> handoff_error a = None))" for v
    using assms by (intro yields_handoff) simp
  have "yields (finish_success E co (dm_metadata decoded) result t) w
      (\<lambda>e evs w'. cw_conn w' = cw_conn w \<and> settlement ?P e evs \<and> (workable E co r \<longrightarrow> e = None))"
    unfolding finish_success_def
  proof (rule yields_bind [OF silentD [OF silent_observe(2)]], goal_cases)
    case (1 x evs v)
    then show ?case
      by (intro yields_now_then) (auto simp: workable_def dead_letter_ready_def intro!: silent_observe yields_mono [OF commit]
        yields_then_silent [where Q = "\<lambda>e evs c. c = cw_conn w \<and> settlement ?P e evs \<and> (_ \<longrightarrow> e = None)"])
  qed
  then show ?thesis by (rule yields_mono) auto
qed

lemma handoff_kind_args: "handoff_kind e x \<noteq> []" "length (handoff_kind e x) \<le> 64"
  by (simp_all add: handoff_kind_def)

lemma yields_finish_terminal:
  "yields (finish_terminal E co r control m key fp result t e exhausted) w
    (\<lambda>e evs w'. settlement (dead_letter_of E co r control) e evs \<and>
      (workable E co r \<and> valid_control control \<and> res_Attempt result < 2 ^ 64 \<longrightarrow> e = None))"
  unfolding finish_terminal_def
proof (rule yields_bind [OF yields_deadLetterRecord], goal_cases)
  case (1 commitErr evs v)
  have "yields (if commitErr = None \<and> \<not> errors_Is e ErrFingerprintConflict then confirmTerminalHandoff co (Ctx None) key fp
      else k_return ()) v (\<lambda>_ evs _. evs = [])"
    using yields_confirm by (auto intro: yields_return)
  moreover have "letter_args control (handoff_kind e exhausted) (max 1 (res_Attempt result)) (mid_String (md_ID m))"
    if "valid_control control" "res_Attempt result < 2 ^ 64"
    using that by (simp add: letter_args_def handoff_kind_args length_mid_String)
  ultimately show ?case
    using 1 by (elim yields_bind) (auto intro!: yields_bind [OF silentD [OF silent_observe(2)]] yields_return simp: workable_def)
qed

lemma yields_finish_retry:
  "yields (finish_retry E co r control decoded result t e) w
    (\<lambda>e' evs w'. settlement (retry_of E co r (dm_canonical decoded) control) e' evs \<and>
      (workable E co r \<and> delays_positive e \<longrightarrow> e' = None))"
  unfolding finish_retry_def
proof (rule yields_bind [OF yields_retry_delay [where r = r]], rule yields_bind [OF yields_retryRecord], goal_cases)
  case 1
  then show ?case
    by (auto intro!: yields_bind [OF silentD [OF silent_observe(2)]] yields_return simp: workable_def dead_letter_ready_def)
qed

context ledger_backend
begin

lemma attempt_ok:
  assumes "db_inv (cn_durable c)" and "separated H key fp"
    and "Store_ProcessAttempt be key fp n (Some h) c = ((res, None), c')"
  shows "lg_identity (ledger c') (ident key) = Some (fp, True) \<and> db_inv (cn_durable c')"
proof -
  have n: "0 < n" and run: "ab_ProcessAttempt ab key fp n h c = ((res, None), c')"
    using assms(3) by (auto simp: Store_ProcessAttempt_def attempts refuse_def split: option.splits if_splits)
  have same: "ab_ProcessAttempt ab key fp n h (ff c) = ((res, None), ff c')"
    using attempt_atomic [of key fp n h, unfolded op_atomic_def, rule_format, of c] run by (auto simp: prod_eq_iff)
  have "fst (ledger_attempt key fp (generation H key fp) n h (ledger c)) = (res, None)"
      "implements (ff c') (snd (ledger_attempt key fp (generation H key fp) n h (ledger c)))"
    using attempt_refines [of "ff c" key fp n h] assms(1,2) n same by simp_all
  then show ?thesis
    using ledger_attempt_ok [of key fp "generation H key fp" n h "ledger c" res] by (auto simp: implements_def prod_eq_iff)
qed

lemma attempt_failed:
  assumes "cn_faults c = []" and "db_inv (cn_durable c)" and "separated H key fp" and "ValidateKey key = None" and "0 < n"
    and "Store_ProcessAttempt be key fp n (Some h) c = ((res, Some e), c')"
  shows "(delays_positive e \<or> (\<exists>b b'. h b = (b', Some e))) \<and>
    res_Attempt res \<le> Suc (consumed (lg_gen (ledger c) (generation H key fp)))"
proof -
  have "fst (ledger_attempt key fp (generation H key fp) n h (ledger c)) = (res, Some e)"
    using assms attempt_refines [of c key fp n h] by (auto simp: Store_ProcessAttempt_def attempts)
  then show ?thesis
    using ledger_attempt_failed [of key fp "generation H key fp" n h "ledger c" res e] kind_error_delays
    by (cases "ledger_attempt key fp (generation H key fp) n h (ledger c)") auto
qed

lemma yields_process_decoded:
  assumes store: "kc_store co = be" and hash: "ke_H E = H" and inv: "db_inv (cn_durable (cw_conn w))"
    and sep: "separated H (inbox_key co (dm_metadata decoded) control) (H (dm_canonical decoded))"
  shows "yields (process_decoded E co r control t decoded) w
    (\<lambda>e evs w'. settlement (settled E co r control decoded (cw_conn w')) e evs \<and>
      (workable E co r \<and> valid_control control \<and> processable E co control decoded (cw_conn w) \<longrightarrow> e = None))"
  unfolding process_decoded_def Let_def
proof (rule yields_bind [OF yields_on_store], goal_cases)
  case (1 x evs v)
  let ?key = "inbox_key co (dm_metadata decoded) control" and ?fp = "ke_H E (dm_canonical decoded)"
  let ?n = "nat (hc_MaxAttempts (kc_config co))"
  obtain result processErr where x: "x = (result, processErr)" by force
  show ?case
  proof (cases processErr)
    case None
    then have "settled E co r control decoded (cw_conn v) []"
      using 1 x attempt_ok [OF inv sep, of ?n "delivery_handler E co decoded" result "cw_conn v"]
      by (simp add: settled_def store hash)
    then show ?thesis
      using 1 None x by (auto intro: yields_mono [OF yields_finish_success [of E co r control decoded v result t]])
  next
    case (Some e)
    have failed: "delays_positive e \<and> res_Attempt result < 2 ^ 64"
      if "workable E co r" "processable E co control decoded (cw_conn w)"
    proof -
      note A = attempt_failed [of "cw_conn w" ?key ?fp ?n "delivery_handler E co decoded" result e "cw_conn v"]
      show ?thesis
        using that 1 x Some inv sep A by (auto simp: workable_def processable_def Let_def store hash)
    qed
    have stop: "yields (do { _ \<leftarrow> observeHandle E co (dm_metadata decoded) (res_Attempt result) result 0 t (Some e);
          k_return (Some err) }) u (\<lambda>e evs w'. evs = [] \<and> e \<noteq> None)" for err u
      by (rule yields_bind [OF silentD [OF silent_observe(2)]], rule yields_return) simp
    show ?thesis
      using 1 unfolding x Some prod.case option.case
    proof (intro yields_bind [OF yields_ctxErr], goal_cases)
      case (1 ended evs' u)
      show ?case
      proof (cases ended)
        case (Some err)
        with 1 have "\<not> workable E co r" by (auto simp: workable_def dead_letter_ready_def healthy_def)
        with 1 show ?thesis unfolding Some option.case by (intro yields_mono [OF stop]) (auto simp: settlement_def)
      next
        case None
        show ?thesis
          unfolding None option.case using 1 failed
          by (auto intro!: yields_mono [OF yields_finish_terminal] yields_mono [OF yields_finish_retry]
              elim!: settlement_mono simp: settled_def)
      qed
    qed
  qed
qed

lemma yields_processPreparedRecord:
  assumes store: "kc_store co = be" and hash: "ke_H E = H" and inv: "db_inv (cn_durable (cw_conn w))"
    and sep: "\<And>decoded. pr_failure prepared = None \<Longrightarrow> kc_decode co (pr_envelope prepared) = Inr decoded \<Longrightarrow>
      separated H (inbox_key co (dm_metadata decoded) (pr_control prepared)) (H (dm_canonical decoded))"
  shows "yields (processPreparedRecord E co r prepared) w
    (\<lambda>e evs w'. settlement (\<lambda>rs. dead_letter_of E co r (pr_control prepared) rs \<or>
        pr_failure prepared = None \<and> (\<exists>decoded. kc_decode co (pr_envelope prepared) = Inr decoded \<and>
          settled E co r (pr_control prepared) decoded (cw_conn w') rs)) e evs \<and>
      (workable E co r \<and> valid_control (pr_control prepared) \<and>
       (pr_failure prepared \<noteq> None \<longrightarrow>
         letter_args (pr_control prepared) (pr_failureKind prepared) (pr_attempt prepared) (pr_messageID prepared)) \<and>
       (\<forall>decoded. kc_decode co (pr_envelope prepared) = Inr decoded \<longrightarrow>
         processable E co (pr_control prepared) decoded (cw_conn w)) \<longrightarrow> e = None))"
proof (cases "pr_failure prepared")
  case (Some e)
  then show ?thesis
    unfolding processPreparedRecord_def
    by (auto intro!: yields_mono [OF yields_deadLetterRecord] elim!: settlement_mono simp: workable_def)
next
  case fresh: None
  let ?control = "pr_control prepared"
  have args: "letter_args ?control kind (max (Suc 0) (cm_attempt ?control)) (mid_String i)"
    if "valid_control ?control" "kind = ''decode'' \<or> kind = ''expired''" for kind i
    using that by (auto simp: letter_args_def length_mid_String valid_control_def)
  show ?thesis
  proof (cases "kc_decode co (pr_envelope prepared)")
    case (Inl e)
    then show ?thesis
      using fresh args unfolding processPreparedRecord_def
      by (auto simp: Let_def workable_def intro!: yields_mono [OF yields_deadLetterRecord] elim!: settlement_mono)
  next
    case (Inr decoded)
    have positive: "0 < time_Sub a b" if "b < a" for a b using that by (simp add: time_Sub_def max_int64_def)
    show ?thesis
      using fresh Inr inv unfolding processPreparedRecord_def Let_def
      apply (simp only: option.case sum.case)
      apply (rule yields_now_then)
      apply (auto intro!: yields_mono [OF yields_deadLetterRecord] yields_mono [OF yields_retryRecord]
          yields_mono [OF yields_process_decoded [OF store hash _ sep]] elim!: settlement_mono
          simp: settled_def workable_def dead_letter_ready_def args positive)
      done
  qed
qed

end

section \<open>Consumers that were constructed\<close>

lemma length_retry_topics: "retry_topics source consumerID i n = Inr ts \<Longrightarrow> length ts = n"
  by (induction n arbitrary: i ts) (auto split: sum.splits)

lemma newConsumer_facts:
  assumes "newConsumer True store d config decode = Inr co"
  shows "hc_RetryTiers (kc_config co) \<noteq> []" "length (kc_retryTopics co) = length (hc_RetryTiers (kc_config co))"
    "0 < hc_BaseRetry (kc_config co)" "hc_BaseRetry (kc_config co) \<le> hc_MaxRetry (kc_config co)"
    "0 < hc_MaxAttempts (kc_config co)" "validateRetryTiers (hc_RetryTiers (kc_config co)) = None"
    "dlqTopic (kc_sourceTopic co) (hc_ConsumerID (kc_config co)) = Inr (kc_dlqTopic co)"
    "replayTopic (kc_sourceTopic co) (hc_ConsumerID (kc_config co)) = Inr (kc_replayTopic co)"
    "store = Some (kc_store co)" "decode = Some (kc_decode co)" "kc_descriptor co = d"
proof -
  obtain be dec cfg source grp retries replay dlq where parts: "store = Some be" "decode = Some dec"
      "\<not> config_rejected cfg" "validateRetryTiers (hc_RetryTiers cfg) = None"
      "retry_topics source (hc_ConsumerID cfg) 0 (length (hc_RetryTiers cfg)) = Inr retries"
      "replayTopic source (hc_ConsumerID cfg) = Inr replay" "dlqTopic source (hc_ConsumerID cfg) = Inr dlq"
      "co = \<lparr>kc_store = be, kc_config = cfg, kc_descriptor = d, kc_decode = dec, kc_sourceTopic = source, kc_groupID = grp,
         kc_retryTopics = retries, kc_replayTopic = replay, kc_dlqTopic = dlq, kc_topics = source # retries @ [replay]\<rparr>"
    using assms by (auto simp: newConsumer_def split: sum.splits option.splits if_splits)
  then show "hc_RetryTiers (kc_config co) \<noteq> []" "length (kc_retryTopics co) = length (hc_RetryTiers (kc_config co))"
    "0 < hc_BaseRetry (kc_config co)" "hc_BaseRetry (kc_config co) \<le> hc_MaxRetry (kc_config co)"
    "0 < hc_MaxAttempts (kc_config co)" "validateRetryTiers (hc_RetryTiers (kc_config co)) = None"
    "dlqTopic (kc_sourceTopic co) (hc_ConsumerID (kc_config co)) = Inr (kc_dlqTopic co)"
    "replayTopic (kc_sourceTopic co) (hc_ConsumerID (kc_config co)) = Inr (kc_replayTopic co)"
    "store = Some (kc_store co)" "decode = Some (kc_decode co)" "kc_descriptor co = d"
    by (auto simp: config_rejected_def length_retry_topics)
qed

text \<open>Preparing a record asks for the time at most, and its failures can be dead-lettered.\<close>

lemma prepare_envelope_facts:
  "pr_control (prepare_envelope E co r control t) = control"
  "valid_control control \<Longrightarrow> pr_failure (prepare_envelope E co r control t) \<noteq> None \<Longrightarrow>
    letter_args control (pr_failureKind (prepare_envelope E co r control t)) (pr_attempt (prepare_envelope E co r control t))
      (pr_messageID (prepare_envelope E co r control t))"
  by (auto simp: prepare_envelope_def prepared_failure_def Let_def letter_args_def length_mid_String valid_control_def
      split: sum.splits option.splits)

lemma parseControl_valid:
  assumes "valid_control (sourceControl r)" and "parseControl parse r source replay retries = Inr control"
  shows "valid_control control"
  using assms decodeControlHeaders_valid [of parse "kr_Headers r"]
  by (auto simp: parseControl_def split: if_splits sum.splits)

lemma prepareRecord_facts:
  assumes "run_state (prepareRecord E co r) w = (prepared, w')" and "valid_control (sourceControl r)"
  shows "cw_conn w' = cw_conn w \<and> kw_calls w' = kw_calls w \<and> valid_control (pr_control prepared) \<and>
    (pr_failure prepared \<noteq> None \<longrightarrow>
      letter_args (pr_control prepared) (pr_failureKind prepared) (pr_attempt prepared) (pr_messageID prepared))"
proof (cases "parseControl (ke_parse E) r (kc_sourceTopic co) (kc_replayTopic co) (kc_retryTopics co)")
  case (Inl e)
  with assms show ?thesis by (auto simp: prepareRecord_def prepared_failure_def letter_args_def)
next
  case (Inr control)
  with assms(2) have "valid_control control" by (rule parseControl_valid)
  then show ?thesis
    using assms(1) Inr prepare_envelope_facts(2) [of control E co r]
    by (auto simp: prepareRecord_def prepared_failure_def letter_args_def prepare_envelope_facts(1) clock_now_def
        valid_control_def split: if_splits)
qed

end
