(* ===== verification/KafkaTransport.thy ===== *)
theory KafkaTransport
  imports KafkaConsumer
begin

text \<open>
  The managed Kafka transport, \<open>adapters/kafka/transport.go\<close>: configuration, and the lifecycle its methods share. \<open>Run\<close>,
  \<open>Shutdown\<close>, \<open>BeginDrain\<close> and the publishers run concurrently; each method is a program counter and one function that takes
  the thread through its next atomic section (a section under the mutex, an operation on a channel). The system
  interleaves any number of threads of each kind.
\<close>

section \<open>Configuration\<close>

record transportConfig =
  tr_Name :: string
  tr_Brokers :: "string list"
  tr_ClientID :: string
  tr_InstanceID :: string
  tr_ConnectionOptions :: "iface list"
  tr_OperationTimeout :: duration

definition defaultBrokerOperationTimeout :: duration where
  "defaultBrokerOperationTimeout = seconds 30"

definition applyTransportDefaults :: "transportConfig \<Rightarrow> transportConfig" where
  "applyTransportDefaults cfg =
    (if tr_OperationTimeout cfg = 0 then cfg\<lparr>tr_OperationTimeout := defaultBrokerOperationTimeout\<rparr> else cfg)"

definition validateTransportConfig :: "transportConfig \<Rightarrow> err option" where
  "validateTransportConfig cfg =
    (if tr_Name cfg = [] \<or> tr_ClientID cfg = [] \<or> tr_Brokers cfg = [] \<or> tr_OperationTimeout cfg \<le> 0 \<or>
       length (tr_ConnectionOptions cfg) > 64 then Some (kafka_config_err ''transport'')
     else case validateKafkaToken ''transport name'' (tr_Name cfg) of
       Some e \<Rightarrow> Some e
     | None \<Rightarrow>
        (case validateKafkaToken ''client ID'' (tr_ClientID cfg) of
           Some e \<Rightarrow> Some e
         | None \<Rightarrow>
            (case validateInstanceID (tr_InstanceID cfg) of
               Some e \<Rightarrow> Some e
             | None \<Rightarrow>
                if [] \<in> set (tr_Brokers cfg) then Some (kafka_config_err ''empty broker'')
                else if list_ex nilValue (tr_ConnectionOptions cfg) then Some (kafka_config_err ''invalid Kafka connection option'')
                else None)))"

section \<open>The shared state\<close>

datatype transportState = TransportNew | TransportStarting | TransportRunning | TransportDraining | TransportClosed

text \<open>
  \<open>tr_gate\<close> says whether the token of \<open>txGate\<close> is taken. A \<open>txDone\<close> channel is a number below \<open>tr_channels\<close>, the
  channels made so far; \<open>tr_closedTx\<close> holds the closed ones. The client of the library and the two channels
  \<open>drain\<close> and \<open>done\<close> are open or closed.
\<close>

record transport =
  tr_state :: transportState
  tr_runStarted :: bool
  tr_gate :: bool
  tr_txActive :: bool
  tr_txDone :: "nat option"
  tr_channels :: nat
  tr_closedTx :: "nat list"
  tr_drained :: bool
  tr_done :: bool
  tr_clientClosed :: bool

definition new_transport :: transport where
  "new_transport =
    \<lparr>tr_state = TransportNew, tr_runStarted = False, tr_gate = False, tr_txActive = False, tr_txDone = None, tr_channels = 0,
     tr_closedTx = [], tr_drained = False, tr_done = False, tr_clientClosed = False\<rparr>"

definition NewTransport :: "(string \<Rightarrow> string) \<Rightarrow> (transportConfig \<Rightarrow> string \<Rightarrow> err option) \<Rightarrow> transportConfig \<Rightarrow>
    err + transportConfig \<times> transport" where
  "NewTransport H newClient config =
    (let cfg = applyTransportDefaults config in
     case validateTransportConfig cfg of
       Some e \<Rightarrow> Inl e
     | None \<Rightarrow>
        (case transactionalID H (tr_Name cfg) (tr_InstanceID cfg) 0 of
           Inl e \<Rightarrow> Inl e
         | Inr producerID \<Rightarrow>
            (case newClient cfg producerID of
               Some e \<Rightarrow> Inl (Wrap ''messenger/kafka: create transport client'' [e])
             | None \<Rightarrow> Inr (cfg, new_transport))))"

definition ensureRunning :: "transportState \<Rightarrow> err option" where
  "ensureRunning st =
    (case st of
       TransportRunning \<Rightarrow> None
     | TransportClosed \<Rightarrow> Some (Sentinel KafkaErrTransportClosed)
     | _ \<Rightarrow> Some (Sentinel ErrRuntimeNotRunning))"

text \<open>The readiness check, given the answers of the client to a ping and to the request for its producer ID.\<close>

definition checkTransactionalReadiness :: "err option \<Rightarrow> err option \<Rightarrow> err option" where
  "checkTransactionalReadiness ping producerID =
    (case ping of
       Some e \<Rightarrow> Some (Wrap ''ping broker'' [e])
     | None \<Rightarrow> map_option (\<lambda>e. Wrap ''load transactional producer ID'' [e]) producerID)"

definition transport_Readiness :: "transportState \<Rightarrow> err option \<Rightarrow> err option \<Rightarrow> err option" where
  "transport_Readiness st ping producerID =
    (if st \<noteq> TransportRunning then Some (Sentinel ErrRuntimeNotRunning)
     else map_option (\<lambda>e. Wrap ''messenger/kafka: transport readiness'' [e]) (checkTransactionalReadiness ping producerID))"

section \<open>Threads\<close>

text \<open>What the outside decides about the next section: it goes on, or a call fails or a context ends with an error.\<close>

datatype signal = Proceed | Interrupt err

text \<open>\<open>Run\<close>: before the call, in the startup check, after it, blocked, with \<open>done\<close> still to be closed, and returned.\<close>

datatype run_pc = RunIdle | RunStartup | RunChecked | RunBlocked | RunClosing "err option" | RunReturned "err option"

fun run_step :: "signal \<Rightarrow> transport \<Rightarrow> run_pc \<Rightarrow> (transport \<times> run_pc) option" where
  "run_step Proceed t RunIdle =
    Some (case tr_state t of
       TransportStarting \<Rightarrow> (t, RunReturned (Some (Sentinel ErrRuntimeRunning)))
     | TransportRunning \<Rightarrow> (t, RunReturned (Some (Sentinel ErrRuntimeRunning)))
     | TransportDraining \<Rightarrow>
        if \<not> tr_runStarted t then (t\<lparr>tr_runStarted := True, tr_state := TransportClosed\<rparr>, RunClosing None)
        else (t, RunReturned (Some (Sentinel ErrRuntimeRunning)))
     | TransportClosed \<Rightarrow> (t, RunReturned (Some (Sentinel KafkaErrTransportClosed)))
     | TransportNew \<Rightarrow> (t\<lparr>tr_runStarted := True, tr_state := TransportStarting\<rparr>, RunStartup))"
| "run_step Proceed t RunStartup = Some (t, RunChecked)"
| "run_step (Interrupt e) t RunStartup =
    Some (t\<lparr>tr_state := TransportClosed\<rparr>, RunClosing (Some (Wrap ''messenger/kafka: transport startup'' [e])))"
| "run_step Proceed t RunChecked =
    Some (if tr_state t = TransportStarting then t\<lparr>tr_state := TransportRunning\<rparr> else t, RunBlocked)"
| "run_step (Interrupt e) t RunBlocked = Some (t\<lparr>tr_state := TransportClosed\<rparr>, RunClosing (Some e))"
| "run_step Proceed t RunBlocked =
    (if tr_drained t then Some (t\<lparr>tr_state := TransportClosed\<rparr>, RunClosing None) else None)"
| "run_step Proceed t (RunClosing r) = Some (t\<lparr>tr_done := True\<rparr>, RunReturned r)"
| "run_step _ _ _ = None"

text \<open>\<open>BeginDrain\<close>: the section under the mutex and the closing of \<open>drain\<close>.\<close>

definition begin_drain :: "transport \<Rightarrow> transport" where
  "begin_drain t =
    (if tr_state t \<in> {TransportNew, TransportStarting, TransportRunning} then t\<lparr>tr_state := TransportDraining\<rparr> else t)"

datatype drain_pc = DrainIdle | DrainMarked

fun drain_step :: "signal \<Rightarrow> transport \<Rightarrow> drain_pc \<Rightarrow> (transport \<times> drain_pc) option" where
  "drain_step Proceed t DrainIdle = Some (begin_drain t, DrainMarked)"
| "drain_step Proceed t DrainMarked = Some (t\<lparr>tr_drained := True\<rparr>, DrainIdle)"
| "drain_step _ _ _ = None"

text \<open>\<open>Shutdown\<close>, with \<open>waitForTransactions\<close> and \<open>closeClient\<close>.\<close>

datatype shutdown_pc =
    ShutIdle | ShutDrain bool | ShutDrained bool | ShutAwait | ShutDone | ShutCheck | ShutWait "nat option"
  | ShutClosing "err option" | ShutReturned "err option"

fun shutdown_step :: "signal \<Rightarrow> transport \<Rightarrow> shutdown_pc \<Rightarrow> (transport \<times> shutdown_pc) option" where
  "shutdown_step Proceed t ShutIdle =
    Some (if tr_runStarted t then t else t\<lparr>tr_state := TransportClosed\<rparr>, ShutDrain (tr_runStarted t))"
| "shutdown_step Proceed t (ShutDrain started) = Some (begin_drain t, ShutDrained started)"
| "shutdown_step Proceed t (ShutDrained started) =
    Some (t\<lparr>tr_drained := True\<rparr>, if started then ShutAwait else ShutDone)"
| "shutdown_step Proceed t ShutAwait = (if tr_done t then Some (t, ShutCheck) else None)"
| "shutdown_step (Interrupt e) t ShutAwait = Some (t, ShutClosing (Some e))"
| "shutdown_step Proceed t ShutDone = Some (t\<lparr>tr_done := True\<rparr>, ShutCheck)"
| "shutdown_step Proceed t ShutCheck =
    Some (t, if \<not> tr_txActive t then ShutClosing None else ShutWait (tr_txDone t))"
| "shutdown_step Proceed t (ShutWait ch) =
    (if ch \<in> Some ` set (tr_closedTx t) then Some (t, ShutClosing None) else None)"
| "shutdown_step (Interrupt e) t (ShutWait ch) = Some (t, ShutClosing (Some e))"
| "shutdown_step Proceed t (ShutClosing r) = Some (t\<lparr>tr_clientClosed := True\<rparr>, ShutReturned r)"
| "shutdown_step _ _ _ = None"

text \<open>A publisher: \<open>acquireTransaction\<close> up to the admission, the transaction itself, and \<open>releaseTransaction\<close>.\<close>

datatype publish_pc = PubIdle | PubGate | PubRefused err | PubActive | PubReleased

fun publish_step :: "signal \<Rightarrow> transport \<Rightarrow> publish_pc \<Rightarrow> (transport \<times> publish_pc) option" where
  "publish_step Proceed t PubIdle = (if tr_gate t then None else Some (t\<lparr>tr_gate := True\<rparr>, PubGate))"
| "publish_step (Interrupt e) t PubGate = Some (t\<lparr>tr_gate := False\<rparr>, PubIdle)"
| "publish_step Proceed t PubGate =
    Some (case ensureRunning (tr_state t) of
       None \<Rightarrow> (t\<lparr>tr_txActive := True, tr_txDone := Some (tr_channels t), tr_channels := Suc (tr_channels t)\<rparr>, PubActive)
     | Some e \<Rightarrow> (t, PubRefused e))"
| "publish_step Proceed t (PubRefused e) = Some (t\<lparr>tr_gate := False\<rparr>, PubIdle)"
| "publish_step Proceed t PubActive =
    Some (t\<lparr>tr_txActive := False, tr_txDone := None, 
        tr_closedTx := (case tr_txDone t of Some ch \<Rightarrow> ch # tr_closedTx t | None \<Rightarrow> tr_closedTx t)\<rparr>, PubReleased)"
| "publish_step Proceed t PubReleased = Some (t\<lparr>tr_gate := False\<rparr>, PubIdle)"
| "publish_step _ _ _ = None"

section \<open>The system\<close>

record system =
  sy_transport :: transport
  sy_run :: "nat \<Rightarrow> run_pc"
  sy_drain :: "nat \<Rightarrow> drain_pc"
  sy_shut :: "nat \<Rightarrow> shutdown_pc"
  sy_pub :: "nat \<Rightarrow> publish_pc"

definition initial_system :: system where
  "initial_system =
    \<lparr>sy_transport = new_transport, sy_run = (\<lambda>_. RunIdle), sy_drain = (\<lambda>_. DrainIdle), sy_shut = (\<lambda>_. ShutIdle),
     sy_pub = (\<lambda>_. PubIdle)\<rparr>"

inductive system_step :: "signal \<Rightarrow> system \<Rightarrow> system \<Rightarrow> bool" where
  step_run: "run_step g (sy_transport s) (sy_run s i) = Some (t, pc) \<Longrightarrow>
    system_step g s (s\<lparr>sy_transport := t, sy_run := (sy_run s)(i := pc)\<rparr>)"
| step_drain: "drain_step g (sy_transport s) (sy_drain s i) = Some (t, pc) \<Longrightarrow>
    system_step g s (s\<lparr>sy_transport := t, sy_drain := (sy_drain s)(i := pc)\<rparr>)"
| step_shut: "shutdown_step g (sy_transport s) (sy_shut s i) = Some (t, pc) \<Longrightarrow>
    system_step g s (s\<lparr>sy_transport := t, sy_shut := (sy_shut s)(i := pc)\<rparr>)"
| step_pub: "publish_step g (sy_transport s) (sy_pub s i) = Some (t, pc) \<Longrightarrow>
    system_step g s (s\<lparr>sy_transport := t, sy_pub := (sy_pub s)(i := pc)\<rparr>)"

inductive_cases system_stepE: "system_step g s s'"

inductive reached :: "system \<Rightarrow> system \<Rightarrow> bool" where
  reached_here: "reached s s"
| reached_step: "reached s u \<Longrightarrow> system_step g u v \<Longrightarrow> reached s v"

section \<open>Invariants\<close>

text \<open>The gate belongs to one publisher, and the transaction flag and its channel to the active one.\<close>

definition owned :: "nat option \<Rightarrow> transport \<Rightarrow> (nat \<Rightarrow> publish_pc) \<Rightarrow> bool" where
  "owned holder t pub \<longleftrightarrow>
    (\<forall>i. pub i \<noteq> PubIdle \<longleftrightarrow> holder = Some i) \<and> (tr_gate t \<longleftrightarrow> holder \<noteq> None) \<and>
    (tr_txActive t \<longleftrightarrow> (case holder of None \<Rightarrow> False | Some i \<Rightarrow> pub i = PubActive)) \<and>
    (tr_txActive t \<longrightarrow> (\<exists>ch. tr_txDone t = Some ch \<and> ch < tr_channels t \<and> ch \<notin> set (tr_closedTx t))) \<and>
    (\<forall>ch \<in> set (tr_closedTx t). ch < tr_channels t)"

definition gate_ok :: "system \<Rightarrow> bool" where
  "gate_ok s \<longleftrightarrow> (\<exists>holder. owned holder (sy_transport s) (sy_pub s))"

text \<open>Past these points the transport is closed.\<close>

fun run_closed :: "run_pc \<Rightarrow> bool" where
  "run_closed (RunClosing r) = True"
| "run_closed _ = False"

fun shut_closed :: "shutdown_pc \<Rightarrow> bool" where
  "shut_closed (ShutDrain started) = (\<not> started)"
| "shut_closed (ShutDrained started) = (\<not> started)"
| "shut_closed ShutDone = True"
| "shut_closed ShutCheck = True"
| "shut_closed (ShutWait ch) = True"
| "shut_closed (ShutClosing r) = (r = None)"
| "shut_closed (ShutReturned r) = (r = None)"
| "shut_closed _ = False"

definition closing_ok :: "system \<Rightarrow> bool" where
  "closing_ok s \<longleftrightarrow>
    (let t = sy_transport s in
     (tr_done t \<longrightarrow> tr_state t = TransportClosed) \<and>
     (\<forall>i. run_closed (sy_run s i) \<longrightarrow> tr_state t = TransportClosed) \<and>
     (\<forall>i. shut_closed (sy_shut s i) \<longrightarrow> tr_state t = TransportClosed) \<and>
     (\<forall>i ch. sy_shut s i = ShutWait ch \<longrightarrow> (if tr_txActive t then tr_txDone t = ch else ch \<in> Some ` set (tr_closedTx t))) \<and>
     (\<forall>i. sy_shut s i \<in> {ShutClosing None, ShutReturned None} \<longrightarrow> \<not> tr_txActive t) \<and>
     (\<forall>i. sy_shut s i = ShutReturned None \<longrightarrow> tr_clientClosed t))"

text \<open>Somebody will close \<open>done\<close> and \<open>drain\<close>.\<close>

definition under_way :: "run_pc \<Rightarrow> bool" where
  "under_way pc \<longleftrightarrow> pc \<in> {RunStartup, RunChecked, RunBlocked} \<or> run_closed pc"

definition progress_ok :: "system \<Rightarrow> bool" where
  "progress_ok s \<longleftrightarrow>
    (let t = sy_transport s in
     (tr_runStarted t \<longrightarrow> tr_done t \<or> (\<exists>i. under_way (sy_run s i))) \<and>
     (\<forall>i. sy_shut s i = ShutAwait \<longrightarrow> tr_runStarted t \<and> tr_drained t) \<and>
     (\<forall>i. sy_shut s i \<in> {ShutDrain True, ShutDrained True} \<longrightarrow> tr_runStarted t))"

definition system_ok :: "system \<Rightarrow> bool" where
  "system_ok s \<longleftrightarrow> gate_ok s \<and> closing_ok s \<and> progress_ok s"

lemma initial_ok: "system_ok initial_system"
  by (auto simp: system_ok_def gate_ok_def owned_def closing_ok_def progress_ok_def initial_system_def new_transport_def Let_def
      intro!: exI [of _ None])

text \<open>What a section may do to the shared state.\<close>

definition keeps_gate :: "transport \<Rightarrow> transport \<Rightarrow> bool" where
  "keeps_gate t t' \<longleftrightarrow> tr_gate t' = tr_gate t \<and> tr_txActive t' = tr_txActive t \<and> tr_txDone t' = tr_txDone t \<and>
    tr_channels t' = tr_channels t \<and> tr_closedTx t' = tr_closedTx t"

definition advances :: "transport \<Rightarrow> transport \<Rightarrow> bool" where
  "advances t t' \<longleftrightarrow> (tr_state t = TransportClosed \<longrightarrow> tr_state t' = TransportClosed) \<and> (tr_runStarted t \<longrightarrow> tr_runStarted t') \<and>
    (tr_done t \<longrightarrow> tr_done t') \<and> (tr_drained t \<longrightarrow> tr_drained t') \<and> (tr_clientClosed t \<longrightarrow> tr_clientClosed t')"

lemma run_step_effect:
  assumes "run_step g t pc = Some (t', pc')"
  shows "keeps_gate t t'" "advances t t'" "run_closed pc' \<Longrightarrow> tr_state t' = TransportClosed"
    "tr_done t' \<Longrightarrow> tr_done t \<or> run_closed pc" "tr_runStarted t' \<Longrightarrow> tr_runStarted t \<or> under_way pc'"
    "under_way pc \<Longrightarrow> under_way pc' \<or> tr_done t'"
  using assms
  by (auto simp: under_way_def keeps_gate_def advances_def elim!: run_step.elims split: if_splits transportState.splits)

lemma drain_step_effect:
  assumes "drain_step g t pc = Some (t', pc')"
  shows "keeps_gate t t'" "advances t t'" "tr_done t' = tr_done t" "tr_runStarted t' = tr_runStarted t"
  using assms by (auto simp: begin_drain_def keeps_gate_def advances_def elim!: drain_step.elims split: if_splits)

lemma shutdown_step_effect:
  assumes "shutdown_step g t pc = Some (t', pc')"
  shows "keeps_gate t t'" "advances t t'" "tr_runStarted t' = tr_runStarted t"
    "shut_closed pc' \<Longrightarrow> tr_state t' = TransportClosed \<or> shut_closed pc \<or> tr_done t" "tr_done t' \<Longrightarrow> tr_done t \<or> shut_closed pc"
    "pc' \<in> {ShutAwait, ShutDrain True, ShutDrained True} \<Longrightarrow> tr_runStarted t \<or> pc \<in> {ShutDrain True, ShutDrained True}"
    "pc' = ShutAwait \<Longrightarrow> tr_drained t'" "pc' = ShutReturned None \<Longrightarrow> tr_clientClosed t'"
    "pc' \<in> {ShutClosing None, ShutReturned None} \<Longrightarrow>
      \<not> tr_txActive t \<or> pc = ShutClosing None \<or> (\<exists>ch. pc = ShutWait ch \<and> ch \<in> Some ` set (tr_closedTx t))"
    "pc' = ShutWait ch \<Longrightarrow> tr_txActive t \<and> tr_txDone t = ch"
  using assms by (auto simp: begin_drain_def keeps_gate_def advances_def elim!: shutdown_step.elims split: if_splits)

lemma publish_step_effect:
  assumes "publish_step g t pc = Some (t', pc')"
  shows "tr_state t' = tr_state t" "tr_runStarted t' = tr_runStarted t" "tr_done t' = tr_done t" "tr_drained t' = tr_drained t"
    "tr_clientClosed t' = tr_clientClosed t" "set (tr_closedTx t) \<subseteq> set (tr_closedTx t')"
    "tr_txActive t' \<Longrightarrow> tr_txActive t \<and> tr_txDone t' = tr_txDone t \<or> tr_state t = TransportRunning"
    "tr_txActive t \<Longrightarrow> \<not> tr_txActive t' \<Longrightarrow> tr_txDone t = Some ch \<Longrightarrow> ch \<in> set (tr_closedTx t')"
  using assms
  by (auto simp: ensureRunning_def elim!: publish_step.elims split: if_splits option.splits transportState.splits)

lemma owned_kept: "owned holder t pub \<Longrightarrow> keeps_gate t t' \<Longrightarrow> owned holder t' pub"
  by (simp add: owned_def keeps_gate_def)

lemma owned_publish:
  assumes o: "owned holder t pub" and p: "publish_step g t (pub i) = Some (t', pc)"
  shows "\<exists>holder'. owned holder' t' (pub(i := pc))"
proof (cases "pub i = PubIdle")
  case True
  with p have t: "\<not> tr_gate t" "t' = t\<lparr>tr_gate := True\<rparr>" "pc = PubGate" by (cases g; auto split: if_splits)+
  with o have "owned (Some i) t' (pub(i := pc))" by (auto simp: owned_def)
  then show ?thesis ..
next
  case False
  with o have h: "holder = Some i" by (simp add: owned_def)
  have "owned (if pc = PubIdle then None else Some i) t' (pub(i := pc))"
    using o p False unfolding h
    by (cases "(g, t, pub i)" rule: publish_step.cases) (auto simp: owned_def less_Suc_eq split: option.splits)
  then show ?thesis ..
qed


lemma system_step_gate:
  assumes "gate_ok s" and "system_step g s s'"
  shows "gate_ok s'"
  using assms(2)
proof (cases rule: system_step.cases)
  case (step_pub i t pc)
  then show ?thesis using assms(1) owned_publish [of _ "sy_transport s" "sy_pub s" g i t pc] by (auto simp: gate_ok_def)
qed (use assms(1) owned_kept run_step_effect(1) drain_step_effect(1) shutdown_step_effect(1) in \<open>fastforce simp: gate_ok_def\<close>)+

lemma system_step_advances:
  assumes "system_step g s s'"
  shows "advances (sy_transport s) (sy_transport s')"
  using assms
  by (cases rule: system_step.cases)
    (use run_step_effect(2) drain_step_effect(2) shutdown_step_effect(2) publish_step_effect in
      \<open>auto simp: advances_def simp del: run_step.simps\<close>)

lemma reached_advances: "reached s s' \<Longrightarrow> advances (sy_transport s) (sy_transport s')"
proof (induction rule: reached.induct)
  case (reached_step s u g v)
  then show ?case using system_step_advances [of g u v] by (auto simp: advances_def)
qed (simp add: advances_def)

lemma closing_split:
  "closing_ok s \<longleftrightarrow>
    ((tr_done (sy_transport s) \<or> (\<exists>i. run_closed (sy_run s i)) \<or> (\<exists>i. shut_closed (sy_shut s i))) \<longrightarrow>
      tr_state (sy_transport s) = TransportClosed) \<and>
    (\<forall>i ch. sy_shut s i = ShutWait ch \<longrightarrow>
      (if tr_txActive (sy_transport s) then tr_txDone (sy_transport s) = ch else ch \<in> Some ` set (tr_closedTx (sy_transport s)))) \<and>
    (\<forall>i. sy_shut s i \<in> {ShutClosing None, ShutReturned None} \<longrightarrow> \<not> tr_txActive (sy_transport s)) \<and>
    (\<forall>i. sy_shut s i = ShutReturned None \<longrightarrow> tr_clientClosed (sy_transport s))"
  unfolding closing_ok_def Let_def by blast

lemma system_step_closed:
  assumes "closing_ok s" and "system_step g s s'"
  shows "tr_done (sy_transport s') \<or> (\<exists>i. run_closed (sy_run s' i)) \<or> (\<exists>i. shut_closed (sy_shut s' i)) \<Longrightarrow>
    tr_state (sy_transport s') = TransportClosed"
proof -
  have adv: "advances (sy_transport s) (sy_transport s')" by (rule system_step_advances [OF assms(2)])
  have old: "tr_done (sy_transport s) \<or> run_closed (sy_run s i) \<or> shut_closed (sy_shut s j) \<Longrightarrow>
      tr_state (sy_transport s') = TransportClosed" for i j
    using assms(1) adv unfolding closing_split advances_def by blast
  show "tr_state (sy_transport s') = TransportClosed"
    if "tr_done (sy_transport s') \<or> (\<exists>i. run_closed (sy_run s' i)) \<or> (\<exists>i. shut_closed (sy_shut s' i))"
    using assms(2)
  proof (cases rule: system_step.cases)
    case (step_run i t pc)
    with that old run_step_effect(3,4) [OF step_run(2)] show ?thesis by (auto split: if_splits)
  next
    case (step_drain i t pc)
    with that old drain_step_effect(3) [OF step_drain(2)] show ?thesis by auto
  next
    case (step_shut i t pc)
    with that old shutdown_step_effect(4,5) [OF step_shut(2)] show ?thesis by (auto split: if_splits)
  next
    case (step_pub i t pc)
    with that old publish_step_effect(3) [OF step_pub(2)] show ?thesis by auto
  qed
qed


lemma active_channel:
  "gate_ok s \<Longrightarrow> tr_txActive (sy_transport s) \<Longrightarrow>
    \<exists>ch. tr_txDone (sy_transport s) = Some ch \<and> ch \<notin> set (tr_closedTx (sy_transport s))"
  unfolding gate_ok_def owned_def by blast

text \<open>A transaction that is active after a step was active before it, unless the transport was running.\<close>

lemma system_step_tx:
  assumes "system_step g s s'" and "gate_ok s" and "tr_state (sy_transport s) = TransportClosed"
  shows "tr_txActive (sy_transport s') \<Longrightarrow> tr_txActive (sy_transport s) \<and> tr_txDone (sy_transport s') = tr_txDone (sy_transport s)"
    "set (tr_closedTx (sy_transport s)) \<subseteq> set (tr_closedTx (sy_transport s'))"
    "tr_txActive (sy_transport s) \<Longrightarrow> \<not> tr_txActive (sy_transport s') \<Longrightarrow>
      tr_txDone (sy_transport s) \<in> Some ` set (tr_closedTx (sy_transport s'))"
proof -
  have same: "keeps_gate (sy_transport s) (sy_transport s') \<or>
      (\<exists>pc pc'. publish_step g (sy_transport s) pc = Some (sy_transport s', pc'))"
    using assms(1)
  proof (cases rule: system_step.cases)
    case (step_pub i t pc)
    then show ?thesis by auto
  qed (use run_step_effect(1) drain_step_effect(1) shutdown_step_effect(1) in fastforce)+
  then show "tr_txActive (sy_transport s') \<Longrightarrow>
      tr_txActive (sy_transport s) \<and> tr_txDone (sy_transport s') = tr_txDone (sy_transport s)"
    using assms(3) publish_step_effect(7) by (fastforce simp: keeps_gate_def)
  show "set (tr_closedTx (sy_transport s)) \<subseteq> set (tr_closedTx (sy_transport s'))"
    using same publish_step_effect(6) by (fastforce simp: keeps_gate_def)
  show "tr_txDone (sy_transport s) \<in> Some ` set (tr_closedTx (sy_transport s'))"
    if a: "tr_txActive (sy_transport s)" and n: "\<not> tr_txActive (sy_transport s')"
  proof -
    obtain ch where "tr_txDone (sy_transport s) = Some ch" using active_channel [OF assms(2) a] by blast
    then show ?thesis using same a n publish_step_effect(8) by (fastforce simp: keeps_gate_def)
  qed
qed

lemma system_step_shut:
  assumes "system_step g s s'" and "sy_shut s' i \<noteq> sy_shut s i"
  shows "shutdown_step g (sy_transport s) (sy_shut s i) = Some (sy_transport s', sy_shut s' i)"
  using assms by (cases rule: system_step.cases) (auto split: if_splits)

lemma system_step_waiting:
  assumes "closing_ok s" and "gate_ok s" and step: "system_step g s s'"
  shows "sy_shut s' i = ShutWait ch \<Longrightarrow>
      (if tr_txActive (sy_transport s') then tr_txDone (sy_transport s') = ch else ch \<in> Some ` set (tr_closedTx (sy_transport s')))"
    "sy_shut s' i \<in> {ShutClosing None, ShutReturned None} \<Longrightarrow> \<not> tr_txActive (sy_transport s')"
    "sy_shut s' i = ShutReturned None \<Longrightarrow> tr_clientClosed (sy_transport s')"
proof -
  note old = assms(1) [unfolded closing_split]
  have closed: "tr_state (sy_transport s) = TransportClosed" if "shut_closed (sy_shut s i)" using old that by blast
  note tx = system_step_tx [OF step assms(2)]
  show "if tr_txActive (sy_transport s') then tr_txDone (sy_transport s') = ch else ch \<in> Some ` set (tr_closedTx (sy_transport s'))"
    if w: "sy_shut s' i = ShutWait ch"
  proof (cases "sy_shut s i = sy_shut s' i")
    case True
    then have "tr_state (sy_transport s) = TransportClosed" using closed w by simp
    moreover have "if tr_txActive (sy_transport s) then tr_txDone (sy_transport s) = ch
        else ch \<in> Some ` set (tr_closedTx (sy_transport s))"
      using old True w by metis
    ultimately show ?thesis using tx by (auto split: if_splits)
  next
    case False
    note st = system_step_shut [OF step False [symmetric]]
    then show ?thesis using shutdown_step_effect(1,10) [OF st] w by (auto simp: keeps_gate_def)
  qed
  show "\<not> tr_txActive (sy_transport s')" if w: "sy_shut s' i \<in> {ShutClosing None, ShutReturned None}"
  proof (cases "sy_shut s i = sy_shut s' i")
    case True
    then have "tr_state (sy_transport s) = TransportClosed" "\<not> tr_txActive (sy_transport s)"
      using closed [unfolded True] w old True by (auto simp del: insert_iff)
    then show ?thesis using tx(1) by blast
  next
    case False
    note st = system_step_shut [OF step False [symmetric]]
    from shutdown_step_effect(1,9) [OF st] w old obtain ch where
      "\<not> tr_txActive (sy_transport s) \<or> sy_shut s i = ShutWait ch \<and> ch \<in> Some ` set (tr_closedTx (sy_transport s))"
      "keeps_gate (sy_transport s) (sy_transport s')" by blast
    moreover have "ch \<notin> Some ` set (tr_closedTx (sy_transport s))" if "tr_txActive (sy_transport s)" "tr_txDone (sy_transport s) = ch"
      using active_channel [OF assms(2) that(1)] that(2) by auto
    ultimately show ?thesis using old by (auto simp: keeps_gate_def)
  qed
  show "tr_clientClosed (sy_transport s')" if w: "sy_shut s' i = ShutReturned None"
  proof (cases "sy_shut s i = sy_shut s' i")
    case True
    then show ?thesis using old w system_step_advances [OF step] unfolding advances_def by metis
  next
    case False
    then show ?thesis using shutdown_step_effect(8) [OF system_step_shut [OF step False [symmetric]]] w by simp
  qed
qed

lemma system_step_closing: "closing_ok s \<Longrightarrow> gate_ok s \<Longrightarrow> system_step g s s' \<Longrightarrow> closing_ok s'"
  using system_step_closed system_step_waiting unfolding closing_split [of s'] by blast


lemma system_step_progress:
  assumes "progress_ok s" and step: "system_step g s s'"
  shows "progress_ok s'"
proof -
  note old = assms(1) [unfolded progress_ok_def Let_def]
  have adv: "advances (sy_transport s) (sy_transport s')" by (rule system_step_advances [OF step])
  have run: "tr_done (sy_transport s') \<or> (\<exists>i. under_way (sy_run s' i))" if started: "tr_runStarted (sy_transport s')"
    using step
  proof (cases rule: system_step.cases)
    case (step_run i t pc)
    show ?thesis
    proof (cases "tr_runStarted (sy_transport s)")
      case True
      with old adv consider "tr_done (sy_transport s')" | j where "under_way (sy_run s j)" by (auto simp: advances_def)
      then show ?thesis
      proof cases
        case (2 j)
        then show ?thesis
          using run_step_effect(6) [OF step_run(2)] step_run(1) by (cases "i = j") (auto intro: exI [of _ j] exI [of _ i])
      qed simp
    next
      case False
      then have "under_way pc" using started run_step_effect(5) [OF step_run(2)] step_run(1) by simp
      then show ?thesis using step_run(1) by (auto intro: exI [of _ i])
    qed
  qed (use old started adv drain_step_effect(4) shutdown_step_effect(3) publish_step_effect(2) in \<open>auto simp: advances_def\<close>)
  have shut: "tr_runStarted (sy_transport s') \<and> (sy_shut s' i = ShutAwait \<longrightarrow> tr_drained (sy_transport s'))"
    if w: "sy_shut s' i \<in> {ShutAwait, ShutDrain True, ShutDrained True}" for i
  proof (cases "sy_shut s i = sy_shut s' i")
    case True
    then show ?thesis using old w adv unfolding advances_def by (metis insertCI insertE singletonD)
  next
    case False
    note st = system_step_shut [OF step False [symmetric]]
    show ?thesis using shutdown_step_effect(3,6,7) [OF st] w old by metis
  qed
  show ?thesis unfolding progress_ok_def Let_def using run shut by blast
qed

lemma reached_ok: "reached s s' \<Longrightarrow> system_ok s \<Longrightarrow> system_ok s'"
  by (induction rule: reached.induct) (auto simp: system_ok_def intro: system_step_gate system_step_closing system_step_progress)

section \<open>Shutting down\<close>

text \<open>A shutdown that is under way can finish: from every reachable state some threads only have to be scheduled.\<close>

inductive scheduled :: "system \<Rightarrow> system \<Rightarrow> bool" where
  scheduled_here: "scheduled s s"
| scheduled_step: "system_step Proceed s u \<Longrightarrow> scheduled u v \<Longrightarrow> scheduled s v"

lemma scheduled_trans: "scheduled s u \<Longrightarrow> scheduled u v \<Longrightarrow> scheduled s v"
  by (induction rule: scheduled.induct) (auto intro: scheduled.intros)

lemma scheduled_reached: "scheduled s u \<Longrightarrow> reached r s \<Longrightarrow> reached r u"
  by (induction rule: scheduled.induct) (auto intro: reached.intros)

lemma scheduled_ok: "scheduled s u \<Longrightarrow> system_ok s \<Longrightarrow> system_ok u"
  using scheduled_reached [of s u s] reached_ok reached.intros(1) by blast

definition finishes :: "system \<Rightarrow> nat \<Rightarrow> bool" where
  "finishes s i \<longleftrightarrow> (\<exists>s'. scheduled s s' \<and> sy_shut s' i = ShutReturned None)"

lemma finishes_after: "scheduled s u \<Longrightarrow> finishes u i \<Longrightarrow> finishes s i"
  unfolding finishes_def using scheduled_trans by blast

lemma shut_next:
  assumes "shutdown_step Proceed (sy_transport s) (sy_shut s i) = Some (t, pc)"
    and "finishes (s\<lparr>sy_transport := t, sy_shut := (sy_shut s)(i := pc)\<rparr>) i"
  shows "finishes s i"
  using assms(2) scheduled.intros(2) [OF step_shut [OF assms(1)]] unfolding finishes_def by blast

lemma finishes_closing: "sy_shut s i = ShutClosing None \<Longrightarrow> finishes s i"
  by (rule shut_next, simp, simp add: finishes_def) (auto intro: scheduled_here)

lemma finishes_wait:
  assumes "system_ok s" and "sy_shut s i = ShutWait ch"
  shows "finishes s i"
proof -
  have done_now: "finishes u i" if "sy_shut u i = ShutWait ch" "ch \<in> Some ` set (tr_closedTx (sy_transport u))" for u
    by (rule shut_next) (use that in \<open>auto intro: finishes_closing\<close>)
  show ?thesis
  proof (cases "tr_txActive (sy_transport s)")
    case True
    then obtain p where p: "sy_pub s p = PubActive"
      using assms(1) by (auto simp: system_ok_def gate_ok_def owned_def split: option.splits)
    have "tr_txDone (sy_transport s) = ch" using assms True by (auto simp: system_ok_def closing_ok_def Let_def)
    moreover obtain c where "tr_txDone (sy_transport s) = Some c"
      using active_channel [OF _ True] assms(1) by (auto simp: system_ok_def)
    ultimately have "\<exists>t. publish_step Proceed (sy_transport s) (sy_pub s p) = Some (t, PubReleased) \<and> ch \<in> Some ` set (tr_closedTx t)"
      by (auto simp: p)
    then obtain t where t: "publish_step Proceed (sy_transport s) (sy_pub s p) = Some (t, PubReleased)"
      "ch \<in> Some ` set (tr_closedTx t)" by blast
    have "finishes (s\<lparr>sy_transport := t, sy_pub := (sy_pub s)(p := PubReleased)\<rparr>) i" using assms(2) t(2) by (intro done_now) simp_all
    then show ?thesis using finishes_after [OF scheduled.intros(2) [OF step_pub [OF t(1)] scheduled_here]] by blast
  next
    case False
    then have "ch \<in> Some ` set (tr_closedTx (sy_transport s))" using assms by (auto simp: system_ok_def closing_ok_def Let_def)
    then show ?thesis using assms(2) by (intro done_now)
  qed
qed


lemma finishes_check:
  assumes "system_ok s" and "sy_shut s i = ShutCheck"
  shows "finishes s i"
proof -
  let ?pc = "if \<not> tr_txActive (sy_transport s) then ShutClosing None else ShutWait (tr_txDone (sy_transport s))"
  let ?u = "s\<lparr>sy_transport := sy_transport s, sy_shut := (sy_shut s)(i := ?pc)\<rparr>"
  have st: "shutdown_step Proceed (sy_transport s) (sy_shut s i) = Some (sy_transport s, ?pc)" by (simp add: assms(2))
  then have "system_ok ?u" using scheduled_ok [OF scheduled.intros(2) [OF step_shut scheduled_here]] assms(1) by blast
  then have "finishes ?u i"
    by (cases "tr_txActive (sy_transport s)")
      (auto intro: finishes_closing finishes_wait [where ch = "tr_txDone (sy_transport s)"] simp del: fun_upd_apply simp: fun_upd_same)
  with st show ?thesis by (rule shut_next)
qed

text \<open>The runner reaches the end of \<open>Run\<close> once \<open>drain\<close> is closed.\<close>

definition closes_done :: "system \<Rightarrow> bool" where
  "closes_done s \<longleftrightarrow> (\<exists>s'. scheduled s s' \<and> tr_done (sy_transport s') \<and> sy_shut s' = sy_shut s)"

lemma run_next:
  assumes "run_step Proceed (sy_transport s) (sy_run s j) = Some (t, pc)"
    and "closes_done (s\<lparr>sy_transport := t, sy_run := (sy_run s)(j := pc)\<rparr>)"
  shows "closes_done s"
  using assms(2) scheduled.intros(2) [OF step_run [OF assms(1)]] unfolding closes_done_def by fastforce

lemma run_closing_done: "sy_run s j = RunClosing r \<Longrightarrow> closes_done s"
  by (rule run_next [where j = j], simp, simp add: closes_done_def) (auto intro: scheduled_here)

lemma run_blocked_done: "sy_run s j = RunBlocked \<Longrightarrow> tr_drained (sy_transport s) \<Longrightarrow> closes_done s"
  by (rule run_next [where j = j], simp) (rule run_closing_done [where j = j], simp)

lemma run_checked_done: "sy_run s j = RunChecked \<Longrightarrow> tr_drained (sy_transport s) \<Longrightarrow> closes_done s"
  by (rule run_next [where j = j], simp) (rule run_blocked_done [where j = j], simp_all)

lemma run_startup_done: "sy_run s j = RunStartup \<Longrightarrow> tr_drained (sy_transport s) \<Longrightarrow> closes_done s"
  by (rule run_next [where j = j], simp) (rule run_checked_done [where j = j], simp_all)

lemma under_way_done:
  assumes "under_way (sy_run s j)" and "tr_drained (sy_transport s)"
  shows "closes_done s"
  using assms run_startup_done run_checked_done run_blocked_done run_closing_done
  by (auto simp: under_way_def elim!: run_closed.elims)

lemma finishes_await:
  assumes ok: "system_ok s" and w: "sy_shut s i = ShutAwait"
  shows "finishes s i"
proof -
  have "tr_runStarted (sy_transport s)" "tr_drained (sy_transport s)"
    "tr_runStarted (sy_transport s) \<longrightarrow> tr_done (sy_transport s) \<or> (\<exists>j. under_way (sy_run s j))"
    using ok w by (auto simp: system_ok_def progress_ok_def Let_def)
  then have "closes_done s" using under_way_done by (auto simp: closes_done_def intro: scheduled_here)
  then obtain u where u: "scheduled s u" "tr_done (sy_transport u)" "sy_shut u = sy_shut s" by (auto simp: closes_done_def)
  have "finishes u i"
  proof (rule shut_next)
    show st: "shutdown_step Proceed (sy_transport u) (sy_shut u i) = Some (sy_transport u, ShutCheck)" using u w by simp
    show "finishes (u\<lparr>sy_transport := sy_transport u, sy_shut := (sy_shut u)(i := ShutCheck)\<rparr>) i"
      using scheduled_ok [OF scheduled.intros(2) [OF step_shut [OF st] scheduled_here] scheduled_ok [OF u(1) ok]]
      by (intro finishes_check) simp_all
  qed
  then show ?thesis by (rule finishes_after [OF u(1)])
qed

lemma finishes_step:
  assumes "system_ok s" and "shutdown_step Proceed (sy_transport s) (sy_shut s i) = Some (t, pc)"
    and "\<And>u. system_ok u \<Longrightarrow> sy_shut u i = pc \<Longrightarrow> finishes u i"
  shows "finishes s i"
  by (rule shut_next [OF assms(2)], rule assms(3))
    (use scheduled_ok [OF scheduled.intros(2) [OF step_shut [OF assms(2)] scheduled_here] assms(1)] in simp_all)

lemma finishes_drained:
  assumes "system_ok s" and "sy_shut s i = ShutDrained started"
  shows "finishes s i"
proof (rule finishes_step [OF assms(1)])
  show "shutdown_step Proceed (sy_transport s) (sy_shut s i) =
      Some ((sy_transport s)\<lparr>tr_drained := True\<rparr>, if started then ShutAwait else ShutDone)"
    by (simp add: assms(2))
  fix u assume u: "system_ok u" "sy_shut u i = (if started then ShutAwait else ShutDone)"
  show "finishes u i"
  proof (cases started)
    case False
    with u have d: "shutdown_step Proceed (sy_transport u) (sy_shut u i) = Some ((sy_transport u)\<lparr>tr_done := True\<rparr>, ShutCheck)"
      by simp
    show ?thesis by (rule finishes_step [OF u(1) d finishes_check])
  qed (use u finishes_await in simp)
qed

lemma finishes_drain:
  assumes "system_ok s" and "sy_shut s i = ShutDrain started"
  shows "finishes s i"
  by (rule finishes_step [OF assms(1) _ finishes_drained], subst assms(2), rule shutdown_step.simps(2))

lemma finishes_idle:
  assumes "system_ok s" and "sy_shut s i = ShutIdle"
  shows "finishes s i"
  by (rule finishes_step [OF assms(1) _ finishes_drain], subst assms(2), rule shutdown_step.simps(1))

lemma shutdown_finishes:
  assumes ok: "system_ok s" and "\<And>e. sy_shut s i \<noteq> ShutClosing (Some e)" and "\<And>e. sy_shut s i \<noteq> ShutReturned (Some e)"
  shows "finishes s i"
proof (cases "sy_shut s i")
  case (ShutDone)
  then have d: "shutdown_step Proceed (sy_transport s) (sy_shut s i) = Some ((sy_transport s)\<lparr>tr_done := True\<rparr>, ShutCheck)" by simp
  show ?thesis by (rule finishes_step [OF ok d finishes_check])
next
  case (ShutClosing r)
  with assms(2) show ?thesis by (cases r) (auto intro: finishes_closing)
next
  case (ShutReturned r)
  with assms(3) show ?thesis by (cases r) (auto simp: finishes_def intro: scheduled_here)
qed (use ok finishes_idle finishes_drain finishes_drained finishes_await finishes_check finishes_wait in simp_all)

text \<open>A step never changes the pc of another shutdown; one that returned has returned for good.\<close>

lemma returned_stays: "reached s s' \<Longrightarrow> sy_shut s i = ShutReturned r \<Longrightarrow> sy_shut s' i = ShutReturned r"
proof (induction rule: reached.induct)
  case (reached_step s u g v)
  then show ?case using system_step_shut [of g u v i] by (cases g) fastforce+
qed

lemma no_active:
  assumes "system_ok s" and "sy_shut s i = ShutReturned None"
  shows "sy_pub s j \<noteq> PubActive"
proof
  assume a: "sy_pub s j = PubActive"
  obtain holder where h: "owned holder (sy_transport s) (sy_pub s)" using assms(1) by (auto simp: system_ok_def gate_ok_def)
  then have "holder = Some j" using a by (metis owned_def publish_pc.distinct(5))
  then have "tr_txActive (sy_transport s)" using h a by (simp add: owned_def)
  then show False using assms by (auto simp: system_ok_def closing_ok_def Let_def)
qed

section \<open>Properties\<close>

text \<open>C33. The lifecycle of the transport under any interleaving of \<open>Run\<close>, \<open>BeginDrain\<close>, \<open>Shutdown\<close> and publishers. At most one
  publisher is inside a transaction. When a shutdown has returned without an error the client is closed, no transaction is in
  flight, and none starts at any later time. A shutdown whose context has not ended can always finish: no state is reachable
  in which it waits for something no thread is going to do.\<close>

theorem transport_lifecycle_safe:
  assumes "reached initial_system s"
  shows "(\<forall>i j. sy_pub s i = PubActive \<and> sy_pub s j = PubActive \<longrightarrow> i = j) \<and>
    (sy_shut s i = ShutReturned None \<longrightarrow> tr_clientClosed (sy_transport s) \<and>
      (\<forall>s' j. reached s s' \<longrightarrow> sy_pub s' j \<noteq> PubActive)) \<and>
    ((\<forall>e. sy_shut s i \<noteq> ShutClosing (Some e) \<and> sy_shut s i \<noteq> ShutReturned (Some e)) \<longrightarrow>
      (\<exists>s'. scheduled s s' \<and> sy_shut s' i = ShutReturned None))"
proof -
  have ok: "system_ok s" by (rule reached_ok [OF assms initial_ok])
  have one: "i = j" if "sy_pub s i = PubActive" "sy_pub s j = PubActive" for i j
  proof -
    obtain holder where "owned holder (sy_transport s) (sy_pub s)" using ok by (auto simp: system_ok_def gate_ok_def)
    then have "holder = Some i" "holder = Some j" using that by (simp_all add: owned_def) (metis publish_pc.distinct(5))+
    then show ?thesis by simp
  qed
  have idle: "sy_pub s' j \<noteq> PubActive" if r: "reached s s'" "sy_shut s i = ShutReturned None" for s' j
    by (rule no_active [OF reached_ok [OF r(1) ok] returned_stays [OF r]])
  have closed: "tr_clientClosed (sy_transport s)" if "sy_shut s i = ShutReturned None"
    using ok that by (auto simp: system_ok_def closing_ok_def Let_def)
  show ?thesis using one idle closed shutdown_finishes [OF ok, of i] unfolding finishes_def by blast
qed

text \<open>Schedules, to reach a concrete state.\<close>

datatype actor = ActRun nat | ActDrain nat | ActShut nat | ActPub nat

fun act :: "actor \<Rightarrow> system \<Rightarrow> system option" where
  "act (ActRun i) s = map_option (\<lambda>(t, pc). s\<lparr>sy_transport := t, sy_run := (sy_run s)(i := pc)\<rparr>)
     (run_step Proceed (sy_transport s) (sy_run s i))"
| "act (ActDrain i) s = map_option (\<lambda>(t, pc). s\<lparr>sy_transport := t, sy_drain := (sy_drain s)(i := pc)\<rparr>)
     (drain_step Proceed (sy_transport s) (sy_drain s i))"
| "act (ActShut i) s = map_option (\<lambda>(t, pc). s\<lparr>sy_transport := t, sy_shut := (sy_shut s)(i := pc)\<rparr>)
     (shutdown_step Proceed (sy_transport s) (sy_shut s i))"
| "act (ActPub i) s = map_option (\<lambda>(t, pc). s\<lparr>sy_transport := t, sy_pub := (sy_pub s)(i := pc)\<rparr>)
     (publish_step Proceed (sy_transport s) (sy_pub s i))"

fun acts :: "actor list \<Rightarrow> system \<Rightarrow> system option" where
  "acts [] s = Some s"
| "acts (a # as) s = (case act a s of None \<Rightarrow> None | Some u \<Rightarrow> acts as u)"

lemma act_step: "act a s = Some u \<Longrightarrow> system_step Proceed s u"
  by (cases a) (auto intro: system_step.intros)

lemma acts_scheduled: "acts as s = Some u \<Longrightarrow> scheduled s u"
  by (induction as arbitrary: s) (auto intro: scheduled.intros act_step split: option.splits)

definition sample_schedule :: "actor list" where
  "sample_schedule =
    [ActRun 0, ActRun 0, ActRun 0, ActPub 0, ActPub 0, ActShut 0, ActShut 0, ActShut 0, ActRun 0, ActRun 0, ActShut 0, ActShut 0]"

theorem transport_lifecycle_safe_witness:
  "\<exists>s s'. acts sample_schedule initial_system = Some s \<and> sy_pub s 0 = PubActive \<and> sy_shut s 0 = ShutWait (Some 0) \<and>
    scheduled s s' \<and> sy_shut s' 0 = ShutReturned None"
proof -
  have "\<exists>s. acts sample_schedule initial_system = Some s \<and> sy_pub s 0 = PubActive \<and> sy_shut s 0 = ShutWait (Some 0)"
    by (simp add: sample_schedule_def initial_system_def new_transport_def ensureRunning_def begin_drain_def)
  then obtain s where s: "acts sample_schedule initial_system = Some s" "sy_pub s 0 = PubActive" "sy_shut s 0 = ShutWait (Some 0)"
    by blast
  have "reached initial_system s" by (rule scheduled_reached [OF acts_scheduled [OF s(1)] reached_here])
  from transport_lifecycle_safe [OF this, of 0] s show ?thesis by simp
qed

end
