(* ===== verification/KafkaWorker.thy ===== *)
theory KafkaWorker
  imports KafkaConsumer
begin

text \<open>
  The worker session of the Kafka consumer, \<open>runWorkerSession\<close> of \<open>adapters/kafka/consumer.go\<close>, with polling,
  deferral of retry partitions and the rewind of \<open>adapters/kafka/retry_scheduler.go\<close>. An iteration of the loop is a
  program; the loop runs iterations until one returns, with fuel, since it runs until it is told to stop.
\<close>

section \<open>Fetches\<close>

text \<open>The error of the poll context is one of the two context errors, or none.\<close>

definition fetchError :: "fetched \<Rightarrow> sentinel option \<Rightarrow> err option" where
  "fetchError fetches pollErr =
    errors_Join (map (\<lambda>(_, e). Some (Wrap ''topic partition'' [e]))
      (filter (\<lambda>(_, e). \<not> (case pollErr of None \<Rightarrow> False | Some p \<Rightarrow> errors_Is e p)) (ft_Errors fetches)))"

record workerPoll =
  wp_record :: "krecord option"
  wp_drained :: bool

definition drainRequested :: "kbroker \<Rightarrow> ((kevent, 'w) kworld_scheme, bool) state" where
  "drainRequested B = ask (kb_drain B)"

definition pollWorkerRecord :: "kbroker \<Rightarrow> ((kevent, 'w) kworld_scheme, err + workerPoll) state" where
  "pollWorkerRecord B = do {
     (fetches, pollErr) \<leftarrow> ask (kb_poll B);
     _ \<leftarrow> emit (EvPoll fetches);
     case fetchError fetches pollErr of
       Some e \<Rightarrow> do { _ \<leftarrow> emit EvAllowRebalance; k_return (Inl (Wrap ''messenger/kafka: consume'' [e])) }
     | None \<Rightarrow> do {
         drained \<leftarrow> drainRequested B;
         if drained then do { _ \<leftarrow> emit EvAllowRebalance; k_return (Inr \<lparr>wp_record = None, wp_drained = True\<rparr>) }
         else case ft_Records fetches of
           r # _ \<Rightarrow> k_return (Inr \<lparr>wp_record = Some r, wp_drained = False\<rparr>)
         | [] \<Rightarrow> do {
             _ \<leftarrow> emit EvAllowRebalance;
             ended \<leftarrow> ctxErr B;
             case (pollErr, ended) of
               (Some p, Some e) \<Rightarrow>
                 k_return (if p = ContextDeadlineExceeded then Inr \<lparr>wp_record = None, wp_drained = False\<rparr> else Inl e)
             | _ \<Rightarrow> k_return (Inr \<lparr>wp_record = None, wp_drained = False\<rparr>) } } }"

section \<open>Deferring a retry partition\<close>

definition record_partition :: "krecord \<Rightarrow> topicPartition" where
  "record_partition r = \<lparr>tp_topic = kr_Topic r, tp_partition = kr_Partition r\<rparr>"

definition record_offset :: "krecord \<Rightarrow> epochOffset" where
  "record_offset r = \<lparr>eo_Epoch = kr_LeaderEpoch r, eo_Offset = kr_Offset r\<rparr>"

definition containsPartition :: "(string, int list) table \<Rightarrow> topicPartition \<Rightarrow> bool" where
  "containsPartition paused p =
    (case map_of paused (tp_topic p) of None \<Rightarrow> False | Some ps \<Rightarrow> list_ex (\<lambda>c. c = tp_partition p) ps)"

definition pauseAndRewindRetryPartition ::
  "kbroker \<Rightarrow> krecord \<Rightarrow> ((kevent, 'w) kworld_scheme, topicPartition \<times> bool \<times> err option) state" where
  "pauseAndRewindRetryPartition B r =
    (let p = record_partition r; want = record_offset r in
     do {
       previouslyPaused \<leftarrow> ask (kb_paused B);
       _ \<leftarrow> emit (EvPause p);
       _ \<leftarrow> emit (EvSetOffset p want);
       committed \<leftarrow> ask (\<lambda>n. kb_committed B n p);
       uncommitted \<leftarrow> ask (\<lambda>n. kb_uncommitted B n p);
       let ownedPause = \<not> containsPartition previouslyPaused p in
       if committed \<noteq> Some want \<or> uncommitted \<noteq> None \<and> uncommitted \<noteq> Some want
       then k_return (p, ownedPause, Some (Wrap ''rewind'' [Sentinel KafkaErrRewindNotConfirmed]))
       else k_return (p, ownedPause, None) })"

definition deferRetryPartition ::
  "kbroker \<Rightarrow> retryPartitionScheduler \<Rightarrow> krecord \<Rightarrow> instant \<Rightarrow>
    ((kevent, 'w) kworld_scheme, retryPartitionScheduler \<times> err option) state" where
  "deferRetryPartition B s r deadline = do {
     (p, ownsPause, e) \<leftarrow> pauseAndRewindRetryPartition B r;
     _ \<leftarrow> emit EvAllowRebalance;
     k_return (if e \<noteq> None then (s, e) else (schedule p deadline ownsPause s, None)) }"

section \<open>The session\<close>

text \<open>The scheduler of the session and whether the ready callback is still to be called.\<close>

record session =
  se_scheduler :: retryPartitionScheduler
  se_unready :: bool

definition consumerGroupJoined :: "string \<times> int \<Rightarrow> bool" where
  "consumerGroupJoined g \<longleftrightarrow> fst g \<noteq> [] \<and> snd g \<ge> 0"

definition markReady :: "kbroker \<Rightarrow> session \<Rightarrow> ((kevent, 'w) kworld_scheme, session) state" where
  "markReady B s =
    (if \<not> se_unready s then k_return s
     else do {
       ended \<leftarrow> ctxErr B;
       g \<leftarrow> ask (kb_group B);
       k_return (if ended \<noteq> None \<or> \<not> consumerGroupJoined g then s else s\<lparr>se_unready := False\<rparr>) })"

text \<open>The select at the head of the loop; when both channels are ready, either case may be taken.\<close>

definition session_select :: "kbroker \<Rightarrow> ((kevent, 'w) kworld_scheme, err option option) state" where
  "session_select B = do {
     ended \<leftarrow> ctxErr B;
     drained \<leftarrow> drainRequested B;
     pick \<leftarrow> ask (kb_pick B);
     k_return (case ended of
         None \<Rightarrow> if drained then Some None else None
       | Some e \<Rightarrow> if drained \<and> pick then Some None else Some (Some e)) }"

datatype iteration = Continue session | Stop "err option"

definition session_record ::
  "'b kenv \<Rightarrow> 'b kconsumer \<Rightarrow> session \<Rightarrow> krecord \<Rightarrow> ('b cworld, iteration) state" where
  "session_record E co s r = do {
     prepared \<leftarrow> prepareRecord E co r;
     if \<not> IsZeroTime (pr_retryAt prepared) then do {
       (sched, e) \<leftarrow> deferRetryPartition (ke_broker E) (se_scheduler s) r (pr_retryAt prepared);
       k_return (case e of Some x \<Rightarrow> Stop (Some x) | None \<Rightarrow> Continue (s\<lparr>se_scheduler := sched\<rparr>)) }
     else do {
       _ \<leftarrow> emit EvAllowRebalance;
       e \<leftarrow> processPreparedRecord E co r prepared;
       k_return (case e of
           None \<Rightarrow> Continue s
         | Some x \<Rightarrow> if errors_Is x KafkaErrTransactionNotCommitted then Continue s else Stop (Some x)) } }"

definition session_poll :: "'b kenv \<Rightarrow> 'b kconsumer \<Rightarrow> session \<Rightarrow> ('b cworld, iteration) state" where
  "session_poll E co s = do {
     polled \<leftarrow> pollWorkerRecord (ke_broker E);
     case polled of
       Inl e \<Rightarrow> k_return (Stop (Some e))
     | Inr poll \<Rightarrow>
        if wp_drained poll then k_return (Stop None)
        else do {
          s \<leftarrow> markReady (ke_broker E) s;
          case wp_record poll of None \<Rightarrow> k_return (Continue s) | Some r \<Rightarrow> session_record E co s r } }"

definition session_turn :: "'b kenv \<Rightarrow> 'b kconsumer \<Rightarrow> session \<Rightarrow> instant \<Rightarrow> ('b cworld, iteration) state" where
  "session_turn E co s t =
    (let (due, sched) = releaseDue t (se_scheduler s); s = s\<lparr>se_scheduler := sched\<rparr> in
     do {
       _ \<leftarrow> (if due \<noteq> [] then emit (EvResume due) else k_return ());
       if pollTimeout sched t (seconds 1) \<le> 0 then k_return (Continue s) else session_poll E co s })"

definition session_iteration :: "'b kenv \<Rightarrow> 'b kconsumer \<Rightarrow> session \<Rightarrow> ('b cworld, iteration) state" where
  "session_iteration E co s = do {
     selected \<leftarrow> session_select (ke_broker E);
     case selected of
       Some e \<Rightarrow> k_return (Stop e)
     | None \<Rightarrow> do { t \<leftarrow> ke_now E; session_turn E co s t } }"

fun session_loop :: "'b kenv \<Rightarrow> 'b kconsumer \<Rightarrow> nat \<Rightarrow> session \<Rightarrow> ('b cworld, err option option) state" where
  "session_loop E co 0 s = k_return None"
| "session_loop E co (Suc fuel) s = do {
     next_step \<leftarrow> session_iteration E co s;
     case next_step of Stop e \<Rightarrow> k_return (Some e) | Continue s \<Rightarrow> session_loop E co fuel s }"

definition runWorkerSession ::
  "'b kenv \<Rightarrow> 'b kconsumer \<Rightarrow> store \<Rightarrow> nat \<Rightarrow> ('b cworld, err option option) state" where
  "runWorkerSession E co m fuel = do {
     s \<leftarrow> markReady (ke_broker E) \<lparr>se_scheduler = newRetryPartitionScheduler m, se_unready = True\<rparr>;
     session_loop E co fuel s }"

section \<open>A polled record is accounted for\<close>

text \<open>The records a settled delivery may produce.\<close>

definition accepted ::
  "'b kenv \<Rightarrow> 'b kconsumer \<Rightarrow> krecord \<Rightarrow> preparedRecord \<Rightarrow> 'b db conn \<Rightarrow> krecord list \<Rightarrow> bool" where
  "accepted E co r prepared c rs \<longleftrightarrow>
    dead_letter_of E co r (pr_control prepared) rs \<or>
    pr_failure prepared = None \<and> (\<exists>decoded. kc_decode co (pr_envelope prepared) = Inr decoded \<and>
      settled E co r (pr_control prepared) decoded c rs)"

text \<open>How an iteration leaves a record: deferred in place, or settled by one transaction.\<close>

definition deferred_in_place :: "session \<Rightarrow> krecord \<Rightarrow> kevent list \<Rightarrow> bool" where
  "deferred_in_place s r evs \<longleftrightarrow>
    evs = [EvPause (record_partition r), EvSetOffset (record_partition r) (record_offset r), EvAllowRebalance] \<and>
    (\<exists>deadline. deadline_of (se_scheduler s) (record_partition r) = Some deadline)"

definition prepared_from :: "'b kenv \<Rightarrow> 'b kconsumer \<Rightarrow> krecord \<Rightarrow> preparedRecord \<Rightarrow> bool" where
  "prepared_from E co r prepared \<longleftrightarrow> (\<exists>w. prepared = fst (run_state (prepareRecord E co r) w))"

definition settled_once :: "'b kenv \<Rightarrow> 'b kconsumer \<Rightarrow> krecord \<Rightarrow> 'b db conn \<Rightarrow> kevent list \<Rightarrow> bool" where
  "settled_once E co r c evs \<longleftrightarrow>
    (\<exists>prepared rs. prepared_from E co r prepared \<and> visible evs = EvAllowRebalance # committed_tx rs \<and> accepted E co r prepared c rs)"

lemma yields_rewind:
  "yields (pauseAndRewindRetryPartition B r) w (\<lambda>a evs w'. kept w w' \<and> fst a = record_partition r \<and>
    evs = [EvPause (record_partition r), EvSetOffset (record_partition r) (record_offset r)])"
  by (auto simp: yields_def pauseAndRewindRetryPartition_def kept_def Let_def)

lemma yields_prepare:
  "yields (prepareRecord E co r) w (\<lambda>x evs w'. evs = [] \<and> cw_conn w' = cw_conn w \<and> prepared_from E co r x)"
proof -
  have "yields (prepareRecord E co r) w (\<lambda>x evs w'. evs = [] \<and> cw_conn w' = cw_conn w)"
    unfolding prepareRecord_def by (auto split: sum.split intro!: yields_return yields_now_then)
  then show ?thesis unfolding yields_def prepared_from_def by blast
qed

lemma yields_defer:
  assumes "sched_inv s"
  shows "yields (deferRetryPartition B s r deadline) w (\<lambda>(s', e) evs w'. kept w w' \<and>
    evs = [EvPause (record_partition r), EvSetOffset (record_partition r) (record_offset r), EvAllowRebalance] \<and>
    sched_inv s' \<and> (e = None \<longrightarrow> deadline_of s' (record_partition r) = Some deadline))"
  unfolding deferRetryPartition_def
proof (rule yields_bind [OF yields_rewind], goal_cases)
  case (1 a evs v)
  then show ?case
    using assms by (cases a) (auto intro!: yields_bind [OF yields_emit] yields_return simp: schedule_ok elim: kept_trans)
qed

text \<open>
  The log of an iteration: it commits nothing, or it polled a record and its one committed transaction settles that
  record. The log of a session is a sequence of such logs, all of them judged by the final state of the inbox.
\<close>

definition iteration_log :: "'b kenv \<Rightarrow> 'b kconsumer \<Rightarrow> 'b db conn \<Rightarrow> kevent list \<Rightarrow> bool" where
  "iteration_log E co c evs \<longleftrightarrow>
    commit_event \<notin> set evs \<or>
    (\<exists>f r rest pre post. evs = pre @ post \<and> EvPoll f \<in> set pre \<and> ft_Records f = r # rest \<and> commit_event \<notin> set pre \<and>
      settled_once E co r c post)"

inductive session_log :: "'b kenv \<Rightarrow> 'b kconsumer \<Rightarrow> 'b db conn \<Rightarrow> kevent list \<Rightarrow> bool"
  for E :: "'b kenv" and co :: "'b kconsumer" and c :: "'b db conn" where
  log_start: "session_log E co c []"
| log_iteration: "session_log E co c evs \<Longrightarrow> iteration_log E co c evs' \<Longrightarrow> session_log E co c (evs @ evs')"

section \<open>Relations between the worlds before and after a session\<close>

text \<open>
  A reflexive and transitive relation that survives every single effect of a session survives the session: time
  passing, a call to the client, an observation, and the two operations of the inbox a consumer uses.
\<close>

locale session_relation =
  fixes R :: "'b cworld \<Rightarrow> 'b cworld \<Rightarrow> bool" and be :: "'b backend" and H :: "string \<Rightarrow> string"
  assumes same: "R w w" and later: "R u v \<Longrightarrow> R v w \<Longrightarrow> R u w"
    and tick: "R w (w\<lparr>kw_step := Suc (kw_step w)\<rparr>)"
    and called: "R w (w\<lparr>kw_calls := evs\<rparr>)"
    and observed: "R w (w\<lparr>cw_observed := obs\<rparr>)"
    and attempted: "R w (w\<lparr>cw_conn := snd (Store_ProcessAttempt be key (H data) n (Some h) (cw_conn w))\<rparr>)"
    and confirmed: "R w (w\<lparr>cw_conn := snd (Store_ConfirmTerminalHandoff be (Ctx None) key fp (cw_conn w))\<rparr>)"
begin

lemma rel_bind:
  assumes "state_io_rel R m" and "\<And>x. state_io_rel R (f x)"
  shows "state_io_rel R (State_Monad.bind m f)"
  using assms later unfolding state_io_rel_def by (auto split: prod.split) (metis snd_conv)

lemma rel_basic:
  "state_io_rel R (k_return x)" "state_io_rel R (ask f)" "state_io_rel R (emit ev)" "state_io_rel R (clock_now B)"
  "state_io_rel R (ctxErr B)" "state_io_rel R (drainRequested B)" "state_io_rel R (notifyObservers cfg obs)"
  by (simp_all add: state_io_rel_def clock_now_def ctxErr_def drainRequested_def notifyObservers_def same tick called observed)

lemma rel_store:
  "state_io_rel R (on_store (Store_ProcessAttempt be key (H data) n (Some h)))"
  "state_io_rel R (on_store (Store_ConfirmTerminalHandoff be (Ctx None) key fp))"
  using attempted [of _ key data n h] confirmed [of _ key fp]
  by (auto simp: state_io_rel_def on_store_def split: prod.split) (metis snd_conv)+

lemma rel_cases:
  "state_io_rel R m \<Longrightarrow> state_io_rel R m' \<Longrightarrow> state_io_rel R (if b then m else m')"
  "(x = None \<Longrightarrow> state_io_rel R m) \<Longrightarrow> (\<And>y. x = Some y \<Longrightarrow> state_io_rel R (g y)) \<Longrightarrow>
    state_io_rel R (case x of None \<Rightarrow> m | Some y \<Rightarrow> g y)"
  "(\<And>y. z = Inl y \<Longrightarrow> state_io_rel R (h y)) \<Longrightarrow> (\<And>y. z = Inr y \<Longrightarrow> state_io_rel R (k y)) \<Longrightarrow>
    state_io_rel R (case z of Inl y \<Rightarrow> h y | Inr y \<Rightarrow> k y)"
  "(\<And>y y'. p = (y, y') \<Longrightarrow> state_io_rel R (q y y')) \<Longrightarrow> state_io_rel R (case p of (y, y') \<Rightarrow> q y y')"
  "(ys = [] \<Longrightarrow> state_io_rel R m) \<Longrightarrow> (\<And>y ys'. ys = y # ys' \<Longrightarrow> state_io_rel R (l y ys')) \<Longrightarrow>
    state_io_rel R (case ys of [] \<Rightarrow> m | y # ys' \<Rightarrow> l y ys')"
  by (auto split: option.split sum.split prod.split list.split)

lemmas rel_intros = rel_bind rel_basic rel_store rel_cases

lemma rel_broker:
  "state_io_rel R (Begin B)" "state_io_rel R (ProduceSync B rs)" "state_io_rel R (End B b)"
  "state_io_rel R (pollWorkerRecord B)" "state_io_rel R (pauseAndRewindRetryPartition B r)"
  "state_io_rel R (markReady B s)" "state_io_rel R (session_select B)"
  unfolding Begin_def ProduceSync_def End_def pollWorkerRecord_def pauseAndRewindRetryPartition_def markReady_def
    session_select_def Let_def
  by (intro rel_intros)+

lemma rel_consumer:
  "state_io_rel R (commitRecord B p)" "state_io_rel R (observeBoundary E co op mid t e)"
  "state_io_rel R (observeHandle E co m a res d t e)" "state_io_rel R (prepareRecord E co r)"
  "state_io_rel R (retry_delay_of B cfg e' a)" "state_io_rel R (deferRetryPartition B sc r deadline)"
  unfolding commitRecord_def commitTransactionalRecords_def observeBoundary_def observeBoundaryWithDuration_def
    observeHandle_def prepareRecord_def retry_delay_of_def deferRetryPartition_def
  by (intro rel_intros rel_broker)+

lemma rel_handoffs:
  "state_io_rel R (retryRecord E co r canonical control attempt delay mid)"
  "state_io_rel R (deadLetterRecord E co r control kind failure attempt messageID)"
  unfolding retryRecord_def deadLetterRecord_def Let_def
  by (intro rel_intros rel_broker rel_consumer)+

lemma rel_process:
  assumes store: "kc_store co = be" and hash: "ke_H E = H"
  shows "state_io_rel R (processPreparedRecord E co r prepared)"
  unfolding processPreparedRecord_def process_decoded_def finish_success_def finish_terminal_def finish_retry_def
    confirmTerminalHandoff_def Let_def store hash
  by (intro rel_intros rel_consumer rel_handoffs)

lemma rel_session:
  assumes store: "kc_store co = be" and hash: "ke_H E = H"
  shows "state_io_rel R (session_record E co s r)" "state_io_rel R (session_iteration E co s)"
    "state_io_rel R (session_loop E co fuel s)"
proof -
  show r: "state_io_rel R (session_record E co s r)" for s r
    unfolding session_record_def by (intro rel_intros rel_consumer rel_process [OF store hash])
  show i: "state_io_rel R (session_iteration E co s)" for s
    unfolding session_iteration_def session_turn_def session_poll_def Let_def by (intro rel_intros rel_broker r)
  have step: "state_io_rel R (case x of Stop e \<Rightarrow> k_return (Some e) | Continue s \<Rightarrow> m s)"
    if "\<And>s. state_io_rel R (m s)" for x and m :: "session \<Rightarrow> ('b cworld, err option option) state"
    using that by (cases x) (simp_all add: rel_basic)
  show "state_io_rel R (session_loop E co fuel s)"
  proof (induction fuel arbitrary: s)
    case (Suc fuel)
    then show ?case unfolding session_loop.simps by (intro rel_bind i step)
  qed (simp add: rel_basic)
qed

end

text \<open>A session touches the inbox by attempts and confirmations only, and time never runs backwards.\<close>

fun session_call :: "(string \<Rightarrow> string) \<Rightarrow> 'b call \<Rightarrow> bool" where
  "session_call H (CAttempt key fp n h) \<longleftrightarrow> (\<exists>data. fp = H data)"
| "session_call H (CConfirm key fp) = True"
| "session_call H _ = False"

definition inbox_calls :: "(string \<Rightarrow> string) \<Rightarrow> 'b backend \<Rightarrow> 'b cworld \<Rightarrow> 'b cworld \<Rightarrow> bool" where
  "inbox_calls H be w w' \<longleftrightarrow> (\<exists>xs. cw_conn w' = run_calls be xs (cw_conn w) \<and> list_all (session_call H) xs)"

lemma run_calls_append: "run_calls be (xs @ ys) c = run_calls be ys (run_calls be xs c)"
  by (induction xs arbitrary: c) auto

lemma inbox_calls_trans:
  assumes "inbox_calls H be u v" and "inbox_calls H be v w"
  shows "inbox_calls H be u w"
proof -
  obtain xs ys where "cw_conn v = run_calls be xs (cw_conn u)" "cw_conn w = run_calls be ys (cw_conn v)"
      "list_all (session_call H) xs" "list_all (session_call H) ys"
    using assms by (auto simp: inbox_calls_def)
  then show ?thesis unfolding inbox_calls_def by (intro exI [of _ "xs @ ys"]) (simp add: run_calls_append)
qed

lemma inbox_calls_one: "session_call H x \<Longrightarrow> cw_conn w' = run_call be x (cw_conn w) \<Longrightarrow> inbox_calls H be w w'"
  unfolding inbox_calls_def by (intro exI [of _ "[x]"]) simp

lemma inbox_calls_none: "cw_conn w' = cw_conn w \<Longrightarrow> inbox_calls H be w w'"
  unfolding inbox_calls_def by (intro exI [of _ "[]"]) simp

interpretation inbox_rel: session_relation "inbox_calls H be" be H
proof unfold_locales
  show "inbox_calls H be w (w\<lparr>cw_conn := snd (Store_ProcessAttempt be key (H data) n (Some h) (cw_conn w))\<rparr>)" for w key data n h
    by (rule inbox_calls_one [of H "CAttempt key (H data) n h"]) auto
  show "inbox_calls H be w (w\<lparr>cw_conn := snd (Store_ConfirmTerminalHandoff be (Ctx None) key fp (cw_conn w))\<rparr>)" for w key fp
    by (rule inbox_calls_one [of H "CConfirm key fp"]) (simp_all add: live_def)
qed (auto intro: inbox_calls_none inbox_calls_trans)

definition no_earlier :: "'b cworld \<Rightarrow> 'b cworld \<Rightarrow> bool" where
  "no_earlier w w' \<longleftrightarrow> kw_step w \<le> kw_step w'"

interpretation clock_rel: session_relation no_earlier be H
  by unfold_locales (auto simp: no_earlier_def)

section \<open>Sessions\<close>

lemma yields_inbox:
  assumes "yields m w Q" and "state_io_rel (inbox_calls H be) m"
  shows "yields m w (\<lambda>x evs w'. Q x evs w' \<and> inbox_calls H be w w')"
  using assms unfolding yields_def state_io_rel_def by blast

lemma yields_poll:
  "yields (pollWorkerRecord B) w (\<lambda>a evs w'. kept w w' \<and> commit_event \<notin> set evs \<and>
    (\<forall>p r. a = Inr p \<and> wp_record p = Some r \<longrightarrow> (\<exists>f rest. EvPoll f \<in> set evs \<and> ft_Records f = r # rest)))"
proof (cases "kb_poll B (kw_step w)")
  case (Pair fetches pollErr)
  show ?thesis
  proof (cases "fetchError fetches pollErr")
    case None
    then show ?thesis
      by (cases "kb_drain B (Suc (kw_step w))"; cases "ft_Records fetches")
        (auto simp: yields_def pollWorkerRecord_def drainRequested_def ctxErr_def kept_def Pair split: option.split)
  qed (simp add: yields_def pollWorkerRecord_def kept_def Pair)
qed

lemma yields_select: "yields (session_select B) w (\<lambda>_ evs w'. kept w w' \<and> evs = [])"
  by (simp add: yields_def session_select_def drainRequested_def ctxErr_def kept_def)

lemma yields_markReady: "yields (markReady B s) w (\<lambda>s' evs w'. kept w w' \<and> evs = [] \<and> se_scheduler s' = se_scheduler s)"
  by (simp add: yields_def markReady_def ctxErr_def kept_def)

lemma session_log_Cons: "session_log E co c evs' \<Longrightarrow> iteration_log E co c evs \<Longrightarrow> session_log E co c (evs @ evs')"
proof (induction rule: session_log.induct)
  case log_start
  then show ?case using session_log.intros(2) [OF session_log.intros(1)] by fastforce
next
  case (log_iteration evs1 evs2)
  then show ?case using session_log.intros(2) [of E co c "evs @ evs1" evs2] by simp
qed

lemma session_calls_ok:
  assumes "list_all (session_call H) xs" and "\<And>key data. separated H key (H data)"
  shows "list_all (call_ok H) xs" "list_all (\<lambda>x. \<not> prunes x) xs"
proof -
  have "call_ok H x \<and> \<not> prunes x" if "session_call H x" for x :: "'a call" using that assms(2) by (cases x) auto
  with assms(1) show "list_all (call_ok H) xs" "list_all (\<lambda>x. \<not> prunes x) xs" by (auto simp: list_all_iff)
qed

context ledger_backend
begin

lemma accepted_later:
  assumes "accepted E co r prepared c rs" and "db_inv (cn_durable c)" and "list_all (session_call H) xs"
    and "\<And>key data. separated H key (H data)"
  shows "accepted E co r prepared (run_calls be xs c) rs"
proof -
  note later = runs_completed [OF assms(2) session_calls_ok [OF assms(3,4)], unfolded completed_def]
  show ?thesis using assms(1) later unfolding accepted_def settled_def by blast
qed

lemma iteration_log_later:
  assumes "iteration_log E co c evs" and "db_inv (cn_durable c)" and "list_all (session_call H) xs"
    and "\<And>key data. separated H key (H data)"
  shows "iteration_log E co (run_calls be xs c) evs"
  using assms(1) accepted_later [OF _ assms(2,3,4)] unfolding iteration_log_def settled_once_def by blast

lemma yields_session_record:
  assumes store: "kc_store co = be" and hash: "ke_H E = H" and sep: "\<And>key data. separated H key (H data)"
    and "db_inv (cn_durable (cw_conn w))" and "sched_inv (se_scheduler s)"
  shows "yields (session_record E co s r) w (\<lambda>i evs w'. case i of
      Stop e \<Rightarrow> commit_event \<notin> set evs
    | Continue s' \<Rightarrow> sched_inv (se_scheduler s') \<and>
        (deferred_in_place s' r evs \<and> cw_conn w' = cw_conn w \<or> settled_once E co r (cw_conn w') evs \<or>
         commit_event \<notin> set evs))"
  unfolding session_record_def
proof (rule yields_bind [OF yields_prepare], goal_cases)
  case (1 prepared evs v)
  show ?case
  proof (cases "IsZeroTime (pr_retryAt prepared)")
    case False
    then show ?thesis
      using 1 assms(5)
      by (auto intro!: yields_bind [OF yields_defer] yields_return simp: deferred_in_place_def split: option.split dest: kept_conn)
  next
    case True
    have run: "yields (processPreparedRecord E co r prepared) u
        (\<lambda>e evs w'. settlement (accepted E co r prepared (cw_conn w')) e evs)" if "cw_conn u = cw_conn w" for u
      using assms(4) that
      by (intro yields_mono [OF yields_processPreparedRecord [OF store hash _ sep]])
        (auto elim!: settlement_mono simp: accepted_def)
    have once: "settled_once E co r c (EvAllowRebalance # evs)" if "settlement (accepted E co r prepared c) None evs" for c evs
      using that 1 unfolding settlement_def settled_once_def by auto
    show ?thesis
      using 1 True assms(5)
      by (auto intro!: yields_bind [OF yields_emit] yields_bind [OF run] yields_return simp: settlement_def [of _ "Some _"]
          dest!: kept_conn dest: once split: option.split)
  qed
qed

lemma yields_session_poll:
  assumes store: "kc_store co = be" and hash: "ke_H E = H" and sep: "\<And>key data. separated H key (H data)"
    and inv: "db_inv (cn_durable (cw_conn w))" and sched: "sched_inv (se_scheduler s)" and pre: "commit_event \<notin> set pre"
  shows "yields (session_poll E co s) w (\<lambda>i evs w'. iteration_log E co (cw_conn w') (pre @ evs) \<and>
    (\<forall>s'. i = Continue s' \<longrightarrow> sched_inv (se_scheduler s')))"
  unfolding session_poll_def
proof (rule yields_bind [OF yields_poll], goal_cases)
  case (1 polled evs v)
  then have v: "cw_conn v = cw_conn w" and evs: "commit_event \<notin> set (pre @ evs)" using pre by (auto dest: kept_conn)
  have quiet: "iteration_log E co c (pre @ evs)" for c using evs by (simp add: iteration_log_def)
  show ?case
  proof (cases polled)
    case (Inr poll)
    have found: "yields (session_record E co s' r) u (\<lambda>i evs' w'. iteration_log E co (cw_conn w') ((pre @ evs) @ evs') \<and>
        (\<forall>s'. i = Continue s' \<longrightarrow> sched_inv (se_scheduler s')))"
      if u: "cw_conn u = cw_conn w" "sched_inv (se_scheduler s')" and r: "wp_record poll = Some r" for u s' r
    proof -
      obtain f rest where f: "EvPoll f \<in> set evs" "ft_Records f = r # rest" using 1 Inr r by blast
      have log: "iteration_log E co c ((pre @ evs) @ evs')" if "settled_once E co r c evs'" for c evs'
        unfolding iteration_log_def
        by (rule disjI2, intro exI [of _ f] exI [of _ r] exI [of _ rest] exI [of _ "pre @ evs"] exI [of _ evs'])
          (use f evs that in simp)
      have none: "iteration_log E co c ((pre @ evs) @ evs')" if "commit_event \<notin> set evs'" for c evs'
        using evs that by (simp add: iteration_log_def)
      have "yields (session_record E co s' r) u (\<lambda>i evs w'. case i of
          Stop e \<Rightarrow> commit_event \<notin> set evs
        | Continue s' \<Rightarrow> sched_inv (se_scheduler s') \<and>
            (deferred_in_place s' r evs \<and> cw_conn w' = cw_conn u \<or> settled_once E co r (cw_conn w') evs \<or>
             commit_event \<notin> set evs))"
        using u inv by (intro yields_session_record [OF store hash sep]) simp_all
      then show ?thesis
        by (rule yields_mono) (auto intro: log none simp: deferred_in_place_def simp del: append_assoc split: iteration.splits)
    qed
    show ?thesis
      using v quiet sched found unfolding Inr sum.case
      by (auto split: option.split intro!: yields_return yields_bind [OF yields_markReady] dest!: kept_conn)
  qed (use quiet in \<open>auto intro!: yields_return\<close>)
qed

lemma yields_iteration:
  assumes store: "kc_store co = be" and hash: "ke_H E = H" and sep: "\<And>key data. separated H key (H data)"
    and inv: "db_inv (cn_durable (cw_conn w))" and sched: "sched_inv (se_scheduler s)"
  shows "yields (session_iteration E co s) w (\<lambda>i evs w'. iteration_log E co (cw_conn w') evs \<and>
    (\<forall>s'. i = Continue s' \<longrightarrow> sched_inv (se_scheduler s')))"
  unfolding session_iteration_def
proof (rule yields_bind [OF yields_select], goal_cases)
  case (1 selected evs v)
  then have v: "cw_conn v = cw_conn w" "evs = []" by (auto dest: kept_conn)
  have turn: "yields (session_turn E co s t) u (\<lambda>i evs w'. iteration_log E co (cw_conn w') evs \<and>
      (\<forall>s'. i = Continue s' \<longrightarrow> sched_inv (se_scheduler s')))" if u: "cw_conn u = cw_conn w" for t u
  proof -
    obtain due sc where rel: "releaseDue t (se_scheduler s) = (due, sc)" by force
    have sc: "sched_inv sc" by (rule releaseDue_ok(1) [OF sched rel])
    have resume: "yields (if due \<noteq> [] then emit (EvResume due) else k_return ()) u
        (\<lambda>_ evs w'. cw_conn w' = cw_conn w \<and> commit_event \<notin> set evs)"
      using u by (auto intro!: yields_return yields_mono [OF yields_emit] dest: kept_conn)
    show ?thesis
      unfolding session_turn_def rel Let_def prod.case
      by (rule yields_bind [OF resume])
        (auto intro!: yields_return yields_session_poll [OF store hash sep] simp: inv sc iteration_log_def [of _ _ _ "_ @ []"]
          simp del: append_Nil2)
  qed
  show ?case
    using v turn by (auto split: option.split intro!: yields_return yields_now_then simp: iteration_log_def [of _ _ _ "[]"])
qed

lemma yields_loop:
  assumes store: "kc_store co = be" and hash: "ke_H E = H" and sep: "\<And>key data. separated H key (H data)"
    and inv: "db_inv (cn_durable (cw_conn w))" and sched: "sched_inv (se_scheduler s)"
  shows "yields (session_loop E co fuel s) w (\<lambda>_ evs w'. session_log E co (cw_conn w') evs)"
  using inv sched
proof (induction fuel arbitrary: w s)
  case 0
  then show ?case by (simp add: yields_return log_start)
next
  case (Suc fuel)
  show ?case
    unfolding session_loop.simps
  proof (rule yields_bind [OF yields_inbox [OF yields_iteration [OF store hash sep Suc.prems] inbox_rel.rel_session(2) [OF store hash]]],
      goal_cases)
    case (1 i evs v)
    then obtain xs where xs: "cw_conn v = run_calls be xs (cw_conn w)" "list_all (session_call H) xs"
      unfolding inbox_calls_def by blast
    have v: "db_inv (cn_durable (cw_conn v))"
      unfolding xs(1) using Suc.prems(1) session_calls_ok [OF xs(2) sep] by (intro runs_inv)
    have log: "iteration_log E co (cw_conn v) evs" using 1 by blast
    show ?case
    proof (cases i)
      case (Stop e)
      with log show ?thesis using session_log_Cons [OF log_start log] by (auto intro!: yields_return)
    next
      case (Continue s')
      with 1 have s': "sched_inv (se_scheduler s')" by blast
      show ?thesis
        unfolding Continue iteration.case
        by (rule yields_mono [OF yields_inbox [OF Suc.IH [OF v s'] inbox_rel.rel_session(3) [OF store hash]]])
          (auto simp: inbox_calls_def intro!: session_log_Cons iteration_log_later [OF log v _ sep])
    qed
  qed
qed

end

section \<open>Draining\<close>

lemma iteration_drained:
  assumes "\<And>n. N \<le> n \<Longrightarrow> kb_drain (ke_broker E) n" and "N \<le> kw_step w"
  shows "\<exists>e w'. run_state (session_iteration E co s) w = (Stop e, w')"
proof -
  have "kb_drain (ke_broker E) (Suc (kw_step w))" using assms by simp
  then show ?thesis
    by (auto simp: session_iteration_def session_select_def ctxErr_def drainRequested_def split: option.split)
qed

lemma iteration_advances: "kw_step w < kw_step (snd (run_state (session_iteration E co s) w))"
proof -
  let ?rest = "\<lambda>selected. case selected of Some e \<Rightarrow> k_return (Stop e) | None \<Rightarrow> do { t \<leftarrow> ke_now E; session_turn E co s t }"
  obtain x v where v: "run_state (session_select (ke_broker E)) w = (x, v)" by force
  then have step: "kw_step w < kw_step v" by (auto simp: session_select_def ctxErr_def drainRequested_def)
  have "state_io_rel no_earlier (?rest x)"
    unfolding session_turn_def session_poll_def Let_def
    by (intro clock_rel.rel_intros clock_rel.rel_broker clock_rel.rel_session(1) [OF refl refl])
  then have "kw_step v \<le> kw_step (snd (run_state (?rest x) v))" unfolding state_io_rel_def no_earlier_def by blast
  with step v show ?thesis unfolding session_iteration_def by simp
qed

lemma loop_drained:
  assumes "\<And>n. N \<le> n \<Longrightarrow> kb_drain (ke_broker E) n" and "N - kw_step w < fuel"
  shows "\<exists>e w'. run_state (session_loop E co fuel s) w = (Some e, w')"
  using assms(2)
proof (induction fuel arbitrary: w s)
  case (Suc fuel)
  obtain i v where i: "run_state (session_iteration E co s) w = (i, v)" by force
  then have adv: "kw_step w < kw_step v" using iteration_advances [of w E co s] by simp
  show ?case
  proof (cases i)
    case (Continue s')
    then have "\<not> N \<le> kw_step w" using iteration_drained [OF assms(1), of N w co s] i by auto
    then have "N - kw_step v < fuel" using Suc.prems adv by simp
    from Suc.IH [OF this] show ?thesis using i Continue by simp
  qed (use i in auto)
qed simp

section \<open>Healthy deliveries\<close>

lemma unmarshal_valid: "UnmarshalEnvelope L data = Inr env \<Longrightarrow> Validate L env = None"
  by (auto simp: UnmarshalEnvelope_def split: if_splits sum.splits option.splits)

lemma fresh_envelope:
  assumes "run_state (prepareRecord E co r) w = (prepared, w')" and "pr_failure prepared = None" and "pr_retryAt prepared = 0"
  shows "Validate (ke_wire E) (pr_envelope prepared) = None"
  using assms unmarshal_valid
  by (auto simp: prepareRecord_def prepare_envelope_def prepared_failure_def clock_now_def Let_def
      split: sum.splits option.splits if_splits)

lemma delivery_key_valid:
  assumes "Validate L env = None" and "valid_control control" and "validateConsumerID (hc_ConsumerID (kc_config co)) = None"
  shows "ValidateKey (inbox_key co (Metadata env) control) = None"
  using assms
  by (auto simp: ValidateKey_def inbox_key_def Metadata_def Validate_def validateSource_def valid_control_def
      validateConsumerID_def validateKafkaToken_def split: if_splits option.splits)

text \<open>Everything around a delivery works: the libraries, the database, and a handler that asks for sensible delays.\<close>

definition sound_delivery :: "'b kenv \<Rightarrow> 'b kconsumer \<Rightarrow> krecord \<Rightarrow> 'b db conn \<Rightarrow> bool" where
  "sound_delivery E co r c \<longleftrightarrow>
    healthy (ke_broker E) \<and>
    (\<forall>n. kb_clock (ke_broker E) n \<noteq> 0 \<and>
      (\<exists>text. ke_timeJSON E (kb_clock (ke_broker E) n) = Inr text \<and> length text \<le> 64) \<and>
      kb_committed (ke_broker E) n (record_partition r) = Some (record_offset r) \<and>
      kb_uncommitted (ke_broker E) n (record_partition r) \<in> {None, Some (record_offset r)}) \<and>
    (\<forall>n x v. kb_random (ke_broker E) n x = Some v \<longrightarrow> 0 \<le> v \<and> v < x) \<and>
    length (kr_Key r) + length (kr_Value r) \<le> DefaultMaxSourceMessageBytes \<and> valid_control (sourceControl r) \<and>
    hc_MaxRetry (kc_config co) \<le> max_int64 \<and> cn_faults c = [] \<and>
    (\<forall>g. Suc (consumed (lg_gen (ledger c) g)) < 2 ^ 64) \<and>
    (\<forall>env decoded b b' e. kc_decode co env = Inr decoded \<and> delivery_handler E co decoded b = (b', Some e) \<longrightarrow> delays_positive e)"

lemma typed_decoder_metadata: "typed_decoder L codec h env = Inr decoded \<Longrightarrow> dm_metadata decoded = Metadata env"
  by (auto simp: typed_decoder_def Let_def split: sum.splits)

lemma sound_workable:
  assumes "newConsumer True store d cfg decode = Inr co" and "sound_delivery E co r c"
  shows "workable E co r"
  using newConsumer_facts [OF assms(1)] assms(2) by (auto simp: workable_def sound_delivery_def dead_letter_ready_def)

lemma rewind_confirmed:
  assumes "sound_delivery E co r c"
  shows "snd (snd (fst (run_state (pauseAndRewindRetryPartition (ke_broker E) r) w))) = None"
  using assms by (auto simp: pauseAndRewindRetryPartition_def sound_delivery_def Let_def)

context ledger_backend
begin

lemma yields_healthy_record:
  assumes new: "newConsumer True (Some be) d cfg (Some (typed_decoder (ke_wire E) codec h)) = Inr co"
    and hash: "ke_H E = H" and sep: "\<And>key data. separated H key (H data)"
    and inv: "db_inv (cn_durable (cw_conn w))" and sched: "sched_inv (se_scheduler s)"
    and sound: "sound_delivery E co r (cw_conn w)"
  shows "yields (session_record E co s r) w (\<lambda>i evs w'. \<exists>s'. i = Continue s' \<and> sched_inv (se_scheduler s') \<and>
    (deferred_in_place s' r evs \<or> settled_once E co r (cw_conn w') evs))"
proof -
  note N = newConsumer_facts [OF new]
  have store: "kc_store co = be" using N(9) by simp
  obtain prepared v where prep: "run_state (prepareRecord E co r) w = (prepared, v)" by force
  have P: "cw_conn v = cw_conn w" "kw_calls v = kw_calls w" "valid_control (pr_control prepared)"
      "pr_failure prepared \<noteq> None \<longrightarrow>
        letter_args (pr_control prepared) (pr_failureKind prepared) (pr_attempt prepared) (pr_messageID prepared)"
    using prepareRecord_facts [OF prep] sound by (auto simp: sound_delivery_def)
  have start: "yields (prepareRecord E co r) w (\<lambda>x evs w'. x = prepared \<and> w' = v \<and> evs = [])"
    using prep P(2) by (simp add: yields_def)
  have cid: "validateConsumerID (hc_ConsumerID (kc_config co)) = None"
    using consumerTopic_valid(1) N(7) by (simp add: dlqTopic_def)
  have origin: "prepared_from E co r prepared" unfolding prepared_from_def using prep by (metis fst_conv)
  have work: "workable E co r" by (rule sound_workable [OF new sound])
  show ?thesis
    unfolding session_record_def
  proof (rule yields_bind [OF start], clarsimp simp del: IsZeroTime_def, intro conjI impI, goal_cases)
    case 1
    have held: "yields (deferRetryPartition (ke_broker E) (se_scheduler s) r (pr_retryAt prepared)) v (\<lambda>(s', e) evs w'.
        evs = [EvPause (record_partition r), EvSetOffset (record_partition r) (record_offset r), EvAllowRebalance] \<and>
        sched_inv s' \<and> e = None \<and> deadline_of s' (record_partition r) = Some (pr_retryAt prepared))"
      using rewind_confirmed [OF sound, of v] yields_defer [OF sched, of "ke_broker E" r "pr_retryAt prepared" v]
      by (auto simp: yields_def deferRetryPartition_def split: prod.splits if_splits)
    show ?case by (rule yields_bind [OF held]) (auto intro!: yields_return simp: deferred_in_place_def)
  next
    case 2
    have fine: "processable E co (pr_control prepared) decoded (cw_conn w)"
      if f: "pr_failure prepared = None" and d: "kc_decode co (pr_envelope prepared) = Inr decoded" for decoded
    proof -
      have m: "dm_metadata decoded = Metadata (pr_envelope prepared)"
        using d N(10) typed_decoder_metadata [of "ke_wire E" codec h "pr_envelope prepared" decoded] by simp
      have "ValidateKey (inbox_key co (dm_metadata decoded) (pr_control prepared)) = None"
        unfolding m using fresh_envelope [OF prep f] 2 P(3) cid by (intro delivery_key_valid) simp_all
      then show ?thesis using sound d unfolding processable_def sound_delivery_def Let_def by blast
    qed
    have run: "yields (processPreparedRecord E co r prepared) u
        (\<lambda>e evs w'. e = None \<and> settled_once E co r (cw_conn w') (EvAllowRebalance # evs))" if u: "cw_conn u = cw_conn w" for u
    proof (cases "pr_failure prepared")
      case None
      have "yields (processPreparedRecord E co r prepared) u (\<lambda>e evs w'.
          settlement (\<lambda>rs. accepted E co r prepared (cw_conn w') rs) e evs \<and> e = None)"
        using work P(3) fine [OF None] u None inv
        by (intro yields_mono [OF yields_processPreparedRecord [OF store hash _ sep]]) (auto simp: accepted_def)
      then show ?thesis using origin by (elim yields_mono) (auto simp: settlement_def settled_once_def)
    next
      case (Some e)
      have "yields (processPreparedRecord E co r prepared) u (\<lambda>e evs w'.
          settlement (\<lambda>rs. accepted E co r prepared (cw_conn w') rs) e evs \<and> e = None)"
        using Some work P(3,4) u unfolding processPreparedRecord_def
        by (auto intro!: yields_mono [OF yields_deadLetterRecord] elim!: settlement_mono simp: workable_def accepted_def)
      then show ?thesis using origin by (elim yields_mono) (auto simp: settlement_def settled_once_def)
    qed
    show ?case
      using P(1) sched by (auto intro!: yields_bind [OF yields_emit] yields_bind [OF run] yields_return dest!: kept_conn)
  qed
qed

end

section \<open>What a constructed consumer looks like\<close>

lemma retry_topics_nth:
  "retry_topics source consumerID i n = Inr ts \<Longrightarrow> k < n \<Longrightarrow>
    role_topic (RetryRole (int (i + k))) source consumerID = Inr (ts ! k)"
proof (induction n arbitrary: i ts k)
  case (Suc n)
  obtain t rest where t: "retryTopic source consumerID (int i) = Inr t" "retry_topics source consumerID (Suc i) n = Inr rest"
      "ts = t # rest"
    using Suc.prems(1) by (auto split: sum.splits)
  show ?case
  proof (cases k)
    case (Suc k')
    with Suc.IH [OF t(2), of k'] Suc.prems(2) t(3) show ?thesis by simp
  qed (use t in simp)
qed simp

lemma retry_topics_distinct:
  assumes "retry_topics source consumerID i n = Inr ts"
  shows "distinct ts" "\<And>t r. t \<in> set ts \<Longrightarrow> role_topic r source consumerID = Inr t \<Longrightarrow> r \<notin> {ReplayRole, DLQRole}"
    "source_topic source \<Longrightarrow> source \<notin> set ts"
proof -
  note nth = retry_topics_nth [OF assms] and len = length_retry_topics [OF assms]
  show "distinct ts"
    unfolding distinct_conv_nth len
  proof (intro allI impI)
    fix k l assume "k < n" "l < n" "k \<noteq> l"
    then show "ts ! k \<noteq> ts ! l" using role_topic_inject [OF nth [of k], of "RetryRole (int (i + l))" source consumerID] nth [of l] by auto
  qed
  show "r \<notin> {ReplayRole, DLQRole}" if t: "t \<in> set ts" "role_topic r source consumerID = Inr t" for t r
  proof -
    obtain k where "k < n" "t = ts ! k" using t(1) len by (metis in_set_conv_nth)
    then show ?thesis
      using role_topic_inject [OF t(2), of "RetryRole (int (i + k))" source consumerID] nth [of k] by auto
  qed
  show "source \<notin> set ts" if "source_topic source"
    using that len nth role_topic_not_source by (metis in_set_conv_nth)
qed

lemma tiers_increasing:
  assumes "validateRetryTiers tiers = None"
  shows "\<forall>t \<in> set tiers. 0 < t" "sorted_wrt (<) tiers"
proof -
  have t: "\<not> (tiers ! i \<le> 0 \<or> i > 0 \<and> tiers ! i \<le> tiers ! (i - 1))" if "i < length tiers" for i
    using assms that by (auto simp: validateRetryTiers_def list_ex_iff split: if_splits)
  then show "\<forall>t \<in> set tiers. 0 < t" by (metis in_set_conv_nth linorder_not_le)
  have "tiers ! i < tiers ! Suc i" if "Suc i < length tiers" for i using t [of "Suc i"] that by simp
  then show "sorted_wrt (<) tiers" by (simp add: sorted_wrt_iff_nth_Suc_transp)
qed

text \<open>The topics of a consumer are distinct, its retry tiers grow, and its callbacks exist.\<close>

definition consumer_typed :: "'b kconsumer \<Rightarrow> bool" where
  "consumer_typed co \<longleftrightarrow>
    (let cfg = kc_config co in
     kc_topics co = kc_sourceTopic co # kc_retryTopics co @ [kc_replayTopic co] \<and>
     distinct (kc_dlqTopic co # kc_topics co) \<and>
     length (kc_retryTopics co) = length (hc_RetryTiers cfg) \<and> hc_RetryTiers cfg \<noteq> [] \<and> length (hc_RetryTiers cfg) \<le> 16 \<and>
     (\<forall>t \<in> set (hc_RetryTiers cfg). 0 < t) \<and> sorted_wrt (<) (hc_RetryTiers cfg) \<and>
     hc_Concurrency cfg \<in> {1..128} \<and> 0 < hc_Timeout cfg \<and> 0 < hc_FinalizationTimeout cfg \<and> 0 < hc_MaxAttempts cfg \<and>
     0 < hc_BaseRetry cfg \<and> hc_BaseRetry cfg \<le> hc_MaxRetry cfg \<and>
     (\<forall>i \<in> set (hc_Observers cfg). i = Implemented) \<and> None \<notin> set (hc_Middlewares cfg) \<and>
     hc_FailureSanitizer cfg \<noteq> None \<and> SupportsAttempts (kc_store co))"

lemma observability_facts:
  assumes "applyObservabilityDefaults cfg = Inr cfg'"
  shows "\<forall>i \<in> set (hc_Observers cfg'). i = Implemented" "None \<notin> set (hc_Middlewares cfg')" "hc_FailureSanitizer cfg' \<noteq> None"
  using assms by (auto simp: applyObservabilityDefaults_def nilValue_def list_ex_iff Let_def split: if_splits)

lemma newConsumer_typed:
  assumes "newConsumer hasTransport store d config decode = Inr co"
  shows "consumer_typed co"
proof -
  obtain be dec cfg source grp retries replay dlq where parts: "store = Some be" "decode = Some dec"
      "applyObservabilityDefaults (applyConsumerDefaults config) = Inr cfg"
      "SupportsAttempts be" "\<not> config_rejected cfg" "validateRetryTiers (hc_RetryTiers cfg) = None"
      "retry_topics source (hc_ConsumerID cfg) 0 (length (hc_RetryTiers cfg)) = Inr retries"
      "role_topic ReplayRole source (hc_ConsumerID cfg) = Inr replay" "role_topic DLQRole source (hc_ConsumerID cfg) = Inr dlq"
      "co = \<lparr>kc_store = be, kc_config = cfg, kc_descriptor = d, kc_decode = dec, kc_sourceTopic = source, kc_groupID = grp,
         kc_retryTopics = retries, kc_replayTopic = replay, kc_dlqTopic = dlq, kc_topics = source # retries @ [replay]\<rparr>"
    using assms by (auto simp: newConsumer_def split: sum.splits option.splits if_splits)
  note D = retry_topics_distinct [OF parts(7)] and R = parts(8) and Q = parts(9)
  have source: "source_topic source" by (rule role_topic_facts(1) [OF R])
  have "replay \<notin> set retries" "dlq \<notin> set retries" using D(2) [OF _ R] D(2) [OF _ Q] by auto
  moreover have "replay \<noteq> source" "dlq \<noteq> source" using source role_topic_not_source [OF R] role_topic_not_source [OF Q] by auto
  moreover have "dlq \<noteq> replay" using role_topic_inject [OF Q, of ReplayRole source "hc_ConsumerID cfg"] R by auto
  ultimately show ?thesis
    using D(1) D(3) [OF source] parts(4,5) tiers_increasing [OF parts(6)] observability_facts [OF parts(3)]
      length_retry_topics [OF parts(7)]
    unfolding parts(10) consumer_typed_def config_rejected_def by auto
qed

section \<open>A sample consumer\<close>

definition idle_batch :: "batchItem list \<Rightarrow> nat \<Rightarrow> nat batchHandler \<Rightarrow> (nat, batchProcessResult) op" where
  "idle_batch items n h c = ((zero_batch, None), c)"

definition sample_handler :: "(nat, string) typed_handler" where
  "sample_handler c m n = (Returned None, n + 1)"

definition sample_consumer_config :: "nat handlerConfig" where
  "sample_consumer_config =
    \<lparr>hc_Namespace = ''shop'', hc_ConsumerID = ''billing'', hc_Concurrency = 0, hc_Timeout = 0, hc_FinalizationTimeout = 0,
     hc_MaxAttempts = 3, hc_BaseRetry = 0, hc_MaxRetry = 0, hc_RetryTiers = [5], hc_Observers = [Implemented],
     hc_Middlewares = [], hc_PanicReporter = NilInterface, hc_FailureSanitizer = None\<rparr>"

definition sample_consumer :: "err + nat kconsumer" where
  "sample_consumer =
    NewCommandConsumer sample_wire True (Some (sqlite_backend (\<lambda>x. x) idle_batch)) sample_info sample_codec
      (Some sample_handler) sample_consumer_config"

text \<open>A broker that delivers one record again and again until step 100, and then asks the worker to drain.\<close>

definition sample_broker :: kbroker where
  "sample_broker =
    \<lparr>kb_clock = (\<lambda>n. int n + 1), kb_ctx = (\<lambda>_. None), kb_drain = (\<lambda>n. 100 \<le> n), kb_pick = (\<lambda>_. True),
     kb_random = (\<lambda>_ _. None), kb_begin = (\<lambda>_. None), kb_produce = (\<lambda>_ _. None), kb_end = (\<lambda>_ commit. (commit, None)),
     kb_expired = (\<lambda>_. False), kb_poll = (\<lambda>_. (\<lparr>ft_Records = [sample_krecord], ft_Errors = []\<rparr>, None)), kb_paused = (\<lambda>_. []),
     kb_committed = (\<lambda>_ _. Some (record_offset sample_krecord)), kb_uncommitted = (\<lambda>_ _. None),
     kb_group = (\<lambda>_. (''member'', 1))\<rparr>"

definition sample_kenv :: "nat kenv" where
  "sample_kenv =
    \<lparr>ke_broker = sample_broker, ke_wire = sample_wire, ke_H = (\<lambda>x. x), ke_timeJSON = (\<lambda>_. Inr ''0''), ke_format = Itoa,
     ke_parse = ParseInt 128, ke_ctxErr = (\<lambda>_ _. None), ke_handlerCtx = 0\<rparr>"

definition sample_world :: "nat cworld" where
  "sample_world =
    \<lparr>kw_step = 0, kw_calls = [], cw_conn = \<lparr>cn_durable = empty_db 0, cn_work = empty_db 0, cn_save = None, cn_faults = [],
       cn_clock = int, cn_tick = 1\<rparr>, cw_observed = []\<rparr>"

definition no_partitions :: store where
  "no_partitions _ = \<lparr>dp_topicPartition = \<lparr>tp_topic = [], tp_partition = 0\<rparr>, dp_deadline = 0, dp_index = 0\<rparr>"

lemma sample_consumer_made: "\<exists>co. sample_consumer = Inr co"
proof -
  have src: "validateSourceTopicName ''shop.command.pay.v1'' = None" and cid: "validateConsumerID ''billing'' = None"
    using sample_dlq_topic by (auto simp: dlqTopic_def consumerTopic_def sample_control_def split: option.splits)
  have topic: "Topic ''shop'' sample_info = Inr ''shop.command.pay.v1''"
    using sample_topic Topic_bare [of "''shop''" sample_info] by (simp add: sample_info_def)
  have grp: "\<exists>g. consumerGroup ''shop.command.pay.v1'' ''billing'' = Inr g"
    using src cid by (simp add: consumerGroup_def validateKafkaIdentifier_def identifier_trimmed kafkaIdentifierByte_def inR_def
        maxKafkaNameBytes_def serviceMarker_def serviceSegment_def)
  have "Itoa 0 = ''0''" by code_simp
  then have retry: "\<exists>t. retryTopic ''shop.command.pay.v1'' ''billing'' 0 = Inr t"
    using src cid by (simp add: retryTopic_def consumerTopic_def validateTopicName_def validateKafkaIdentifier_def identifier_trimmed
        kafkaIdentifierByte_def inR_def maxKafkaNameBytes_def serviceMarker_def serviceSegment_def)
  have attempts: "SupportsAttempts (sqlite_backend (\<lambda>x. x) idle_batch)" by (simp add: SupportsAttempts_def sqlite_backend_def)
  have tiers: "validateRetryTiers [5] = None" by (simp add: validateRetryTiers_def)
  show ?thesis
    using topic grp retry attempts tiers sample_replay_topic sample_dlq_topic
    by (auto simp: sample_consumer_def NewCommandConsumer_def newConsumer_def sample_consumer_config_def
        applyObservabilityDefaults_def applyConsumerDefaults_def config_rejected_def seconds_def sample_control_def nilValue_def)
qed

lemma sample_consumer_facts:
  assumes "sample_consumer = Inr co"
  shows "kc_store co = sqlite_backend (\<lambda>x. x) idle_batch" "hc_MaxRetry (kc_config co) = seconds 300"
    "hc_Middlewares (kc_config co) = []" "kc_decode co = typed_decoder sample_wire sample_codec sample_handler"
  using assms
  by (auto simp: sample_consumer_def NewCommandConsumer_def newConsumer_def sample_consumer_config_def seconds_def
      applyObservabilityDefaults_def applyConsumerDefaults_def Let_def split: sum.splits option.splits if_splits)

section \<open>Properties\<close>

text \<open>The two stores of the repository, over the hash of the environment.\<close>

definition inbox_backed :: "(string \<Rightarrow> string) \<Rightarrow> 'b backend \<Rightarrow> bool" where
  "inbox_backed H be \<longleftrightarrow> (\<exists>batch. be = sqlite_backend H batch \<or> be = pg_backend H batch)"

text \<open>No content has a fingerprint that is also the fingerprint of one of its attempt generations.\<close>

definition collision_free :: "(string \<Rightarrow> string) \<Rightarrow> bool" where
  "collision_free H \<longleftrightarrow> (\<forall>key data. separated H key (H data))"

lemma collision_freeD: "collision_free H \<Longrightarrow> separated H key (H data)"
  by (simp add: collision_free_def)

lemma sample_collision_free: "collision_free (\<lambda>x. x)"
  by (simp add: collision_free_def separated_def AttemptFingerprint_def generation_domain_def)

context ledger_backend
begin

lemma session_accounts:
  assumes store: "kc_store co = be" and hash: "ke_H E = H" and free: "collision_free H"
    and inv: "db_inv (cn_durable (cw_conn w))" and run: "run_state (runWorkerSession E co m fuel) w = (res, w')"
  shows "\<exists>evs calls. kw_calls w' = kw_calls w @ evs \<and> session_log E co (cw_conn w') evs \<and>
    cw_conn w' = run_calls be calls (cw_conn w) \<and> (\<forall>k. effects be k calls (cw_conn w) \<le> 1)"
proof -
  note sep = collision_freeD [OF free]
  have loop: "yields (session_loop E co fuel s) v (\<lambda>_ evs w'. session_log E co (cw_conn w') evs \<and> inbox_calls H be v w')"
    if "cw_conn v = cw_conn w" "sched_inv (se_scheduler s)" for v s
    using that inv by (intro yields_inbox yields_loop [OF store hash sep] inbox_rel.rel_session(3) [OF store hash]) simp_all
  have "yields (runWorkerSession E co m fuel) w
      (\<lambda>_ evs w'. session_log E co (cw_conn w') evs \<and> (\<exists>xs. cw_conn w' = run_calls be xs (cw_conn w) \<and> list_all (session_call H) xs))"
    unfolding runWorkerSession_def
    by (rule yields_bind [OF yields_markReady])
      (auto intro!: yields_mono [OF loop] simp: new_inv inbox_calls_def dest!: kept_conn)
  from yieldsD [OF this run] obtain evs xs where "kw_calls w' = kw_calls w @ evs" "session_log E co (cw_conn w') evs"
      "cw_conn w' = run_calls be xs (cw_conn w)" "list_all (session_call H) xs"
    by blast
  moreover from this have "effects be k xs (cw_conn w) \<le> 1" for k
    using session_calls_ok [OF _ sep] inv by (intro at_most_one_effect)
  ultimately show ?thesis by blast
qed

end

text \<open>C29. A worker session loses and invents nothing. Whatever the broker answers, whatever fails in the database, and
  wherever the session is cut off: every transaction it commits is the only one of an iteration that polled a record, and
  it settles that record: the message is recorded as completed in the inbox, or its one product is the record for the next
  retry tier or the dead letter of that record. The inbox is touched by attempts and confirmations only, and no message
  identity changes the business data twice.\<close>

theorem worker_session_safe:
  assumes "inbox_backed (ke_H E) (kc_store co)" and "collision_free (ke_H E)" and "db_inv (cn_durable (cw_conn w))"
    and "run_state (runWorkerSession E co m fuel) w = (res, w')"
  shows "\<exists>evs calls. kw_calls w' = kw_calls w @ evs \<and> session_log E co (cw_conn w') evs \<and>
    cw_conn w' = run_calls (kc_store co) calls (cw_conn w) \<and> (\<forall>k. effects (kc_store co) k calls (cw_conn w) \<le> 1)"
  using assms(1) sqlite.session_accounts [OF _ refl assms(2-4)] pgsql.session_accounts [OF _ refl assms(2-4)]
  unfolding inbox_backed_def by metis

theorem worker_session_safe_witness:
  "\<exists>co w' evs. sample_consumer = Inr co \<and> w' = snd (run_state (runWorkerSession sample_kenv co no_partitions 9) sample_world) \<and>
    kw_calls w' = evs \<and> session_log sample_kenv co (cw_conn w') evs"
proof -
  obtain co where co: "sample_consumer = Inr co" using sample_consumer_made by blast
  obtain res w' where run: "run_state (runWorkerSession sample_kenv co no_partitions 9) sample_world = (res, w')" by force
  have "inbox_backed (ke_H sample_kenv) (kc_store co)"
    using sample_consumer_facts(1) [OF co] by (auto simp: inbox_backed_def sample_kenv_def)
  moreover have "collision_free (ke_H sample_kenv)" using sample_collision_free by (simp add: sample_kenv_def)
  moreover have "db_inv (cn_durable (cw_conn sample_world))" by (simp add: sample_world_def db_inv_empty)
  ultimately show ?thesis
    using worker_session_safe [OF _ _ _ run] co run by (auto simp: sample_world_def)
qed

lemma sample_sound:
  assumes "sample_consumer = Inr co"
  shows "sound_delivery sample_kenv co sample_krecord (cw_conn sample_world)"
proof -
  note F = sample_consumer_facts [OF assms]
  have handler: "snd (delivery_handler sample_kenv co decoded b) = None"
    if "kc_decode co env = Inr decoded" for env decoded b
    using that F(3) unfolding F(4)
    by (auto simp: delivery_handler_def typed_decoder_def sample_handler_def invokeMiddlewares_def sample_kenv_def
        message_terminal_def HandlerCompletionError_def Let_def split: sum.splits)
  have "valid_control (sourceControl sample_krecord)"
    using sample_control_valid(1) by (simp add: valid_control_def sourceControl_def sample_control_def sample_krecord_def)
  moreover have "length (kr_Key sample_krecord) + length (kr_Value sample_krecord) \<le> DefaultMaxSourceMessageBytes"
    by (simp add: sample_krecord_def length_mid_String DefaultMaxSourceMessageBytes_def)
  moreover have "consumed (lg_gen (ledger (cw_conn sample_world)) g) = 0" for g
    by (cases g) (simp add: sample_world_def ledger_of_def abs_gen_def empty_db_def counter_row_def)
  moreover have "cn_faults (cw_conn sample_world) = []" by (simp add: sample_world_def)
  moreover have "hc_MaxRetry (kc_config co) \<le> max_int64" by (simp add: F(2) seconds_def max_int64_def)
  moreover have "delays_positive e" if "kc_decode co env = Inr decoded" "delivery_handler sample_kenv co decoded b = (b', Some e)"
    for env decoded b b' e
    using handler [OF that(1), of b] that(2) by simp
  moreover have "healthy (ke_broker sample_kenv)" "kb_clock (ke_broker sample_kenv) n \<noteq> 0"
      "ke_timeJSON sample_kenv t = Inr ''0''" "kb_random (ke_broker sample_kenv) n x = None"
      "kb_committed (ke_broker sample_kenv) n p = Some (record_offset sample_krecord)"
      "kb_uncommitted (ke_broker sample_kenv) n p = None" for n x p t
    by (simp_all add: sample_kenv_def sample_broker_def healthy_def)
  ultimately show ?thesis unfolding sound_delivery_def by auto
qed

text \<open>C30. A delivery is never stuck. When the broker, the database and the clock work and the handler asks for positive delays,
  a constructed consumer continues after every record it polls: the record waits on its paused partition, with the fetch
  position back at it, or one committed transaction settles it; whatever the record contains and whatever the handler returns.\<close>

theorem healthy_delivery_settled:
  assumes "NewCommandConsumer (ke_wire E) True (Some be) d codec (Some h) cfg = Inr co"
    and "inbox_backed (ke_H E) be" and "collision_free (ke_H E)" and "db_inv (cn_durable (cw_conn w))"
    and "sched_inv (se_scheduler s)" and "sound_delivery E co r (cw_conn w)"
  shows "\<exists>s' w' evs. run_state (session_record E co s r) w = (Continue s', w') \<and> kw_calls w' = kw_calls w @ evs \<and>
    (deferred_in_place s' r evs \<or> settled_once E co r (cw_conn w') evs)"
proof -
  have new: "newConsumer True (Some be) d cfg (Some (typed_decoder (ke_wire E) codec h)) = Inr co"
    using assms(1) by (simp add: NewCommandConsumer_def)
  note sep = collision_freeD [OF assms(3)]
  obtain batch where "be = sqlite_backend (ke_H E) batch \<or> be = pg_backend (ke_H E) batch"
    using assms(2) by (auto simp: inbox_backed_def)
  then have "yields (session_record E co s r) w (\<lambda>i evs w'. \<exists>s'. i = Continue s' \<and> sched_inv (se_scheduler s') \<and>
      (deferred_in_place s' r evs \<or> settled_once E co r (cw_conn w') evs))"
    using sqlite.yields_healthy_record [OF _ refl sep assms(4-6)] pgsql.yields_healthy_record [OF _ refl sep assms(4-6)] new
    by metis
  then show ?thesis unfolding yields_def by (metis prod.collapse)
qed

theorem healthy_delivery_settled_witness:
  "\<exists>co s' w' evs. sample_consumer = Inr co \<and>
    run_state (session_record sample_kenv co
      \<lparr>se_scheduler = newRetryPartitionScheduler no_partitions, se_unready = True\<rparr> sample_krecord) sample_world = (Continue s', w') \<and>
    (deferred_in_place s' sample_krecord evs \<or> settled_once sample_kenv co sample_krecord (cw_conn w') evs)"
proof -
  obtain co where co: "sample_consumer = Inr co" using sample_consumer_made by blast
  have E: "ke_wire sample_kenv = sample_wire" "ke_H sample_kenv = (\<lambda>x. x)" by (simp_all add: sample_kenv_def)
  have "inbox_backed (\<lambda>x. x) (sqlite_backend (\<lambda>x. x) idle_batch)" by (auto simp: inbox_backed_def)
  moreover have "db_inv (cn_durable (cw_conn sample_world))" by (simp add: sample_world_def db_inv_empty)
  ultimately show ?thesis
    using healthy_delivery_settled [where E = sample_kenv, unfolded E, OF co [unfolded sample_consumer_def] _ sample_collision_free _ _
        sample_sound [OF co], of "\<lparr>se_scheduler = newRetryPartitionScheduler no_partitions, se_unready = True\<rparr>"]
      new_inv co by auto
qed

text \<open>C31. Draining ends the session. Once the drain signal is given, at whatever moment, the worker session returns: the number of
  iterations is bounded by the number of questions to the outside up to that moment, for every broker and database.\<close>

theorem drained_session_returns:
  assumes "\<And>n. N \<le> n \<Longrightarrow> kb_drain (ke_broker E) n" and "N < fuel"
  shows "\<exists>e w'. run_state (runWorkerSession E co m fuel) w = (Some e, w')"
proof -
  obtain s v where r: "run_state (markReady (ke_broker E) \<lparr>se_scheduler = newRetryPartitionScheduler m, se_unready = True\<rparr>) w = (s, v)"
    by force
  have "N - kw_step v < fuel" using assms(2) by simp
  from loop_drained [OF assms(1) this, of co s] r show ?thesis by (simp add: runWorkerSession_def)
qed

theorem drained_session_returns_witness:
  "\<exists>co e w'. sample_consumer = Inr co \<and>
    run_state (runWorkerSession sample_kenv co no_partitions 101) sample_world = (Some e, w')"
proof -
  obtain co where co: "sample_consumer = Inr co" using sample_consumer_made by blast
  have "\<exists>e w'. run_state (runWorkerSession sample_kenv co no_partitions 101) sample_world = (Some e, w')"
    by (rule drained_session_returns [where N = 100]) (simp_all add: sample_kenv_def sample_broker_def)
  with co show ?thesis by blast
qed

text \<open>C32. A constructed consumer is well formed: its source, retry, replay and dead-letter topics are pairwise distinct, it has
  one retry topic per tier, its tiers are positive and increasing, its limits are positive, its observers, middlewares and
  failure sanitizer exist, and its store supports durable attempts.\<close>

theorem constructed_consumer_typed:
  assumes "NewCommandConsumer L hasTransport store d codec h cfg = Inr co \<or>
    NewEventConsumer L hasTransport store d codec h cfg = Inr co"
  shows "consumer_typed co"
  using assms newConsumer_typed
  by (auto simp: NewCommandConsumer_def NewEventConsumer_def split: option.splits)

theorem constructed_consumer_typed_witness: "\<exists>co. sample_consumer = Inr co \<and> consumer_typed co"
  using constructed_consumer_typed sample_consumer_made unfolding sample_consumer_def by blast

end
