(* ===== verification/KafkaRoute.thy ===== *)
theory KafkaRoute
  imports KafkaTransport KafkaWorker Delivery
begin

text \<open>
  Producer routes and protected replay, \<open>adapters/kafka/route.go\<close> and \<open>PublishReplay\<close> of \<open>adapters/kafka/transport.go\<close>,
  as programs over the broker of \<open>KafkaBroker\<close>. What other threads do to the transport is visible to a publisher only
  as the state it finds and the time it waits at the gate; both are answers of the environment.
\<close>

section \<open>Admission\<close>

record publish_env =
  pe_broker :: kbroker
  pe_wire :: wire_lib
  pe_state :: "nat \<Rightarrow> transportState"
  pe_gate :: "nat \<Rightarrow> err option"
  pe_parse :: "string \<Rightarrow> instant option"

definition ensure_running :: "publish_env \<Rightarrow> ((kevent, 'w) kworld_scheme, err option) state" where
  "ensure_running E = do { st \<leftarrow> ask (pe_state E); k_return (ensureRunning st) }"

definition acquireTransaction :: "publish_env \<Rightarrow> ((kevent, 'w) kworld_scheme, err option) state" where
  "acquireTransaction E = do {
     waited \<leftarrow> ask (pe_gate E);
     case waited of
       Some e \<Rightarrow> k_return (Some e)
     | None \<Rightarrow> do {
         ended \<leftarrow> ctxErr (pe_broker E);
         case ended of
           Some e \<Rightarrow> k_return (Some e)
         | None \<Rightarrow> do {
             refused \<leftarrow> ensure_running E;
             _ \<leftarrow> (if refused = None then emit EvAcquire else k_return ());
             k_return refused } } }"

text \<open>One transaction of the client; a failed produce or commit is followed by an abort.\<close>

definition client_transaction ::
  "kbroker \<Rightarrow> string \<times> string \<times> string \<Rightarrow> krecord list \<Rightarrow> ((kevent, 'w) kworld_scheme, err option) state" where
  "client_transaction B texts records =
    (case texts of (begin_text, produce_text, commit_text) \<Rightarrow> do {
       begun \<leftarrow> Begin B;
       case begun of
         Some e \<Rightarrow> k_return (Some (Wrap begin_text [e]))
       | None \<Rightarrow> do {
           sent \<leftarrow> ProduceSync B records;
           case sent of
             Some e \<Rightarrow> do {
               abortErr \<leftarrow> EndTransaction B False;
               k_return (errors_Join [Some (Wrap produce_text [e]), abortErr]) }
           | None \<Rightarrow> do {
               ended \<leftarrow> EndTransaction B True;
               case ended of
                 Some e \<Rightarrow> do {
                   abortErr \<leftarrow> EndTransaction B False;
                   k_return (errors_Join [Some (Wrap commit_text [e]), abortErr]) }
               | None \<Rightarrow> k_return None } } })"

section \<open>Routes\<close>

record route =
  ro_name :: string
  ro_namespace :: string

definition NewRoute :: "bool \<Rightarrow> string \<Rightarrow> string \<Rightarrow> err + route" where
  "NewRoute hasTransport name namespace =
    (if \<not> hasTransport \<or> name = [] then Inl (kafka_config_err ''producer route'')
     else case validateKafkaToken ''route name'' name of
       Some e \<Rightarrow> Inl e
     | None \<Rightarrow>
        (case Topic namespace (bare_info KindEvent ''probe'' 1) of
           Inl e \<Rightarrow> Inl e
         | Inr _ \<Rightarrow> Inr \<lparr>ro_name = name, ro_namespace = namespace\<rparr>))"

definition newRouteRecord :: "string \<Rightarrow> metadata \<Rightarrow> string \<Rightarrow> krecord" where
  "newRouteRecord topic m native =
    \<lparr>kr_Topic = topic, kr_Partition = 0, kr_Offset = 0, kr_LeaderEpoch = 0, kr_Key = expectedRecordKey m, kr_Value = native,
     kr_Headers = [], kr_Timestamp = 0\<rparr>"

definition metadata_expired :: "metadata \<Rightarrow> instant \<Rightarrow> bool" where
  "metadata_expired m t \<longleftrightarrow> md_ExpiresAt m \<noteq> 0 \<and> \<not> md_ExpiresAt m > t"

text \<open>The topic of a message that may be published now.\<close>

definition route_topic :: "route \<Rightarrow> metadata \<Rightarrow> instant \<Rightarrow> err + string" where
  "route_topic ro m t =
    (if metadata_expired m t then Inl (PermanentError (Sentinel KafkaErrMessageExpired))
     else if md_NotBefore m \<noteq> 0 \<and> md_NotBefore m > t
     then Inl (the (RetryAfter (Some (Sentinel KafkaErrMessageNotReady)) (time_Sub (md_NotBefore m) t)))
     else case Topic (ro_namespace ro) (bare_info (md_Kind m) (md_Name m) (md_SchemaVersion m)) of
       Inl e \<Rightarrow> Inl (PermanentError e)
     | Inr topic \<Rightarrow> Inr topic)"

definition confirmed_receipt :: "route \<Rightarrow> metadata \<Rightarrow> instant \<Rightarrow> receipt" where
  "confirmed_receipt ro m t = \<lparr>rc_MessageID = md_ID m, rc_Route = ro_name ro, rc_State = ReceiptBrokerConfirmed, rc_At = t\<rparr>"

text \<open>What happens between the admission and the release.\<close>

definition publish_admitted ::
  "publish_env \<Rightarrow> route \<Rightarrow> metadata \<Rightarrow> string \<Rightarrow> string \<Rightarrow> ((kevent, 'w) kworld_scheme, err + receipt) state" where
  "publish_admitted E ro m native topic = do {
     t \<leftarrow> clock_now (pe_broker E);
     if metadata_expired m t then k_return (Inl (PermanentError (Sentinel KafkaErrMessageExpired)))
     else do {
       failure \<leftarrow> client_transaction (pe_broker E)
         (''messenger/kafka: begin publish transaction'', ''messenger/kafka: publish'', ''messenger/kafka: commit publish'')
         [newRouteRecord topic m native];
       case failure of
         Some e \<Rightarrow> k_return (Inl e)
       | None \<Rightarrow> do { t \<leftarrow> clock_now (pe_broker E); k_return (Inr (confirmed_receipt ro m t)) } } }"

definition publishEnvelope ::
  "publish_env \<Rightarrow> route \<Rightarrow> bool \<Rightarrow> metadata \<Rightarrow> string \<Rightarrow> ((kevent, 'w) kworld_scheme, err + receipt) state" where
  "publishEnvelope E ro hasCtx m native = do {
     refused \<leftarrow> ensure_running E;
     case refused of
       Some e \<Rightarrow> k_return (Inl e)
     | None \<Rightarrow> do {
         t \<leftarrow> clock_now (pe_broker E);
         case route_topic ro m t of
           Inl e \<Rightarrow> k_return (Inl e)
         | Inr topic \<Rightarrow>
             if \<not> hasCtx then k_return (Inl (kafka_config_err ''nil publish context''))
             else do {
               ended \<leftarrow> ctxErr (pe_broker E);
               case ended of
                 Some e \<Rightarrow> k_return (Inl e)
               | None \<Rightarrow> do {
                   denied \<leftarrow> acquireTransaction E;
                   case denied of
                     Some e \<Rightarrow> k_return (Inl e)
                   | None \<Rightarrow> do {
                       answer \<leftarrow> publish_admitted E ro m native topic;
                       _ \<leftarrow> emit EvRelease;
                       k_return answer } } } } }"

text \<open>A delivery is nil, or what its \<open>MarshalEnvelope\<close> answers.\<close>

definition Deliver ::
  "publish_env \<Rightarrow> route \<Rightarrow> bool \<Rightarrow> (err + string) option \<Rightarrow> ((kevent, 'w) kworld_scheme, err + receipt) state" where
  "Deliver E ro hasCtx delivery =
    (case delivery of
       None \<Rightarrow> k_return (Inl (kafka_invalid ''nil Kafka delivery''))
     | Some (Inl e) \<Rightarrow> k_return (Inl e)
     | Some (Inr native) \<Rightarrow>
        (case UnmarshalEnvelope (pe_wire E) native of
           Inl e \<Rightarrow> k_return (Inl e)
         | Inr env \<Rightarrow>
            if ev_Kind env \<noteq> KindCommand \<and> ev_Kind env \<noteq> KindEvent
            then k_return (Inl (kafka_invalid ''Kafka route only supports command/event delivery''))
            else publishEnvelope E ro hasCtx (Metadata env) native))"

definition PublishEnvelope ::
  "publish_env \<Rightarrow> route \<Rightarrow> bool \<Rightarrow> string \<Rightarrow> ((kevent, 'w) kworld_scheme, err + receipt) state" where
  "PublishEnvelope E ro hasCtx data =
    (case CanonicalizeEnvelope (pe_wire E) data of
       Inl e \<Rightarrow> k_return (Inl e)
     | Inr canonical \<Rightarrow>
        (case UnmarshalEnvelope (pe_wire E) canonical of
           Inl e \<Rightarrow> k_return (Inl e)
         | Inr env \<Rightarrow> publishEnvelope E ro hasCtx (Metadata env) canonical))"

section \<open>Batches of envelopes\<close>

record batchRouteRecord =
  br_index :: nat
  br_metadata :: metadata
  br_record :: krecord

text \<open>The first loop: the records of the publishable payloads from index \<open>i\<close> on, and the errors of the others.\<close>

fun screen_payloads ::
  "publish_env \<Rightarrow> route \<Rightarrow> nat \<Rightarrow> string list \<Rightarrow> err option list \<Rightarrow>
    ((kevent, 'w) kworld_scheme, batchRouteRecord list \<times> err option list) state" where
  "screen_payloads E ro i [] errs = k_return ([], errs)"
| "screen_payloads E ro i (payload # payloads) errs =
    (case CanonicalizeEnvelope (pe_wire E) payload of
       Inl e \<Rightarrow> screen_payloads E ro (Suc i) payloads (errs[i := Some e])
     | Inr canonical \<Rightarrow>
        (case UnmarshalEnvelope (pe_wire E) canonical of
           Inl e \<Rightarrow> screen_payloads E ro (Suc i) payloads (errs[i := Some e])
         | Inr env \<Rightarrow> do {
             t \<leftarrow> clock_now (pe_broker E);
             case route_topic ro (Metadata env) t of
               Inl e \<Rightarrow> screen_payloads E ro (Suc i) payloads (errs[i := Some e])
             | Inr topic \<Rightarrow> do {
                 (valid, errs) \<leftarrow> screen_payloads E ro (Suc i) payloads errs;
                 k_return (\<lparr>br_index = i, br_metadata = Metadata env,
                   br_record = newRouteRecord topic (Metadata env) canonical\<rparr> # valid, errs) } }))"

fun drop_expired ::
  "publish_env \<Rightarrow> batchRouteRecord list \<Rightarrow> err option list \<Rightarrow>
    ((kevent, 'w) kworld_scheme, batchRouteRecord list \<times> err option list) state" where
  "drop_expired E [] errs = k_return ([], errs)"
| "drop_expired E (item # items) errs = do {
     t \<leftarrow> clock_now (pe_broker E);
     if metadata_expired (br_metadata item) t
     then drop_expired E items (errs[br_index item := Some (PermanentError (Sentinel KafkaErrMessageExpired))])
     else do {
       (active, errs) \<leftarrow> drop_expired E items errs;
       k_return (item # active, errs) } }"

definition markKafkaBatchFailure :: "batchRouteRecord list \<Rightarrow> err \<Rightarrow> err option list \<Rightarrow> err option list" where
  "markKafkaBatchFailure items e errs =
    fold (\<lambda>item errs. errs[br_index item := RetryAfter (Some e) (seconds 1)]) items errs"

definition confirm_items :: "route \<Rightarrow> instant \<Rightarrow> batchRouteRecord list \<Rightarrow> receipt list \<Rightarrow> receipt list" where
  "confirm_items ro t items receipts =
    fold (\<lambda>item receipts. receipts[br_index item := confirmed_receipt ro (br_metadata item) t]) items receipts"

definition publish_active ::
  "publish_env \<Rightarrow> route \<Rightarrow> receipt list \<Rightarrow> batchRouteRecord list \<Rightarrow> err option list \<Rightarrow>
    ((kevent, 'w) kworld_scheme, receipt list \<times> err option list) state" where
  "publish_active E ro receipts active errs =
    (if active = [] then k_return (receipts, errs)
     else do {
       failure \<leftarrow> client_transaction (pe_broker E)
         (''messenger/kafka: begin batch publish transaction'', ''messenger/kafka: publish batch'',
          ''messenger/kafka: commit publish batch'') (map br_record active);
       case failure of
         Some e \<Rightarrow> k_return (receipts, markKafkaBatchFailure active e errs)
       | None \<Rightarrow> do {
           t \<leftarrow> clock_now (pe_broker E);
           k_return (confirm_items ro t active receipts, errs) } })"

definition PublishEnvelopeBatch ::
  "publish_env \<Rightarrow> route \<Rightarrow> bool \<Rightarrow> string list \<Rightarrow> ((kevent, 'w) kworld_scheme, err + receipt list \<times> err option list) state" where
  "PublishEnvelopeBatch E ro hasCtx payloads =
    (if \<not> hasCtx then k_return (Inl (kafka_config_err ''nil publish context''))
     else if payloads = [] then k_return (Inl (kafka_config_err ''empty publish batch''))
     else do {
       let receipts = replicate (length payloads) zero_receipt;
       (valid, errs) \<leftarrow> screen_payloads E ro 0 payloads (replicate (length payloads) None);
       if valid = [] then k_return (Inr (receipts, errs))
       else do {
         refused \<leftarrow> ensure_running E;
         case refused of
           Some e \<Rightarrow> k_return (Inr (receipts, markKafkaBatchFailure valid e errs))
         | None \<Rightarrow> do {
             denied \<leftarrow> acquireTransaction E;
             case denied of
               Some e \<Rightarrow> k_return (Inr (receipts, markKafkaBatchFailure valid e errs))
             | None \<Rightarrow> do {
                 (active, errs) \<leftarrow> drop_expired E valid errs;
                 result \<leftarrow> publish_active E ro receipts active errs;
                 _ \<leftarrow> emit EvRelease;
                 k_return (Inr result) } } } })"

section \<open>Protected replay\<close>

definition validateProtectedReplayRecord :: "publish_env \<Rightarrow> krecord \<Rightarrow> err + string" where
  "validateProtectedReplayRecord E r =
    (case decodeControlHeaders (pe_parse E) (kr_Headers r) of
       Inl _ \<Rightarrow> Inl (kafka_invalid ''protected Kafka replay headers'')
     | Inr control \<Rightarrow>
        if \<not> HasPrefix (cm_attemptGeneration control) replayIDPrefix then Inl (kafka_invalid ''protected Kafka replay headers'')
        else let source = sp_topic (cm_source control); pre = source @ serviceMarker; suf = ''.replay'' in
          if \<not> HasPrefix (kr_Topic r) pre \<or> \<not> HasSuffix (kr_Topic r) suf then Inl (kafka_invalid ''protected Kafka replay topic'')
          else if replayTopic source (TrimSuffix (drop (length pre) (kr_Topic r)) suf) \<noteq> Inr (kr_Topic r)
          then Inl (kafka_invalid ''protected Kafka replay topic'')
          else (case CanonicalizeEnvelope (pe_wire E) (kr_Value r) of
             Inl e \<Rightarrow> Inl e
           | Inr canonical \<Rightarrow>
              (case UnmarshalEnvelope (pe_wire E) canonical of
                 Inl e \<Rightarrow> Inl e
               | Inr env \<Rightarrow>
                  (case sourceTopicMatchesMetadata source (Metadata env) of
                     Some e \<Rightarrow> Inl e
                   | None \<Rightarrow>
                      (case validateRecordKey (kr_Key r) (Metadata env) of Some e \<Rightarrow> Inl e | None \<Rightarrow> Inr canonical)))))"

definition newReplayRecord :: "krecord \<Rightarrow> string \<Rightarrow> krecord" where
  "newReplayRecord r canonical =
    \<lparr>kr_Topic = kr_Topic r, kr_Partition = 0, kr_Offset = 0, kr_LeaderEpoch = 0, kr_Key = kr_Key r, kr_Value = canonical,
     kr_Headers = kr_Headers r, kr_Timestamp = 0\<rparr>"

text \<open>The record is answered as it was produced; the client fills in its partition and offset.\<close>

definition PublishReplay :: "publish_env \<Rightarrow> bool \<Rightarrow> krecord option \<Rightarrow> ((kevent, 'w) kworld_scheme, err + krecord) state" where
  "PublishReplay E hasCtx rec =
    (case rec of
       None \<Rightarrow> k_return (Inl (kafka_config_err ''replay record''))
     | Some r \<Rightarrow>
        if \<not> hasCtx \<or> kr_Topic r = [] then k_return (Inl (kafka_config_err ''replay record''))
        else do {
          refused \<leftarrow> ensure_running E;
          case refused of
            Some e \<Rightarrow> k_return (Inl e)
          | None \<Rightarrow>
             (case validateProtectedReplayRecord E r of
                Inl e \<Rightarrow> k_return (Inl e)
              | Inr canonical \<Rightarrow> do {
                  denied \<leftarrow> acquireTransaction E;
                  case denied of
                    Some e \<Rightarrow> k_return (Inl e)
                  | None \<Rightarrow> do {
                      failure \<leftarrow> client_transaction (pe_broker E)
                        (''messenger/kafka: begin replay transaction'', ''messenger/kafka: publish replay'',
                         ''messenger/kafka: commit replay'') [newReplayRecord r canonical];
                      _ \<leftarrow> emit EvRelease;
                      k_return (case failure of Some e \<Rightarrow> Inl e | None \<Rightarrow> Inr (newReplayRecord r canonical)) } }) })"

definition DefaultMaxDLQMessageBytes :: nat where
  "DefaultMaxDLQMessageBytes = DefaultMaxDLQRecordBytes + DefaultMaxHeaderBytes"

definition producerBatchMaxBytes :: "string \<Rightarrow> int" where
  "producerBatchMaxBytes topic =
    (if sublist serviceMarker topic \<and> HasSuffix topic ''.dlq'' then int DefaultMaxDLQMessageBytes
     else int DefaultMaxSourceMessageBytes)"

section \<open>What a publication does to the log\<close>

lemma yields_asked: "(\<And>n. yields (f (g n)) (w\<lparr>kw_step := Suc (kw_step w)\<rparr>) Q) \<Longrightarrow> yields (State_Monad.bind (ask g) f) w Q"
  by (simp add: yields_def)

definition quiet :: "kevent list \<Rightarrow> bool" where
  "quiet evs \<longleftrightarrow> commit_event \<notin> set evs \<and> EvAcquire \<notin> set evs \<and> EvRelease \<notin> set evs"

lemma quiet_simps [simp]: "quiet []" "quiet (evs @ evs') \<longleftrightarrow> quiet evs \<and> quiet evs'"
  by (auto simp: quiet_def)

lemma yields_ensure: "yields (ensure_running E) w (\<lambda>_ evs w'. evs = [] \<and> kept w w')"
  unfolding ensure_running_def by (auto simp: yields_def kept_def)

lemma yields_acquire:
  "yields (acquireTransaction E) w (\<lambda>e evs w'. evs = (if e = None then [EvAcquire] else []) \<and> kept w w')"
  unfolding acquireTransaction_def ensure_running_def ctxErr_def
  by (auto intro!: yields_asked split: option.split) (auto simp: yields_def kept_def)

text \<open>A client transaction that succeeds is one committed transaction; one that fails commits nothing.\<close>

lemma yields_client_transaction:
  assumes "rs \<noteq> []"
  shows "yields (client_transaction B texts rs) w
    (\<lambda>e evs w'. (if e = None then evs = committed_tx rs else quiet evs) \<and> kept w w')"
proof (cases texts)
  case (fields b p c)
  have "errors_Join [Some x, e] \<noteq> None" for x e by (simp add: errors_Join_def List.map_filter_def)
  then show ?thesis
    unfolding client_transaction_def fields prod.case
    by (auto simp: yields_def Begin_def ProduceSync_def EndTransaction_def kept_def quiet_def committed_tx_def assms
        split: option.split prod.split)
qed

text \<open>The record of a payload, published at a moment at which it is neither too early nor too late.\<close>

definition publishable :: "publish_env \<Rightarrow> route \<Rightarrow> metadata \<Rightarrow> string \<Rightarrow> krecord \<Rightarrow> bool" where
  "publishable E ro m native r \<longleftrightarrow>
    (\<exists>n topic. route_topic ro m (kb_clock (pe_broker E) n) = Inr topic \<and> r = newRouteRecord topic m native)"

definition one_transaction :: "krecord list \<Rightarrow> kevent list \<Rightarrow> bool" where
  "one_transaction rs evs \<longleftrightarrow> evs = EvAcquire # committed_tx rs @ [EvRelease]"

text \<open>A publication that failed: nothing is committed, and what was acquired is released.\<close>

definition no_publication :: "kevent list \<Rightarrow> bool" where
  "no_publication evs \<longleftrightarrow> evs = [] \<or> (\<exists>evs'. evs = EvAcquire # evs' @ [EvRelease] \<and> quiet evs')"

lemma no_publication_empty [simp]: "no_publication []"
  by (simp add: no_publication_def)

lemma no_publication_wrap: "quiet evs \<Longrightarrow> no_publication (EvAcquire # evs @ [EvRelease])"
  by (auto simp: no_publication_def)

definition published :: "publish_env \<Rightarrow> route \<Rightarrow> metadata \<Rightarrow> string \<Rightarrow> err + receipt \<Rightarrow> kevent list \<Rightarrow> bool" where
  "published E ro m native answer evs \<longleftrightarrow>
    (case answer of
       Inr rc \<Rightarrow> \<exists>r t n. publishable E ro m native r \<and> \<not> metadata_expired m (kb_clock (pe_broker E) n) \<and>
         one_transaction [r] evs \<and> rc = confirmed_receipt ro m t
     | Inl e \<Rightarrow> no_publication evs)"

lemma yields_admitted:
  assumes "route_topic ro m (kb_clock (pe_broker E) n) = Inr topic"
  shows "yields (publish_admitted E ro m native topic) w (\<lambda>answer evs _. published E ro m native answer (EvAcquire # evs @ [EvRelease]))"
  unfolding publish_admitted_def
proof (rule yields_bind [OF yields_clock], goal_cases)
  case (1 t evs u)
  then obtain k where t: "t = kb_clock (pe_broker E) k" and evs: "evs = []" by blast
  have ok: "published E ro m native (Inr (confirmed_receipt ro m t')) (EvAcquire # committed_tx [newRouteRecord topic m native] @ [EvRelease])"
    if "\<not> metadata_expired m t" for t'
    using assms t that by (auto simp: published_def publishable_def one_transaction_def)
  have bad: "published E ro m native (Inl e) (EvAcquire # evs @ [EvRelease])" if "quiet evs" for e evs
    using that by (auto simp: published_def no_publication_def)
  show ?case
    using ok bad bad [of "[]"] evs
    by (auto intro!: yields_return yields_bind [OF yields_client_transaction] yields_bind [OF yields_clock] split: option.split)
qed

lemma yields_publishEnvelope:
  "yields (publishEnvelope E ro hasCtx m native) w (\<lambda>answer evs _. published E ro m native answer evs)"
proof -
  have stop: "published E ro m native (Inl e) []" for e by (simp add: published_def)
  show ?thesis
    unfolding publishEnvelope_def
    by (auto split: option.split sum.split intro!: yields_return yields_bind [OF yields_ensure] yields_bind [OF yields_clock]
        yields_bind [OF yields_ctxErr] yields_bind [OF yields_acquire]
        yields_bind [OF yields_admitted] yields_bind [OF yields_emit] simp: stop)
qed


section \<open>Batches: receipts and errors\<close>

lemma fold_update_length: "length (fold (\<lambda>x ys. ys[at x := f x]) xs ys) = length ys"
  by (induction xs arbitrary: ys) auto

lemma fold_update_other: "j \<notin> at ` set xs \<Longrightarrow> fold (\<lambda>x ys. ys[at x := f x]) xs ys ! j = ys ! j"
  by (induction xs arbitrary: ys) auto

lemma fold_update_at:
  "distinct (map at xs) \<Longrightarrow> x \<in> set xs \<Longrightarrow> at x < length ys \<Longrightarrow> fold (\<lambda>x ys. ys[at x := f x]) xs ys ! at x = f x"
  by (induction xs arbitrary: ys) (auto simp: fold_update_other)

text \<open>The items of a batch that are still without an error: their indices are the indices without an error, in order.\<close>

definition open_items :: "publish_env \<Rightarrow> route \<Rightarrow> string list \<Rightarrow> batchRouteRecord list \<Rightarrow> err option list \<Rightarrow> bool" where
  "open_items E ro payloads items errs \<longleftrightarrow>
    length errs = length payloads \<and> map br_index items = filter (\<lambda>i. errs ! i = None) [0..<length payloads] \<and>
    (\<forall>item \<in> set items. \<exists>canonical env. CanonicalizeEnvelope (pe_wire E) (payloads ! br_index item) = Inr canonical \<and>
      UnmarshalEnvelope (pe_wire E) canonical = Inr env \<and> br_metadata item = Metadata env \<and>
      publishable E ro (Metadata env) canonical (br_record item))"

definition screened ::
  "publish_env \<Rightarrow> route \<Rightarrow> nat \<Rightarrow> string list \<Rightarrow> err option list \<Rightarrow> batchRouteRecord list \<Rightarrow> err option list \<Rightarrow> bool" where
  "screened E ro i payloads errs items errs' \<longleftrightarrow>
    length errs' = length errs \<and> (\<forall>j < i. errs' ! j = errs ! j) \<and>
    map br_index items = filter (\<lambda>j. errs' ! j = None) [i..<i + length payloads] \<and>
    (\<forall>item \<in> set items. \<exists>canonical env. CanonicalizeEnvelope (pe_wire E) (payloads ! (br_index item - i)) = Inr canonical \<and>
      UnmarshalEnvelope (pe_wire E) canonical = Inr env \<and> br_metadata item = Metadata env \<and>
      publishable E ro (Metadata env) canonical (br_record item))"

lemma screened_item_bound: "screened E ro i payloads errs items errs' \<Longrightarrow> item \<in> set items \<Longrightarrow> i \<le> br_index item"
proof -
  assume s: "screened E ro i payloads errs items errs'" and "item \<in> set items"
  then have "br_index item \<in> set (filter (\<lambda>j. errs' ! j = None) [i..<i + length payloads])"
    unfolding screened_def by (metis image_eqI list.set_map)
  then show ?thesis by simp
qed

lemma screened_bad:
  assumes "screened E ro (Suc i) payloads (errs[i := Some e]) items errs'" and "i < length errs"
  shows "screened E ro i (p # payloads) errs items errs'"
proof -
  have "errs' ! i = Some e" using assms by (simp add: screened_def)
  moreover have "[i..<i + length (p # payloads)] = i # [Suc i..<Suc i + length payloads]" by (simp add: upt_rec)
  moreover have "(p # payloads) ! (br_index item - i) = payloads ! (br_index item - Suc i)" if "item \<in> set items" for item
    using screened_item_bound [OF assms(1) that] by (simp add: nth_Cons' Suc_diff_Suc)
  ultimately show ?thesis using assms by (auto simp: screened_def simp del: upt_Suc)
qed

lemma screened_good:
  assumes s: "screened E ro (Suc i) payloads errs items errs'" and "i < length errs" and "errs ! i = None"
    and "CanonicalizeEnvelope (pe_wire E) p = Inr canonical" and "UnmarshalEnvelope (pe_wire E) canonical = Inr env"
    and "route_topic ro (Metadata env) (kb_clock (pe_broker E) n) = Inr topic"
  shows "screened E ro i (p # payloads) errs
    (\<lparr>br_index = i, br_metadata = Metadata env, br_record = newRouteRecord topic (Metadata env) canonical\<rparr> # items) errs'"
proof -
  have "errs' ! i = None" using assms(1-3) by (simp add: screened_def)
  moreover have "[i..<i + length (p # payloads)] = i # [Suc i..<Suc i + length payloads]" by (simp add: upt_rec)
  moreover have "(p # payloads) ! (br_index item - i) = payloads ! (br_index item - Suc i)" if "item \<in> set items" for item
    using screened_item_bound [OF s that] by (simp add: nth_Cons' Suc_diff_Suc)
  ultimately show ?thesis using assms by (auto simp: screened_def publishable_def simp del: upt_Suc)
qed

lemma yields_screen:
  fixes w :: "(kevent, 'w) kworld_scheme"
  assumes "i + length payloads \<le> length errs" and "\<And>j. i \<le> j \<Longrightarrow> j < i + length payloads \<Longrightarrow> errs ! j = None"
  shows "yields (screen_payloads E ro i payloads errs) w (\<lambda>(items, errs') evs _. evs = [] \<and> screened E ro i payloads errs items errs')"
  using assms
proof (induction payloads arbitrary: i errs w)
  case Nil
  then show ?case by (simp add: yields_return screened_def)
next
  case (Cons p payloads)
  have i: "i < length errs" "errs ! i = None" using Cons.prems by auto
  have bad: "yields (screen_payloads E ro (Suc i) payloads (errs[i := Some e])) w
      (\<lambda>(items, errs') evs _. evs = [] \<and> screened E ro i (p # payloads) errs items errs')" for e and w :: "(kevent, 'w) kworld_scheme"
    by (rule yields_mono [OF Cons.IH]) (use Cons.prems i screened_bad in auto)
  show ?case
  proof (cases "CanonicalizeEnvelope (pe_wire E) p")
    case (Inr canonical)
    show ?thesis
    proof (cases "UnmarshalEnvelope (pe_wire E) canonical")
      case env: (Inr env)
      have good: "yields (screen_payloads E ro (Suc i) payloads errs) w
          (\<lambda>(items, errs') evs _. evs = [] \<and> screened E ro (Suc i) payloads errs items errs')" for w :: "(kevent, 'w) kworld_scheme"
        by (rule Cons.IH) (use Cons.prems in auto)
      show ?thesis
        unfolding screen_payloads.simps Inr env sum.case
      proof (rule yields_bind [OF yields_clock], goal_cases)
        case (1 t evs v)
        then obtain n where n: "t = kb_clock (pe_broker E) n" "evs = []" by blast
        show ?case
        proof (cases "route_topic ro (Metadata env) t")
          case topic: (Inr topic)
          have more: "screened E ro i (p # payloads) errs
              (\<lparr>br_index = i, br_metadata = Metadata env, br_record = newRouteRecord topic (Metadata env) canonical\<rparr> # items) errs'"
            if "screened E ro (Suc i) payloads errs items errs'" for items errs'
            using topic unfolding n(1) by (rule screened_good [OF that i Inr env])
          show ?thesis
            unfolding topic sum.case n(2) by (rule yields_bind [OF good]) (auto intro!: yields_return more)
        qed (use bad n in simp)
      qed
    qed (use Inr bad in simp)
  qed (use bad in simp)
qed


text \<open>Dropping the expired items, or marking all of them, keeps the correspondence.\<close>

definition narrowed ::
  "batchRouteRecord list \<Rightarrow> err option list \<Rightarrow> batchRouteRecord list \<Rightarrow> err option list \<Rightarrow> bool" where
  "narrowed items errs items' errs' \<longleftrightarrow>
    length errs' = length errs \<and> set items' \<subseteq> set items \<and> (\<forall>j. j \<notin> br_index ` set items \<longrightarrow> errs' ! j = errs ! j) \<and>
    map br_index items' = filter (\<lambda>j. errs' ! j = None) (map br_index items)"

lemma yields_drop_expired:
  fixes w :: "(kevent, 'w) kworld_scheme"
  assumes "distinct (map br_index items)" and "\<forall>item \<in> set items. br_index item < length errs \<and> errs ! br_index item = None"
  shows "yields (drop_expired E items errs) w (\<lambda>(items', errs') evs _. evs = [] \<and> narrowed items errs items' errs')"
  using assms
proof (induction items arbitrary: errs w)
  case Nil
  then show ?case by (simp add: yields_return narrowed_def)
next
  case (Cons item items)
  let ?e = "Some (PermanentError (Sentinel KafkaErrMessageExpired))"
  have new: "br_index item \<notin> br_index ` set items" using Cons.prems(1) by simp
  have dropped: "yields (drop_expired E items (errs[br_index item := ?e])) v
      (\<lambda>(items', errs') evs _. evs = [] \<and> narrowed (item # items) errs items' errs')" for v :: "(kevent, 'w) kworld_scheme"
    by (rule yields_mono [OF Cons.IH]) (use Cons.prems new in \<open>auto simp: narrowed_def nth_list_update\<close>)
  have kept: "yields (drop_expired E items errs) v (\<lambda>(items', errs') evs _. evs = [] \<and> narrowed items errs items' errs')"
    for v :: "(kevent, 'w) kworld_scheme"
    by (rule Cons.IH) (use Cons.prems in auto)
  have again: "narrowed (item # items) errs (item # items') errs'" if "narrowed items errs items' errs'" for items' errs'
    using that new Cons.prems(2) by (auto simp: narrowed_def)
  show ?case
    unfolding drop_expired.simps
    by (rule yields_bind [OF yields_clock]) (auto intro!: dropped again yields_bind [OF kept] yields_return)
qed

lemma narrowed_open:
  assumes "open_items E ro payloads items errs" and "narrowed items errs items' errs'"
  shows "open_items E ro payloads items' errs'"
proof -
  have idx: "map br_index items = filter (\<lambda>i. errs ! i = None) [0..<length payloads]" using assms(1) by (simp add: open_items_def)
  have "errs' ! j = errs ! j" if "j < length payloads" "errs ! j \<noteq> None" for j
  proof -
    have "j \<notin> set (map br_index items)" unfolding idx using that by simp
    then show ?thesis using assms(2) by (simp add: narrowed_def)
  qed
  then have "filter (\<lambda>j. errs' ! j = None) (map br_index items) = filter (\<lambda>j. errs' ! j = None) [0..<length payloads]"
    unfolding idx filter_filter by (intro filter_cong refl) (metis atLeastLessThan_iff set_upt)
  then show ?thesis using assms by (auto simp: open_items_def narrowed_def)
qed

lemma failure_narrowed:
  assumes "distinct (map br_index items)" and "\<forall>item \<in> set items. br_index item < length errs"
  shows "narrowed items errs [] (markKafkaBatchFailure items e errs)"
proof -
  have "markKafkaBatchFailure items e errs ! br_index item \<noteq> None" if "item \<in> set items" for item
    unfolding markKafkaBatchFailure_def
    using fold_update_at [OF assms(1) that, of errs "\<lambda>_. RetryAfter (Some e) (seconds 1)"] assms(2) that
    by (simp add: RetryAfter_def seconds_def)
  then show ?thesis
    by (auto simp: narrowed_def markKafkaBatchFailure_def fold_update_length fold_update_other filter_empty_conv)
qed

lemma open_items_facts:
  assumes "open_items E ro payloads items errs"
  shows "distinct (map br_index items)" "\<forall>item \<in> set items. br_index item < length errs \<and> errs ! br_index item = None"
proof -
  have idx: "map br_index items = filter (\<lambda>i. errs ! i = None) [0..<length payloads]" "length errs = length payloads"
    using assms by (simp_all add: open_items_def)
  show "distinct (map br_index items)" unfolding idx by simp
  show "\<forall>item \<in> set items. br_index item < length errs \<and> errs ! br_index item = None"
  proof
    fix item assume "item \<in> set items"
    then have "br_index item \<in> set (filter (\<lambda>i. errs ! i = None) [0..<length payloads])" unfolding idx(1) [symmetric] by simp
    then show "br_index item < length errs \<and> errs ! br_index item = None" using idx(2) by simp
  qed
qed

lemma screened_open: "screened E ro 0 payloads (replicate (length payloads) None) items errs \<Longrightarrow> open_items E ro payloads items errs"
  by (simp add: screened_def open_items_def)

text \<open>What a batch answers: the items without an error have a receipt and are the one committed transaction.\<close>

definition batch_published ::
  "publish_env \<Rightarrow> route \<Rightarrow> string list \<Rightarrow> receipt list \<Rightarrow> err option list \<Rightarrow> kevent list \<Rightarrow> bool" where
  "batch_published E ro payloads receipts errs evs \<longleftrightarrow>
    (\<exists>items t. open_items E ro payloads items errs \<and> length receipts = length payloads \<and>
      (\<forall>item \<in> set items. receipts ! br_index item = confirmed_receipt ro (br_metadata item) t) \<and>
      (\<forall>i < length payloads. errs ! i \<noteq> None \<longrightarrow> receipts ! i = zero_receipt) \<and>
      (if items = [] then no_publication evs else one_transaction (map br_record items) evs))"

lemma batch_nothing:
  assumes "open_items E ro payloads items errs" and "narrowed items errs [] errs'" and "no_publication evs"
  shows "batch_published E ro payloads (replicate (length payloads) zero_receipt) errs' evs"
  unfolding batch_published_def
  by (intro exI [of _ "[]"] exI) (use narrowed_open [OF assms(1,2)] assms(3) in simp)

lemma batch_confirmed:
  assumes "open_items E ro payloads items errs" and "items \<noteq> []" and "one_transaction (map br_record items) evs"
  shows "batch_published E ro payloads (confirm_items ro t items (replicate (length payloads) zero_receipt)) errs evs"
proof -
  note F = open_items_facts [OF assms(1)]
  have len: "length errs = length payloads" using assms(1) by (simp add: open_items_def)
  let ?r = "confirm_items ro t items (replicate (length payloads) zero_receipt)"
  have "?r ! br_index item = confirmed_receipt ro (br_metadata item) t" if "item \<in> set items" for item
    unfolding confirm_items_def using F that len by (intro fold_update_at) simp_all
  moreover have "?r ! i = zero_receipt" if "i < length payloads" "errs ! i \<noteq> None" for i
    unfolding confirm_items_def using F that by (subst fold_update_other) auto
  moreover have "length ?r = length payloads" unfolding confirm_items_def fold_update_length by simp
  ultimately show ?thesis
    unfolding batch_published_def by (intro exI [of _ items] exI [of _ t]) (use assms in simp)
qed


lemma yields_publish_active:
  assumes o: "open_items E ro payloads active errs"
  shows "yields (publish_active E ro (replicate (length payloads) zero_receipt) active errs) w
    (\<lambda>(receipts, errs') evs _. batch_published E ro payloads receipts errs' (EvAcquire # evs @ [EvRelease]))"
proof (cases "active = []")
  case True
  have "narrowed active errs [] errs" using True by (simp add: narrowed_def)
  then have "batch_published E ro payloads (replicate (length payloads) zero_receipt) errs (EvAcquire # [] @ [EvRelease])"
    by (intro batch_nothing [OF o] no_publication_wrap) simp_all
  with True show ?thesis by (simp add: publish_active_def yields_return)
next
  case False
  note F = open_items_facts [OF o]
  have failed: "batch_published E ro payloads (replicate (length payloads) zero_receipt) (markKafkaBatchFailure active e errs)
      (EvAcquire # evs @ [EvRelease])" if "quiet evs" for e evs
    using F that by (intro batch_nothing [OF o] failure_narrowed no_publication_wrap) auto
  have ok: "batch_published E ro payloads (confirm_items ro t active (replicate (length payloads) zero_receipt)) errs
      (EvAcquire # committed_tx (map br_record active) @ [EvRelease])" for t
    using False by (intro batch_confirmed [OF o]) (simp_all add: one_transaction_def)
  show ?thesis
    unfolding publish_active_def if_not_P [OF False]
    using False failed ok
    by (auto intro!: yields_return yields_bind [OF yields_client_transaction] yields_bind [OF yields_clock] split: option.split)
qed

lemma yields_PublishEnvelopeBatch:
  "yields (PublishEnvelopeBatch E ro hasCtx payloads) w
    (\<lambda>answer evs _. case answer of
       Inl e \<Rightarrow> evs = [] \<and> (if hasCtx then payloads = [] else True)
     | Inr (receipts, errs) \<Rightarrow> batch_published E ro payloads receipts errs evs)"
proof -
  let ?none = "replicate (length payloads) zero_receipt"
  have screen: "yields (screen_payloads E ro 0 payloads (replicate (length payloads) None)) w
      (\<lambda>(items, errs) evs _. evs = [] \<and> open_items E ro payloads items errs)" for w
    by (rule yields_mono [OF yields_screen]) (auto dest: screened_open)
  have unsent: "batch_published E ro payloads ?none errs []" if "open_items E ro payloads [] errs" for errs
    by (rule batch_nothing [OF that]) (simp_all add: narrowed_def)
  have marked: "batch_published E ro payloads ?none (markKafkaBatchFailure items e errs) []"
    if "open_items E ro payloads items errs" for items errs e
    by (rule batch_nothing [OF that failure_narrowed]) (use open_items_facts [OF that] in auto)
  have admitted: "yields (do {
        (active, errs) \<leftarrow> drop_expired E items errs;
        result \<leftarrow> publish_active E ro ?none active errs;
        _ \<leftarrow> emit EvRelease;
        k_return (Inr result) }) w
      (\<lambda>answer evs _. case answer of Inl e \<Rightarrow> False
        | Inr (receipts, errs) \<Rightarrow> batch_published E ro payloads receipts errs (EvAcquire # evs))"
    if o: "open_items E ro payloads items errs" for items errs w
  proof (rule yields_bind [OF yields_drop_expired [OF open_items_facts [OF o]]], goal_cases)
    case (1 x evs v)
    obtain active errs' where x: "x = (active, errs')" by force
    then have "evs = []" "open_items E ro payloads active errs'" using 1 narrowed_open [OF o] by auto
    then show ?case
      unfolding x prod.case
      by (intro yields_bind [OF yields_publish_active]) (auto intro!: yields_bind [OF yields_emit] yields_return)
  qed
  show ?thesis
  proof (cases "\<not> hasCtx \<or> payloads = []")
    case False
    then have program: "PublishEnvelopeBatch E ro hasCtx payloads = do {
        (valid, errs) \<leftarrow> screen_payloads E ro 0 payloads (replicate (length payloads) None);
        if valid = [] then k_return (Inr (?none, errs))
        else do {
          refused \<leftarrow> ensure_running E;
          case refused of
            Some e \<Rightarrow> k_return (Inr (?none, markKafkaBatchFailure valid e errs))
          | None \<Rightarrow> do {
              denied \<leftarrow> acquireTransaction E;
              case denied of
                Some e \<Rightarrow> k_return (Inr (?none, markKafkaBatchFailure valid e errs))
              | None \<Rightarrow> do {
                  (active, errs) \<leftarrow> drop_expired E valid errs;
                  result \<leftarrow> publish_active E ro ?none active errs;
                  _ \<leftarrow> emit EvRelease;
                  k_return (Inr result) } } } }"
      by (simp add: PublishEnvelopeBatch_def Let_def)
    show ?thesis
      unfolding program
    proof (rule yields_bind [OF screen], goal_cases)
      case (1 x evs v)
      obtain valid errs where x: "x = (valid, errs)" by force
      with 1 have o: "open_items E ro payloads valid errs" and evs: "evs = []" by auto
      show ?case
      proof (cases "valid = []")
        case True
        with o have "open_items E ro payloads [] errs" by simp
        then have "batch_published E ro payloads ?none errs []" by (rule unsent)
        then show ?thesis unfolding x prod.case if_P [OF True] evs by (intro yields_return) simp
      next
        case False
        then show ?thesis
          unfolding x prod.case if_not_P [OF False]
          using o evs
          by (auto intro!: yields_return marked yields_bind [OF yields_ensure] yields_bind [OF yields_acquire]
              yields_mono [OF admitted] split: option.split sum.splits)
      qed
    qed
  qed (auto simp: PublishEnvelopeBatch_def intro: yields_return)
qed

lemma yields_PublishReplay:
  "yields (PublishReplay E hasCtx rec) w
    (\<lambda>answer evs _. case answer of
       Inr s \<Rightarrow> \<exists>r canonical. rec = Some r \<and> validateProtectedReplayRecord E r = Inr canonical \<and>
         s = newReplayRecord r canonical \<and> one_transaction [s] evs
     | Inl e \<Rightarrow> no_publication evs)"
  unfolding PublishReplay_def
  by (auto split: option.split sum.split intro!: yields_return yields_bind [OF yields_ensure] yields_bind [OF yields_acquire]
      yields_bind [OF yields_client_transaction] yields_bind [OF yields_emit] no_publication_wrap simp: one_transaction_def)


section \<open>Properties\<close>


lemma newConsumer_source:
  assumes "newConsumer hasTransport store d config decode = Inr co"
  shows "Topic (hc_Namespace config) d = Inr (kc_sourceTopic co)" "kc_descriptor co = d"
proof -
  have ns: "hc_Namespace cfg = hc_Namespace config"
    if "applyObservabilityDefaults (applyConsumerDefaults config) = Inr cfg" for cfg
    using that by (auto simp: applyObservabilityDefaults_def applyConsumerDefaults_def Let_def split: if_splits)
  show "Topic (hc_Namespace config) d = Inr (kc_sourceTopic co)" "kc_descriptor co = d"
    using assms by (auto simp: newConsumer_def ns [symmetric] split: sum.splits option.splits if_splits)
qed

lemma route_topic_source:
  assumes "route_topic ro (Metadata env) t = Inr topic" and "validateEnvelopeDescriptor env d = None"
  shows "Topic (ro_namespace ro) d = Inr topic"
proof -
  have "di_Kind d = md_Kind (Metadata env)" "di_Name d = md_Name (Metadata env)" "di_SchemaVersion d = md_SchemaVersion (Metadata env)"
    using assms(2) by (auto simp: validateEnvelopeDescriptor_def Metadata_def split: if_splits)
  then show ?thesis
    using assms(1) Topic_bare [of "ro_namespace ro" d] by (auto simp: route_topic_def split: if_splits sum.splits)
qed

text \<open>C35. What a route publishes, its consumer accepts. A record published for an envelope that fits a descriptor, wherever the
  broker puts it, is prepared by every consumer of that namespace and descriptor with the envelope that was published and its
  source position as control metadata; its only possible failure is that the message has expired by then.\<close>

theorem published_record_accepted:
  assumes "newConsumer hasTransport store d config decode = Inr co" and "hc_Namespace config = ro_namespace ro"
    and "UnmarshalEnvelope (pe_wire P) canonical = Inr env" and "validateEnvelopeDescriptor env d = None"
    and "publishable P ro (Metadata env) canonical r" and "ke_wire E = pe_wire P"
    and "r' = r\<lparr>kr_Partition := p, kr_Offset := offset, kr_LeaderEpoch := epoch, kr_Timestamp := ts\<rparr>"
  shows "let prepared = fst (run_state (prepareRecord E co r') w) in
    pr_control prepared = sourceControl r' \<and>
    (if metadata_expired (Metadata env) (kb_clock (ke_broker E) (kw_step w))
     then pr_failure prepared = Some (Sentinel KafkaErrMessageExpired)
     else pr_failure prepared = None \<and> pr_envelope prepared = env \<and> pr_retryAt prepared = 0)"
proof -
  obtain n topic where topic: "route_topic ro (Metadata env) (kb_clock (pe_broker P) n) = Inr topic"
      and r: "r = newRouteRecord topic (Metadata env) canonical"
    using assms(5) by (auto simp: publishable_def)
  have co: "kc_sourceTopic co = topic" "kc_descriptor co = d"
    using newConsumer_source [OF assms(1)] route_topic_source [OF topic assms(4)] assms(2) by simp_all
  have r': "kr_Topic r' = topic" "kr_Key r' = expectedRecordKey (Metadata env)" "kr_Value r' = canonical" "kr_Headers r' = []"
    by (simp_all add: assms(7) r newRouteRecord_def)
  have control: "parseControl parse r' (kc_sourceTopic co) replay retries = Inr (sourceControl r')" for parse replay retries
    by (simp add: parseControl_def r' co)
  have key: "validateRecordKey (kr_Key r') (Metadata env) = None" by (simp add: validateRecordKey_def r')
  have src: "sp_topic (cm_source (sourceControl r')) = kc_sourceTopic co" "cm_notBefore (sourceControl r') = 0"
    by (simp_all add: sourceControl_def r' co)
  show ?thesis
    using assms(3,4,6) co key src
    by (auto simp: prepareRecord_def control clock_now_def prepare_envelope_def r'(3) retryDue_def metadata_expired_def
        prepared_failure_def Let_def)
qed


definition sample_publish_env :: publish_env where
  "sample_publish_env =
    \<lparr>pe_broker = sample_broker, pe_wire = sample_wire, pe_state = (\<lambda>_. TransportRunning), pe_gate = (\<lambda>_. None),
     pe_parse = ParseInt 128\<rparr>"

theorem published_record_accepted_witness:
  "\<exists>co prepared. sample_consumer = Inr co \<and> prepared = fst (run_state (prepareRecord sample_kenv co
      ((newRouteRecord ''shop.command.pay.v1'' sample_metadata ''E'')
        \<lparr>kr_Partition := 3, kr_Offset := 41, kr_LeaderEpoch := 0, kr_Timestamp := 9\<rparr>))
      sample_world) \<and>
    pr_failure prepared = None \<and> pr_envelope prepared = sample_envelope"
proof -
  obtain co where co: "sample_consumer = Inr co" using sample_consumer_made by blast
  let ?ro = "\<lparr>ro_name = ''orders'', ro_namespace = ''shop''\<rparr>"
  let ?r = "newRouteRecord ''shop.command.pay.v1'' sample_metadata ''E''"
  have new: "newConsumer True (Some (sqlite_backend (\<lambda>x. x) idle_batch)) sample_info sample_consumer_config
      (Some (typed_decoder sample_wire sample_codec sample_handler)) = Inr co"
    using co by (simp add: sample_consumer_def NewCommandConsumer_def)
  have "route_topic ?ro sample_metadata t = Inr ''shop.command.pay.v1''" for t
    using sample_topic by (simp add: route_topic_def metadata_expired_def sample_metadata_def)
  then have out: "publishable sample_publish_env ?ro (Metadata sample_envelope) ''E'' ?r"
    by (auto simp: publishable_def sample_fields)
  have "\<not> metadata_expired (Metadata sample_envelope) t" for t
    by (simp add: sample_fields metadata_expired_def sample_metadata_def)
  moreover have "validateEnvelopeDescriptor sample_envelope sample_info = None"
    by (simp add: validateEnvelopeDescriptor_def sample_envelope_def bare_envelope_def sample_metadata_def sample_info_def)
  moreover have "UnmarshalEnvelope (pe_wire sample_publish_env) ''E'' = Inr sample_envelope"
      "ke_wire sample_kenv = pe_wire sample_publish_env" "hc_Namespace sample_consumer_config = ro_namespace ?ro"
    using sample_unmarshal by (simp_all add: sample_publish_env_def sample_kenv_def sample_consumer_config_def)
  ultimately have "pr_failure (fst (run_state (prepareRecord sample_kenv co (?r\<lparr>kr_Partition := 3, kr_Offset := 41, kr_LeaderEpoch := 0,
        kr_Timestamp := 9\<rparr>)) sample_world)) = None \<and>
      pr_envelope (fst (run_state (prepareRecord sample_kenv co (?r\<lparr>kr_Partition := 3, kr_Offset := 41, kr_LeaderEpoch := 0,
        kr_Timestamp := 9\<rparr>)) sample_world)) = sample_envelope"
    using published_record_accepted [OF new _ _ _ out _ refl, of sample_kenv 9 0 41 3 sample_world] unfolding Let_def by metis
  with co show ?thesis by blast
qed

end
