(* ===== verification/Outbox.thy ===== *)
theory Outbox
  imports LocalRoute KafkaRoute
begin

text \<open>
  The transactional outbox adapter, \<open>adapters/outbox\<close>: producers that stage canonical envelopes as jobs, and the relay jobs that
  publish them. The outbox itself is not part of the repository: its \<open>PutVersionedUnique\<close> methods are the parameter \<open>putter\<close>
  of the producers, a function on the application state that returns an error or job identifiers (0 is the zero identifier), and its error
  wrappers are the datatype \<open>outbox_err\<close>. The publisher of a relay is a program of the state monad, such as the Kafka route.
\<close>

section \<open>Producers\<close>

definition DefaultRelayJobName :: string where
  "DefaultRelayJobName = ''gomessenger.relay''"

definition RelayJobSchemaVersion :: int where
  "RelayJobSchemaVersion = 1"

record producerConfig =
  pc_Name :: string
  pc_JobName :: string
  pc_JobSchema :: int

record uniquePut =
  up_DeduplicationKey :: string
  up_Name :: string
  up_SchemaVersion :: int
  up_Payload :: string
  up_AvailableAt :: instant

definition NewProducer :: "bool \<Rightarrow> producerConfig \<Rightarrow> err + producerConfig" where
  "NewProducer hasPutter config =
    (if \<not> hasPutter \<or> pc_Name config = [] then Inl (Plain ''messenger/outbox: invalid producer configuration'')
     else
       let config = (if pc_JobName config = [] then config\<lparr>pc_JobName := DefaultRelayJobName\<rparr> else config);
           config = (if pc_JobSchema config = 0 then config\<lparr>pc_JobSchema := RelayJobSchemaVersion\<rparr> else config)
       in if pc_JobSchema config < 1 then Inl (Plain ''messenger/outbox: job schema must be positive'') else Inr config)"

definition staged_job :: "producerConfig \<Rightarrow> metadata \<Rightarrow> string \<Rightarrow> uniquePut" where
  "staged_job p m envelope =
    \<lparr>up_DeduplicationKey = mid_String (md_ID m), up_Name = pc_JobName p, up_SchemaVersion = pc_JobSchema p, up_Payload = envelope,
     up_AvailableAt = (if IsZeroTime (md_NotBefore m) then md_Time m else md_NotBefore m)\<rparr>"

definition staged_receipt :: "producerConfig \<Rightarrow> messageID \<Rightarrow> instant \<Rightarrow> receipt" where
  "staged_receipt p i t = \<lparr>rc_MessageID = i, rc_Route = pc_Name p, rc_State = ReceiptStaged, rc_At = t\<rparr>"

definition producer_Deliver ::
  "wire_lib \<Rightarrow> (uniquePut \<Rightarrow> 'w \<Rightarrow> (err + nat) \<times> 'w) \<Rightarrow> ('w \<Rightarrow> instant \<times> 'w) \<Rightarrow> producerConfig \<Rightarrow> ('w, 'v) delivery option \<Rightarrow>
    ('w, 'v) mworld \<Rightarrow> (receipt \<times> err option) \<times> ('w, 'v) mworld" where
  "producer_Deliver L putter wall p delivery mw =
    (case delivery of
       None \<Rightarrow> ((zero_receipt, Some (Plain ''messenger/outbox: nil delivery'')), mw)
     | Some d \<Rightarrow>
        (let m = dl_metadata d in
         if md_Kind m \<noteq> KindCommand \<and> md_Kind m \<noteq> KindEvent
         then ((zero_receipt, Some (invalid_message ''outbox only supports command/event delivery'')), mw)
         else case delivery_MarshalEnvelope L m (dl_encode d) of
           Inl e \<Rightarrow> ((zero_receipt, Some e), mw)
         | Inr envelope \<Rightarrow>
            (case on_state (putter (staged_job p m envelope)) mw of
               (Inl e, mw) \<Rightarrow> ((zero_receipt, Some (Wrap ''messenger/outbox: stage'' [e])), mw)
             | (Inr job, mw) \<Rightarrow>
                if job = 0 then ((zero_receipt, Some (Plain ''messenger/outbox: outbox returned an empty job ID'')), mw)
                else case on_state wall mw of (t, mw) \<Rightarrow> ((staged_receipt p (md_ID m) t, None), mw))))"

subsection \<open>Batches\<close>

fun prepare_puts ::
  "wire_lib \<Rightarrow> producerConfig \<Rightarrow> messageID list \<Rightarrow> ('w, 'v) delivery option list \<Rightarrow> err + (uniquePut \<times> messageID) list" where
  "prepare_puts L p seen [] = Inr []"
| "prepare_puts L p seen (None # ds) = Inl (Plain ''messenger/outbox: nil delivery'')"
| "prepare_puts L p seen (Some d # ds) =
    (let m = dl_metadata d in
     if md_Kind m \<noteq> KindCommand \<and> md_Kind m \<noteq> KindEvent then Inl (invalid_message ''outbox only supports command/event delivery'')
     else if md_ID m \<in> set seen then Inl (invalid_message ''duplicate message ID'')
     else case delivery_MarshalEnvelope L m (dl_encode d) of
       Inl e \<Rightarrow> Inl (Wrap ''messenger/outbox: encode batch item'' [e])
     | Inr envelope \<Rightarrow>
        (case prepare_puts L p (md_ID m # seen) ds of
           Inl e \<Rightarrow> Inl e
         | Inr puts \<Rightarrow> Inr ((staged_job p m envelope, md_ID m) # puts)))"

definition producer_DeliverBatch ::
  "wire_lib \<Rightarrow> (uniquePut list \<Rightarrow> 'w \<Rightarrow> (err + nat list) \<times> 'w) \<Rightarrow> ('w \<Rightarrow> instant \<times> 'w) \<Rightarrow> producerConfig \<Rightarrow>
    ('w, 'v) delivery option list \<Rightarrow> ('w, 'v) mworld \<Rightarrow> (receipt list \<times> err option) \<times> ('w, 'v) mworld" where
  "producer_DeliverBatch L putter wall p ds mw =
    (if ds = [] then (([], Some (Plain ''messenger/outbox: empty delivery batch'')), mw)
     else case prepare_puts L p [] ds of
       Inl e \<Rightarrow> (([], Some e), mw)
     | Inr puts \<Rightarrow>
        (case on_state (putter (map fst puts)) mw of
           (Inl e, mw) \<Rightarrow> (([], Some (Wrap ''messenger/outbox: stage batch'' [e])), mw)
         | (Inr jobs, mw) \<Rightarrow>
            if length jobs \<noteq> length puts
            then (([], Some (Plain ''messenger/outbox: outbox returned another number of results'')), mw)
            else case on_state wall mw of
              (t, mw) \<Rightarrow>
               if 0 \<in> set jobs then (([], Some (Plain ''messenger/outbox: outbox returned an empty job ID'')), mw)
               else ((map (\<lambda>(_, i). staged_receipt p i t) puts, None), mw)))"

definition batch_producer_Deliver ::
  "wire_lib \<Rightarrow> (uniquePut list \<Rightarrow> 'w \<Rightarrow> (err + nat list) \<times> 'w) \<Rightarrow> ('w \<Rightarrow> instant \<times> 'w) \<Rightarrow> producerConfig \<Rightarrow>
    ('w, 'v) delivery option \<Rightarrow> ('w, 'v) mworld \<Rightarrow> (receipt \<times> err option) \<times> ('w, 'v) mworld" where
  "batch_producer_Deliver L putter wall p d mw =
    (case producer_DeliverBatch L putter wall p [d] mw of
       ((receipts, Some e), mw) \<Rightarrow> ((zero_receipt, Some e), mw)
     | ((receipts, None), mw) \<Rightarrow> ((hd receipts, None), mw))"

definition batch_route ::
  "wire_lib \<Rightarrow> (uniquePut list \<Rightarrow> 'w \<Rightarrow> (err + nat list) \<times> 'w) \<Rightarrow> ('w \<Rightarrow> instant \<times> 'w) \<Rightarrow> producerConfig \<Rightarrow> ('w, 'v) croute" where
  "batch_route L putter wall p =
    \<lparr>rt_Name = pc_Name p, rt_local = False, rt_service = None,
     rt_Deliver = (\<lambda>_ d. batch_producer_Deliver L putter wall p (Some d)),
     rt_DeliverBatch = Some (\<lambda>_ ds. producer_DeliverBatch L putter wall p (map Some ds))\<rparr>"

section \<open>Relays\<close>

datatype outbox_err = OutboxPermanent err | OutboxRetryAt err instant | OutboxDeferAt err instant | OutboxPlain err

record relayConfig =
  rl_Name :: string
  rl_SchemaVersion :: int
  rl_ExecutionTimeout :: duration
  rl_MaxAttempts :: int

definition NewRelayJob :: "bool \<Rightarrow> relayConfig \<Rightarrow> err + relayConfig" where
  "NewRelayJob hasPublisher config =
    (if \<not> hasPublisher then Inl (Plain ''messenger/outbox: nil envelope publisher'')
     else
       let config = (if rl_Name config = [] then config\<lparr>rl_Name := DefaultRelayJobName\<rparr> else config);
           config = (if rl_SchemaVersion config = 0 then config\<lparr>rl_SchemaVersion := RelayJobSchemaVersion\<rparr> else config);
           config = (if rl_ExecutionTimeout config = 0 then config\<lparr>rl_ExecutionTimeout := 30000000000\<rparr> else config);
           config = (if rl_MaxAttempts config = 0 then config\<lparr>rl_MaxAttempts := 10\<rparr> else config)
       in if rl_SchemaVersion config < 1 \<or> rl_ExecutionTimeout config \<le> 0 \<or> rl_MaxAttempts config < 1
          then Inl (Plain ''messenger/outbox: invalid relay job configuration'') else Inr config)"

definition NewBatchRelayJob :: "bool \<Rightarrow> relayConfig \<Rightarrow> err + relayConfig" where
  "NewBatchRelayJob hasPublisher config =
    (if \<not> hasPublisher then Inl (Plain ''messenger/outbox: nil batch envelope publisher'') else NewRelayJob True config)"

definition permanent_relay :: "err \<Rightarrow> bool" where
  "permanent_relay e \<longleftrightarrow> IsPermanent e \<or> errors_Is e ErrInvalidMessage \<or> errors_Is e ErrDescriptorConflict"

definition relay_error ::
  "(err \<Rightarrow> instant \<Rightarrow> outbox_err) \<Rightarrow> ('k, instant) state \<Rightarrow> err \<Rightarrow> ('k, outbox_err) state" where
  "relay_error postponed clock e =
    (if permanent_relay e then k_return (OutboxPermanent e)
     else case RetryDelay e of
       Some delay \<Rightarrow> do { t \<leftarrow> clock; k_return (postponed e (t + delay)) }
     | None \<Rightarrow> k_return (OutboxPlain e))"

definition undecodable :: "err \<Rightarrow> outbox_err" where
  "undecodable e = OutboxPermanent (Wrap ''messenger/outbox: decode relay envelope'' [e])"

definition RelayJob_Handle ::
  "wire_lib \<Rightarrow> (metadata \<Rightarrow> string \<Rightarrow> ('k, err + receipt) state) \<Rightarrow> ('k, instant) state \<Rightarrow> string \<Rightarrow> ('k, outbox_err option) state" where
  "RelayJob_Handle L publisher clock payload =
    (case UnmarshalEnvelope L payload of
       Inl e \<Rightarrow> k_return (Some (undecodable e))
     | Inr envelope \<Rightarrow> do {
         answer \<leftarrow> publisher (Metadata envelope) payload;
         case answer of
           Inr _ \<Rightarrow> k_return None
         | Inl e \<Rightarrow> do { x \<leftarrow> relay_error OutboxRetryAt clock e; k_return (Some x) } })"

definition relayBatchError :: "('k, instant) state \<Rightarrow> err \<Rightarrow> ('k, outbox_err) state" where
  "relayBatchError = relay_error OutboxDeferAt"

text \<open>The first pass over the jobs of a batch: results so far, payloads to publish and their positions.\<close>

fun relay_screen :: "wire_lib \<Rightarrow> nat \<Rightarrow> (nat \<times> string) list \<Rightarrow> (nat \<times> outbox_err option) list \<times> string list \<times> nat list" where
  "relay_screen L i [] = ([], [], [])"
| "relay_screen L i ((job, payload) # items) =
    (case relay_screen L (Suc i) items of
       (results, payloads, positions) \<Rightarrow>
        (case UnmarshalEnvelope L payload of
           Inl e \<Rightarrow> ((job, Some (undecodable e)) # results, payloads, positions)
         | Inr _ \<Rightarrow> ((job, None) # results, payload # payloads, i # positions)))"

fun relay_results ::
  "('k, instant) state \<Rightarrow> (nat \<times> err option) list \<Rightarrow> (nat \<times> outbox_err option) list \<Rightarrow> ('k, (nat \<times> outbox_err option) list) state" where
  "relay_results clock [] results = k_return results"
| "relay_results clock ((position, None) # es) results = relay_results clock es results"
| "relay_results clock ((position, Some e) # es) results = do {
     x \<leftarrow> relayBatchError clock e;
     relay_results clock es (results[position := (fst (results ! position), Some x)]) }"

definition BatchRelayJob_HandleBatch ::
  "wire_lib \<Rightarrow> (string list \<Rightarrow> ('k, err + receipt list \<times> err option list) state) \<Rightarrow> ('k, instant) state \<Rightarrow> (nat \<times> string) list \<Rightarrow>
    ('k, outbox_err + (nat \<times> outbox_err option) list) state" where
  "BatchRelayJob_HandleBatch L publisher clock items =
    (case relay_screen L 0 items of
       (results, payloads, positions) \<Rightarrow>
        if payloads = [] then k_return (Inr results)
        else do {
          answer \<leftarrow> publisher payloads;
          case answer of
            Inl e \<Rightarrow> do { rs \<leftarrow> relay_results clock (map (\<lambda>i. (i, Some e)) positions) results; k_return (Inr rs) }
          | Inr (receipts, errs) \<Rightarrow>
              if length receipts \<noteq> length payloads \<or> length errs \<noteq> length payloads
              then k_return (Inl (OutboxPermanent (Plain ''messenger/outbox: batch publisher returned another number of results'')))
              else do { rs \<leftarrow> relay_results clock (zip positions errs) results; k_return (Inr rs) } })"

section \<open>What is staged\<close>

lemma prepare_puts_ok:
  assumes "prepare_puts L p seen ds = Inr puts"
  shows "list_all2 (\<lambda>d (put, i). \<exists>x envelope. d = Some x \<and> i = md_ID (dl_metadata x) \<and>
      delivery_MarshalEnvelope L (dl_metadata x) (dl_encode x) = Inr envelope \<and> put = staged_job p (dl_metadata x) envelope) ds puts \<and>
    distinct (map snd puts) \<and> set (map snd puts) \<inter> set seen = {}"
  using assms
proof (induction L p seen ds arbitrary: puts rule: prepare_puts.induct)
  case (3 L p seen d ds)
  from "3.prems" obtain envelope rest where e: "delivery_MarshalEnvelope L (dl_metadata d) (dl_encode d) = Inr envelope"
      "prepare_puts L p (md_ID (dl_metadata d) # seen) ds = Inr rest" "md_ID (dl_metadata d) \<notin> set seen"
      "puts = (staged_job p (dl_metadata d) envelope, md_ID (dl_metadata d)) # rest"
    by (auto simp: Let_def split: if_splits sum.splits)
  have "\<not> (md_Kind (dl_metadata d) \<noteq> KindCommand \<and> md_Kind (dl_metadata d) \<noteq> KindEvent)"
    using "3.prems" by (auto simp: Let_def split: if_splits)
  from "3.IH" [OF refl this e(3) e(1) e(2)] e show ?case by auto
qed simp_all

section \<open>What a batch relay answers\<close>

lemma relay_screen_spec:
  assumes "relay_screen L i items = (results, payloads, positions)"
  shows "map fst results = map fst items \<and> positions = filter (\<lambda>p. snd (results ! (p - i)) = None) [i..<i + length items] \<and>
    payloads = map (\<lambda>p. snd (items ! (p - i))) positions"
  using assms
proof (induction items arbitrary: i results payloads positions)
  case (Cons item items)
  obtain job payload where item: "item = (job, payload)" by force
  obtain rs ps qs where s: "relay_screen L (Suc i) items = (rs, ps, qs)" by (metis surj_pair)
  note IH = Cons.IH [OF s]
  have up: "[i..<i + length (item # items)] = i # [Suc i..<Suc i + length items]" by (subst upt_conv_Cons) simp_all
  have shift: "filter (\<lambda>p. snd ((x # rs) ! (p - i)) = None) [Suc i..<Suc i + length items] = qs"
    "map (\<lambda>p. snd ((item # items) ! (p - i))) qs = ps" for x
  proof -
    have q: "qs = filter (\<lambda>p. snd (rs ! (p - Suc i)) = None) [Suc i..<Suc i + length items]" using IH by simp
    show "filter (\<lambda>p. snd ((x # rs) ! (p - i)) = None) [Suc i..<Suc i + length items] = qs"
      unfolding q by (rule filter_cong) (auto simp: nth_Cons' Suc_diff_le)
    show "map (\<lambda>p. snd ((item # items) ! (p - i))) qs = ps"
      unfolding conjunct2 [OF conjunct2 [OF IH]] by (rule map_cong) (auto simp: q nth_Cons')
  qed
  show ?case
  proof (cases "UnmarshalEnvelope L payload")
    case (Inl e)
    then have r: "results = (job, Some (undecodable e)) # rs" "payloads = ps" "positions = qs" using Cons.prems item s by simp_all
    show ?thesis unfolding r up using IH shift item by simp
  next
    case (Inr envelope)
    then have r: "results = (job, None) # rs" "payloads = payload # ps" "positions = i # qs" using Cons.prems item s by simp_all
    show ?thesis unfolding r up using IH shift item by simp
  qed
qed simp

text \<open>Reading the clock for a retry leaves no event.\<close>

lemma yields_relay_results:
  fixes w :: "(kevent, 'w) kworld_scheme"
  assumes "distinct (map fst es)" and "\<forall>p \<in> set (map fst es). p < length results \<and> snd (results ! p) = None"
  shows "yields (relay_results (clock_now B) es results) w (\<lambda>results' evs w'. evs = [] \<and> map fst results' = map fst results \<and>
    (\<forall>p < length results. snd (results' ! p) = None \<longleftrightarrow> snd (results ! p) = None \<and> (\<forall>e. (p, Some e) \<notin> set es)))"
  using assms
proof (induction "clock_now B :: ((kevent, 'w) kworld_scheme, instant) state" es results arbitrary: w rule: relay_results.induct)
  case (1 results)
  show ?case by (auto intro!: yields_return)
next
  case (2 position es results)
  then show ?case by (auto elim!: yields_mono)
next
  case (3 position e es results)
  have err: "yields (relayBatchError (clock_now B) e) w (\<lambda>_ evs _. evs = [])" for w :: "(kevent, 'w) kworld_scheme"
    unfolding relayBatchError_def relay_error_def
    by (auto intro!: yields_return yields_bind [OF yields_clock] split: option.split)
  show ?case unfolding relay_results.simps
  proof (rule yields_bind [OF err], goal_cases)
    case (1 x evs u)
    let ?r = "results[position := (fst (results ! position), Some x)]"
    have p: "position < length results" using 3 by simp
    have "yields (relay_results (clock_now B) es ?r) u (\<lambda>results' evs w'. evs = [] \<and> map fst results' = map fst ?r \<and>
        (\<forall>p < length ?r. snd (results' ! p) = None \<longleftrightarrow> snd (?r ! p) = None \<and> (\<forall>e. (p, Some e) \<notin> set es)))"
      by (rule "3.hyps") (use "3.prems" in \<open>auto simp: nth_list_update\<close>)
    moreover have "map fst ?r = map fst results" using p by (simp add: map_update list_update_same_conv)
    moreover have "snd (?r ! q) = None \<longleftrightarrow> snd (results ! q) = None \<and> q \<noteq> position" if "q < length results" for q
      using that p by (cases "q = position") simp_all
    ultimately show ?case using 1 by (auto elim!: yields_mono)
  qed
qed

text \<open>The jobs of a batch that are done, and the records that were committed for them.\<close>

definition relayed ::
  "publish_env \<Rightarrow> route \<Rightarrow> (nat \<times> string) list \<Rightarrow> (nat \<times> outbox_err option) list \<Rightarrow> kevent list \<Rightarrow> bool" where
  "relayed E ro items results evs \<longleftrightarrow> map fst results = map fst items \<and>
    (\<exists>records. (if records = [] then no_publication evs else one_transaction records evs) \<and>
      list_all2 (\<lambda>p r. \<exists>canonical env. CanonicalizeEnvelope (pe_wire E) (snd (items ! p)) = Inr canonical \<and>
          UnmarshalEnvelope (pe_wire E) canonical = Inr env \<and> publishable E ro (Metadata env) canonical r)
        (filter (\<lambda>p. snd (results ! p) = None) [0..<length items]) records)"

lemma filter_nth: "filter P xs = map ((!) xs) (filter (\<lambda>j. P (xs ! j)) [0..<length xs])"
  by (subst map_nth [symmetric]) (simp add: filter_map comp_def)

lemma map_fst_length: "map fst xs = map fst ys \<Longrightarrow> length xs = length ys"
  by (metis length_map)

lemma relayed_batch:
  assumes s: "relay_screen L 0 items = (results, payloads, positions)" and b: "batch_published E ro payloads receipts errs evs"
    and m: "map fst results' = map fst results"
    and r: "\<forall>p < length results. snd (results' ! p) = None \<longleftrightarrow> snd (results ! p) = None \<and> (\<forall>e. (p, Some e) \<notin> set (zip positions errs))"
  shows "relayed E ro items results' evs"
proof -
  have s': "map fst results = map fst items" "positions = filter (\<lambda>p. snd (results ! p) = None) [0..<length items]"
    "payloads = map (\<lambda>p. snd (items ! p)) positions"
    using relay_screen_spec [OF s] by simp_all
  obtain bitems t where bi: "open_items E ro payloads bitems errs" "if bitems = [] then no_publication evs else one_transaction (map br_record bitems) evs"
    using b by (auto simp: batch_published_def)
  then have len: "length errs = length positions" and idx: "map br_index bitems = filter (\<lambda>j. errs ! j = None) [0..<length positions]"
    by (simp_all add: open_items_def s'(3))
  have d: "distinct positions" unfolding s'(2) by simp
  have at: "snd (results' ! (positions ! j)) = None \<longleftrightarrow> errs ! j = None" if "j < length positions" for j
  proof -
    have "positions ! j \<in> set positions" using that by simp
    then have "positions ! j < length results" "snd (results ! (positions ! j)) = None"
      unfolding s'(2) using map_fst_length [OF s'(1)] by simp_all
    moreover have "(positions ! j, Some e) \<in> set (zip positions errs) \<longleftrightarrow> errs ! j = Some e" for e
      using that len d by (auto simp: in_set_conv_nth nth_eq_iff_index_eq)
    ultimately show ?thesis using r by (cases "errs ! j") auto
  qed
  have "filter (\<lambda>p. snd (results' ! p) = None) [0..<length items] = filter (\<lambda>p. snd (results' ! p) = None) positions"
    unfolding s'(2) filter_filter by (rule filter_cong) (use r map_fst_length [OF s'(1)] in auto)
  also have "\<dots> = map ((!) positions) (filter (\<lambda>j. errs ! j = None) [0..<length positions])"
    unfolding filter_nth [of _ positions] using at by (intro arg_cong [of _ _ "map ((!) positions)"] filter_cong) simp_all
  finally have doneItems: "filter (\<lambda>p. snd (results' ! p) = None) [0..<length items] = map ((!) positions) (map br_index bitems)" by (simp add: idx)
  show ?thesis unfolding relayed_def doneItems
  proof (intro conjI exI [of _ "map br_record bitems"])
    show "map fst results' = map fst items" using m s'(1) by simp
    show "if map br_record bitems = [] then no_publication evs else one_transaction (map br_record bitems) evs" using bi(2) by simp
    show "list_all2 (\<lambda>p r. \<exists>canonical env. CanonicalizeEnvelope (pe_wire E) (snd (items ! p)) = Inr canonical \<and>
          UnmarshalEnvelope (pe_wire E) canonical = Inr env \<and> publishable E ro (Metadata env) canonical r)
        (map ((!) positions) (map br_index bitems)) (map br_record bitems)"
      unfolding list_all2_map1 list_all2_map2 list_all2_same
    proof
      fix item assume i: "item \<in> set bitems"
      have "br_index item < length payloads" using open_items_facts(2) [OF bi(1)] i len by (simp add: s'(3))
      then have "payloads ! br_index item = snd (items ! (positions ! br_index item))" by (simp add: s'(3))
      with i bi(1) show "\<exists>canonical env. CanonicalizeEnvelope (pe_wire E) (snd (items ! (positions ! br_index item))) = Inr canonical \<and>
          UnmarshalEnvelope (pe_wire E) canonical = Inr env \<and> publishable E ro (Metadata env) canonical (br_record item)"
        unfolding open_items_def by metis
    qed
  qed
qed

lemma yields_HandleBatch:
  fixes w :: "(kevent, 'w) kworld_scheme"
  shows "yields (BatchRelayJob_HandleBatch L (PublishEnvelopeBatch E ro True) (clock_now B) items) w (\<lambda>answer evs _.
    case answer of Inl _ \<Rightarrow> False | Inr results \<Rightarrow> relayed E ro items results evs)"
proof -
  obtain results payloads positions where s: "relay_screen L 0 items = (results, payloads, positions)" by (metis surj_pair)
  have s': "map fst results = map fst items" "positions = filter (\<lambda>p. snd (results ! p) = None) [0..<length items]"
    "payloads = map (\<lambda>p. snd (items ! p)) positions"
    using relay_screen_spec [OF s] by simp_all
  have nothing_done: "relayed E ro items results []" if "payloads = []"
    using that s' by (simp add: relayed_def)
  show ?thesis
  proof (cases "payloads = []")
    case False
    have step: "yields (do { rs \<leftarrow> relay_results (clock_now B) (zip positions errs) results; k_return (Inr rs) }) u
        (\<lambda>answer evs' _. case answer of Inl _ \<Rightarrow> False | Inr results' \<Rightarrow> relayed E ro items results' (evs @ evs'))"
      if b: "batch_published E ro payloads receipts errs evs" for receipts errs evs and u :: "(kevent, 'w) kworld_scheme"
    proof -
      have len: "length errs = length positions" using b by (auto simp: batch_published_def open_items_def s'(3))
      have *: "map fst (zip positions errs) = positions" using len by simp
      have "distinct (map fst (zip positions errs))" "\<forall>p \<in> set (map fst (zip positions errs)). p < length results \<and> snd (results ! p) = None"
        unfolding * using map_fst_length [OF s'(1)] by (simp_all add: s'(2))
      then show ?thesis
        by (rule yields_bind [OF yields_relay_results]) (use relayed_batch [OF s b] in \<open>auto intro!: yields_return\<close>)
    qed
    have rest: "yields (case answer of
          Inl e \<Rightarrow> do { rs \<leftarrow> relay_results (clock_now B) (map (\<lambda>i. (i, Some e)) positions) results; k_return (Inr rs) }
        | Inr (receipts, errs) \<Rightarrow>
            if length receipts \<noteq> length payloads \<or> length errs \<noteq> length payloads
            then k_return (Inl (OutboxPermanent (Plain ''messenger/outbox: batch publisher returned another number of results'')))
            else do { rs \<leftarrow> relay_results (clock_now B) (zip positions errs) results; k_return (Inr rs) }) u
        (\<lambda>answer evs' _. case answer of Inl _ \<Rightarrow> False | Inr results' \<Rightarrow> relayed E ro items results' (evs @ evs'))"
      if "case answer of Inl e \<Rightarrow> evs = [] \<and> (if True then payloads = [] else True)
        | Inr (receipts, errs) \<Rightarrow> batch_published E ro payloads receipts errs evs"
      for answer evs and u :: "(kevent, 'w) kworld_scheme"
    proof (cases answer)
      case (Inr ans)
      obtain receipts errs where ans: "ans = (receipts, errs)" by force
      with that Inr have b: "batch_published E ro payloads receipts errs evs" by simp
      then have "length receipts = length payloads" "length errs = length payloads" by (auto simp: batch_published_def open_items_def)
      with step [OF b] Inr ans show ?thesis by simp
    qed (use that False in simp)
    show ?thesis unfolding BatchRelayJob_HandleBatch_def s prod.case if_not_P [OF False]
      by (rule yields_bind [OF yields_PublishEnvelopeBatch rest])
  qed (auto simp: BatchRelayJob_HandleBatch_def s nothing_done intro!: yields_return)
qed

section \<open>From the producer to the broker\<close>

text \<open>The metadata and payloads that survive the wire: valid UTF-8 text and times the JSON library can print.\<close>

definition wire_safe :: "(instant \<Rightarrow> bool) \<Rightarrow> ('w, 'v) delivery \<Rightarrow> bool" where
  "wire_safe in_range d \<longleftrightarrow> (case dl_encode d of
     Inl _ \<Rightarrow> True
   | Inr (payload, encoding) \<Rightarrow> (encoding = DataText \<longrightarrow> ValidString payload) \<and> representable in_range (bare_envelope (dl_metadata d) encoding))"

lemma staged_canonical:
  assumes laws: "wire_laws L compact r" and safe: "wire_safe r d" and enc: "delivery_MarshalEnvelope L (dl_metadata d) (dl_encode d) = Inr envelope"
  shows "CanonicalizeEnvelope L envelope = Inr envelope \<and> (\<exists>env. UnmarshalEnvelope L envelope = Inr env \<and> Metadata env = dl_metadata d)"
proof -
  obtain b x where b: "dl_encode d = Inr (b, x)" and M: "MarshalEnvelope L (dl_metadata d) b x = Inr envelope"
    using enc by (auto simp: delivery_MarshalEnvelope_def split: sum.splits)
  have m: "Metadata (bare_envelope (dl_metadata d) x) = dl_metadata d" by (simp add: Metadata_def bare_envelope_def)
  have rep: "representable r e" if "with_payload L b x (bare_envelope (dl_metadata d) x) = Inr e" for e
    using representable_rebuilt [of r "bare_envelope (dl_metadata d) x" L b x e] safe that b by (simp add: m wire_safe_def)
  have utf8: "x = DataText \<Longrightarrow> ValidString b" using safe b by (simp add: wire_safe_def)
  obtain e where e: "UnmarshalEnvelope L envelope = Inr e" "Metadata e = dl_metadata d" "ev_DataEncoding e = x"
      "ev_payload L e = Inr (carried compact x b)"
    using unmarshal_marshal [OF laws M rep utf8] by metis
  then show ?thesis using marshal_again [OF laws M rep utf8] by (simp add: CanonicalizeEnvelope_def Payload_def)
qed

text \<open>What a successful batch delivery staged: one job per delivery, in order and with distinct deduplication keys, in one call of the outbox.\<close>

definition staged ::
  "wire_lib \<Rightarrow> producerConfig \<Rightarrow> (uniquePut list \<Rightarrow> 'w \<Rightarrow> (err + nat list) \<times> 'w) \<Rightarrow> ('w, 'v) delivery list \<Rightarrow> ('w, 'v) mworld \<Rightarrow>
    uniquePut list \<Rightarrow> receipt list \<Rightarrow> bool" where
  "staged L p putter ds mw puts receipts \<longleftrightarrow>
    (\<exists>jobs w' t. putter puts (mw_state mw) = (Inr jobs, w') \<and> length jobs = length ds \<and> 0 \<notin> set jobs \<and>
      receipts = map (\<lambda>d. staged_receipt p (md_ID (dl_metadata d)) t) ds) \<and>
    list_all2 (\<lambda>d put. CanonicalizeEnvelope L (up_Payload put) = Inr (up_Payload put) \<and>
      (\<exists>env. UnmarshalEnvelope L (up_Payload put) = Inr env \<and> Metadata env = dl_metadata d) \<and>
      put = staged_job p (dl_metadata d) (up_Payload put)) ds puts \<and>
    distinct (map up_DeduplicationKey puts)"

lemma staged_puts:
  assumes laws: "wire_laws L compact r" and safe: "\<forall>d \<in> set ds. wire_safe r d" and puts: "prepare_puts L p [] (map Some ds) = Inr puts"
  shows "list_all2 (\<lambda>d put. CanonicalizeEnvelope L (up_Payload put) = Inr (up_Payload put) \<and>
      (\<exists>env. UnmarshalEnvelope L (up_Payload put) = Inr env \<and> Metadata env = dl_metadata d) \<and>
      put = staged_job p (dl_metadata d) (up_Payload put)) ds (map fst puts)"
    and "distinct (map up_DeduplicationKey (map fst puts))" and "map snd puts = map (\<lambda>d. md_ID (dl_metadata d)) ds"
proof -
  have spec: "list_all2 (\<lambda>d (put, i). \<exists>envelope. i = md_ID (dl_metadata d) \<and>
      delivery_MarshalEnvelope L (dl_metadata d) (dl_encode d) = Inr envelope \<and> put = staged_job p (dl_metadata d) envelope) ds puts"
    and d: "distinct (map snd puts)"
    using prepare_puts_ok [OF puts] by (simp_all add: list_all2_map1 case_prod_unfold)
  show "map snd puts = map (\<lambda>d. md_ID (dl_metadata d)) ds"
    using spec by (induction rule: list_all2_induct) auto
  have keys: "map up_DeduplicationKey (map fst puts) = map mid_String (map snd puts)"
    using spec by (induction rule: list_all2_induct) (auto simp: staged_job_def)
  show "distinct (map up_DeduplicationKey (map fst puts))" using d unfolding keys by (subst distinct_map) (simp add: inj_on_def)
  show "list_all2 (\<lambda>d put. CanonicalizeEnvelope L (up_Payload put) = Inr (up_Payload put) \<and>
      (\<exists>env. UnmarshalEnvelope L (up_Payload put) = Inr env \<and> Metadata env = dl_metadata d) \<and>
      put = staged_job p (dl_metadata d) (up_Payload put)) ds (map fst puts)"
    using spec safe
  proof (induction rule: list_all2_induct)
    case (Cons d ds put puts)
    then obtain envelope where "delivery_MarshalEnvelope L (dl_metadata d) (dl_encode d) = Inr envelope"
      "fst put = staged_job p (dl_metadata d) envelope" by (auto simp: case_prod_unfold)
    moreover from this(1) Cons.prems have "CanonicalizeEnvelope L envelope = Inr envelope \<and>
        (\<exists>env. UnmarshalEnvelope L envelope = Inr env \<and> Metadata env = dl_metadata d)"
      by (intro staged_canonical [OF laws]) simp_all
    ultimately show ?case using Cons by (simp add: staged_job_def)
  qed simp
qed

lemma delivered_staged:
  assumes "wire_laws L compact r" and "\<forall>d \<in> set ds. wire_safe r d"
    and "producer_DeliverBatch L putter wall p (map Some ds) mw = ((receipts, None), mw')"
  obtains puts where "staged L p putter ds mw puts receipts"
proof -
  obtain puts jobs w' t where puts: "prepare_puts L p [] (map Some ds) = Inr puts" and
      "putter (map fst puts) (mw_state mw) = (Inr jobs, w')" "length jobs = length puts" "0 \<notin> set jobs"
      "receipts = map (\<lambda>(_, i). staged_receipt p i t) puts"
    using assms(3) by (auto simp: producer_DeliverBatch_def on_state_def split: if_splits sum.splits prod.splits)
  moreover note sp = staged_puts [OF assms(1,2) puts]
  moreover have "map (\<lambda>(_, i). staged_receipt p i t) puts = map (\<lambda>d. staged_receipt p (md_ID (dl_metadata d)) t) ds"
    using arg_cong [OF sp(3), of "map (\<lambda>i. staged_receipt p i t)"] by (simp add: comp_def case_prod_unfold)
  moreover have "length puts = length ds" using sp(3) by (metis length_map)
  ultimately have "staged L p putter ds mw (map fst puts) receipts" unfolding staged_def by auto
  then show ?thesis by (rule that)
qed

lemma yields_RelayJob_Handle:
  fixes w :: "(kevent, 'w) kworld_scheme"
  shows "yields (RelayJob_Handle (pe_wire E) (\<lambda>_. PublishEnvelope E ro True) (clock_now B) payload) w (\<lambda>answer evs _. case answer of
     None \<Rightarrow> \<exists>canonical env r. CanonicalizeEnvelope (pe_wire E) payload = Inr canonical \<and> UnmarshalEnvelope (pe_wire E) canonical = Inr env \<and>
       publishable E ro (Metadata env) canonical r \<and> one_transaction [r] evs
   | Some _ \<Rightarrow> no_publication evs)"
proof -
  have err: "yields (relay_error OutboxRetryAt (clock_now B) e) u (\<lambda>_ evs _. evs = [])" for e and u :: "(kevent, 'w) kworld_scheme"
    unfolding relay_error_def by (auto split: option.split intro!: yields_return yields_bind [OF yields_clock])
  have publish: "yields (PublishEnvelope E ro True payload) u (\<lambda>answer evs _. case answer of
      Inr rc \<Rightarrow> \<exists>canonical env r. CanonicalizeEnvelope (pe_wire E) payload = Inr canonical \<and> UnmarshalEnvelope (pe_wire E) canonical = Inr env \<and>
        publishable E ro (Metadata env) canonical r \<and> one_transaction [r] evs
    | Inl e \<Rightarrow> no_publication evs)" for u :: "(kevent, 'w) kworld_scheme"
    unfolding PublishEnvelope_def
    by (auto split: sum.split intro!: yields_return yields_mono [OF yields_publishEnvelope]) (auto simp: published_def split: sum.splits)
  show ?thesis unfolding RelayJob_Handle_def
    by (auto split: sum.split intro!: yields_return yields_bind [OF publish] yields_bind [OF err])
qed



definition sample_delivery :: "(unit, unit) delivery" where
  "sample_delivery = \<lparr>dl_metadata = sample_metadata, dl_handlers = 0, dl_encode = Inr (''hi'', DataBinary), dl_invoke = None, dl_onExpire = None\<rparr>"

definition sample_producer :: producerConfig where
  "sample_producer = \<lparr>pc_Name = ''orders'', pc_JobName = ''relay'', pc_JobSchema = 1\<rparr>"


end
