(* ===== verification/Spec2Isabelle.thy ===== *)
theory Spec2Isabelle
  imports BatchReports BatchGrouping Outbox
begin

text \<open>
  A verification development for the gomessenger repository.
\<close>

section \<open>Sample values for the witnesses\<close>

definition sample_hash :: "string \<Rightarrow> fingerprint" where
  "sample_hash s = ''h'' @ s"

definition sample_key :: key where
  "sample_key = \<lparr>k_ConsumerID = ''billing'', k_Source = ''shop'', k_MessageID = 7, k_AttemptGeneration = []\<rparr>"

definition sample_fp :: fingerprint where
  "sample_fp = replicate 32 (CHR ''a'')"

definition sample_conn :: "fault list \<Rightarrow> nat db conn" where
  "sample_conn fs = \<lparr>cn_durable = empty_db 0, cn_work = empty_db 0, cn_save = None, cn_faults = fs,
     cn_clock = int, cn_tick = 1\<rparr>"

definition add_one :: "nat handler" where
  "add_one b = (b + 1, None)"

definition fail_once :: "err \<Rightarrow> nat handler" where
  "fail_once e b = (b + 1, Some e)"

definition no_batch :: "batchItem list \<Rightarrow> nat \<Rightarrow> nat batchHandler \<Rightarrow> (nat, batchProcessResult) op" where
  "no_batch items n h c = ((zero_batch, None), c)"

definition completed_conn :: "nat db conn" where
  "completed_conn = (sample_conn [])\<lparr>cn_durable :=
     (empty_db 0)\<lparr>db_inbox := [(ident sample_key,
       \<lparr>id_fingerprint = sample_fp, id_created_at = 1, id_completed_at = Some 2\<rparr>)]\<rparr>\<rparr>"

definition closed_conn :: "nat db conn" where
  "closed_conn = (sample_conn [])\<lparr>cn_durable := (empty_db 0)\<lparr>
     db_inbox := [(ident sample_key,
       \<lparr>id_fingerprint = sample_fp, id_created_at = 1, id_completed_at = None\<rparr>)],
     db_attempts := [(ident sample_key,
       \<lparr>at_fingerprint = sample_fp, at_attempts = 2, at_terminal = True, at_updated_at = 1\<rparr>)],
     db_terminal := [(gen_key sample_key sample_fp,
       \<lparr>tm_attempts = 2, tm_failure_kind = InboxFailurePermanent, tm_terminal_at = 1,
        tm_handoff_confirmed_at = Some 3\<rparr>)]\<rparr>\<rparr>"

lemma sample_inv [simp]: "db_inv (cn_durable (sample_conn fs))"
  by (simp add: sample_conn_def db_inv_empty)

lemma sample_separated [simp]: "separated H sample_key fp"
  by (simp add: separated_def sample_key_def)

lemma sample_faults [simp]:
  "cn_faults (sample_conn fs) = fs" "cn_faults completed_conn = []" "cn_faults closed_conn = []"
  by (simp_all add: sample_conn_def completed_conn_def closed_conn_def)

lemma completed_conn_inv [simp]: "db_inv (cn_durable completed_conn)"
  by (simp add: completed_conn_def db_inv_def empty_db_def counter_row_def wf_table_def)

lemma closed_conn_inv [simp]: "db_inv (cn_durable closed_conn)"
  by (auto simp: closed_conn_def db_inv_def empty_db_def counter_row_def wf_table_def terminal_kind_def
      logical_def gen_key_def gen_fp_def ident_def split: if_splits)

lemma closed_conn_closed: "closed_in (gen_key sample_key sample_fp) 2 InboxFailurePermanent (ledger closed_conn)"
  by (simp add: closed_in_def closed_conn_def ledger_of_def abs_gen_def counter_row_def empty_db_def
      logical_def gen_key_def gen_fp_def ident_def)

lemma sample_fails: "always_fails (fail_once (Plain ''boom''))"
  by (simp add: always_fails_def fail_once_def ordinary_def deferred_def IsPermanent_def DeferDelay_def
      errors_As_def)

lemma sample_key_valid: "ValidateKey sample_key = None"
proof -
  have "TrimSpace ''billing'' = ''billing''" "TrimSpace ''shop'' = ''shop''"
    by (simp_all add: TrimSpace_graphic inR_def)
  then show ?thesis by (simp add: sample_key_def ValidateKey_def mid_IsZero_def)
qed

lemma sample_pending: "pending sample_key sample_fp (ledger (sample_conn []))"
  by (simp add: pending_def sample_conn_def ledger_of_def abs_identity_def empty_db_def)

lemma sample_fresh: "abs_gen (cn_durable (sample_conn [])) g = Fresh"
  by (simp add: sample_conn_def abs_gen_def counter_row_def empty_db_def)

text \<open>The same delivery twice, and a handler that acknowledges everything.\<close>

definition sample_items :: "batchItem list" where
  "sample_items = replicate 2 \<lparr>bi_Key = sample_key, bi_Fingerprint = sample_fp\<rparr>"

definition ack_batch :: "nat batchHandler" where
  "ack_batch items b = (b + length items, map (\<lambda>i. \<lparr>bir_Key = item_key i, bir_Err = None\<rparr>) items, None)"

lemma sample_groups:
  "prepareBatchGroups sample_items =
    Inr [\<lparr>bg_key = \<lparr>bik_Source = ''shop'', bik_MessageID = 7\<rparr>,
      bg_entries = [\<lparr>pi_index = 0, pi_item = \<lparr>bi_Key = sample_key, bi_Fingerprint = sample_fp\<rparr>\<rparr>,
        \<lparr>pi_index = 1, pi_item = \<lparr>bi_Key = sample_key, bi_Fingerprint = sample_fp\<rparr>\<rparr>],
      bg_matching = [], bg_state = zero_state, bg_first = 0\<rparr>]"
  by (simp add: prepareBatchGroups_def sample_items_def numeral_2_eq_2 new_group_def item_key_def sample_key_def
      group_generation_def add_entry_def)

lemma sample_batch_run:
  "snd (fst (sqlite_ProcessBatchAttempt sample_hash sample_items 3 ack_batch completed_conn)) = None"
proof -
  have "sample_items \<noteq> []" "length sample_items = Suc (Suc 0)" by (simp_all add: sample_items_def)
  then show ?thesis
    by (simp add: sqlite_ProcessBatchAttempt_def sample_groups finish_def sql_simps completed_conn_def sample_conn_def
        lock_order_def sqlite_batch_body_def prepareSQLiteBatchIdentities_def insertSQLiteBatchIdentities_def
        chunks.simps sqliteBatchStatementItems_def with_times_def insert_identity_row_def empty_db_def group_ident_def
        table_simps tb_has_def tb_add_def insert_ignore_def readIdentity_sql_def ident_def match_group_def
        assign_conflicts_def sample_fp_def readSQLiteBatchAttempt_def sql_readAttempt_def group_item_def
        settled_outcome_def Let_def readAttempt_sql_def attempt_row_of_def sample_key_def commitTerminalBatch_def
        deferred_outcome_def terminal_outcome_def record_sql_def assignBatchOutcome_def PreserveDeferred_def
        Record_def zero_outcome_def)
qed

text \<open>Two runs with the same result, the same error and the same ledger.\<close>

definition same_run :: "('r \<times> err option) \<times> 'b db conn \<Rightarrow> ('r \<times> err option) \<times> 'b db conn \<Rightarrow> bool" where
  "same_run r r' \<longleftrightarrow> fst r = fst r' \<and> ledger (snd r) = ledger (snd r')"

section \<open>The inbox\<close>

text \<open>C1. Exactly-once effect. Whatever sequence of attempts, plain processing, resets,
  confirmations and terminal pruning runs against the SQLite or the PostgreSQL inbox, and whatever
  statements or commits fail or are lost on the way, at most one call for a message identity changes
  the business database, as long as completed identities are not pruned.\<close>

theorem inbox_exactly_once:
  assumes "db_inv (cn_durable c)" and "list_all (call_ok H) calls" and "list_all (\<lambda>x. \<not> prunes x) calls"
    and "be = sqlite_backend H batch \<or> be = pg_backend H batch"
  shows "effects be k calls c \<le> 1"
  using assms(4) sqlite.at_most_one_effect [OF assms(1-3)] pgsql.at_most_one_effect [OF assms(1-3)] by blast

theorem inbox_exactly_once_witness:
  "effects (pg_backend sample_hash no_batch) (ident sample_key)
    [CAttempt sample_key sample_fp 3 add_one, CProcess sample_key sample_fp add_one, CAttempt sample_key sample_fp 3 add_one]
    (sample_conn [NoFault, NoFault, NoFault, NoFault, NoFault, NoFault, NoFault, CommitLost]) \<le> 1"
  by (rule inbox_exactly_once [where H = sample_hash and batch = no_batch]) simp_all

text \<open>C2. All or nothing. For every script of failing statements, failing commits and commits whose
  acknowledgement is lost, each of the six inbox operations and the batch operation of either backend
  gives exactly the fault-free outcome, or returns the zero result with an error and leaves the durable
  database untouched or as the fault-free run leaves it. No partial state is ever durable.\<close>

theorem inbox_all_or_nothing:
  "op_atomic zero_result (sqlite_ProcessAttempt H key fp n h) \<and> op_atomic zero_result (pg_ProcessAttempt H key fp n h) \<and>
   op_atomic zero_result (sqlite_Process key fp h) \<and> op_atomic zero_result (pg_Process key fp h) \<and>
   op_atomic () (sqlite_ForgetAttempt H key fp) \<and> op_atomic () (pg_ForgetAttempt H key fp) \<and>
   op_atomic 0 (sqlite_Prune before limit) \<and> op_atomic 0 (pg_Prune before limit) \<and>
   op_atomic () (sqlite_ConfirmTerminalHandoff H key fp) \<and> op_atomic () (pg_ConfirmTerminalHandoff H key fp) \<and>
   op_atomic 0 (sqlite_PruneTerminalAttempts before limit) \<and> op_atomic 0 (pg_PruneTerminalAttempts before limit) \<and>
   op_atomic zero_batch (sqlite_ProcessBatchAttempt H items n handler) \<and>
   op_atomic zero_batch (pg_ProcessBatchAttempt H items n handler)"
  by (simp add: sqlite_defs sql_op_atomic pg_op_atomic sqlite_batch_atomic pg_batch_atomic)

text \<open>C3. The durable attempt protocol. On a fault-free connection the SQLite attempt operation returns
  the result and error of the ledger specification and commits a database that represents the
  specified ledger: conflicts and completed identities change nothing, a successful handler completes
  the identity together with its business writes, a deferred failure consumes nothing, any other
  failure consumes one attempt and closes the generation when permanent or exhausted.\<close>

theorem process_attempt_implements_ledger:
  assumes "cn_faults c = []" and "db_inv (cn_durable c)" and "separated H key fp" and "0 < n"
  shows "fst (sqlite_ProcessAttempt H key fp n h c) =
      fst (ledger_attempt key fp (generation H key fp) n h (ledger c)) \<and>
    implements (snd (sqlite_ProcessAttempt H key fp n h c))
      (snd (ledger_attempt key fp (generation H key fp) n h (ledger c)))"
  unfolding sqlite_ProcessAttempt_def using sql_ProcessAttempt_refines [OF assms] by blast

theorem process_attempt_implements_ledger_witness:
  "fst (sqlite_ProcessAttempt sample_hash sample_key sample_fp 3 add_one (sample_conn [])) =
      fst (ledger_attempt sample_key sample_fp (generation sample_hash sample_key sample_fp) 3 add_one
        (ledger (sample_conn []))) \<and>
    implements (snd (sqlite_ProcessAttempt sample_hash sample_key sample_fp 3 add_one (sample_conn [])))
      (snd (ledger_attempt sample_key sample_fp (generation sample_hash sample_key sample_fp) 3 add_one
        (ledger (sample_conn []))))"
  by (rule process_attempt_implements_ledger) (simp_all add: sample_conn_def db_inv_empty)

text \<open>No invocation without need. When the identity is completed, or its generation is closed or
  has no attempt left, the outcome of an attempt does not depend on the handler at all, under any
  faults: the handler is not invoked.\<close>

theorem settled_attempt_ignores_handler:
  assumes "db_inv (cn_durable c)" and "separated H key fp" and "0 < n"
    and "lg_identity (ledger c) (ident key) = Some (fp, cpl)"
    and "cpl \<or> \<not> (\<exists>a. invocable n a (lg_gen (ledger c) (generation H key fp)))"
  shows "sqlite_ProcessAttempt H key fp n h c = sqlite_ProcessAttempt H key fp n h' c"
  unfolding sqlite_ProcessAttempt_def using assms by (rule sql_handler_independent)

theorem settled_attempt_ignores_handler_witness:
  "sqlite_ProcessAttempt sample_hash sample_key sample_fp 3 add_one completed_conn =
    sqlite_ProcessAttempt sample_hash sample_key sample_fp 3 (fail_once (Plain ''boom'')) completed_conn"
  by (rule settled_attempt_ignores_handler [where cpl = True])
    (simp_all add: completed_conn_def ledger_of_def abs_identity_def empty_db_def db_inv_def
      counter_row_def wf_table_def)



text \<open>C5. The attempt budget. As long as every attempt is made with a limit of at most \<open>m\<close>, no sequence
  of calls and no faults make the durable counter of a generation exceed \<open>m\<close>.\<close>

theorem attempts_never_exceed_limit:
  assumes "db_inv (cn_durable c)" and "list_all (call_ok H) calls" and "list_all (limit_at_most m) calls"
    and "consumed (lg_gen (ledger c) g) \<le> m"
  shows "consumed (lg_gen (ledger (run_calls (sqlite_backend H batch) calls c)) g) \<le> m"
  using assms by (rule sqlite.runs_consumed)

theorem attempts_never_exceed_limit_witness:
  "consumed (lg_gen (ledger (run_calls (sqlite_backend sample_hash no_batch)
      [CAttempt sample_key sample_fp 2 (fail_once (Plain ''x'')),
       CAttempt sample_key sample_fp 2 (fail_once (Plain ''x'')),
       CAttempt sample_key sample_fp 2 (fail_once (Plain ''x''))] (sample_conn [])))
      (gen_key sample_key sample_fp)) \<le> 2"
  by (rule attempts_never_exceed_limit [where H = sample_hash])
    (simp_all add: sample_conn_def ledger_of_def abs_gen_def counter_row_def empty_db_def db_inv_def)

text \<open>C6. Single processing and reset. On a fault-free connection the plain operation returns and commits
  what the ledger specification says: duplicates of a completed identity succeed without the handler, an
  identity that carries attempt counters is refused, a failing handler leaves no trace, and a successful
  one commits its business writes together with the completed identity. Forgetting an attempt leaves an
  absent or completed identity alone, reports another envelope under the identity as a conflict, and
  otherwise makes exactly the named generation fresh, its identity going with its last counter.\<close>

theorem process_and_forget_implement_ledger:
  assumes "cn_faults c = []" and "db_inv (cn_durable c)" and "separated H key fp"
  shows "fst (sqlite_Process key fp h c) = fst (ledger_process key fp h (ledger c)) \<and>
    implements (snd (sqlite_Process key fp h c)) (snd (ledger_process key fp h (ledger c))) \<and>
    fst (sqlite_ForgetAttempt H key fp c) = fst (ledger_forget key fp (generation H key fp) (ledger c)) \<and>
    implements (snd (sqlite_ForgetAttempt H key fp c)) (snd (ledger_forget key fp (generation H key fp) (ledger c)))"
  unfolding sqlite_Process_def sqlite_ForgetAttempt_def
  using sql_Process_refines [OF assms(1,2)] sql_ForgetAttempt_refines [OF assms] by blast

theorem process_and_forget_implement_ledger_witness:
  "fst (sqlite_Process sample_key sample_fp add_one closed_conn) =
      fst (ledger_process sample_key sample_fp add_one (ledger closed_conn)) \<and>
    implements (snd (sqlite_ForgetAttempt sample_hash sample_key sample_fp closed_conn))
      (snd (ledger_forget sample_key sample_fp (generation sample_hash sample_key sample_fp) (ledger closed_conn)))"
  using process_and_forget_implement_ledger [of closed_conn sample_hash sample_key sample_fp add_one] by simp

lemma prune_run:
  assumes "cn_faults c = []" and "db_inv (cn_durable c)"
    and old: "old = {k. \<exists>i t. map_of (db_inbox (cn_durable c)) k = Some i \<and> id_completed_at i = Some t \<and> t < before}"
  shows "\<exists>ks. fst (sqlite_Prune before limit c) = (int (length ks), None) \<and>
    distinct ks \<and> set ks \<subseteq> old \<and> length ks \<le> limit \<and> (length ks = limit \<or> set ks = old) \<and>
    implements (snd (sqlite_Prune before limit c)) (ledger_drop (set ks) (ledger c))"
proof -
  let ?ks = "completed_before before limit (cn_durable c)"
  have wf: "wf_table (db_inbox (cn_durable c))" using assms(2) by (simp add: db_inv_def)
  note F = completed_before_facts [OF wf, where before = before and limit = limit]
  have sub: "set ?ks \<subseteq> old" using F(3) unfolding old by blast
  moreover have "length ?ks = limit \<or> set ?ks = old"
    using sub completed_before_full [OF wf, of before limit] unfolding old by blast
  ultimately show ?thesis
    unfolding sqlite_Prune_def using sql_Prune_refines [OF assms(1,2), where before = before and limit = limit and pkg = sqlite_pkg] F(1,2) by blast
qed

lemma terminal_prune_run:
  assumes "cn_faults c = []" and "db_inv (cn_durable c)"
  shows "\<exists>gs. fst (sqlite_PruneTerminalAttempts before limit c) = (int (length gs), None) \<and>
    distinct gs \<and> set gs \<subseteq> {g. eligible before (cn_durable c) g} \<and> length gs \<le> limit \<and>
    (length gs = limit \<or> set gs = {g. eligible before (cn_durable c) g}) \<and>
    implements (snd (sqlite_PruneTerminalAttempts before limit c)) (fold ledger_reset gs (ledger c))"
proof -
  let ?gs = "confirmed_before before limit (cn_durable c)"
  note F = confirmed_before_facts [OF assms(2), where before = before and limit = limit]
  have sub: "set ?gs \<subseteq> {g. eligible before (cn_durable c) g}" using F(3) by blast
  moreover have "length ?gs = limit \<or> set ?gs = {g. eligible before (cn_durable c) g}"
    using sub confirmed_before_full [OF assms(2), of before limit] by blast
  ultimately show ?thesis
    unfolding sqlite_PruneTerminalAttempts_def
    using sql_PruneTerminal_refines [OF assms, where before = before and limit = limit and pkg = sqlite_pkg] F(1,2) by blast
qed

text \<open>C7. Pruning. On a fault-free connection pruning reports how many identities it removed and removes
  exactly those with all their generations: only identities completed strictly before the cutoff, at most
  the limit, and all of them unless it reaches the limit. Terminal pruning in the same way resets only
  eligible generations: with a hand-off confirmed strictly before the cutoff and of an identity that is
  not completed. Nothing else changes.\<close>

theorem prune_removes_only_old:
  assumes "cn_faults c = []" and "db_inv (cn_durable c)"
    and old: "old = {k. \<exists>i t. map_of (db_inbox (cn_durable c)) k = Some i \<and> id_completed_at i = Some t \<and> t < before}"
  shows "(\<exists>ks. fst (sqlite_Prune before limit c) = (int (length ks), None) \<and>
      distinct ks \<and> set ks \<subseteq> old \<and> length ks \<le> limit \<and> (length ks = limit \<or> set ks = old) \<and>
      implements (snd (sqlite_Prune before limit c)) (ledger_drop (set ks) (ledger c))) \<and>
    (\<exists>gs. fst (sqlite_PruneTerminalAttempts before limit c) = (int (length gs), None) \<and>
      distinct gs \<and> set gs \<subseteq> {g. eligible before (cn_durable c) g} \<and> length gs \<le> limit \<and>
      (length gs = limit \<or> set gs = {g. eligible before (cn_durable c) g}) \<and>
      implements (snd (sqlite_PruneTerminalAttempts before limit c)) (fold ledger_reset gs (ledger c)))"
  using prune_run [OF assms] terminal_prune_run [OF assms(1,2)] by blast

theorem prune_removes_only_old_witness:
  "\<exists>ks. fst (sqlite_Prune 5 10 completed_conn) = (int (length ks), None) \<and>
    set ks \<subseteq> {ident sample_key} \<and> (length ks = 10 \<or> set ks = {ident sample_key}) \<and>
    implements (snd (sqlite_Prune 5 10 completed_conn)) (ledger_drop (set ks) (ledger completed_conn))"
proof -
  have "cn_faults completed_conn = []" "db_inv (cn_durable completed_conn)"
    "{ident sample_key} = {k. \<exists>i t. map_of (db_inbox (cn_durable completed_conn)) k = Some i \<and> id_completed_at i = Some t \<and> t < 5}"
    by (auto simp: completed_conn_def empty_db_def db_inv_def wf_table_def counter_row_def sample_conn_def split: if_splits)
  from prune_removes_only_old [OF this, of 10] show ?thesis by blast
qed

text \<open>C8. Confirming a hand-off never changes the ledger, and succeeds exactly for a closed generation of
  the stored envelope; a missing identity or generation and another envelope are reported apart.\<close>

theorem confirm_only_closed:
  assumes "cn_faults c = []" and "db_inv (cn_durable c)"
  shows "implements (snd (sqlite_ConfirmTerminalHandoff H key fp c)) (ledger c) \<and>
    snd (fst (sqlite_ConfirmTerminalHandoff H key fp c)) =
      (case lg_identity (ledger c) (ident key) of
         None \<Rightarrow> Some (Sentinel ErrTerminalStateMissing)
       | Some (fp', _) \<Rightarrow>
          if fp' \<noteq> fp then Some (Sentinel ErrFingerprintConflict)
          else case lg_gen (ledger c) (generation H key fp) of
            Closed _ _ \<Rightarrow> None
          | _ \<Rightarrow> Some (Sentinel ErrTerminalStateMissing))"
  unfolding sqlite_ConfirmTerminalHandoff_def using sql_Confirm_run [OF assms] by blast

theorem confirm_only_closed_witness:
  "implements (snd (sqlite_ConfirmTerminalHandoff sample_hash sample_key sample_fp (sample_conn [])))
      (ledger (sample_conn [])) \<and>
    snd (fst (sqlite_ConfirmTerminalHandoff sample_hash sample_key sample_fp (sample_conn []))) =
      Some (Sentinel ErrTerminalStateMissing)"
proof -
  have "lg_identity (ledger (sample_conn [])) (ident sample_key) = None"
    by (simp add: sample_conn_def ledger_of_def abs_identity_def empty_db_def)
  then show ?thesis
    using confirm_only_closed [of "sample_conn []" sample_hash sample_key sample_fp] by simp
qed



section \<open>Batch results\<close>

lemma map_of_item_table:
  "m \<in> set ms \<Longrightarrow>
    map_of (item_table (map (\<lambda>m. \<lparr>bir_Key = batch_key m, bir_Err = f (batch_key m)\<rparr>) ms)) (batch_key m) =
    Some (f (batch_key m))"
  by (induction ms) (auto simp: item_table_def)

definition sample_meta :: "messageID \<Rightarrow> metadata" where
  "sample_meta i = \<lparr>md_ID = i, md_Kind = KindEvent, md_Name = ''order.paid'', md_SchemaVersion = 1,
     md_Source = ''shop'', md_Subject = [], md_Time = 1, md_CorrelationID = i, md_CausationID = 0,
     md_Key = [], md_ContentType = ''application/json'', md_Schema = [], md_Headers = [],
     md_NotBefore = 0, md_ExpiresAt = 0\<rparr>"

definition sample_batch :: "nat message list" where
  "sample_batch = [\<lparr>msg_Metadata = sample_meta 1, msg_Payload = 10\<rparr>, \<lparr>msg_Metadata = sample_meta 2, msg_Payload = 20\<rparr>]"

lemmas sample_batch_simps = sample_batch_def sample_meta_def batch_key_def complete_key_def mid_IsZero_def

text \<open>C10. A batch result is accepted exactly when the expected keys are complete and distinct and the
  result reports every expected key once and no other key; the errors are then returned in the order
  of the deliveries, whatever the order of the report.\<close>

theorem validate_result_exact:
  "ValidateResult expected items = Inr es \<longleftrightarrow>
    list_all complete_key expected \<and> distinct expected \<and> distinct (map bir_Key items) \<and>
    set (map bir_Key items) = set expected \<and>
    es = map (\<lambda>k. the (map_of (item_table items) k)) expected"
  by (rule ValidateResult_iff)

lemma builder_validates:
  assumes "distinct (map batch_key ms)" and "list_all complete_key (map batch_key ms)"
    and "list_all (\<lambda>x. fst x \<in> set (map batch_key ms)) ops"
  shows "\<exists>r. Build (report_all ops (NewBatchResultBuilder ms)) = Inr r \<and>
    ValidateResult (map batch_key ms) r = Inr (map (\<lambda>m. reported ops None (batch_key m)) ms)"
proof -
  let ?r = "map (\<lambda>m. \<lparr>bir_Key = batch_key m, bir_Err = reported ops None (batch_key m)\<rparr>) ms"
  have "Build (report_all ops (NewBatchResultBuilder ms)) = Inr ?r"
    using assms(3) by (intro Build_report_all) (auto simp: list_all_iff)
  moreover have "ValidateResult (map batch_key ms) ?r = Inr (map (\<lambda>m. reported ops None (batch_key m)) ms)"
    using assms(1,2) by (subst ValidateResult_iff) (simp add: comp_def map_of_item_table cong: map_cong)
  ultimately show ?thesis by blast
qed

text \<open>C11. Reports through the builder. When every report names a delivered message, the built result passes
  the runtime's validation, and the validated errors are the last reports per message, success when
  unreported. A report of any other key is never silently dropped: building fails with the
  invalid-batch-result error, whatever else is reported before or after it.\<close>

theorem builder_reports_exact:
  assumes "distinct (map batch_key ms)" and "list_all complete_key (map batch_key ms)"
  shows "if list_all (\<lambda>x. fst x \<in> set (map batch_key ms)) ops
    then \<exists>r. Build (report_all ops (NewBatchResultBuilder ms)) = Inr r \<and>
      ValidateResult (map batch_key ms) r = Inr (map (\<lambda>m. reported ops None (batch_key m)) ms)
    else \<exists>x. Build (report_all ops (NewBatchResultBuilder ms)) = Inl x \<and> errors_Is x ErrInvalidBatchResult"
proof (cases "list_all (\<lambda>x. fst x \<in> set (map batch_key ms)) ops")
  case False
  then obtain k e where "(k, e) \<in> set ops" "k \<notin> set (map batch_key ms)" by (auto simp: list_all_iff)
  from Build_unknown [OF this] show ?thesis using False by auto
qed (use builder_validates [OF assms] in auto)

theorem builder_reports_exact_witness:
  "\<exists>r. Build (report_all [(batch_key (sample_batch ! 1), Some (Plain ''boom''))]
      (NewBatchResultBuilder sample_batch)) = Inr r \<and>
    ValidateResult (map batch_key sample_batch) r = Inr [None, Some (Plain ''boom'')]"
  using builder_reports_exact [of sample_batch "[(batch_key (sample_batch ! 1), Some (Plain ''boom''))]"]
  by (simp add: sample_batch_simps)

text \<open>A normalized batch configuration has positive limits and no nil middleware, the number of
  deliveries and bytes held at once by all workers fits a machine integer, and normalizing it again
  changes nothing.\<close>

theorem normalize_bounds:
  assumes "Normalize cfg n = Inr cfg'"
  shows "0 < n \<and> 0 < bc_MaxMessages cfg' \<and> 0 < bc_MaxBytes cfg' \<and> 0 < bc_MaxWait cfg' \<and>
    bc_MaxMessages cfg' * n \<le> max_int64 \<and> max (bc_MaxBytes cfg') DefaultMaxEnvelopeBytes * n \<le> max_int64 \<and>
    None \<notin> set (bc_Middlewares cfg') \<and> Normalize cfg' n = Inr cfg'"
  using Normalize_bounds [OF assms] Normalize_idem [OF assms] by blast

definition zero_config :: "unit batchConfig" where
  "zero_config = \<lparr>bc_MaxMessages = 0, bc_MaxBytes = 0, bc_MaxWait = 0, bc_Middlewares = []\<rparr>"

theorem normalize_bounds_witness:
  "Normalize zero_config 4 = Inr (batch_defaults zero_config) \<and>
    bc_MaxMessages (batch_defaults zero_config) * 4 \<le> max_int64"
proof -
  have eq: "Normalize zero_config 4 = Inr (batch_defaults zero_config)"
    by (simp add: Normalize_def zero_config_def batch_defaults_def DefaultBatchMaxMessages_def
        DefaultBatchMaxBytes_def DefaultBatchMaxWait_def DefaultMaxEnvelopeBytes_def go_div_def max_int64_def)
  with normalize_bounds [OF eq] show ?thesis by blast
qed

section \<open>Failures and identifiers\<close>

lemma bounded_text:
  "ValidString (BoundedFailureText sanitizer e limit) \<and>
    int (length (BoundedFailureText sanitizer e limit)) \<le> max 0 limit \<and>
    (\<exists>rest. SanitizeFailure sanitizer e = BoundedFailureText sanitizer e limit @ rest)"
proof -
  let ?t = "SanitizeFailure sanitizer e"
  consider "limit \<le> 0" | "0 < limit" "int (length ?t) \<le> limit" | "0 < limit" "limit < int (length ?t)" by linarith
  then show ?thesis
  proof cases
    case 3
    then have "ValidString (take (rune_boundary ?t (nat limit)) ?t)"
      by (intro ValidString_cut ValidString_SanitizeFailure) linarith
    moreover have "\<exists>rest. ?t = take (rune_boundary ?t (nat limit)) ?t @ rest"
      by (rule exI, rule append_take_drop_id [symmetric])
    moreover have "BoundedFailureText sanitizer e limit = take (rune_boundary ?t (nat limit)) ?t"
      using 3 by (simp add: BoundedFailureText_def Let_def)
    ultimately show ?thesis using 3 rune_boundary_le [of ?t "nat limit"] by auto
  qed (auto simp: BoundedFailureText_def Let_def ValidString_SanitizeFailure ValidString_ascii)
qed

text \<open>C12. Sanitizing an error hides its text but not its meaning. The sanitized error is an error, and every
  sentinel, the permanent marker, the retry delay, the defer delay and the name of a panicked handler are found in
  it exactly as in the original, so it is classified the same way, whatever the sanitizer does, panics
  included. The bounded failure text is
  valid UTF-8, never longer than the limit and a prefix of the sanitized text: truncation never splits
  an encoded character, whatever bytes the sanitizer gives.\<close>

theorem sanitizing_is_safe:
  "(\<exists>x. SanitizeError sanitizer (Some e) = Some x \<and> errors_Is x s = errors_Is e s \<and> IsPermanent x = IsPermanent e \<and>
      RetryDelay x = RetryDelay e \<and> DeferDelay x = DeferDelay e \<and> errors_As as_panic x = errors_As as_panic e \<and>
      Classify (Some x) = Classify (Some e)) \<and> SanitizeError sanitizer None = None \<and>
    ValidString (BoundedFailureText sanitizer f limit) \<and>
    int (length (BoundedFailureText sanitizer f limit)) \<le> max 0 limit \<and>
    (\<exists>rest. SanitizeFailure sanitizer f = BoundedFailureText sanitizer f limit @ rest)"
  using bounded_text [of sanitizer f limit]
  by (simp add: SanitizeError_def Classify_def errors_As_def split: option.split)

text \<open>Message identifiers round-trip: parsing the canonical text of an identifier gives it back,
  and the canonical text is the only one that parses to it.\<close>

theorem message_id_roundtrip: "ParseMessageID v = Inr i \<longleftrightarrow> v = mid_String i"
  using ParseMessageID_String ParseMessageID_canonical by blast

section \<open>The PostgreSQL backend\<close>



section \<open>Progress\<close>

text \<open>C14. A failing message is closed. On either backend, without faults, a message whose handler always
  fails with an ordinary error is closed as exhausted after exactly its budget of attempts, and none
  of its failed invocations leaves a trace in the business database.\<close>

theorem failing_message_is_closed:
  assumes "always_fails h" and "ValidateKey key = None" and "separated H key fp" and "0 < n"
    and "cn_faults c = []" and "db_inv (cn_durable c)" and "pending key fp (ledger c)"
    and "lg_gen (ledger c) (generation H key fp) = Fresh"
    and "be = sqlite_backend H batch \<or> be = pg_backend H batch"
  shows "closed_in (generation H key fp) n FailureAttemptsExhausted
      (ledger (run_calls be (replicate n (CAttempt key fp n h)) c)) \<and>
    lg_business (ledger (run_calls be (replicate n (CAttempt key fp n h)) c)) = lg_business (ledger c)"
  using assms(9) sqlite.failing_closes [OF assms(1-8)] pgsql.failing_closes [OF assms(1-8)] by blast

theorem failing_message_is_closed_witness:
  "closed_in (generation sample_hash sample_key sample_fp) 3 FailureAttemptsExhausted
      (ledger (run_calls (pg_backend sample_hash no_batch)
        (replicate 3 (CAttempt sample_key sample_fp 3 (fail_once (Plain ''boom'')))) (sample_conn [])))"
  using failing_message_is_closed [of "fail_once (Plain ''boom'')" sample_key sample_hash sample_fp 3 "sample_conn []"
      "pg_backend sample_hash no_batch" no_batch]
  by (simp add: sample_fails sample_key_valid sample_pending sample_fresh)

text \<open>C15. Retries complete. On either backend, without faults, a message whose handler fails fewer times
  than its budget and then succeeds is completed, and the business database holds the writes of the
  successful invocation alone.\<close>

theorem retried_message_completes:
  assumes "always_fails bad" and "good = (\<lambda>b. (f b, None))" and "m < n"
    and "ValidateKey key = None" and "separated H key fp"
    and "cn_faults c = []" and "db_inv (cn_durable c)" and "pending key fp (ledger c)"
    and "lg_gen (ledger c) (generation H key fp) = Fresh"
    and "be = sqlite_backend H batch \<or> be = pg_backend H batch"
  shows "completed (ident key) fp
      (run_calls be (replicate m (CAttempt key fp n bad) @ [CAttempt key fp n good]) c) \<and>
    lg_business (ledger (run_calls be (replicate m (CAttempt key fp n bad) @ [CAttempt key fp n good]) c)) =
      f (lg_business (ledger c))"
  using assms(10) sqlite.retries_complete [OF assms(1-9)] pgsql.retries_complete [OF assms(1-9)] by blast

theorem retried_message_completes_witness:
  "completed (ident sample_key) sample_fp
      (run_calls (sqlite_backend sample_hash no_batch)
        (replicate 2 (CAttempt sample_key sample_fp 3 (fail_once (Plain ''boom''))) @
          [CAttempt sample_key sample_fp 3 add_one]) (sample_conn []))"
  using retried_message_completes [of "fail_once (Plain ''boom'')" add_one "\<lambda>b. b + 1" 2 3 sample_key sample_hash
      sample_fp "sample_conn []" "sqlite_backend sample_hash no_batch" no_batch]
  by (simp add: sample_fails sample_key_valid sample_pending sample_fresh add_one_def fun_eq_iff)

section \<open>Batches\<close>

text \<open>C16. Reports are complete. Under any faults, a batch operation of either backend that returns no
  error reports every delivery of the batch in order, under its own key and fingerprint and with an
  outcome, duplicates and conflicting envelopes included.\<close>

theorem batch_report_complete:
  assumes "fst (op H items n handler c) = (report, None)"
    and "op = sqlite_ProcessBatchAttempt \<or> op = pg_ProcessBatchAttempt"
  shows "complete_report items report"
  using assms by (auto dest: sqlite_batch_report pg_batch_report)

theorem batch_report_complete_witness:
  "complete_report sample_items (fst (fst (sqlite_ProcessBatchAttempt sample_hash sample_items 3 ack_batch completed_conn)))"
  by (rule batch_report_complete [where op = sqlite_ProcessBatchAttempt and H = sample_hash and n = 3 and
        handler = ack_batch and c = completed_conn]) (simp_all add: sample_batch_run prod_eq_iff)

text \<open>C17. What the handler sees. The outcome of a batch depends on the handler only through its answers
  to subsequences of the batch with distinct message identities: deliveries keep their order and no
  identity is handed out twice, on either backend and under any faults.\<close>

theorem batch_handler_input:
  assumes "agree_on_batches items h h'"
  shows "sqlite_ProcessBatchAttempt H items n h = sqlite_ProcessBatchAttempt H items n h' \<and>
    pg_ProcessBatchAttempt H items n h = pg_ProcessBatchAttempt H items n h'"
  using sqlite_batch_handler [OF assms] pg_batch_handler [OF assms] by blast

theorem batch_handler_input_witness:
  "pg_ProcessBatchAttempt sample_hash sample_items 3 ack_batch =
    pg_ProcessBatchAttempt sample_hash sample_items 3 (\<lambda>hs. if length hs = 2 then (\<lambda>b. (b, [], None)) else ack_batch hs)"
proof -
  have "agree_on_batches sample_items ack_batch
      (\<lambda>hs. if length hs = 2 then (\<lambda>b. (b, [], None)) else ack_batch hs)"
    unfolding agree_on_batches_def
  proof (intro allI impI)
    fix hs
    assume s: "subseq hs sample_items" and d: "distinct (map item_key hs)"
    have "hs = sample_items" if "length hs = 2"
      using subseq_same_length [OF s] that by (simp add: sample_items_def)
    with d have "length hs \<noteq> 2" by (auto simp: sample_items_def numeral_2_eq_2)
    then show "ack_batch hs = (if length hs = 2 then (\<lambda>b. (b, [], None)) else ack_batch hs)" by simp
  qed
  then show ?thesis using batch_handler_input by blast
qed

text \<open>Grouping equals its specification: the groups of a batch are its distinct identities in the
  order of their first delivery, each with its deliveries in order, and a batch that delivers one
  identity under two attempt generations is refused as an invalid batch.\<close>

theorem batch_grouping_exact:
  "prepareBatchGroups items =
    (if one_generation items then Inr (reference_groups items)
     else Inl (Wrap ''mixed attempt generations'' [Sentinel ErrInvalidBatchResult]))"
  by (rule prepareBatchGroups_reference)

end
